(* ===== verification/Prelude.thy ===== *)
theory Prelude
  imports Main "HOL-Library.Sublist"
begin

text \<open>
  Shared vocabulary of the development.

  Go's byte slices and strings are sequences of bytes; both are modelled as Isabelle
  \<open>string\<close>s, whose \<open>char\<close>s are exactly the 256 byte values, so that
  literals such as \<open>''2.0''\<close> can be written as in the source. A slice whose
  \<open>nil\<close> value is observable (\<open>structs.ID\<close>, \<open>json.RawMessage\<close>) is a
  \<^emph>\<open>slice\<close>, an optional byte sequence with \<open>None\<close> for \<open>nil\<close>;
  \<open>len\<close> does not distinguish \<open>nil\<close> from empty and neither does
  \<open>slice_bytes\<close>.
\<close>

section \<open>Bytes and slices\<close>

type_synonym bytes = string
type_synonym slice = "bytes option"

definition slice_bytes :: "slice \<Rightarrow> bytes" where
  "slice_bytes s = (case s of None \<Rightarrow> [] | Some b \<Rightarrow> b)"

definition slice_len :: "slice \<Rightarrow> nat" where
  "slice_len s = length (slice_bytes s)"

lemma slice_bytes_simps [simp]: "slice_bytes None = []" "slice_bytes (Some b) = b"
  by (simp_all add: slice_bytes_def)

lemma slice_len_simps [simp]: "slice_len None = 0" "slice_len (Some b) = length b"
  by (simp_all add: slice_len_def)

lemma slice_len_0_iff: "slice_len s = 0 \<longleftrightarrow> s = None \<or> s = Some []"
  by (cases s) auto

lemma slice_len_pos_iff: "0 < slice_len s \<longleftrightarrow> (\<exists>b bs. s = Some (b # bs))"
  by (cases s) (auto simp: neq_Nil_conv)

text \<open>The bytes the scanners look for, under the names of their JSON roles.\<close>

abbreviation (input) QUOTE :: char where "QUOTE \<equiv> CHR 0x22"
abbreviation (input) BSLASH :: char where "BSLASH \<equiv> CHR 0x5C"
abbreviation (input) SPACE :: char where "SPACE \<equiv> CHR 0x20"
abbreviation (input) TAB :: char where "TAB \<equiv> CHR 0x09"
abbreviation (input) LF :: char where "LF \<equiv> CHR 0x0A"
abbreviation (input) CR :: char where "CR \<equiv> CHR 0x0D"
abbreviation (input) LBRACE :: char where "LBRACE \<equiv> CHR 0x7B"
abbreviation (input) RBRACE :: char where "RBRACE \<equiv> CHR 0x7D"
abbreviation (input) LBRACK :: char where "LBRACK \<equiv> CHR 0x5B"
abbreviation (input) RBRACK :: char where "RBRACK \<equiv> CHR 0x5D"
abbreviation (input) COMMA :: char where "COMMA \<equiv> CHR 0x2C"
abbreviation (input) COLON :: char where "COLON \<equiv> CHR 0x3A"

text \<open>
  The byte value as a number, for the range comparisons of the source.
\<close>

definition byte_val :: "char \<Rightarrow> nat" where
  "byte_val c = of_char c"

section \<open>Collections of facts\<close>

named_theorems scan_shape \<open>how one byte moves the JSON scanner\<close>
named_theorems cfg_defs \<open>definitions of the configuration setters\<close>
named_theorems frame_defs \<open>definitions of the stream framings\<close>

section \<open>Generic lemmas\<close>

lemma drop_eq_ConsD:
  assumes "drop i xs = c # cs"
  shows "i < length xs" "xs ! i = c" "drop (Suc i) xs = cs"
    "take (Suc i) xs = take i xs @ [c]"
proof -
  show lt: "i < length xs"
    using assms by (metis drop_eq_Nil linorder_not_less list.discI)
  show nth: "xs ! i = c"
    using assms lt by (metis Cons_nth_drop_Suc list.inject)
  show "drop (Suc i) xs = cs"
    using assms lt by (metis Cons_nth_drop_Suc list.inject)
  show "take (Suc i) xs = take i xs @ [c]"
    using lt nth by (simp add: take_Suc_conv_app_nth)
qed

lemma butlast_tl_last:
  assumes "2 \<le> length xs"
  shows "xs = hd xs # butlast (tl xs) @ [last xs]"
proof -
  from assms obtain x ys where xs: "xs = x # ys"
    by (cases xs) auto
  with assms have "ys \<noteq> []" by auto
  with xs show ?thesis by simp
qed

lemma filter_map_option_zip:
  "length xs = length ys \<Longrightarrow> List.map_filter f (map fst (zip xs ys)) = List.map_filter f xs"
  by simp

lemma map_filter_id_conv: "List.map_filter id xs = map the (filter (\<lambda>x. x \<noteq> None) xs)"
  by (induction xs) (auto simp: List.map_filter_simps)

section \<open>Loops over the bytes of a slice\<close>

text \<open>
  A Go loop \<open>for i := 0; i < len(data); i++ { b := data[i]; ... }\<close> whose body may
  \<open>return\<close>: the body maps the index, the byte and the loop's variables to
  \<open>Inl\<close> the returned value or \<open>Inr\<close> the variables of the next iteration.
\<close>

fun byte_loop :: "(nat \<Rightarrow> char \<Rightarrow> 's \<Rightarrow> 'r + 's) \<Rightarrow> nat \<Rightarrow> bytes \<Rightarrow> 's \<Rightarrow> 'r + 's" where
  "byte_loop body i [] st = Inr st"
| "byte_loop body i (b # bs) st =
     (case body i b st of Inl r \<Rightarrow> Inl r | Inr st' \<Rightarrow> byte_loop body (Suc i) bs st')"

lemma byte_loop_append:
  "byte_loop body i (xs @ ys) st =
     (case byte_loop body i xs st of
        Inl r \<Rightarrow> Inl r
      | Inr st' \<Rightarrow> byte_loop body (i + length xs) ys st')"
  by (induction xs arbitrary: i st) (auto split: sum.splits)

lemma byte_loop_snoc:
  "byte_loop body i (xs @ [c]) st =
     (case byte_loop body i xs st of
        Inl r \<Rightarrow> Inl r
      | Inr st' \<Rightarrow> body (i + length xs) c st')"
  by (simp add: byte_loop_append split: sum.splits)

lemma byte_loop_invariant:
  assumes step: "\<And>p c st st'. I p st \<Longrightarrow> prefix (p @ [c]) full \<Longrightarrow> body (length p) c st = Inr st' \<Longrightarrow>
      I (p @ [c]) st'"
    and "I p st" "prefix (p @ xs) full" "byte_loop body (length p) xs st = Inr st'"
  shows "I (p @ xs) st'"
  using assms(2-4)
proof (induction xs arbitrary: p st)
  case Nil
  then show ?case by simp
next
  case (Cons c cs)
  then obtain st1 where st1: "body (length p) c st = Inr st1"
    and rest: "byte_loop body (length (p @ [c])) cs st1 = Inr st'"
    by (auto split: sum.splits)
  have "prefix (p @ [c]) full" using Cons.prems(2) by (auto simp: prefix_def)
  from step[OF Cons.prems(1) this st1] have "I (p @ [c]) st1" .
  from Cons.IH[OF this _ rest] Cons.prems(2) show ?case by simp
qed

end
