(* ===== verification/JsonScan.thy ===== *)
theory JsonScan
  imports Prelude
begin

text \<open>
  The scanner of Go's standard library package \<open>encoding/json\<close>, which
  \<open>internal/codec.Valid\<close> (\<open>json.Valid\<close>) and \<open>json.Compact\<close> run over the
  input one byte at a time. The states, the parse-state stack, the nesting bound
  and the opcodes are those of the library's \<open>scanner.go\<close>: a state function
  there is a constructor of \<open>jstate\<close> here.

  The last part describes how one byte moves a scanner that does not fail; every
  proof about a byte scanner of the repository rests on these shape lemmas.
\<close>

section \<open>The scanner\<close>

datatype jstate =
    BeginValueOrEmpty | BeginValue | BeginStringOrEmpty | BeginString | EndValue | EndTop
  | InString | InStringEsc | InStringEscU | InStringEscU1 | InStringEscU12 | InStringEscU123
  | StNeg | St1 | St0 | StDot | StDot0 | StE | StESign | StE0
  | StT | StTr | StTru | StF | StFa | StFal | StFals | StN | StNu | StNul
  | StError

datatype pstate = ParseObjectKey | ParseObjectValue | ParseArrayValue

datatype opcode =
    ScanContinue | ScanBeginLiteral | ScanBeginObject | ScanObjectKey | ScanObjectValue
  | ScanEndObject | ScanBeginArray | ScanArrayValue | ScanEndArray
  | ScanSkipSpace | ScanEnd | ScanError

text \<open>\<open>scanner\<close>: the stack's top is the head of \<open>sc_stack\<close> (the last element of
  Go's \<open>parseState\<close>); \<open>scanner.err\<close> is set exactly when the step is \<open>StError\<close>.\<close>

record scanner =
  sc_step :: jstate
  sc_stack :: "pstate list"
  sc_endTop :: bool

definition scanner_init :: scanner where
  "scanner_init = \<lparr>sc_step = BeginValue, sc_stack = [], sc_endTop = False\<rparr>"

definition maxNestingDepth :: nat where
  "maxNestingDepth = 10000"

definition isSpace :: "char \<Rightarrow> bool" where
  "isSpace c \<longleftrightarrow> c = SPACE \<or> c = TAB \<or> c = CR \<or> c = LF"

definition isDigit :: "char \<Rightarrow> bool" where
  "isDigit c \<longleftrightarrow> c \<in> set ''0123456789''"

definition isDigit19 :: "char \<Rightarrow> bool" where
  "isDigit19 c \<longleftrightarrow> c \<in> set ''123456789''"

definition isHex :: "char \<Rightarrow> bool" where
  "isHex c \<longleftrightarrow> c \<in> set ''0123456789abcdefABCDEF''"

definition scan_error :: "scanner \<Rightarrow> scanner \<times> opcode" where
  "scan_error s = (s\<lparr>sc_step := StError\<rparr>, ScanError)"

definition pushParseState :: "scanner \<Rightarrow> pstate \<Rightarrow> opcode \<Rightarrow> scanner \<times> opcode" where
  "pushParseState s p ok =
     (let s' = s\<lparr>sc_stack := p # sc_stack s\<rparr>
      in if length (sc_stack s') \<le> maxNestingDepth then (s', ok) else scan_error s')"

definition popParseState :: "scanner \<Rightarrow> scanner" where
  "popParseState s =
     (let rest = tl (sc_stack s)
      in if rest = [] then s\<lparr>sc_stack := rest, sc_step := EndTop, sc_endTop := True\<rparr>
         else s\<lparr>sc_stack := rest, sc_step := EndValue\<rparr>)"

definition stateEndTop :: "scanner \<Rightarrow> char \<Rightarrow> scanner \<times> opcode" where
  "stateEndTop s c = (if isSpace c then s else fst (scan_error s), ScanEnd)"

definition stateEndValue :: "scanner \<Rightarrow> char \<Rightarrow> scanner \<times> opcode" where
  "stateEndValue s c =
     (case sc_stack s of
        [] \<Rightarrow> stateEndTop (s\<lparr>sc_step := EndTop, sc_endTop := True\<rparr>) c
      | ps # rest \<Rightarrow>
          if isSpace c then (s\<lparr>sc_step := EndValue\<rparr>, ScanSkipSpace)
          else (case ps of
              ParseObjectKey \<Rightarrow>
                if c = COLON
                then (s\<lparr>sc_stack := ParseObjectValue # rest, sc_step := BeginValue\<rparr>, ScanObjectKey)
                else scan_error s
            | ParseObjectValue \<Rightarrow>
                if c = COMMA
                then (s\<lparr>sc_stack := ParseObjectKey # rest, sc_step := BeginString\<rparr>, ScanObjectValue)
                else if c = RBRACE then (popParseState s, ScanEndObject)
                else scan_error s
            | ParseArrayValue \<Rightarrow>
                if c = COMMA then (s\<lparr>sc_step := BeginValue\<rparr>, ScanArrayValue)
                else if c = RBRACK then (popParseState s, ScanEndArray)
                else scan_error s))"

definition stateBeginValue :: "scanner \<Rightarrow> char \<Rightarrow> scanner \<times> opcode" where
  "stateBeginValue s c =
     (if isSpace c then (s, ScanSkipSpace)
      else if c = LBRACE
        then pushParseState (s\<lparr>sc_step := BeginStringOrEmpty\<rparr>) ParseObjectKey ScanBeginObject
      else if c = LBRACK
        then pushParseState (s\<lparr>sc_step := BeginValueOrEmpty\<rparr>) ParseArrayValue ScanBeginArray
      else if c = QUOTE then (s\<lparr>sc_step := InString\<rparr>, ScanBeginLiteral)
      else if c = CHR ''-'' then (s\<lparr>sc_step := StNeg\<rparr>, ScanBeginLiteral)
      else if c = CHR ''0'' then (s\<lparr>sc_step := St0\<rparr>, ScanBeginLiteral)
      else if c = CHR ''t'' then (s\<lparr>sc_step := StT\<rparr>, ScanBeginLiteral)
      else if c = CHR ''f'' then (s\<lparr>sc_step := StF\<rparr>, ScanBeginLiteral)
      else if c = CHR ''n'' then (s\<lparr>sc_step := StN\<rparr>, ScanBeginLiteral)
      else if isDigit19 c then (s\<lparr>sc_step := St1\<rparr>, ScanBeginLiteral)
      else scan_error s)"

definition stateBeginValueOrEmpty :: "scanner \<Rightarrow> char \<Rightarrow> scanner \<times> opcode" where
  "stateBeginValueOrEmpty s c =
     (if isSpace c then (s, ScanSkipSpace)
      else if c = RBRACK then stateEndValue s c
      else stateBeginValue s c)"

definition stateBeginString :: "scanner \<Rightarrow> char \<Rightarrow> scanner \<times> opcode" where
  "stateBeginString s c =
     (if isSpace c then (s, ScanSkipSpace)
      else if c = QUOTE then (s\<lparr>sc_step := InString\<rparr>, ScanBeginLiteral)
      else scan_error s)"

definition stateBeginStringOrEmpty :: "scanner \<Rightarrow> char \<Rightarrow> scanner \<times> opcode" where
  "stateBeginStringOrEmpty s c =
     (if isSpace c then (s, ScanSkipSpace)
      else if c = RBRACE
        then stateEndValue (s\<lparr>sc_stack := ParseObjectValue # tl (sc_stack s)\<rparr>) c
      else stateBeginString s c)"

definition stateInString :: "scanner \<Rightarrow> char \<Rightarrow> scanner \<times> opcode" where
  "stateInString s c =
     (if c = QUOTE then (s\<lparr>sc_step := EndValue\<rparr>, ScanContinue)
      else if c = BSLASH then (s\<lparr>sc_step := InStringEsc\<rparr>, ScanContinue)
      else if byte_val c < 0x20 then scan_error s
      else (s, ScanContinue))"

definition stateInStringEsc :: "scanner \<Rightarrow> char \<Rightarrow> scanner \<times> opcode" where
  "stateInStringEsc s c =
     (if c \<in> {CHR ''b'', CHR ''f'', CHR ''n'', CHR ''r'', CHR ''t'', BSLASH, CHR ''/'', QUOTE}
        then (s\<lparr>sc_step := InString\<rparr>, ScanContinue)
      else if c = CHR ''u'' then (s\<lparr>sc_step := InStringEscU\<rparr>, ScanContinue)
      else scan_error s)"

text \<open>The states that read one fixed kind of byte and move on.\<close>

definition expect :: "bool \<Rightarrow> jstate \<Rightarrow> scanner \<Rightarrow> scanner \<times> opcode" where
  "expect ok st s = (if ok then (s\<lparr>sc_step := st\<rparr>, ScanContinue) else scan_error s)"

definition state0 :: "scanner \<Rightarrow> char \<Rightarrow> scanner \<times> opcode" where
  "state0 s c =
     (if c = CHR ''.'' then (s\<lparr>sc_step := StDot\<rparr>, ScanContinue)
      else if c = CHR ''e'' \<or> c = CHR ''E'' then (s\<lparr>sc_step := StE\<rparr>, ScanContinue)
      else stateEndValue s c)"

definition stateDot0 :: "scanner \<Rightarrow> char \<Rightarrow> scanner \<times> opcode" where
  "stateDot0 s c =
     (if isDigit c then (s, ScanContinue)
      else if c = CHR ''e'' \<or> c = CHR ''E'' then (s\<lparr>sc_step := StE\<rparr>, ScanContinue)
      else stateEndValue s c)"

definition scan_step :: "scanner \<Rightarrow> char \<Rightarrow> scanner \<times> opcode" where
  "scan_step s c = (case sc_step s of
      BeginValueOrEmpty \<Rightarrow> stateBeginValueOrEmpty s c
    | BeginValue \<Rightarrow> stateBeginValue s c
    | BeginStringOrEmpty \<Rightarrow> stateBeginStringOrEmpty s c
    | BeginString \<Rightarrow> stateBeginString s c
    | EndValue \<Rightarrow> stateEndValue s c
    | EndTop \<Rightarrow> stateEndTop s c
    | InString \<Rightarrow> stateInString s c
    | InStringEsc \<Rightarrow> stateInStringEsc s c
    | InStringEscU \<Rightarrow> expect (isHex c) InStringEscU1 s
    | InStringEscU1 \<Rightarrow> expect (isHex c) InStringEscU12 s
    | InStringEscU12 \<Rightarrow> expect (isHex c) InStringEscU123 s
    | InStringEscU123 \<Rightarrow> expect (isHex c) InString s
    | StNeg \<Rightarrow> if c = CHR ''0'' then (s\<lparr>sc_step := St0\<rparr>, ScanContinue)
               else expect (isDigit19 c) St1 s
    | St1 \<Rightarrow> if isDigit c then (s, ScanContinue) else state0 s c
    | St0 \<Rightarrow> state0 s c
    | StDot \<Rightarrow> expect (isDigit c) StDot0 s
    | StDot0 \<Rightarrow> stateDot0 s c
    | StE \<Rightarrow> if c = CHR ''+'' \<or> c = CHR ''-'' then (s\<lparr>sc_step := StESign\<rparr>, ScanContinue)
             else expect (isDigit c) StE0 s
    | StESign \<Rightarrow> expect (isDigit c) StE0 s
    | StE0 \<Rightarrow> if isDigit c then (s, ScanContinue) else stateEndValue s c
    | StT \<Rightarrow> expect (c = CHR ''r'') StTr s
    | StTr \<Rightarrow> expect (c = CHR ''u'') StTru s
    | StTru \<Rightarrow> expect (c = CHR ''e'') EndValue s
    | StF \<Rightarrow> expect (c = CHR ''a'') StFa s
    | StFa \<Rightarrow> expect (c = CHR ''l'') StFal s
    | StFal \<Rightarrow> expect (c = CHR ''s'') StFals s
    | StFals \<Rightarrow> expect (c = CHR ''e'') EndValue s
    | StN \<Rightarrow> expect (c = CHR ''u'') StNu s
    | StNu \<Rightarrow> expect (c = CHR ''l'') StNul s
    | StNul \<Rightarrow> expect (c = CHR ''l'') EndValue s
    | StError \<Rightarrow> (s, ScanError))"

text \<open>\<open>scanner.eof\<close>: a finished top-level value, possibly after one virtual space.\<close>

definition scan_eof_ok :: "scanner \<Rightarrow> bool" where
  "scan_eof_ok s \<longleftrightarrow>
     (if sc_step s = StError then False
      else if sc_endTop s then True
      else sc_endTop (fst (scan_step s SPACE)))"

text \<open>\<open>checkValid\<close> stops at the first byte that yields \<open>scanError\<close>.\<close>

fun checkValid :: "scanner \<Rightarrow> bytes \<Rightarrow> bool" where
  "checkValid s [] = scan_eof_ok s"
| "checkValid s (c # cs) =
     (let (s', op) = scan_step s c in if op = ScanError then False else checkValid s' cs)"

definition Valid :: "bytes \<Rightarrow> bool" where
  "Valid data = checkValid scanner_init data"

text \<open>
  \<open>json.Compact\<close> (no HTML escaping): bytes that the scanner reports as
  insignificant space are dropped, everything else is copied.
\<close>

fun compact_loop :: "scanner \<Rightarrow> bytes \<Rightarrow> bytes option" where
  "compact_loop s [] = (if scan_eof_ok s then Some [] else None)"
| "compact_loop s (c # cs) =
     (let (s', op) = scan_step s c
      in if op = ScanError then None
         else if op = ScanSkipSpace \<or> op = ScanEnd then compact_loop s' cs
         else map_option (\<lambda>out. c # out) (compact_loop s' cs))"

definition Compact :: "bytes \<Rightarrow> bytes option" where
  "Compact data = compact_loop scanner_init data"

section \<open>How one byte moves a scanner that does not fail\<close>

definition alive :: "scanner \<Rightarrow> bool" where
  "alive s \<longleftrightarrow> sc_step s \<noteq> StError"

definition in_string :: "scanner \<Rightarrow> bool" where
  "in_string s \<longleftrightarrow> sc_step s \<in> {InString, InStringEsc, InStringEscU, InStringEscU1,
     InStringEscU12, InStringEscU123}"

definition in_escape :: "scanner \<Rightarrow> bool" where
  "in_escape s \<longleftrightarrow> sc_step s = InStringEsc"

text \<open>No byte of the next value or key has been read.\<close>

definition fresh :: "scanner \<Rightarrow> bool" where
  "fresh s \<longleftrightarrow> sc_step s \<in> {BeginValueOrEmpty, BeginValue, BeginStringOrEmpty, BeginString}"

abbreviation step1 :: "scanner \<Rightarrow> char \<Rightarrow> scanner" where
  "step1 s c \<equiv> fst (scan_step s c)"

lemmas state_fun_defs =
  stateBeginValueOrEmpty_def stateBeginValue_def stateBeginStringOrEmpty_def
  stateBeginString_def stateEndValue_def stateEndTop_def stateInString_def
  stateInStringEsc_def expect_def state0_def stateDot0_def
  pushParseState_def popParseState_def scan_error_def

lemmas char_class_defs = isSpace_def isDigit_def isDigit19_def isHex_def

lemma scan_error_alive [simp]: "\<not> alive (fst (scan_error s))"
  by (simp add: scan_error_def alive_def)

lemma step1_dead: "\<not> alive s \<Longrightarrow> \<not> alive (step1 s c)"
  by (simp add: alive_def scan_step_def)

lemma step1_in_string:
  assumes "in_string s" "alive (step1 s c)"
  shows "sc_stack (step1 s c) = sc_stack s \<and> sc_endTop (step1 s c) = sc_endTop s \<and>
     (if in_escape s then in_string (step1 s c) \<and> \<not> in_escape (step1 s c)
      else if c = BSLASH then in_string (step1 s c) \<and> in_escape (step1 s c)
      else if c = QUOTE then sc_step (step1 s c) = EndValue
      else in_string (step1 s c) \<and> \<not> in_escape (step1 s c))"
  using assms
  by (cases "sc_step s")
    (auto simp: in_string_def in_escape_def alive_def scan_step_def state_fun_defs
       char_class_defs split: if_splits)

lemma step1_quote:
  assumes "\<not> in_string s" "alive (step1 s QUOTE)"
  shows "fresh s \<and> step1 s QUOTE = s\<lparr>sc_step := InString\<rparr>"
  using assms
  by (cases "sc_step s")
    (auto simp: in_string_def fresh_def alive_def scan_step_def state_fun_defs char_class_defs
       split: if_splits list.splits pstate.splits)


lemma step1_lbrack:
  assumes "\<not> in_string s" "alive (step1 s LBRACK)"
  shows "(sc_step s = BeginValue \<or> sc_step s = BeginValueOrEmpty) \<and>
     length (sc_stack s) < maxNestingDepth \<and>
     step1 s LBRACK = s\<lparr>sc_step := BeginValueOrEmpty, sc_stack := ParseArrayValue # sc_stack s\<rparr>"
  using assms
  by (cases "sc_step s")
    (simp_all add: in_string_def alive_def scan_step_def state_fun_defs char_class_defs Let_def
       split: list.splits pstate.splits if_splits)

lemma step1_lbrace:
  assumes "\<not> in_string s" "alive (step1 s LBRACE)"
  shows "(sc_step s = BeginValue \<or> sc_step s = BeginValueOrEmpty) \<and>
     length (sc_stack s) < maxNestingDepth \<and>
     step1 s LBRACE = s\<lparr>sc_step := BeginStringOrEmpty, sc_stack := ParseObjectKey # sc_stack s\<rparr>"
  using assms
  by (cases "sc_step s")
    (simp_all add: in_string_def alive_def scan_step_def state_fun_defs char_class_defs Let_def
       split: list.splits pstate.splits if_splits)

lemma step1_rbrack:
  assumes "\<not> in_string s" "alive (step1 s RBRACK)"
  shows "\<exists>rest. sc_stack s = ParseArrayValue # rest \<and> \<not> (sc_step s = BeginValue) \<and>
     step1 s RBRACK = popParseState s"
  using assms
  by (cases "sc_step s")
    (auto simp: in_string_def alive_def scan_step_def state_fun_defs char_class_defs Let_def
       split: list.splits pstate.splits)

lemma step1_rbrace:
  assumes "\<not> in_string s" "alive (step1 s RBRACE)"
  shows "(if sc_step s = BeginStringOrEmpty
          then step1 s RBRACE = popParseState (s\<lparr>sc_stack := ParseObjectValue # tl (sc_stack s)\<rparr>)
          else \<not> fresh s \<and> (\<exists>rest. sc_stack s = ParseObjectValue # rest) \<and> step1 s RBRACE = popParseState s)"
  using assms
  by (cases "sc_step s")
    (auto simp: in_string_def fresh_def alive_def scan_step_def state_fun_defs char_class_defs Let_def
       split: list.splits pstate.splits)

lemma step1_comma:
  assumes "\<not> in_string s" "alive (step1 s COMMA)"
  shows "\<not> fresh s \<and> sc_step s \<noteq> EndTop \<and> (\<exists>p rest. sc_stack s = p # rest \<and>
     (p = ParseArrayValue \<and> step1 s COMMA = s\<lparr>sc_step := BeginValue\<rparr> \<or>
      p = ParseObjectValue \<and>
        step1 s COMMA = s\<lparr>sc_stack := ParseObjectKey # rest, sc_step := BeginString\<rparr>))"
  using assms
  by (cases "sc_step s")
    (auto simp: in_string_def fresh_def alive_def scan_step_def state_fun_defs char_class_defs Let_def
       split: list.splits pstate.splits)

lemma step1_colon:
  assumes "\<not> in_string s" "alive (step1 s COLON)"
  shows "\<not> fresh s \<and> (\<exists>rest. sc_stack s = ParseObjectKey # rest \<and>
      step1 s COLON = s\<lparr>sc_stack := ParseObjectValue # rest, sc_step := BeginValue\<rparr>)"
  using assms
  by (cases "sc_step s")
    (auto simp: in_string_def fresh_def alive_def scan_step_def state_fun_defs char_class_defs Let_def
       split: list.splits pstate.splits)

lemma step1_space:
  assumes "\<not> in_string s" "alive (step1 s c)" "isSpace c"
  shows "if fresh s then step1 s c = s
     else sc_stack (step1 s c) = sc_stack s \<and>
       (if sc_stack s = [] \<or> sc_step s = EndTop then sc_step (step1 s c) = EndTop
         \<and> (sc_step s \<noteq> EndTop \<longrightarrow> sc_endTop (step1 s c))
        else sc_step (step1 s c) = EndValue \<and> sc_endTop (step1 s c) = sc_endTop s)"
proof -
  from assms(3) have c: "c = SPACE \<or> c = TAB \<or> c = CR \<or> c = LF" by (simp add: isSpace_def)
  show ?thesis
    using c assms(1,2)
    by (elim disjE; cases "sc_step s"; cases "sc_stack s")
      (simp_all add: in_string_def fresh_def alive_def scan_step_def state_fun_defs char_class_defs)
qed

definition structural :: "char \<Rightarrow> bool" where
  "structural c \<longleftrightarrow> c \<in> {QUOTE, LBRACK, LBRACE, RBRACK, RBRACE, COMMA, COLON} \<or> isSpace c"

lemma step1_other:
  assumes "\<not> in_string s" "alive (step1 s c)" "\<not> structural c"
  shows "sc_stack (step1 s c) = sc_stack s \<and> sc_endTop (step1 s c) = sc_endTop s \<and>
     \<not> fresh (step1 s c) \<and> \<not> in_string (step1 s c) \<and> sc_step (step1 s c) \<noteq> EndTop \<and>
     (fresh s \<longrightarrow> sc_step s = BeginValue \<or> sc_step s = BeginValueOrEmpty)"
proof -
  from assms(3) have c: "c \<noteq> QUOTE" "c \<noteq> LBRACK" "c \<noteq> LBRACE" "c \<noteq> RBRACK" "c \<noteq> RBRACE"
    "c \<noteq> COMMA" "c \<noteq> COLON" "\<not> isSpace c"
    by (simp_all add: structural_def)
  show ?thesis
    using assms(1,2) c
    by (cases "sc_step s"; cases "sc_stack s")
      (auto simp: in_string_def fresh_def alive_def scan_step_def state_fun_defs
         split: pstate.splits if_splits)
qed


section \<open>Runs\<close>

lemma scan_step_error_dead: "snd (scan_step s c) = ScanError \<Longrightarrow> \<not> alive (step1 s c)"
  by (cases "sc_step s")
    (simp_all add: alive_def scan_step_def state_fun_defs Let_def split: if_splits list.splits pstate.splits)

definition srun :: "scanner \<Rightarrow> bytes \<Rightarrow> scanner" where
  "srun s xs = foldl step1 s xs"

lemma srun_simps [simp]: "srun s [] = s" "srun s (c # cs) = srun (step1 s c) cs"
  by (simp_all add: srun_def)

lemma srun_append [simp]: "srun s (xs @ ys) = srun (srun s xs) ys"
  by (simp add: srun_def)

lemma srun_dead: "\<not> alive s \<Longrightarrow> \<not> alive (srun s xs)"
  by (induction xs arbitrary: s) (auto simp: step1_dead)

lemma eof_ok_alive: "scan_eof_ok s \<Longrightarrow> alive s"
  by (auto simp: scan_eof_ok_def alive_def split: if_splits)

lemma checkValid_srun: "checkValid s xs \<longleftrightarrow> scan_eof_ok (srun s xs)"
proof (induction xs arbitrary: s)
  case (Cons c cs)
  show ?case
  proof (cases "snd (scan_step s c) = ScanError")
    case True
    then have "\<not> alive (srun (step1 s c) cs)"
      by (intro srun_dead scan_step_error_dead)
    with True show ?thesis
      by (auto simp: case_prod_unfold Let_def dest: eof_ok_alive)
  next
    case False
    with Cons show ?thesis by (simp add: case_prod_unfold Let_def)
  qed
qed simp

lemma Valid_srun: "Valid xs \<longleftrightarrow> scan_eof_ok (srun scanner_init xs)"
  by (simp add: Valid_def checkValid_srun)

text \<open>
  A scanner \<open>s\<close> inside an array runs like a scanner \<open>t\<close> on the array's element alone:
  the stacks differ by the array's own entry at the bottom, and the element scanner
  may already have seen the end of its (top-level) value.
\<close>

definition framed :: "scanner \<Rightarrow> scanner \<Rightarrow> bool" where
  "framed t s \<longleftrightarrow> sc_stack s = sc_stack t @ [ParseArrayValue] \<and>
     (sc_step s = sc_step t \<and> \<not> sc_endTop t \<and> sc_step t \<noteq> EndTop \<or>
      sc_step s = EndValue \<and> sc_step t = EndTop \<and> sc_stack t = [] \<and> sc_endTop t)"

lemma framed_step:
  assumes f: "framed t s" and a: "alive (step1 s c)"
    and c: "sc_stack t = [] \<longrightarrow> \<not> in_string s \<longrightarrow> c \<noteq> RBRACK \<and> c \<noteq> COMMA"
    and b: "sc_stack t = [] \<longrightarrow> sc_step s = BeginValue \<or> \<not> fresh s"
  shows "framed (step1 t c) (step1 s c) \<and> alive (step1 t c)"
  using f a c b
  unfolding framed_def
  by (cases "sc_step t"; cases "sc_stack t")
    (auto simp: in_string_def fresh_def alive_def scan_step_def state_fun_defs Let_def
         split: pstate.splits if_splits)

end
