(* ===== verification/Scan.thy ===== *)
theory Scan
  imports JsonScan
begin

text \<open>
  The byte scanners of \<open>handle.go\<close> and \<open>typed.go\<close>, which classify a raw
  payload before it is unmarshaled: \<open>approxBatchLen\<close> (how many entries a batch has),
  \<open>lacksResponseID\<close> (does the payload verifiably carry no id),
  \<open>splitBatchElements\<close> (the raw entries of a batch) and \<open>isEmptyJSONArray\<close>; and
  the standard library's \<open>bytes.TrimSpace\<close> they start from. Each scanner is its loop
  body (a function of the index, the byte and a record of the loop's variables) run by
  \<open>byte_loop\<close>, followed by the code after the loop. Go's \<open>int\<close> counters are
  bounded by the payload's length, so they are mathematical integers here.
\<close>

section \<open>bytes.TrimSpace\<close>

text \<open>
  The UTF-8 encodings of the code points \<open>unicode.IsSpace\<close> accepts. An encoding at
  the front (or back) of a slice is exactly what \<open>DecodeRune\<close>
  (\<open>DecodeLastRune\<close>) decodes there.
\<close>

definition space_runes :: "bytes list" where
  "space_runes =
     [[CHR 0x09], [CHR 0x0A], [CHR 0x0B], [CHR 0x0C], [CHR 0x0D], [CHR 0x20],
      [CHR 0xC2, CHR 0x85], [CHR 0xC2, CHR 0xA0], [CHR 0xE1, CHR 0x9A, CHR 0x80],
      [CHR 0xE2, CHR 0x80, CHR 0x80], [CHR 0xE2, CHR 0x80, CHR 0x81],
      [CHR 0xE2, CHR 0x80, CHR 0x82], [CHR 0xE2, CHR 0x80, CHR 0x83],
      [CHR 0xE2, CHR 0x80, CHR 0x84], [CHR 0xE2, CHR 0x80, CHR 0x85],
      [CHR 0xE2, CHR 0x80, CHR 0x86], [CHR 0xE2, CHR 0x80, CHR 0x87],
      [CHR 0xE2, CHR 0x80, CHR 0x88], [CHR 0xE2, CHR 0x80, CHR 0x89],
      [CHR 0xE2, CHR 0x80, CHR 0x8A], [CHR 0xE2, CHR 0x80, CHR 0xA8],
      [CHR 0xE2, CHR 0x80, CHR 0xA9], [CHR 0xE2, CHR 0x80, CHR 0xAF],
      [CHR 0xE2, CHR 0x81, CHR 0x9F], [CHR 0xE3, CHR 0x80, CHR 0x80]]"

lemma space_runes_nonempty: "w \<in> set space_runes \<Longrightarrow> w \<noteq> []"
  by (auto simp: space_runes_def)

fun has_prefix :: "bytes \<Rightarrow> bytes \<Rightarrow> bool" where
  "has_prefix bs [] = True"
| "has_prefix [] (w # ws) = False"
| "has_prefix (b # bs) (w # ws) = (b = w \<and> has_prefix bs ws)"

definition first_space :: "bytes \<Rightarrow> bytes option" where
  "first_space bs = List.find (\<lambda>w. has_prefix bs w) space_runes"

definition last_space :: "bytes \<Rightarrow> bytes option" where
  "last_space bs = List.find (\<lambda>w. has_prefix (rev bs) (rev w)) space_runes"

lemma has_prefix_length: "has_prefix bs w \<Longrightarrow> length w \<le> length bs"
  by (induction bs w rule: has_prefix.induct) auto

lemma first_spaceD:
  assumes "first_space bs = Some w"
  shows "w \<in> set space_runes" "has_prefix bs w" "w \<noteq> []"
proof -
  from assms show "w \<in> set space_runes" "has_prefix bs w"
    by (auto simp: first_space_def find_Some_iff in_set_conv_nth)
  then show "w \<noteq> []" using space_runes_nonempty by blast
qed

lemma last_spaceD:
  assumes "last_space bs = Some w"
  shows "w \<in> set space_runes" "has_prefix (rev bs) (rev w)" "w \<noteq> []"
proof -
  from assms show "w \<in> set space_runes" "has_prefix (rev bs) (rev w)"
    by (auto simp: last_space_def find_Some_iff in_set_conv_nth)
  then show "w \<noteq> []" using space_runes_nonempty by blast
qed

lemma first_space_dec:
  assumes "first_space bs = Some w"
  shows "length (drop (length w) bs) < length bs"
proof -
  from first_spaceD[OF assms] have "0 < length w" "length w \<le> length bs"
    by (simp_all add: has_prefix_length)
  then have "length bs - length w < length bs" by linarith
  then show ?thesis by simp
qed

lemma last_space_dec:
  assumes "last_space bs = Some w"
  shows "length (take (length bs - length w) bs) < length bs"
proof -
  from last_spaceD[OF assms] have "0 < length w" "length w \<le> length bs"
    using has_prefix_length[of "rev bs" "rev w"] by simp_all
  then have "length bs - length w < length bs" by linarith
  then show ?thesis by simp
qed

function trim_left :: "bytes \<Rightarrow> bytes" where
  "trim_left bs = (case first_space bs of None \<Rightarrow> bs | Some w \<Rightarrow> trim_left (drop (length w) bs))"
  by pat_completeness auto
termination
  by (relation "measure length") (use first_space_dec in auto)

function trim_right :: "bytes \<Rightarrow> bytes" where
  "trim_right bs =
     (case last_space bs of None \<Rightarrow> bs | Some w \<Rightarrow> trim_right (take (length bs - length w) bs))"
  by pat_completeness auto
termination
  by (relation "measure length") (use last_space_dec in auto)

declare trim_left.simps [simp del] trim_right.simps [simp del]

definition TrimSpace :: "bytes \<Rightarrow> bytes" where
  "TrimSpace bs = trim_right (trim_left bs)"

section \<open>approxBatchLen\<close>

record approx_st =
  ap_depth :: int
  ap_count :: int
  ap_inString :: bool
  ap_escaped :: bool
  ap_seen :: bool

definition approx_init :: approx_st where
  "approx_init = \<lparr>ap_depth = 0, ap_count = 0, ap_inString = False, ap_escaped = False, ap_seen = False\<rparr>"

definition approx_body :: "int \<Rightarrow> nat \<Rightarrow> char \<Rightarrow> approx_st \<Rightarrow> int + approx_st" where
  "approx_body limit i b st =
     (if ap_inString st then
        (if ap_escaped st then Inr (st\<lparr>ap_escaped := False\<rparr>)
         else if b = BSLASH then Inr (st\<lparr>ap_escaped := True\<rparr>)
         else if b = QUOTE then Inr (st\<lparr>ap_inString := False\<rparr>)
         else Inr st)
      else if b = QUOTE then
        Inr (st\<lparr>ap_inString := True, ap_seen := (ap_depth st = 1 \<or> ap_seen st)\<rparr>)
      else if b = LBRACK \<or> b = LBRACE then
        Inr (st\<lparr>ap_seen := (ap_depth st = 1 \<or> ap_seen st), ap_depth := ap_depth st + 1\<rparr>)
      else if b = RBRACK \<or> b = RBRACE then Inr (st\<lparr>ap_depth := ap_depth st - 1\<rparr>)
      else if b = COMMA then
        (if ap_depth st = 1 then
           (let count = ap_count st + 1
            in if count + 1 > limit then Inl (count + 1) else Inr (st\<lparr>ap_count := count\<rparr>))
         else Inr st)
      else if b = SPACE \<or> b = TAB \<or> b = LF \<or> b = CR then Inr st
      else Inr (st\<lparr>ap_seen := (ap_depth st = 1 \<or> ap_seen st)\<rparr>))"

definition approxBatchLen :: "bytes \<Rightarrow> int \<Rightarrow> int" where
  "approxBatchLen data limit =
     (case byte_loop (approx_body limit) 0 data approx_init of
        Inl n \<Rightarrow> n
      | Inr st \<Rightarrow> if ap_seen st then ap_count st + 1 else ap_count st)"

section \<open>lacksResponseID\<close>

record lacks_st =
  lk_depth :: int
  lk_inString :: bool
  lk_escaped :: bool
  lk_keyPos :: bool
  lk_inKey :: bool
  lk_keyEscaped :: bool
  lk_keyStart :: nat
  lk_sawElement :: bool
  lk_closed :: bool

definition lacks_init :: lacks_st where
  "lacks_init = \<lparr>lk_depth = 0, lk_inString = False, lk_escaped = False, lk_keyPos = False,
     lk_inKey = False, lk_keyEscaped = False, lk_keyStart = 0, lk_sawElement = False,
     lk_closed = False\<rparr>"

definition lacks_body :: "bytes \<Rightarrow> int \<Rightarrow> nat \<Rightarrow> char \<Rightarrow> lacks_st \<Rightarrow> bool + lacks_st" where
  "lacks_body data keyDepth i b st =
     (if lk_inString st then
        (if lk_escaped st then Inr (st\<lparr>lk_escaped := False\<rparr>)
         else if b = BSLASH then Inr (st\<lparr>lk_escaped := True, lk_keyEscaped := True\<rparr>)
         else if b = QUOTE then
           (if lk_inKey st then
              (if lk_keyEscaped st \<or> take (i - lk_keyStart st) (drop (lk_keyStart st) data) = ''id''
               then Inl False
               else Inr (st\<lparr>lk_inString := False, lk_inKey := False\<rparr>))
            else Inr (st\<lparr>lk_inString := False\<rparr>))
         else Inr st)
      else if lk_closed st then Inl False
      else if b = QUOTE then
        (if lk_depth st = keyDepth \<and> lk_keyPos st
         then Inr (st\<lparr>lk_inString := True, lk_inKey := True, lk_keyStart := i + 1,
                      lk_keyEscaped := False\<rparr>)
         else Inr (st\<lparr>lk_inString := True\<rparr>))
      else if b = LBRACE then
        (let d = lk_depth st + 1
         in if d = keyDepth
            then Inr (st\<lparr>lk_depth := d, lk_keyPos := True, lk_sawElement := True\<rparr>)
            else Inr (st\<lparr>lk_depth := d\<rparr>))
      else if b = LBRACK then
        (if keyDepth = 2 \<and> lk_depth st = 1 then Inl False
         else Inr (st\<lparr>lk_depth := lk_depth st + 1\<rparr>))
      else if b = RBRACE \<or> b = RBRACK then
        (if lk_depth st = 0 then Inl False
         else let d = lk_depth st - 1
              in Inr (st\<lparr>lk_depth := d, lk_closed := (if d = 0 then True else lk_closed st)\<rparr>))
      else if b = COLON then
        (if lk_depth st = keyDepth then Inr (st\<lparr>lk_keyPos := False\<rparr>) else Inr st)
      else if b = COMMA then
        (if lk_depth st = keyDepth then Inr (st\<lparr>lk_keyPos := True\<rparr>) else Inr st)
      else if b = SPACE \<or> b = TAB \<or> b = LF \<or> b = CR then Inr st
      else if keyDepth = 2 \<and> lk_depth st = 1 then Inl False
      else Inr st)"

definition lacks_scan :: "bytes \<Rightarrow> int \<Rightarrow> bool" where
  "lacks_scan data keyDepth =
     (case byte_loop (lacks_body data keyDepth) 0 data lacks_init of
        Inl r \<Rightarrow> r
      | Inr st \<Rightarrow> lk_closed st \<and> \<not> lk_inString st \<and> (keyDepth = 1 \<or> lk_sawElement st))"

definition lacksResponseID :: "bytes \<Rightarrow> bool" where
  "lacksResponseID data0 =
     (let data = TrimSpace data0
      in if length data < 2 then False
         else if hd data = LBRACE then lacks_scan data 1
         else if hd data = LBRACK then lacks_scan data 2
         else False)"

section \<open>splitBatchElements\<close>

record split_st =
  sp_depth :: int
  sp_inString :: bool
  sp_escaped :: bool
  sp_start :: int
  sp_elems :: "bytes list"

definition split_init :: split_st where
  "split_init = \<lparr>sp_depth = 0, sp_inString = False, sp_escaped = False, sp_start = -1, sp_elems = []\<rparr>"

text \<open>\<open>Inl ()\<close> is the early \<open>return nil, false\<close>.\<close>

definition split_body :: "bytes \<Rightarrow> nat \<Rightarrow> char \<Rightarrow> split_st \<Rightarrow> unit + split_st" where
  "split_body inner i b st =
     (if sp_inString st then
        (if sp_escaped st then Inr (st\<lparr>sp_escaped := False\<rparr>)
         else if b = BSLASH then Inr (st\<lparr>sp_escaped := True\<rparr>)
         else if b = QUOTE then Inr (st\<lparr>sp_inString := False\<rparr>)
         else Inr st)
      else if b = QUOTE then
        Inr (st\<lparr>sp_inString := True,
               sp_start := (if sp_start st = -1 then int i else sp_start st)\<rparr>)
      else if b = LBRACK \<or> b = LBRACE then
        Inr (st\<lparr>sp_start := (if sp_start st = -1 then int i else sp_start st),
               sp_depth := sp_depth st + 1\<rparr>)
      else if b = RBRACK \<or> b = RBRACE then
        (if sp_depth st - 1 < 0 then Inl () else Inr (st\<lparr>sp_depth := sp_depth st - 1\<rparr>))
      else if b = COMMA then
        (if sp_depth st = 0 then
           (if sp_start st = -1 then Inl ()
            else Inr (st\<lparr>sp_elems := sp_elems st @
                            [take (i - nat (sp_start st)) (drop (nat (sp_start st)) inner)],
                        sp_start := -1\<rparr>))
         else Inr st)
      else if b = SPACE \<or> b = TAB \<or> b = LF \<or> b = CR then Inr st
      else Inr (st\<lparr>sp_start := (if sp_start st = -1 then int i else sp_start st)\<rparr>))"

text \<open>The code after the loop.\<close>

definition split_end :: "bytes \<Rightarrow> split_st \<Rightarrow> bytes list option" where
  "split_end inner st =
     (if sp_inString st \<or> sp_depth st \<noteq> 0 then None
      else if sp_start st \<noteq> -1 then Some (sp_elems st @ [drop (nat (sp_start st)) inner])
      else if sp_elems st \<noteq> [] then None
      else Some (sp_elems st))"

definition splitBatchElements :: "bytes \<Rightarrow> bytes list option" where
  "splitBatchElements data =
     (let inner = butlast (tl data)
      in case byte_loop (split_body inner) 0 inner split_init of
           Inl _ \<Rightarrow> None
         | Inr st \<Rightarrow> split_end inner st)"

section \<open>isEmptyJSONArray\<close>

definition emptyarr_body :: "nat \<Rightarrow> char \<Rightarrow> nat \<Rightarrow> bool + nat" where
  "emptyarr_body i b seen =
     (if b = SPACE \<or> b = TAB \<or> b = LF \<or> b = CR then Inr seen
      else if b = LBRACK then (if seen \<noteq> 0 then Inl False else Inr 1)
      else if b = RBRACK then (if seen \<noteq> 1 then Inl False else Inr 2)
      else Inl False)"

definition isEmptyJSONArray :: "bytes \<Rightarrow> bool" where
  "isEmptyJSONArray data =
     (case byte_loop emptyarr_body 0 data 0 of Inl r \<Rightarrow> r | Inr seen \<Rightarrow> seen = 2)"

end
