(* ===== verification/Types.thy ===== *)
theory Types
  imports Scan "HOL-Library.Word"
begin

text \<open>
  The values the library passes around: the wire objects of package \<open>structs\<close>
  (\<open>Request\<close>, \<open>Response\<close>, \<open>Error\<close>, \<open>ID\<close>), Go's dynamic values
  and error chains as far as the library looks into them, \<open>RPCError\<close>, the protocol
  constants, and \<open>NewResponse\<close>/\<open>toID\<close>. Error codes are only compared, so Go's
  \<open>int\<close> is Isabelle's \<open>int\<close>.
\<close>

section \<open>Constants\<close>

definition Version :: bytes where "Version = ''2.0''"

definition ParseErrorCode :: int where "ParseErrorCode = -32700"
definition InvalidRequestErrorCode :: int where "InvalidRequestErrorCode = -32600"
definition MethodNotFoundErrorCode :: int where "MethodNotFoundErrorCode = -32601"
definition InvalidParamsErrorCode :: int where "InvalidParamsErrorCode = -32602"
definition InternalErrorCode :: int where "InternalErrorCode = -32603"
definition OK :: int where "OK = 0"
definition MethodNotImplemented :: int where "MethodNotImplemented = -32604"
definition RequestTimeLimit :: int where "RequestTimeLimit = -32605"

lemmas code_defs = ParseErrorCode_def InvalidRequestErrorCode_def MethodNotFoundErrorCode_def
  InvalidParamsErrorCode_def InternalErrorCode_def OK_def MethodNotImplemented_def
  RequestTimeLimit_def

section \<open>Dynamic values and errors\<close>

text \<open>
  A value of Go's type \<open>any\<close>, by the dynamic types \<open>toID\<close> and the error
  encoder distinguish. A \<open>float64\<close> is given by its two textual forms
  (\<open>strconv\<close>'s shortest \<open>'g'\<close> form and \<open>json.Marshal\<close>'s), both absent for NaN and the
  infinities; a value of any other type by what \<open>json.Marshal\<close> returns for it,
  \<open>Inl\<close> an error text or \<open>Inr\<close> the bytes.
\<close>

datatype goany =
    ANil
  | AID slice
  | ARawMessage slice
  | AString bytes
  | AInt int
  | AInt64 int
  | AFloat64 "(bytes \<times> bytes) option"
  | AOther "bytes + bytes"

text \<open>
  An error value: \<open>PlainErr\<close> is any error that is not a \<open>*RPCError\<close>, with its text, what
  its \<open>As\<close> method (if it has one that succeeds) stores for a \<open>**RPCError\<close> target, and the
  non-nil errors its \<open>Unwrap\<close> method returns, in order; \<open>RPCErr None\<close> is the typed nil
  pointer, \<open>RPCErr (Some e)\<close> a \<open>*RPCError\<close> with the fields of \<open>e\<close>.
\<close>

datatype goerr =
    PlainErr bytes "rpcerr option option" "goerr list"
  | RPCErr "rpcerr option"
and rpcerr = RPCError (re_Code: int) (re_Data: goany) (re_Err: "goerr option")

text \<open>\<open>errors.New\<close>, and \<open>fmt.Errorf\<close> without \<open>%w\<close> or with one \<open>%w\<close>.\<close>

definition errors_New :: "bytes \<Rightarrow> goerr" where
  "errors_New t = PlainErr t None []"

definition Errorf_w :: "bytes \<Rightarrow> goerr \<Rightarrow> goerr" where
  "Errorf_w t e = PlainErr t None [e]"

text \<open>
  \<open>errors.As\<close> with a \<open>**RPCError\<close> target: the first match in a depth-first walk of the
  error tree; the result is the pointer it stores.
\<close>

fun errors_As :: "goerr \<Rightarrow> rpcerr option option"
  and errors_As_list :: "goerr list \<Rightarrow> rpcerr option option" where
  "errors_As (RPCErr p) = Some p"
| "errors_As (PlainErr t a us) = (case a of Some p \<Rightarrow> Some p | None \<Rightarrow> errors_As_list us)"
| "errors_As_list [] = None"
| "errors_As_list (u # us) = (case errors_As u of Some p \<Rightarrow> Some p | None \<Rightarrow> errors_As_list us)"

lemma errors_As_list_find: "errors_As_list us = (case List.map_filter errors_As us of [] \<Rightarrow> None | p # _ \<Rightarrow> Some p)"
  by (induction us) (auto simp: List.map_filter_simps split: option.splits)

definition NewRPCError :: "int \<Rightarrow> goerr option \<Rightarrow> rpcerr" where
  "NewRPCError code err = RPCError code ANil err"

definition WithData :: "rpcerr \<Rightarrow> goany \<Rightarrow> rpcerr" where
  "WithData e data = RPCError (re_Code e) data (re_Err e)"

definition Unwrap :: "rpcerr \<Rightarrow> goerr option" where
  "Unwrap e = re_Err e"

section \<open>Decimal and string literals\<close>

text \<open>\<open>strconv.AppendInt\<close> in base 10.\<close>

definition digit :: "nat \<Rightarrow> char" where
  "digit n = ''0123456789'' ! n"

fun nat_digits :: "nat \<Rightarrow> bytes" where
  "nat_digits n = (if n < 10 then [digit n] else nat_digits (n div 10) @ [digit (n mod 10)])"

declare nat_digits.simps [simp del]

definition itoa :: "int \<Rightarrow> bytes" where
  "itoa i = (if i < 0 then CHR ''-'' # nat_digits (nat (- i)) else nat_digits (nat i))"

text \<open>The text of an error value (\<open>Error()\<close>), with \<open>RPCError.Error\<close>.\<close>

fun goerr_Error :: "goerr \<Rightarrow> bytes" and RPCError_Error :: "rpcerr option \<Rightarrow> bytes" where
  "goerr_Error (PlainErr t a us) = t"
| "goerr_Error (RPCErr p) = RPCError_Error p"
| "RPCError_Error None = ''jsonrpc error <nil>''"
| "RPCError_Error (Some (RPCError code data (Some err))) =
     ''jsonrpc error '' @ itoa code @ '': '' @ goerr_Error err"
| "RPCError_Error (Some (RPCError code data None)) = ''jsonrpc error '' @ itoa code"

text \<open>
  \<open>json.Marshal\<close> of a string (HTML escaping on, invalid UTF-8 replaced):
  \<open>decode_rune\<close> gives the size of the encoding at the front, \<open>None\<close> where
  \<open>utf8.DecodeRune\<close> returns \<open>RuneError\<close> with size 1.
\<close>

definition cont_byte :: "nat \<Rightarrow> nat \<Rightarrow> char \<Rightarrow> bool" where
  "cont_byte lo hi c \<longleftrightarrow> lo \<le> byte_val c \<and> byte_val c \<le> hi"

fun rune_size :: "bytes \<Rightarrow> nat option" where
  "rune_size [] = None"
| "rune_size (b # bs) =
     (let v = byte_val b in
      if v < 0x80 then Some 1
      else if 0xC2 \<le> v \<and> v \<le> 0xDF then
        (case bs of c1 # _ \<Rightarrow> if cont_byte 0x80 0xBF c1 then Some 2 else None | _ \<Rightarrow> None)
      else if 0xE0 \<le> v \<and> v \<le> 0xEF then
        (case bs of c1 # c2 # _ \<Rightarrow>
           if cont_byte (if v = 0xE0 then 0xA0 else 0x80) (if v = 0xED then 0x9F else 0xBF) c1 \<and>
              cont_byte 0x80 0xBF c2 then Some 3 else None | _ \<Rightarrow> None)
      else if 0xF0 \<le> v \<and> v \<le> 0xF4 then
        (case bs of c1 # c2 # c3 # _ \<Rightarrow>
           if cont_byte (if v = 0xF0 then 0x90 else 0x80) (if v = 0xF4 then 0x8F else 0xBF) c1 \<and>
              cont_byte 0x80 0xBF c2 \<and> cont_byte 0x80 0xBF c3 then Some 4 else None | _ \<Rightarrow> None)
      else None)"

definition hex_digit :: "nat \<Rightarrow> char" where
  "hex_digit n = ''0123456789abcdef'' ! n"

definition escape_ascii :: "char \<Rightarrow> bytes" where
  "escape_ascii b =
     (if b = BSLASH \<or> b = QUOTE then [BSLASH, b]
      else if b = CHR 0x08 then [BSLASH, CHR ''b'']
      else if b = CHR 0x0C then [BSLASH, CHR ''f'']
      else if b = LF then [BSLASH, CHR ''n'']
      else if b = CR then [BSLASH, CHR ''r'']
      else if b = TAB then [BSLASH, CHR ''t'']
      else if byte_val b < 0x20 \<or> b = CHR ''<'' \<or> b = CHR ''>'' \<or> b = CHR ''&''
        then BSLASH # ''u00'' @ [hex_digit (byte_val b div 16), hex_digit (byte_val b mod 16)]
      else [b])"

function string_body :: "bytes \<Rightarrow> bytes" where
  "string_body [] = []"
| "string_body (b # bs) =
     (if byte_val b < 0x80 then escape_ascii b @ string_body bs
      else case rune_size (b # bs) of
          None \<Rightarrow> BSLASH # ''ufffd'' @ string_body bs
        | Some n \<Rightarrow>
            (let r = take n (b # bs) in
             (if r = [CHR 0xE2, CHR 0x80, CHR 0xA8] then BSLASH # ''u2028''
              else if r = [CHR 0xE2, CHR 0x80, CHR 0xA9] then BSLASH # ''u2029''
              else r) @ string_body (drop (n - 1) bs)))"
  by pat_completeness auto
termination by (relation "measure length") auto

definition json_string :: "bytes \<Rightarrow> bytes" where
  "json_string s = QUOTE # string_body s @ [QUOTE]"

section \<open>Wire objects\<close>

text \<open>
  \<open>rq_ID = None\<close> is the absent id of a notification. \<open>rs_Result\<close> is a pointer to a raw
  message: \<open>None\<close> the nil pointer, \<open>Some s\<close> a pointer to \<open>s\<close>.
\<close>

record request =
  rq_Version :: bytes
  rq_Method :: bytes
  rq_Params :: slice
  rq_ID :: slice

record rpc_error =
  er_Code :: int
  er_Message :: bytes
  er_Data :: goany

record response =
  rs_Version :: bytes
  rs_Result :: "slice option"
  rs_Error :: "rpc_error option"
  rs_ID :: slice

text \<open>The zero value \<open>structs.Request{}\<close>, and \<open>structs.Error\<close>'s \<open>Error()\<close> text.\<close>

definition zero_request :: request where
  "zero_request = \<lparr>rq_Version = [], rq_Method = [], rq_Params = None, rq_ID = None\<rparr>"

definition Error_Error :: "rpc_error \<Rightarrow> bytes" where
  "Error_Error e = ''jsonrpc: '' @ er_Message e @ '' (code '' @ itoa (er_Code e) @ '')''"

section \<open>Responses\<close>

text \<open>
  \<open>codec.Marshal\<close> on the dynamic types above. What a \<open>MarshalJSON\<close> method returns
  (for \<open>structs.ID\<close> and \<open>json.RawMessage\<close>) is validated and compacted, with HTML
  escaping, by \<open>json.Marshal\<close>; \<open>skip\<close> counts the bytes of an escaped U+2028/U+2029
  still to be passed over.
\<close>

definition html_special :: "char \<Rightarrow> bytes \<Rightarrow> (bytes \<times> nat) option" where
  "html_special c cs =
     (if c = CHR ''<'' \<or> c = CHR ''>'' \<or> c = CHR ''&''
      then Some (BSLASH # ''u00'' @ [hex_digit (byte_val c div 16), hex_digit (byte_val c mod 16)], 0)
      else if c = CHR 0xE2 \<and> take 2 cs = [CHR 0x80, CHR 0xA8] then Some (BSLASH # ''u2028'', 2)
      else if c = CHR 0xE2 \<and> take 2 cs = [CHR 0x80, CHR 0xA9] then Some (BSLASH # ''u2029'', 2)
      else None)"

fun compact_html :: "nat \<Rightarrow> scanner \<Rightarrow> bytes \<Rightarrow> bytes option" where
  "compact_html skip s [] = (if scan_eof_ok s then Some [] else None)"
| "compact_html skip s (c # cs) =
     (let (s', op) = scan_step s c
      in if op = ScanError then None
         else if 0 < skip then compact_html (skip - 1) s' cs
         else if op = ScanSkipSpace \<or> op = ScanEnd then compact_html 0 s' cs
         else (case html_special c cs of
             Some (esc, n) \<Rightarrow> map_option (\<lambda>out. esc @ out) (compact_html n s' cs)
           | None \<Rightarrow> map_option (\<lambda>out. c # out) (compact_html 0 s' cs)))"

definition marshal_raw :: "bytes \<Rightarrow> bytes + bytes" where
  "marshal_raw b =
     (case compact_html 0 scanner_init b of
        Some out \<Rightarrow> Inr out
      | None \<Rightarrow> Inl ''json: error calling MarshalJSON'')"

definition codec_Marshal :: "goany \<Rightarrow> bytes + bytes" where
  "codec_Marshal v =
     (case v of
        ANil \<Rightarrow> Inr ''null''
      | AID s \<Rightarrow> marshal_raw (if slice_len s = 0 then ''null'' else slice_bytes s)
      | ARawMessage s \<Rightarrow> marshal_raw (case s of None \<Rightarrow> ''null'' | Some b \<Rightarrow> b)
      | AString s \<Rightarrow> Inr (json_string s)
      | AInt i \<Rightarrow> Inr (itoa i)
      | AInt64 i \<Rightarrow> Inr (itoa i)
      | AFloat64 f \<Rightarrow> (case f of None \<Rightarrow> Inl ''json: unsupported value'' | Some (g, js) \<Rightarrow> Inr js)
      | AOther r \<Rightarrow> r)"

definition toID :: "goany \<Rightarrow> slice" where
  "toID v =
     (case v of
        ANil \<Rightarrow> None
      | AID i \<Rightarrow> i
      | ARawMessage m \<Rightarrow> m
      | AString s \<Rightarrow> (case codec_Marshal (AString s) of Inl _ \<Rightarrow> Some ''null'' | Inr b \<Rightarrow> Some b)
      | AInt i \<Rightarrow> Some (itoa i)
      | AInt64 i \<Rightarrow> Some (itoa i)
      | AFloat64 f \<Rightarrow> (case f of None \<Rightarrow> Some ''null'' | Some (g, js) \<Rightarrow> Some g)
      | AOther r \<Rightarrow> (case codec_Marshal (AOther r) of Inl _ \<Rightarrow> Some ''null'' | Inr b \<Rightarrow> Some b))"

definition NewResponse :: "goany \<Rightarrow> slice option \<Rightarrow> rpc_error option \<Rightarrow> response" where
  "NewResponse v data rpcErr =
     \<lparr>rs_Version = Version, rs_Result = data, rs_Error = rpcErr, rs_ID = toID v\<rparr>"

definition newError :: "bytes \<Rightarrow> int \<Rightarrow> goany \<Rightarrow> goany \<Rightarrow> response" where
  "newError errMsg errorCode data v =
     NewResponse v None (Some \<lparr>er_Code = errorCode, er_Message = errMsg, er_Data = data\<rparr>)"

lemma newError_simps [simp]:
  "rs_Version (newError m c d i) = Version" "rs_Result (newError m c d i) = None"
  "rs_Error (newError m c d i) = Some \<lparr>er_Code = c, er_Message = m, er_Data = d\<rparr>"
  "rs_ID (newError m c d i) = toID i"
  by (simp_all add: newError_def NewResponse_def)

lemma NewResponse_simps [simp]:
  "rs_Version (NewResponse i d e) = Version" "rs_Result (NewResponse i d e) = d"
  "rs_Error (NewResponse i d e) = e" "rs_ID (NewResponse i d e) = toID i"
  by (simp_all add: NewResponse_def)

lemma toID_simps [simp]: "toID ANil = None" "toID (AID v) = v" "toID (ARawMessage v) = v"
  by (simp_all add: toID_def)

section \<open>Log levels\<close>

datatype level = LevelDebug | LevelInfo | LevelWarn | LevelError

definition level_value :: "level \<Rightarrow> int" where
  "level_value l = (case l of LevelDebug \<Rightarrow> -4 | LevelInfo \<Rightarrow> 0 | LevelWarn \<Rightarrow> 4 | LevelError \<Rightarrow> 8)"

instantiation level :: linorder
begin

definition less_eq_level :: "level \<Rightarrow> level \<Rightarrow> bool" where
  "less_eq_level a b \<longleftrightarrow> level_value a \<le> level_value b"

definition less_level :: "level \<Rightarrow> level \<Rightarrow> bool" where
  "less_level a b \<longleftrightarrow> level_value a < level_value b"

instance
  by standard
    (auto simp: less_eq_level_def less_level_def level_value_def split: level.splits)

end

definition levelForCode :: "int \<Rightarrow> level" where
  "levelForCode code =
     (if code = InternalErrorCode then LevelError
      else if code = RequestTimeLimit then LevelWarn else LevelDebug)"

section \<open>Pre-serialized responses\<close>

definition respInternal :: bytes where
  "respInternal = ''{\"jsonrpc\":\"2.0\",\"error\":{\"code\":-32603,\"message\":\"internal_error\"},\"id\":null}''"
definition respInvalidRequest :: bytes where
  "respInvalidRequest = ''{\"jsonrpc\":\"2.0\",\"error\":{\"code\":-32600,\"message\":\"invalid_request_not_conforming_to_spec\"},\"id\":null}''"
definition respBatchTooLarge :: bytes where
  "respBatchTooLarge = ''{\"jsonrpc\":\"2.0\",\"error\":{\"code\":-32600,\"message\":\"batch_too_large\"},\"id\":null}''"
definition respRequestTooLarge :: bytes where
  "respRequestTooLarge = ''{\"jsonrpc\":\"2.0\",\"error\":{\"code\":-32600,\"message\":\"request_too_large\"},\"id\":null}''"
definition respParseError :: bytes where
  "respParseError = ''{\"jsonrpc\":\"2.0\",\"error\":{\"code\":-32700,\"message\":\"parse_error_not_well_formed\"},\"id\":null}''"

definition errorForMalformed :: "bytes \<Rightarrow> bytes" where
  "errorForMalformed data = (if Valid data then respInvalidRequest else respParseError)"

end
