(* ===== verification/Config.thy ===== *)
theory Config
  imports Types "HOL-Library.List_Lexorder" "HOL-Library.Char_ord"
begin

text \<open>
  The server's configuration: \<open>main.go\<close> (the copy-on-write snapshot, \<open>New\<close>, the setters),
  \<open>methods.go\<close>, \<open>methodinfo.go\<close>, \<open>middleware.go\<close> and the registration half of
  \<open>interceptors.go\<close>, \<open>observe.go\<close>, \<open>error.go\<close> and \<open>typed.go\<close>.

  User code (handlers, interceptors, observers) is a function of what it sees of the rest
  of the process (\<open>'e\<close>), the clock, its context and its arguments, and yields an
  \<open>outcome\<close> and the time it took. \<open>'v\<close> are the context's values. A middleware factory runs
  at registration time and is a total function. \<open>sync.Mutex\<close> serialises the writers, so a
  configuration history is a sequence of operations; a snapshot is an immutable value here, so
  \<open>clone\<close>, which copies the maps and slices before a writer mutates them, is the identity,
  and a failing \<open>mutate\<close> leaves the installed snapshot as it was. Theory \<open>Store\<close> has the same
  operations with their pointers and copies, and \<open>StoreProps\<close> shows that they come to this.
\<close>

section \<open>Contexts and user code\<close>

datatype ctx_err = Canceled | DeadlineExceeded

text \<open>
  A context by its future: the moment it is done (if ever), the \<open>Err()\<close> and the
  \<open>Cause()\<close> it then has; the pusher a transport installed; its other values.
\<close>

record 'v ctx =
  cx_done :: "(int \<times> ctx_err \<times> goerr) option"
  cx_pusher :: "nat option"
  cx_values :: 'v

definition ctx_Err :: "'v ctx \<Rightarrow> int \<Rightarrow> ctx_err option" where
  "ctx_Err c now = (case cx_done c of None \<Rightarrow> None | Some (t, e, _) \<Rightarrow> if t \<le> now then Some e else None)"

definition deadline_error :: goerr where
  "deadline_error = errors_New ''context deadline exceeded''"

text \<open>
  \<open>context.WithTimeout\<close>: done when the parent is, or with \<open>DeadlineExceeded\<close> after the
  timeout (at once when it is not positive), whichever is first.
\<close>

definition WithTimeoutCtx :: "'v ctx \<Rightarrow> int \<Rightarrow> int \<Rightarrow> 'v ctx" where
  "WithTimeoutCtx c now timeout =
     (let d = max now (now + timeout) in
      case cx_done c of
        Some (t, e, cause) \<Rightarrow>
          if t \<le> d then c else c\<lparr>cx_done := Some (d, DeadlineExceeded, deadline_error)\<rparr>
      | None \<Rightarrow> c\<lparr>cx_done := Some (d, DeadlineExceeded, deadline_error)\<rparr>)"

text \<open>\<open>push.go\<close>: the pusher travels in the context.\<close>

definition ContextWithPusher :: "'v ctx \<Rightarrow> nat option \<Rightarrow> 'v ctx" where
  "ContextWithPusher c p = c\<lparr>cx_pusher := p\<rparr>"

definition PusherFromContext :: "'v ctx \<Rightarrow> nat option \<times> bool" where
  "PusherFromContext c = (cx_pusher c, cx_pusher c \<noteq> None)"

text \<open>How a call of user code ends: it returns, it panics with a value whose \<open>%v\<close> text is
  given, or it never comes back.\<close>

datatype 'a outcome = Returns 'a | Panics bytes | Hangs

type_synonym ('e, 'v) rpc_method =
  "'e \<Rightarrow> int \<Rightarrow> 'v ctx \<Rightarrow> slice \<Rightarrow> (slice \<times> int \<times> goerr option) outcome \<times> nat"
type_synonym ('e, 'v) interceptor =
  "'e \<Rightarrow> int \<Rightarrow> 'v ctx \<Rightarrow> bytes \<Rightarrow> slice \<Rightarrow> goany \<Rightarrow> ('v ctx \<times> int \<times> goerr option) outcome \<times> nat"
type_synonym ('e, 'v) middleware = "bytes \<Rightarrow> ('e, 'v) rpc_method \<Rightarrow> ('e, 'v) rpc_method"

record callinfo =
  ci_Method :: bytes
  ci_Code :: int
  ci_Err :: "rpc_error option"
  ci_Duration :: int
  ci_Notification :: bool

type_synonym ('e, 'v) observe_func = "'e \<Rightarrow> int \<Rightarrow> 'v ctx \<Rightarrow> callinfo \<Rightarrow> unit outcome \<times> nat"

text \<open>What the library does to the outside: log records and calls of the observer.\<close>

datatype attr = AttrInt bytes int | AttrErr bytes goerr | AttrPanic bytes bytes

datatype event = EvLog level bytes "attr list" | EvObserve callinfo

section \<open>Method metadata\<close>

text \<open>\<open>rtype\<close> stands for a \<open>reflect.Type\<close>.\<close>

type_synonym rtype = nat

record errorinfo =
  ei_Code :: int
  ei_Message :: bytes
  ei_Description :: bytes

record examplepair =
  xp_Name :: bytes
  xp_Params :: goany
  xp_Result :: goany

record methodinfo =
  mi_Name :: bytes
  mi_Params :: "rtype option"
  mi_Result :: "rtype option"
  mi_Summary :: bytes
  mi_Description :: bytes
  mi_Deprecated :: bool
  mi_Tags :: "bytes list"
  mi_Errors :: "errorinfo list"
  mi_Examples :: "examplepair list"
  mi_Extra :: "bytes \<rightharpoonup> goany"
  mi_PublishedExtra :: "bytes \<rightharpoonup> goany"
  mi_Public :: bool
  mi_Timeout :: int

definition zero_methodinfo :: methodinfo where
  "zero_methodinfo = \<lparr>mi_Name = [], mi_Params = None, mi_Result = None, mi_Summary = [],
     mi_Description = [], mi_Deprecated = False, mi_Tags = [], mi_Errors = [], mi_Examples = [],
     mi_Extra = Map.empty, mi_PublishedExtra = Map.empty, mi_Public = False, mi_Timeout = 0\<rparr>"

type_synonym method_option = "methodinfo \<Rightarrow> methodinfo"

definition WithSummary :: "bytes \<Rightarrow> method_option" where
  "WithSummary summary mi = mi\<lparr>mi_Summary := summary\<rparr>"
definition WithDescription :: "bytes \<Rightarrow> method_option" where
  "WithDescription d mi = mi\<lparr>mi_Description := d\<rparr>"
definition WithTags :: "bytes list \<Rightarrow> method_option" where
  "WithTags tags mi = mi\<lparr>mi_Tags := mi_Tags mi @ tags\<rparr>"
definition WithDeprecated :: method_option where
  "WithDeprecated mi = mi\<lparr>mi_Deprecated := True\<rparr>"
definition WithErrors :: "errorinfo list \<Rightarrow> method_option" where
  "WithErrors errs mi = mi\<lparr>mi_Errors := mi_Errors mi @ errs\<rparr>"
definition WithExample :: "bytes \<Rightarrow> goany \<Rightarrow> goany \<Rightarrow> method_option" where
  "WithExample name params result mi =
     mi\<lparr>mi_Examples := mi_Examples mi @ [\<lparr>xp_Name = name, xp_Params = params, xp_Result = result\<rparr>]\<rparr>"
definition WithTimeout :: "int \<Rightarrow> method_option" where
  "WithTimeout d mi = (if d > 0 then mi\<lparr>mi_Timeout := d\<rparr> else mi)"
definition WithExtra :: "bytes \<Rightarrow> goany \<Rightarrow> method_option" where
  "WithExtra key val mi = mi\<lparr>mi_Extra := (mi_Extra mi)(key \<mapsto> val)\<rparr>"
definition WithPublishedExtra :: "bytes \<Rightarrow> goany \<Rightarrow> method_option" where
  "WithPublishedExtra key val mi = mi\<lparr>mi_PublishedExtra := (mi_PublishedExtra mi)(key \<mapsto> val)\<rparr>"
definition WithPublic :: method_option where
  "WithPublic mi = mi\<lparr>mi_Public := True\<rparr>"

section \<open>The configuration snapshot\<close>

record ('e, 'v) config =
  cf_errors :: "int \<rightharpoonup> bytes"
  cf_methods :: "bytes \<rightharpoonup> ('e, 'v) rpc_method"
  cf_composed :: "bytes \<rightharpoonup> ('e, 'v) rpc_method"
  cf_methodInfo :: "bytes \<rightharpoonup> methodinfo"
  cf_globalInterceptors :: "('e, 'v) interceptor list"
  cf_middlewares :: "('e, 'v) middleware list"
  cf_defaultTimeOut :: int
  cf_logger :: "nat option"
  cf_observe :: "('e, 'v) observe_func option"
  cf_maxBatchSize :: int
  cf_batchConcurrency :: int
  cf_maxMessageSize :: int
  cf_enforcedTimeout :: bool

definition DefaultMaxBatchSize :: int where "DefaultMaxBatchSize = 100"

definition second :: int where "second = 1000000000"

definition default_errors :: "int \<rightharpoonup> bytes" where
  "default_errors =
     [ParseErrorCode \<mapsto> ''parse_error_not_well_formed'',
      InvalidRequestErrorCode \<mapsto> ''invalid_request_not_conforming_to_spec'',
      MethodNotFoundErrorCode \<mapsto> ''requested_method_not_found'',
      InvalidParamsErrorCode \<mapsto> ''invalid_method_parameters'',
      InternalErrorCode \<mapsto> ''internal_error'',
      MethodNotImplemented \<mapsto> ''method_not_implemented'',
      RequestTimeLimit \<mapsto> ''request_time_limit'']"

text \<open>\<open>slog.Default()\<close> is logger 0; \<open>gomaxprocs\<close> is \<open>runtime.GOMAXPROCS(0)\<close>.\<close>

definition New :: "int \<Rightarrow> ('e, 'v) config" where
  "New gomaxprocs = \<lparr>cf_errors = default_errors, cf_methods = Map.empty, cf_composed = Map.empty,
     cf_methodInfo = Map.empty, cf_globalInterceptors = [], cf_middlewares = [],
     cf_defaultTimeOut = 30 * second, cf_logger = Some 0, cf_observe = None,
     cf_maxBatchSize = DefaultMaxBatchSize, cf_batchConcurrency = 4 * gomaxprocs,
     cf_maxMessageSize = 0, cf_enforcedTimeout = False\<rparr>"

text \<open>\<open>compose\<close>: the loop runs from the last middleware to the first, so the first
  registered is the outermost.\<close>

definition wrap :: "('e, 'v) middleware list \<Rightarrow> bytes \<Rightarrow> ('e, 'v) rpc_method \<Rightarrow> ('e, 'v) rpc_method" where
  "wrap mws name m = foldl (\<lambda>h mw. mw name h) m (rev mws)"

definition compose :: "('e, 'v) config \<Rightarrow> ('e, 'v) config" where
  "compose c =
     (if length (cf_middlewares c) = 0 then c\<lparr>cf_composed := cf_methods c\<rparr>
      else c\<lparr>cf_composed := (\<lambda>name. map_option (wrap (cf_middlewares c) name) (cf_methods c name))\<rparr>)"

text \<open>
  \<open>update\<close>: \<open>mutate\<close> works on the copy and returns \<open>Inl\<close> an error or \<open>Inr\<close> the mutated
  copy, with the log records it wrote. The result is the returned error, the snapshot now
  installed, and the log records.
\<close>

type_synonym ('e, 'v) mutation = "('e, 'v) config \<Rightarrow> (goerr + ('e, 'v) config) \<times> event list"
type_synonym ('e, 'v) cfg_result = "goerr option \<times> ('e, 'v) config \<times> event list"

definition update :: "('e, 'v) mutation \<Rightarrow> bool \<Rightarrow> ('e, 'v) config \<Rightarrow> ('e, 'v) cfg_result" where
  "update mutate recompose c =
     (case mutate c of
        (Inl err, evs) \<Rightarrow> (Some err, c, evs)
      | (Inr nxt, evs) \<Rightarrow> (None, if recompose then compose nxt else nxt, evs))"

definition updateConfig :: "('e, 'v) mutation \<Rightarrow> ('e, 'v) config \<Rightarrow> ('e, 'v) cfg_result" where
  "updateConfig mutate c = update mutate False c"

definition updateRegistry :: "('e, 'v) mutation \<Rightarrow> ('e, 'v) config \<Rightarrow> ('e, 'v) cfg_result" where
  "updateRegistry mutate c = update mutate True c"

definition SetDefaultTimeOut :: "int \<Rightarrow> ('e, 'v) config \<Rightarrow> ('e, 'v) cfg_result" where
  "SetDefaultTimeOut timeout = updateConfig (\<lambda>c. (Inr (c\<lparr>cf_defaultTimeOut := timeout\<rparr>), []))"
definition SetLogger :: "nat option \<Rightarrow> ('e, 'v) config \<Rightarrow> ('e, 'v) cfg_result" where
  "SetLogger logger = updateConfig (\<lambda>c. (Inr (c\<lparr>cf_logger := logger\<rparr>), []))"
definition SetMaxBatchSize :: "int \<Rightarrow> ('e, 'v) config \<Rightarrow> ('e, 'v) cfg_result" where
  "SetMaxBatchSize n = updateConfig (\<lambda>c. (Inr (c\<lparr>cf_maxBatchSize := n\<rparr>), []))"
definition SetBatchConcurrency :: "int \<Rightarrow> ('e, 'v) config \<Rightarrow> ('e, 'v) cfg_result" where
  "SetBatchConcurrency n = updateConfig (\<lambda>c. (Inr (c\<lparr>cf_batchConcurrency := n\<rparr>), []))"
definition SetMaxMessageSize :: "int \<Rightarrow> ('e, 'v) config \<Rightarrow> ('e, 'v) cfg_result" where
  "SetMaxMessageSize n = updateConfig (\<lambda>c. (Inr (c\<lparr>cf_maxMessageSize := n\<rparr>), []))"
definition SetEnforcedTimeout :: "bool \<Rightarrow> ('e, 'v) config \<Rightarrow> ('e, 'v) cfg_result" where
  "SetEnforcedTimeout enabled = updateConfig (\<lambda>c. (Inr (c\<lparr>cf_enforcedTimeout := enabled\<rparr>), []))"
definition SetObserver :: "('e, 'v) observe_func option \<Rightarrow> ('e, 'v) config \<Rightarrow> ('e, 'v) cfg_result" where
  "SetObserver f = updateConfig (\<lambda>c. (Inr (c\<lparr>cf_observe := f\<rparr>), []))"
definition RegisterGlobalInterceptorCall :: "('e, 'v) interceptor \<Rightarrow> ('e, 'v) config \<Rightarrow> ('e, 'v) cfg_result" where
  "RegisterGlobalInterceptorCall m =
     updateConfig (\<lambda>c. (Inr (c\<lparr>cf_globalInterceptors := cf_globalInterceptors c @ [m]\<rparr>), []))"
definition Use :: "('e, 'v) middleware \<Rightarrow> ('e, 'v) config \<Rightarrow> ('e, 'v) cfg_result" where
  "Use mw = updateRegistry (\<lambda>c. (Inr (c\<lparr>cf_middlewares := cf_middlewares c @ [mw]\<rparr>), []))"

definition RegisterError :: "int \<Rightarrow> bytes \<Rightarrow> ('e, 'v) config \<Rightarrow> ('e, 'v) cfg_result" where
  "RegisterError code msg = updateConfig (\<lambda>c.
     if cf_errors c code \<noteq> None
     then (Inl (errors_New (''error with code '' @ itoa code @ '' already exists'')), [])
     else (Inr (c\<lparr>cf_errors := (cf_errors c)(code \<mapsto> msg)\<rparr>),
           if code \<ge> -32768 \<and> code \<le> -32000 \<and> cf_logger c \<noteq> None
           then [EvLog LevelWarn
                  ''jsonrpc: registering error code in the spec-reserved range -32768..-32000''
                  [AttrInt ''code'' code]]
           else []))"

text \<open>
  \<open>strconv.Quote\<close> (the verb \<open>%q\<close>). A well-formed rune beyond ASCII is copied, as the
  library does for the printable ones.
\<close>

definition quote_ascii :: "char \<Rightarrow> bytes" where
  "quote_ascii b =
     (if b = BSLASH \<or> b = QUOTE then [BSLASH, b]
      else if b = CHR 0x07 then [BSLASH, CHR ''a'']
      else if b = CHR 0x08 then [BSLASH, CHR ''b'']
      else if b = CHR 0x0C then [BSLASH, CHR ''f'']
      else if b = LF then [BSLASH, CHR ''n'']
      else if b = CR then [BSLASH, CHR ''r'']
      else if b = TAB then [BSLASH, CHR ''t'']
      else if b = CHR 0x0B then [BSLASH, CHR ''v'']
      else if byte_val b < 0x20 \<or> byte_val b \<ge> 0x7F
        then BSLASH # ''x'' @ [hex_digit (byte_val b div 16), hex_digit (byte_val b mod 16)]
      else [b])"

function quote_body :: "bytes \<Rightarrow> bytes" where
  "quote_body [] = []"
| "quote_body (b # bs) =
     (if byte_val b < 0x80 then quote_ascii b @ quote_body bs
      else case rune_size (b # bs) of
          None \<Rightarrow> quote_ascii b @ quote_body bs
        | Some n \<Rightarrow> take n (b # bs) @ quote_body (drop (n - 1) bs))"
  by pat_completeness auto
termination by (relation "measure length") auto

definition quoted :: "bytes \<Rightarrow> bytes" where "quoted s = QUOTE # quote_body s @ [QUOTE]"

definition rpcDiscover :: bytes where "rpcDiscover = ''rpc.discover''"

definition registerMethod :: "bytes \<Rightarrow> ('e, 'v) rpc_method \<Rightarrow> methodinfo \<Rightarrow> ('e, 'v) config \<Rightarrow> ('e, 'v) cfg_result" where
  "registerMethod name method info = updateRegistry (\<lambda>c.
     if has_prefix name ''rpc.'' \<and> name \<noteq> rpcDiscover
     then (Inl (errors_New (''method name '' @ quoted name @ '': the '' @ quoted ''rpc.'' @
                 '' prefix is reserved (JSON-RPC 2.0 '' @ [CHR 0xC2, CHR 0xA7] @ ''4.1); only '' @
                 quoted rpcDiscover @ '' is permitted'')), [])
     else if cf_methods c name \<noteq> None
     then (Inl (errors_New (''method '' @ quoted name @ '' already exists'')), [])
     else (Inr (c\<lparr>cf_methods := (cf_methods c)(name \<mapsto> method),
                 cf_methodInfo := (cf_methodInfo c)(name \<mapsto> info)\<rparr>), []))"

definition RegisterMethod :: "bytes \<Rightarrow> ('e, 'v) rpc_method \<Rightarrow> ('e, 'v) config \<Rightarrow> ('e, 'v) cfg_result" where
  "RegisterMethod name method = registerMethod name method (zero_methodinfo\<lparr>mi_Name := name\<rparr>)"

lemmas setter_defs = SetDefaultTimeOut_def SetLogger_def SetMaxBatchSize_def SetBatchConcurrency_def
  SetMaxMessageSize_def SetEnforcedTimeout_def SetObserver_def RegisterGlobalInterceptorCall_def

section \<open>Typed handlers\<close>

text \<open>
  \<open>Typed[P, R]\<close>: the reflection-driven conversions of \<open>encoding/json\<close> for the types P and R
  are \<open>unmarshal\<close> and \<open>marshal\<close>, and \<open>zero\<close> is P's zero value.
\<close>

record ('e, 'v, 'p, 'r) typed_codec =
  tc_zero :: 'p
  tc_unmarshal :: "bytes \<Rightarrow> goerr + 'p"
  tc_marshal :: "'r \<Rightarrow> goerr + bytes"
  tc_Params :: rtype
  tc_Result :: rtype
  tc_fn :: "'e \<Rightarrow> int \<Rightarrow> 'v ctx \<Rightarrow> 'p \<Rightarrow> ('r \<times> goerr option) outcome \<times> nat"

definition typed_params :: "('e, 'v, 'p, 'r) typed_codec \<Rightarrow> slice \<Rightarrow> goerr + 'p" where
  "typed_params tc data =
     (if slice_len data > 0
      then (case tc_unmarshal tc (slice_bytes data) of
              Inr p \<Rightarrow> Inr p
            | Inl err \<Rightarrow> if isEmptyJSONArray (slice_bytes data) then Inr (tc_zero tc)
                         else Inl (Errorf_w (''unmarshal params: '' @ goerr_Error err) err))
      else Inr (tc_zero tc))"

definition Typed :: "('e, 'v, 'p, 'r) typed_codec \<Rightarrow> ('e, 'v) rpc_method" where
  "Typed tc = (\<lambda>e now ctx data.
     case typed_params tc data of
       Inl err \<Rightarrow> (Returns (None, InvalidParamsErrorCode, Some err), 0)
     | Inr params \<Rightarrow>
         (case tc_fn tc e now ctx params of
            (Panics v, d) \<Rightarrow> (Panics v, d)
          | (Hangs, d) \<Rightarrow> (Hangs, d)
          | (Returns (result, Some err), d) \<Rightarrow> (Returns (None, InternalErrorCode, Some err), d)
          | (Returns (result, None), d) \<Rightarrow>
              (case tc_marshal tc result of
                 Inl err \<Rightarrow>
                   (Returns (None, InternalErrorCode,
                      Some (Errorf_w (''marshal result: '' @ goerr_Error err) err)), d)
               | Inr raw \<Rightarrow> (Returns (Some raw, OK, None), d))))"

definition RegisterTyped :: "bytes \<Rightarrow> ('e, 'v, 'p, 'r) typed_codec \<Rightarrow> method_option list \<Rightarrow>
    ('e, 'v) config \<Rightarrow> ('e, 'v) cfg_result" where
  "RegisterTyped name tc opts =
     (let info = zero_methodinfo\<lparr>mi_Name := name, mi_Params := Some (tc_Params tc),
                                 mi_Result := Some (tc_Result tc)\<rparr>
      in registerMethod name (Typed tc) (foldl (\<lambda>mi opt. opt mi) info opts))"

section \<open>Introspection\<close>

text \<open>
  \<open>Methods\<close>: the map is ranged over in some order of its keys, then sorted by name (the copies
  that \<open>MethodInfo.clone\<close> makes are in theory \<open>Store\<close>).
\<close>

definition Methods :: "bytes list \<Rightarrow> ('e, 'v) config \<Rightarrow> methodinfo list" where
  "Methods order c = sort_key mi_Name (map (\<lambda>k. the (cf_methodInfo c k)) order)"

end
