(* ===== verification/ConfigProps.thy ===== *)
theory ConfigProps
  imports Config
begin

text \<open>
  What the configuration guarantees: the registries are write-once maps (the locale
  \<open>write_once\<close>, interpreted for the error codes and for the methods), and every history of
  configuration calls keeps the invariant \<open>config_ok\<close> the dispatcher relies on.
\<close>

section \<open>Write-once registries\<close>

locale write_once =
  fixes lookup :: "'s \<Rightarrow> 'k \<Rightarrow> 'a option"
    and register :: "'k \<Rightarrow> 'a \<Rightarrow> 's \<Rightarrow> 'err option \<times> 's \<times> 'ev list"
    and permitted :: "'k \<Rightarrow> bool"
  assumes accepts: "register k v s = (None, s', evs) \<Longrightarrow> lookup s' = (lookup s)(k \<mapsto> v)"
    and rejects: "register k v s = (Some err, s', evs) \<Longrightarrow> s' = s"
    and decides: "fst (register k v s) = None \<longleftrightarrow> permitted k \<and> lookup s k = None"
begin

definition state_after :: "('k \<times> 'a) list \<Rightarrow> 's \<Rightarrow> 's" where
  "state_after xs s = foldl (\<lambda>s (k, v). fst (snd (register k v s))) s xs"

lemma lookup_register:
  "lookup (fst (snd (register k v s))) =
     (if permitted k \<and> lookup s k = None then (lookup s)(k \<mapsto> v) else lookup s)"
proof (cases "register k v s")
  case (fields res s' evs)
  then show ?thesis
    using accepts[of k v s s' evs] rejects[of k v s _ s' evs] decides[of k v s]
    by (cases res) auto
qed

text \<open>A registered entry is never replaced or removed by any later registrations.\<close>

lemma persists: "lookup s k = Some v \<Longrightarrow> lookup (state_after xs s) k = Some v"
proof (induction xs arbitrary: s)
  case Nil
  then show ?case by (simp add: state_after_def)
next
  case (Cons x xs)
  obtain k' v' where x: "x = (k', v')" by (cases x)
  have "lookup (fst (snd (register k' v' s))) k = Some v"
    using Cons.prems by (auto simp: lookup_register)
  from Cons.IH[OF this] show ?case by (simp add: state_after_def x)
qed

text \<open>The outcome of a sequence of registrations: the first permitted one of a key wins.\<close>

lemma first_wins:
  "lookup (state_after xs s) k =
     (case lookup s k of
        Some v \<Rightarrow> Some v
      | None \<Rightarrow> if permitted k then map_of xs k else None)"
proof (induction xs arbitrary: s)
  case Nil
  then show ?case by (simp add: state_after_def split: option.splits)
next
  case (Cons x xs)
  obtain k' v' where x: "x = (k', v')" by (cases x)
  show ?case
    using Cons.IH[of "fst (snd (register k' v' s))"]
    by (auto simp: state_after_def x lookup_register split: option.splits)
qed

end

lemma update_ok: "mutate c = (Inr c', evs) \<Longrightarrow> update mutate r c = (None, if r then compose c' else c', evs)"
  by (simp add: update_def)

lemma compose_simps [simp]:
  "cf_errors (compose c) = cf_errors c" "cf_methods (compose c) = cf_methods c"
  "cf_methodInfo (compose c) = cf_methodInfo c" "cf_middlewares (compose c) = cf_middlewares c"
  "cf_globalInterceptors (compose c) = cf_globalInterceptors c"
  "cf_logger (compose c) = cf_logger c" "cf_observe (compose c) = cf_observe c"
  "cf_defaultTimeOut (compose c) = cf_defaultTimeOut c"
  "cf_enforcedTimeout (compose c) = cf_enforcedTimeout c"
  "cf_maxBatchSize (compose c) = cf_maxBatchSize c"
  "cf_batchConcurrency (compose c) = cf_batchConcurrency c"
  "cf_maxMessageSize (compose c) = cf_maxMessageSize c"
  by (simp_all add: compose_def)

lemma compose_composed:
  "cf_composed (compose c) = (\<lambda>n. map_option (wrap (cf_middlewares c) n) (cf_methods c n))"
  by (auto simp: compose_def wrap_def[abs_def] fun_eq_iff option.map_ident)

lemma RegisterError_cases:
  "RegisterError code msg c =
     (case cf_errors c code of
        Some _ \<Rightarrow> (Some (errors_New (''error with code '' @ itoa code @ '' already exists'')), c, [])
      | None \<Rightarrow> (None, c\<lparr>cf_errors := (cf_errors c)(code \<mapsto> msg)\<rparr>,
           if code \<ge> -32768 \<and> code \<le> -32000 \<and> cf_logger c \<noteq> None
           then [EvLog LevelWarn
                  ''jsonrpc: registering error code in the spec-reserved range -32768..-32000''
                  [AttrInt ''code'' code]]
           else []))"
  by (simp add: RegisterError_def updateConfig_def update_def split: option.splits)

interpretation error_codes: write_once cf_errors RegisterError "\<lambda>_. True"
  by unfold_locales (auto simp: RegisterError_cases split: option.splits)

definition method_permitted :: "bytes \<Rightarrow> bool" where
  "method_permitted name \<longleftrightarrow> \<not> has_prefix name ''rpc.'' \<or> name = rpcDiscover"

lemma registerMethod_accepts:
  "method_permitted n \<Longrightarrow> cf_methods c n = None \<Longrightarrow>
     registerMethod n m i c = (None, compose (c\<lparr>cf_methods := (cf_methods c)(n \<mapsto> m),
                            cf_methodInfo := (cf_methodInfo c)(n \<mapsto> i)\<rparr>), [])"
  by (simp add: registerMethod_def updateRegistry_def update_def method_permitted_def)

lemma registerMethod_rejects:
  "\<not> (method_permitted n \<and> cf_methods c n = None) \<Longrightarrow> \<exists>err. registerMethod n m i c = (Some err, c, [])"
  by (auto simp: registerMethod_def updateRegistry_def update_def method_permitted_def)

lemma registerMethod_elims:
  obtains "method_permitted n" "cf_methods c n = None"
    "registerMethod n m i c = (None, compose (c\<lparr>cf_methods := (cf_methods c)(n \<mapsto> m),
                            cf_methodInfo := (cf_methodInfo c)(n \<mapsto> i)\<rparr>), [])"
  | err where "\<not> (method_permitted n \<and> cf_methods c n = None)"
    "registerMethod n m i c = (Some err, c, [])"
  using registerMethod_accepts registerMethod_rejects by metis

interpretation method_names: write_once cf_methods "\<lambda>n m. registerMethod n m (info n)" method_permitted
  for info
proof unfold_locales
  fix k v s s' evs err
  show "registerMethod k v (info k) s = (None, s', evs) \<Longrightarrow> cf_methods s' = (cf_methods s)(k \<mapsto> v)"
    and "registerMethod k v (info k) s = (Some err, s', evs) \<Longrightarrow> s' = s"
    and "fst (registerMethod k v (info k) s) = None \<longleftrightarrow> method_permitted k \<and> cf_methods s k = None"
    by (rule registerMethod_elims[of k s v "info k"]; auto)+
qed

section \<open>Configuration histories\<close>

text \<open>The exported configuration calls, as data, so that a history is a list of them.\<close>

datatype ('e, 'v) config_op =
    OpSetDefaultTimeOut int | OpSetLogger "nat option" | OpSetMaxBatchSize int
  | OpSetBatchConcurrency int | OpSetMaxMessageSize int | OpSetEnforcedTimeout bool
  | OpSetObserver "('e, 'v) observe_func option"
  | OpRegisterGlobalInterceptorCall "('e, 'v) interceptor"
  | OpUse "('e, 'v) middleware" | OpRegisterError int bytes
  | OpRegisterMethod bytes "('e, 'v) rpc_method" methodinfo

fun apply_op :: "('e, 'v) config_op \<Rightarrow> ('e, 'v) config \<Rightarrow> ('e, 'v) cfg_result" where
  "apply_op (OpSetDefaultTimeOut t) = SetDefaultTimeOut t"
| "apply_op (OpSetLogger l) = SetLogger l"
| "apply_op (OpSetMaxBatchSize n) = SetMaxBatchSize n"
| "apply_op (OpSetBatchConcurrency n) = SetBatchConcurrency n"
| "apply_op (OpSetMaxMessageSize n) = SetMaxMessageSize n"
| "apply_op (OpSetEnforcedTimeout b) = SetEnforcedTimeout b"
| "apply_op (OpSetObserver f) = SetObserver f"
| "apply_op (OpRegisterGlobalInterceptorCall i) = RegisterGlobalInterceptorCall i"
| "apply_op (OpUse mw) = Use mw"
| "apply_op (OpRegisterError code msg) = RegisterError code msg"
| "apply_op (OpRegisterMethod n m i) = registerMethod n m i"

definition run_ops :: "('e, 'v) config_op list \<Rightarrow> ('e, 'v) config \<Rightarrow> ('e, 'v) config" where
  "run_ops ops c = foldl (\<lambda>c op. fst (snd (apply_op op c))) c ops"

text \<open>
  The invariant: the predefined codes keep their messages; methods and metadata have the same
  names, none of them reserved; and the dispatch map is the registry wrapped in the current
  middleware, the first registered outermost.
\<close>

definition config_ok :: "('e, 'v) config \<Rightarrow> bool" where
  "config_ok c \<longleftrightarrow>
     default_errors \<subseteq>\<^sub>m cf_errors c \<and>
     dom (cf_methodInfo c) = dom (cf_methods c) \<and>
     (\<forall>n \<in> dom (cf_methods c). method_permitted n) \<and>
     (\<forall>n. cf_composed c n = map_option (\<lambda>m. foldr (\<lambda>mw h. mw n h) (cf_middlewares c) m) (cf_methods c n))"

lemma config_ok_New: "config_ok (New p)"
  by (simp add: config_ok_def New_def)

lemma wrap_foldr: "wrap mws n m = foldr (\<lambda>mw h. mw n h) mws m"
  by (simp add: wrap_def foldl_conv_foldr)

lemma config_ok_setter:
  assumes "config_ok c" "cf_errors c' = cf_errors c" "cf_methods c' = cf_methods c"
    "cf_composed c' = cf_composed c" "cf_methodInfo c' = cf_methodInfo c"
    "cf_middlewares c' = cf_middlewares c"
  shows "config_ok c'"
  using assms by (simp add: config_ok_def)

lemma config_ok_compose:
  assumes "default_errors \<subseteq>\<^sub>m cf_errors c" "dom (cf_methodInfo c) = dom (cf_methods c)"
    "\<forall>n \<in> dom (cf_methods c). method_permitted n"
  shows "config_ok (compose c)"
  using assms unfolding config_ok_def compose_composed by (simp add: wrap_foldr[abs_def])

lemma config_ok_apply_op: "config_ok c \<Longrightarrow> config_ok (fst (snd (apply_op op c)))"
proof (cases op)
  case (OpUse mw)
  assume "config_ok c"
  then have "config_ok (compose (c\<lparr>cf_middlewares := cf_middlewares c @ [mw]\<rparr>))"
    by (intro config_ok_compose) (simp_all add: config_ok_def[of c])
  then show ?thesis by (simp add: OpUse Use_def updateRegistry_def update_def)
next
  case (OpRegisterError code msg)
  assume "config_ok c"
  then show ?thesis
    by (auto simp: OpRegisterError RegisterError_cases config_ok_def map_le_def dom_def split: option.splits)
next
  case (OpRegisterMethod n m i)
  assume ok: "config_ok c"
  show ?thesis
  proof (rule registerMethod_elims[of n c m i])
    assume n: "method_permitted n"
      and r: "registerMethod n m i c = (None, compose (c\<lparr>cf_methods := (cf_methods c)(n \<mapsto> m),
                            cf_methodInfo := (cf_methodInfo c)(n \<mapsto> i)\<rparr>), [])"
    show ?thesis
      unfolding OpRegisterMethod apply_op.simps r fst_conv snd_conv
      by (rule config_ok_compose) (use ok n in \<open>simp_all add: config_ok_def[of c]\<close>)
  qed (use ok in \<open>simp add: OpRegisterMethod\<close>)
qed (auto simp: setter_defs updateConfig_def update_def elim: config_ok_setter)

lemma config_ok_run_ops: "config_ok c \<Longrightarrow> config_ok (run_ops ops c)"
  by (induction ops arbitrary: c) (simp_all add: run_ops_def config_ok_apply_op)


section \<open>Properties of the configuration\<close>

text \<open>
  C24: every history of configuration calls on a fresh server leaves a snapshot the dispatcher
  can rely on: the predefined error codes keep their messages, methods and metadata cover the
  same names and none is reserved, and the dispatch map is the registry wrapped in the
  middleware of the moment, the first \<open>Use\<close>d one outermost.
\<close>

theorem config_history_invariant: "config_ok (run_ops ops (New gomaxprocs))"
  by (simp add: config_ok_run_ops config_ok_New)

text \<open>
  Error codes are write-once: after any sequence of \<open>RegisterError\<close> calls a code has the
  message it had before, or else the one of its first registration; in particular the
  predefined codes cannot be redefined.
\<close>

theorem RegisterError_write_once:
  "cf_errors (foldl (\<lambda>c (code, msg). fst (snd (RegisterError code msg c))) c regs) code =
     (case cf_errors c code of Some msg \<Rightarrow> Some msg | None \<Rightarrow> map_of regs code)"
  using error_codes.first_wins[of regs c code] by (simp add: error_codes.state_after_def)

text \<open>
  Method names are write-once and reserved names never enter the registry: after any
  sequence of registrations a name has the handler it had before, or the first one registered
  under it if the name is permitted (not \<open>rpc.\<close>-prefixed, or \<open>rpc.discover\<close>).
\<close>

theorem registerMethod_write_once:
  "cf_methods (foldl (\<lambda>c (name, m). fst (snd (registerMethod name m (info name) c))) c regs) name =
     (case cf_methods c name of
        Some m \<Rightarrow> Some m
      | None \<Rightarrow> if has_prefix name ''rpc.'' \<and> name \<noteq> rpcDiscover then None else map_of regs name)"
  using method_names.first_wins[of info regs c name]
  by (cases "cf_methods c name") (auto simp: method_names.state_after_def method_permitted_def)

lemma sort_key_sorted_list_of_set:
  assumes "distinct ks" "\<And>k. k \<in> set ks \<Longrightarrow> g (f k) = k"
  shows "sort_key g (map f ks) = map f (sorted_list_of_set (set ks))"
proof (rule map_sorted_distinct_set_unique[of g])
  show "inj_on g (set (sort_key g (map f ks)) \<union> set (map f (sorted_list_of_set (set ks))))"
    using assms(2) by (auto simp: inj_on_def)
  have gf: "map (g \<circ> f) ks = ks" using assms(2) by (simp add: map_idI)
  show "sorted (map g (sort_key g (map f ks)))" by simp
  have "distinct (map g (map f ks))" using gf assms(1) by simp
  then show "distinct (map g (sort_key g (map f ks)))"
    by (auto simp: distinct_map inj_on_def)
  have "map (g \<circ> f) (sorted_list_of_set (set ks)) = sorted_list_of_set (set ks)"
    by (rule map_idI) (simp add: assms(2))
  then show "sorted (map g (map f (sorted_list_of_set (set ks))))"
    and "distinct (map g (map f (sorted_list_of_set (set ks))))" by simp_all
  show "set (sort_key g (map f ks)) = set (map f (sorted_list_of_set (set ks)))" by simp
qed

text \<open>
  \<open>Methods\<close> does not depend on Go's random map order: as long as each metadata entry
  carries the name it is stored under, the result lists every registered method exactly once,
  in ascending order of the names, whatever order the map was ranged over.
\<close>

theorem Methods_deterministic:
  assumes "distinct order" "set order = dom (cf_methodInfo c)"
    and "\<And>n i. cf_methodInfo c n = Some i \<Longrightarrow> mi_Name i = n"
  shows "Methods order c = map (\<lambda>n. the (cf_methodInfo c n)) (sorted_list_of_set (dom (cf_methodInfo c)))"
  unfolding Methods_def assms(2)[symmetric]
  by (rule sort_key_sorted_list_of_set[OF assms(1)]) (use assms(2,3) in auto)

definition sample_server :: "(unit, unit) config" where
  "sample_server = run_ops
     [OpRegisterMethod ''b'' (\<lambda>e now ctx data. (Returns (data, OK, None), 1)) (zero_methodinfo\<lparr>mi_Name := ''b''\<rparr>),
      OpRegisterMethod ''a'' (\<lambda>e now ctx data. (Returns (data, OK, None), 1)) (zero_methodinfo\<lparr>mi_Name := ''a''\<rparr>)]
     (New 1)"

lemma sample_server_info: "cf_methodInfo sample_server =
    [''b'' \<mapsto> zero_methodinfo\<lparr>mi_Name := ''b''\<rparr>, ''a'' \<mapsto> zero_methodinfo\<lparr>mi_Name := ''a''\<rparr>]"
  by (simp add: sample_server_def run_ops_def registerMethod_def updateRegistry_def update_def New_def compose_def)

theorem Methods_deterministic_witness:
  "Methods [''b'', ''a''] sample_server =
     map (\<lambda>n. the (cf_methodInfo sample_server n)) (sorted_list_of_set (dom (cf_methodInfo sample_server)))"
  by (rule Methods_deterministic) (auto simp: sample_server_info split: if_splits)

section \<open>Typed handlers\<close>

lemma compact_loop_dead: "\<not> alive s \<Longrightarrow> compact_loop s xs = None"
proof (induction xs arbitrary: s)
  case Nil
  then show ?case by (simp add: scan_eof_ok_def alive_def)
next
  case (Cons c cs)
  then show ?case using step1_dead[of s c] by (auto split: prod.splits)
qed

definition empty_st :: "nat \<Rightarrow> scanner" where
  "empty_st seen = (if seen = 0 then scanner_init
     else if seen = 1 then \<lparr>sc_step = BeginValueOrEmpty, sc_stack = [ParseArrayValue], sc_endTop = False\<rparr>
     else \<lparr>sc_step = EndTop, sc_stack = [], sc_endTop = True\<rparr>)"

lemma emptyarr_compact:
  "seen \<le> 2 \<Longrightarrow>
     (case byte_loop emptyarr_body i xs seen of Inl r \<Rightarrow> r | Inr s \<Rightarrow> s = 2) \<longleftrightarrow>
     compact_loop (empty_st seen) xs = Some (drop seen ''[]'')"
proof (induction xs arbitrary: i seen)
  case Nil
  then show ?case
    by (auto simp: empty_st_def scanner_init_def scan_eof_ok_def state_fun_defs char_class_defs)
next
  case (Cons c cs)
  note ih = Cons.IH[of _ "Suc i"]
  have seen: "seen = 0 \<or> seen = 1 \<or> seen = 2" using Cons.prems by linarith
  have dead: "compact_loop (s\<lparr>sc_step := StError\<rparr>) cs = None" for s
    by (rule compact_loop_dead) (simp add: alive_def)
  consider "isSpace c" | "c = LBRACK" | "c = RBRACK" | "\<not> isSpace c" "c \<noteq> LBRACK" "c \<noteq> RBRACK" by blast
  then show ?case
  proof cases
    case 1
    then have "emptyarr_body i c seen = Inr seen" by (auto simp: emptyarr_body_def isSpace_def)
    moreover have "scan_step (empty_st seen) c =
        (empty_st seen, if seen = 2 then ScanEnd else ScanSkipSpace)"
      using seen 1 by (auto simp: empty_st_def scanner_init_def scan_step_def state_fun_defs)
    ultimately show ?thesis using ih[OF Cons.prems] by simp
  next
    case 2
    then have "emptyarr_body i c seen = (if seen \<noteq> 0 then Inl False else Inr 1)"
      by (simp add: emptyarr_body_def)
    moreover have "compact_loop (empty_st seen) (c # cs) =
        (if seen = 0 then map_option (\<lambda>out. c # out) (compact_loop (empty_st 1) cs)
         else if seen = 1 then compact_loop (empty_st 1) (c # cs) else None)"
      using seen 2 dead[of "empty_st 2"]
      by (auto simp: empty_st_def scanner_init_def scan_step_def state_fun_defs maxNestingDepth_def char_class_defs)
    moreover have "compact_loop (empty_st 1) (c # cs) \<noteq> Some '']''"
      using 2 by (auto simp: empty_st_def scan_step_def state_fun_defs char_class_defs maxNestingDepth_def
          split: prod.splits if_splits)
    ultimately show ?thesis using seen 2 ih[of 1] by (auto simp: drop_Cons')
  next
    case 3
    then have "emptyarr_body i c seen = (if seen \<noteq> 1 then Inl False else Inr 2)"
      by (simp add: emptyarr_body_def)
    moreover have "compact_loop (empty_st seen) (c # cs) =
        (if seen = 1 then map_option (\<lambda>out. c # out) (compact_loop (empty_st 2) cs) else None)"
      using seen 3 dead[of "empty_st 2"]
      by (auto simp: empty_st_def scanner_init_def scan_step_def state_fun_defs maxNestingDepth_def char_class_defs)
    ultimately show ?thesis using seen 3 ih[of 2] by (auto simp: drop_Cons')
  next
    case 4
    then have "emptyarr_body i c seen = Inl False"
      by (auto simp: emptyarr_body_def isSpace_def)
    moreover have "compact_loop (empty_st seen) (c # cs) \<noteq> Some (drop seen ''[]'')"
    proof (cases "seen = 2")
      case True
      then show ?thesis using 4 dead[of "empty_st 2"]
        by (simp add: empty_st_def scan_step_def state_fun_defs)
    next
      case False
      have "snd (scan_step (empty_st seen) c) \<noteq> ScanSkipSpace \<and> snd (scan_step (empty_st seen) c) \<noteq> ScanEnd"
        using 4 seen False
        by (auto simp: empty_st_def scanner_init_def scan_step_def stateBeginValue_def
            stateBeginValueOrEmpty_def scan_error_def pushParseState_def Let_def)
      then show ?thesis using 4 seen False by (auto split: prod.splits if_splits)
    qed
    ultimately show ?thesis by simp
  qed
qed

text \<open>
  \<open>isEmptyJSONArray\<close> accepts exactly the spellings of the empty JSON array: its answer is
  yes if and only if the standard library compacts the bytes to \<open>[]\<close>.
\<close>

theorem isEmptyJSONArray_iff: "isEmptyJSONArray data \<longleftrightarrow> Compact data = Some ''[]''"
  using emptyarr_compact[of 0 0 data] by (simp add: isEmptyJSONArray_def Compact_def empty_st_def)

end
