(* ===== verification/Store.thy ===== *)
theory Store
  imports Config
begin

text \<open>
  The configuration as it is in memory: \<open>config.clone\<close>, \<open>update\<close>, \<open>compose\<close> (\<open>main.go\<close>,
  \<open>middleware.go\<close>), \<open>MethodInfo.clone\<close>, \<open>Methods\<close> and the options of \<open>RegisterTyped\<close>
  (\<open>methodinfo.go\<close>, \<open>typed.go\<close>) with their pointers, maps and slices. Theory \<open>Config\<close> has
  the same operations on immutable values; theory \<open>StoreProps\<close> proves that the writes done
  here can be understood so.

  A pointer, a map or the array of a slice is a position in a list of cells, one list per type;
  allocation appends a cell. The cell of an array has what was written to it so far and its
  capacity; a slice is an array and a length, or nil. \<open>grow\<close> is the capacity the runtime gives an
  array of a certain length.
\<close>

section \<open>Slices and maps\<close>

type_synonym 'a arrays = "('a list \<times> nat) list"
type_synonym slice_ref = "(nat \<times> nat) option"
type_synonym map_ref = "nat option"

definition elems :: "'a arrays \<Rightarrow> slice_ref \<Rightarrow> 'a list" where
  "elems m r = (case r of None \<Rightarrow> [] | Some (a, n) \<Rightarrow> take n (fst (m ! a)))"

text \<open>The builtin \<open>append\<close>: in place where the capacity allows it.\<close>

definition append_ref :: "(nat \<Rightarrow> nat) \<Rightarrow> slice_ref \<Rightarrow> 'a list \<Rightarrow> 'a arrays \<Rightarrow> slice_ref \<times> 'a arrays" where
  "append_ref grow r xs m =
     (if xs = [] then (r, m)
      else case r of
          None \<Rightarrow> (Some (length m, length xs), m @ [(xs, max (length xs) (grow (length xs)))])
        | Some (a, n) \<Rightarrow>
            (let k = n + length xs; es = fst (m ! a) in
             if k \<le> snd (m ! a)
             then (Some (a, k), m[a := (take n es @ xs @ drop k es, snd (m ! a))])
             else (Some (length m, k), m @ [(take n es @ xs, max k (grow k))])))"

text \<open>\<open>append([]T(nil), r...)\<close>\<close>

definition copy_slice :: "(nat \<Rightarrow> nat) \<Rightarrow> slice_ref \<Rightarrow> 'a arrays \<Rightarrow> slice_ref \<times> 'a arrays" where
  "copy_slice grow r m = append_ref grow None (elems m r) m"

definition map_at :: "('k \<rightharpoonup> 'a) list \<Rightarrow> map_ref \<Rightarrow> 'k \<rightharpoonup> 'a" where
  "map_at m r = (case r of None \<Rightarrow> Map.empty | Some a \<Rightarrow> m ! a)"

definition copy_map :: "map_ref \<Rightarrow> ('k \<rightharpoonup> 'a) list \<Rightarrow> map_ref \<times> ('k \<rightharpoonup> 'a) list" where
  "copy_map r m = (case r of None \<Rightarrow> (None, m) | Some a \<Rightarrow> (Some (length m), m @ [m ! a]))"

text \<open>A write through a map that is made first when it is nil.\<close>

definition put_map :: "map_ref \<Rightarrow> 'k \<Rightarrow> 'a \<Rightarrow> ('k \<rightharpoonup> 'a) list \<Rightarrow> map_ref \<times> ('k \<rightharpoonup> 'a) list" where
  "put_map r k v m =
     (case r of
        None \<Rightarrow> (Some (length m), m @ [[k \<mapsto> v]])
      | Some a \<Rightarrow> (Some a, m[a := (m ! a)(k \<mapsto> v)]))"

section \<open>The store\<close>

record info_ref =
  ir_Name :: bytes
  ir_Params :: "rtype option"
  ir_Result :: "rtype option"
  ir_Summary :: bytes
  ir_Description :: bytes
  ir_Deprecated :: bool
  ir_Tags :: slice_ref
  ir_Errors :: slice_ref
  ir_Examples :: slice_ref
  ir_Extra :: map_ref
  ir_PublishedExtra :: map_ref
  ir_Public :: bool
  ir_Timeout :: int

record ('e, 'v) config_ref =
  cr_errors :: nat
  cr_methods :: nat
  cr_composed :: nat
  cr_methodInfo :: nat
  cr_globalInterceptors :: slice_ref
  cr_middlewares :: slice_ref
  cr_defaultTimeOut :: int
  cr_logger :: "nat option"
  cr_observe :: "('e, 'v) observe_func option"
  cr_maxBatchSize :: int
  cr_batchConcurrency :: int
  cr_maxMessageSize :: int
  cr_enforcedTimeout :: bool

record info_cells =
  ic_tags :: "bytes arrays"
  ic_errors :: "errorinfo arrays"
  ic_examples :: "examplepair arrays"
  ic_extras :: "(bytes \<rightharpoonup> goany) list"

record ('e, 'v) store = info_cells +
  st_errors :: "(int \<rightharpoonup> bytes) list"
  st_methods :: "(bytes \<rightharpoonup> ('e, 'v) rpc_method) list"
  st_infos :: "(bytes \<rightharpoonup> info_ref) list"
  st_interceptors :: "('e, 'v) interceptor arrays"
  st_middlewares :: "('e, 'v) middleware arrays"
  st_configs :: "('e, 'v) config_ref list"

text \<open>What a \<open>MethodInfo\<close> and the configuration behind a pointer are as values.\<close>

definition info_value :: "'x info_cells_scheme \<Rightarrow> info_ref \<Rightarrow> methodinfo" where
  "info_value s i = \<lparr>mi_Name = ir_Name i, mi_Params = ir_Params i, mi_Result = ir_Result i,
     mi_Summary = ir_Summary i, mi_Description = ir_Description i, mi_Deprecated = ir_Deprecated i,
     mi_Tags = elems (ic_tags s) (ir_Tags i), mi_Errors = elems (ic_errors s) (ir_Errors i),
     mi_Examples = elems (ic_examples s) (ir_Examples i), mi_Extra = map_at (ic_extras s) (ir_Extra i),
     mi_PublishedExtra = map_at (ic_extras s) (ir_PublishedExtra i), mi_Public = ir_Public i,
     mi_Timeout = ir_Timeout i\<rparr>"

definition ref_value :: "('e, 'v) store \<Rightarrow> ('e, 'v) config_ref \<Rightarrow> ('e, 'v) config" where
  "ref_value s c = \<lparr>cf_errors = st_errors s ! cr_errors c, cf_methods = st_methods s ! cr_methods c,
     cf_composed = st_methods s ! cr_composed c,
     cf_methodInfo = (\<lambda>n. map_option (info_value s) ((st_infos s ! cr_methodInfo c) n)),
     cf_globalInterceptors = elems (st_interceptors s) (cr_globalInterceptors c),
     cf_middlewares = elems (st_middlewares s) (cr_middlewares c),
     cf_defaultTimeOut = cr_defaultTimeOut c, cf_logger = cr_logger c, cf_observe = cr_observe c,
     cf_maxBatchSize = cr_maxBatchSize c, cf_batchConcurrency = cr_batchConcurrency c,
     cf_maxMessageSize = cr_maxMessageSize c, cf_enforcedTimeout = cr_enforcedTimeout c\<rparr>"

definition config_value :: "('e, 'v) store \<Rightarrow> nat \<Rightarrow> ('e, 'v) config" where
  "config_value s p = ref_value s (st_configs s ! p)"

section \<open>Copies\<close>

definition clone_info :: "(nat \<Rightarrow> nat) \<Rightarrow> info_ref \<Rightarrow> 'x info_cells_scheme \<Rightarrow> info_ref \<times> 'x info_cells_scheme" where
  "clone_info grow i s =
     (case copy_slice grow (ir_Tags i) (ic_tags s) of (tags, m1) \<Rightarrow>
      case copy_slice grow (ir_Errors i) (ic_errors s) of (errs, m2) \<Rightarrow>
      case copy_slice grow (ir_Examples i) (ic_examples s) of (exs, m3) \<Rightarrow>
      case copy_map (ir_Extra i) (ic_extras s) of (extra, m4) \<Rightarrow>
      case copy_map (ir_PublishedExtra i) m4 of (published, m5) \<Rightarrow>
        (i\<lparr>ir_Tags := tags, ir_Errors := errs, ir_Examples := exs, ir_Extra := extra,
           ir_PublishedExtra := published\<rparr>,
         s\<lparr>ic_tags := m1, ic_errors := m2, ic_examples := m3, ic_extras := m5\<rparr>))"

text \<open>\<open>config.clone\<close>: the map of the infos is copied, the infos in it share their slices and maps.\<close>

definition clone_config :: "(nat \<Rightarrow> nat) \<Rightarrow> nat \<Rightarrow> ('e, 'v) store \<Rightarrow> nat \<times> ('e, 'v) store" where
  "clone_config grow p s =
     (let c = st_configs s ! p in
      case copy_slice grow (cr_globalInterceptors c) (st_interceptors s) of (ints, m1) \<Rightarrow>
      case copy_slice grow (cr_middlewares c) (st_middlewares s) of (mws, m2) \<Rightarrow>
        (length (st_configs s),
         s\<lparr>st_errors := st_errors s @ [st_errors s ! cr_errors c],
           st_methods := st_methods s @ [st_methods s ! cr_methods c],
           st_infos := st_infos s @ [st_infos s ! cr_methodInfo c],
           st_interceptors := m1, st_middlewares := m2,
           st_configs := st_configs s @
             [c\<lparr>cr_errors := length (st_errors s), cr_methods := length (st_methods s),
                cr_methodInfo := length (st_infos s), cr_globalInterceptors := ints,
                cr_middlewares := mws\<rparr>]\<rparr>))"

section \<open>Configuration writers\<close>

text \<open>A \<open>mutate\<close> writes through its pointer to the copy.\<close>

type_synonym ('e, 'v) mutation_ref = "nat \<Rightarrow> ('e, 'v) store \<Rightarrow> goerr option \<times> event list \<times> ('e, 'v) store"

definition set_fields :: "(('e, 'v) config_ref \<Rightarrow> ('e, 'v) config_ref) \<Rightarrow> nat \<Rightarrow> ('e, 'v) store \<Rightarrow> ('e, 'v) store" where
  "set_fields f p s = s\<lparr>st_configs := (st_configs s)[p := f (st_configs s ! p)]\<rparr>"

definition compose_ref :: "nat \<Rightarrow> ('e, 'v) store \<Rightarrow> ('e, 'v) store" where
  "compose_ref p s =
     (let c = st_configs s ! p; mws = elems (st_middlewares s) (cr_middlewares c) in
      if length mws = 0 then set_fields (\<lambda>c. c\<lparr>cr_composed := cr_methods c\<rparr>) p s
      else set_fields (\<lambda>c. c\<lparr>cr_composed := length (st_methods s)\<rparr>) p
        (s\<lparr>st_methods := st_methods s @
           [\<lambda>name. map_option (wrap mws name) ((st_methods s ! cr_methods c) name)]\<rparr>))"

definition update_ref :: "(nat \<Rightarrow> nat) \<Rightarrow> ('e, 'v) mutation_ref \<Rightarrow> bool \<Rightarrow> nat \<Rightarrow> ('e, 'v) store \<Rightarrow>
    goerr option \<times> nat \<times> event list \<times> ('e, 'v) store" where
  "update_ref grow mutate recompose cfg s =
     (case clone_config grow cfg s of (nxt, s1) \<Rightarrow>
      case mutate nxt s1 of
        (Some err, evs, s2) \<Rightarrow> (Some err, cfg, evs, s2)
      | (None, evs, s2) \<Rightarrow> (None, nxt, evs, if recompose then compose_ref nxt s2 else s2))"

definition mutate_fields :: "(('e, 'v) config_ref \<Rightarrow> ('e, 'v) config_ref) \<Rightarrow> ('e, 'v) mutation_ref" where
  "mutate_fields f p s = (None, [], set_fields f p s)"

definition mutate_RegisterGlobalInterceptorCall :: "(nat \<Rightarrow> nat) \<Rightarrow> ('e, 'v) interceptor \<Rightarrow> ('e, 'v) mutation_ref" where
  "mutate_RegisterGlobalInterceptorCall grow m p s =
     (case append_ref grow (cr_globalInterceptors (st_configs s ! p)) [m] (st_interceptors s) of (r, ms) \<Rightarrow>
        (None, [], set_fields (\<lambda>c. c\<lparr>cr_globalInterceptors := r\<rparr>) p (s\<lparr>st_interceptors := ms\<rparr>)))"

definition mutate_Use :: "(nat \<Rightarrow> nat) \<Rightarrow> ('e, 'v) middleware \<Rightarrow> ('e, 'v) mutation_ref" where
  "mutate_Use grow mw p s =
     (case append_ref grow (cr_middlewares (st_configs s ! p)) [mw] (st_middlewares s) of (r, ms) \<Rightarrow>
        (None, [], set_fields (\<lambda>c. c\<lparr>cr_middlewares := r\<rparr>) p (s\<lparr>st_middlewares := ms\<rparr>)))"

text \<open>The errors and log records are those of theory \<open>Config\<close>; the writes go to the maps of the copy.\<close>

definition mutate_RegisterError :: "int \<Rightarrow> bytes \<Rightarrow> ('e, 'v) mutation_ref" where
  "mutate_RegisterError code msg p s =
     (let c = st_configs s ! p; a = cr_errors c in
      if (st_errors s ! a) code \<noteq> None
      then (Some (errors_New (''error with code '' @ itoa code @ '' already exists'')), [], s)
      else (None,
            if code \<ge> -32768 \<and> code \<le> -32000 \<and> cr_logger c \<noteq> None
            then [EvLog LevelWarn
                   ''jsonrpc: registering error code in the spec-reserved range -32768..-32000''
                   [AttrInt ''code'' code]]
            else [],
            s\<lparr>st_errors := (st_errors s)[a := (st_errors s ! a)(code \<mapsto> msg)]\<rparr>))"

definition mutate_registerMethod :: "bytes \<Rightarrow> ('e, 'v) rpc_method \<Rightarrow> info_ref \<Rightarrow> ('e, 'v) mutation_ref" where
  "mutate_registerMethod name method info p s =
     (let c = st_configs s ! p; a = cr_methods c; b = cr_methodInfo c in
      if has_prefix name ''rpc.'' \<and> name \<noteq> rpcDiscover
      then (Some (errors_New (''method name '' @ quoted name @ '': the '' @ quoted ''rpc.'' @
                 '' prefix is reserved (JSON-RPC 2.0 '' @ [CHR 0xC2, CHR 0xA7] @ ''4.1); only '' @
                 quoted rpcDiscover @ '' is permitted'')), [], s)
      else if (st_methods s ! a) name \<noteq> None
      then (Some (errors_New (''method '' @ quoted name @ '' already exists'')), [], s)
      else (None, [], s\<lparr>st_methods := (st_methods s)[a := (st_methods s ! a)(name \<mapsto> method)],
                        st_infos := (st_infos s)[b := (st_infos s ! b)(name \<mapsto> info)]\<rparr>))"

section \<open>Method options\<close>

text \<open>The options of \<open>RegisterTyped\<close>, as data; an option writes through a pointer to the info.\<close>

datatype info_option =
    OptSummary bytes | OptDescription bytes | OptTags "bytes list" | OptDeprecated
  | OptErrors "errorinfo list" | OptExample bytes goany goany | OptTimeout int
  | OptExtra bytes goany | OptPublishedExtra bytes goany | OptPublic

fun option_of :: "info_option \<Rightarrow> method_option" where
  "option_of (OptSummary t) = WithSummary t"
| "option_of (OptDescription t) = WithDescription t"
| "option_of (OptTags ts) = WithTags ts"
| "option_of OptDeprecated = WithDeprecated"
| "option_of (OptErrors es) = WithErrors es"
| "option_of (OptExample n p r) = WithExample n p r"
| "option_of (OptTimeout d) = WithTimeout d"
| "option_of (OptExtra k v) = WithExtra k v"
| "option_of (OptPublishedExtra k v) = WithPublishedExtra k v"
| "option_of OptPublic = WithPublic"

fun option_ref :: "(nat \<Rightarrow> nat) \<Rightarrow> info_option \<Rightarrow> info_ref \<times> 'x info_cells_scheme \<Rightarrow> info_ref \<times> 'x info_cells_scheme" where
  "option_ref grow (OptSummary t) (i, s) = (i\<lparr>ir_Summary := t\<rparr>, s)"
| "option_ref grow (OptDescription t) (i, s) = (i\<lparr>ir_Description := t\<rparr>, s)"
| "option_ref grow (OptTags ts) (i, s) =
     (case append_ref grow (ir_Tags i) ts (ic_tags s) of (r, m) \<Rightarrow> (i\<lparr>ir_Tags := r\<rparr>, s\<lparr>ic_tags := m\<rparr>))"
| "option_ref grow OptDeprecated (i, s) = (i\<lparr>ir_Deprecated := True\<rparr>, s)"
| "option_ref grow (OptErrors es) (i, s) =
     (case append_ref grow (ir_Errors i) es (ic_errors s) of (r, m) \<Rightarrow> (i\<lparr>ir_Errors := r\<rparr>, s\<lparr>ic_errors := m\<rparr>))"
| "option_ref grow (OptExample n p r) (i, s) =
     (case append_ref grow (ir_Examples i) [\<lparr>xp_Name = n, xp_Params = p, xp_Result = r\<rparr>] (ic_examples s) of
        (x, m) \<Rightarrow> (i\<lparr>ir_Examples := x\<rparr>, s\<lparr>ic_examples := m\<rparr>))"
| "option_ref grow (OptTimeout d) (i, s) = (if d > 0 then i\<lparr>ir_Timeout := d\<rparr> else i, s)"
| "option_ref grow (OptExtra k v) (i, s) =
     (case put_map (ir_Extra i) k v (ic_extras s) of (r, m) \<Rightarrow> (i\<lparr>ir_Extra := r\<rparr>, s\<lparr>ic_extras := m\<rparr>))"
| "option_ref grow (OptPublishedExtra k v) (i, s) =
     (case put_map (ir_PublishedExtra i) k v (ic_extras s) of (r, m) \<Rightarrow>
        (i\<lparr>ir_PublishedExtra := r\<rparr>, s\<lparr>ic_extras := m\<rparr>))"
| "option_ref grow OptPublic (i, s) = (i\<lparr>ir_Public := True\<rparr>, s)"

text \<open>The info that \<open>RegisterMethod\<close> and \<open>RegisterTyped\<close> start from.\<close>

definition new_info :: "bytes \<Rightarrow> rtype option \<Rightarrow> rtype option \<Rightarrow> info_ref" where
  "new_info name p r = \<lparr>ir_Name = name, ir_Params = p, ir_Result = r, ir_Summary = [], ir_Description = [],
     ir_Deprecated = False, ir_Tags = None, ir_Errors = None, ir_Examples = None, ir_Extra = None,
     ir_PublishedExtra = None, ir_Public = False, ir_Timeout = 0\<rparr>"

definition register_info :: "(nat \<Rightarrow> nat) \<Rightarrow> bytes \<Rightarrow> ('e, 'v) rpc_method \<Rightarrow> info_ref \<Rightarrow> info_option list \<Rightarrow>
    nat \<Rightarrow> ('e, 'v) store \<Rightarrow> goerr option \<times> nat \<times> event list \<times> ('e, 'v) store" where
  "register_info grow name method info opts cfg s =
     (case fold (option_ref grow) opts (info, s) of
        (i, s1) \<Rightarrow> update_ref grow (mutate_registerMethod name method i) True cfg s1)"

section \<open>Calls of the configuration\<close>

text \<open>
  The exported functions that write the configuration, as data. For \<open>RegisterTyped\<close> the method is
  the one \<open>Typed\<close> makes and the types are those of its parameters and result.
\<close>

datatype ('e, 'v) writer_call =
    CallSetDefaultTimeOut int | CallSetLogger "nat option" | CallSetMaxBatchSize int
  | CallSetBatchConcurrency int | CallSetMaxMessageSize int | CallSetEnforcedTimeout bool
  | CallSetObserver "('e, 'v) observe_func option"
  | CallRegisterGlobalInterceptorCall "('e, 'v) interceptor"
  | CallUse "('e, 'v) middleware" | CallRegisterError int bytes
  | CallRegisterMethod bytes "('e, 'v) rpc_method"
  | CallRegisterTyped bytes "('e, 'v) rpc_method" rtype rtype "info_option list"

fun store_call :: "(nat \<Rightarrow> nat) \<Rightarrow> ('e, 'v) writer_call \<Rightarrow> nat \<Rightarrow> ('e, 'v) store \<Rightarrow>
    goerr option \<times> nat \<times> event list \<times> ('e, 'v) store" where
  "store_call g (CallSetDefaultTimeOut t) = update_ref g (mutate_fields (\<lambda>c. c\<lparr>cr_defaultTimeOut := t\<rparr>)) False"
| "store_call g (CallSetLogger l) = update_ref g (mutate_fields (\<lambda>c. c\<lparr>cr_logger := l\<rparr>)) False"
| "store_call g (CallSetMaxBatchSize n) = update_ref g (mutate_fields (\<lambda>c. c\<lparr>cr_maxBatchSize := n\<rparr>)) False"
| "store_call g (CallSetBatchConcurrency n) = update_ref g (mutate_fields (\<lambda>c. c\<lparr>cr_batchConcurrency := n\<rparr>)) False"
| "store_call g (CallSetMaxMessageSize n) = update_ref g (mutate_fields (\<lambda>c. c\<lparr>cr_maxMessageSize := n\<rparr>)) False"
| "store_call g (CallSetEnforcedTimeout b) = update_ref g (mutate_fields (\<lambda>c. c\<lparr>cr_enforcedTimeout := b\<rparr>)) False"
| "store_call g (CallSetObserver f) = update_ref g (mutate_fields (\<lambda>c. c\<lparr>cr_observe := f\<rparr>)) False"
| "store_call g (CallRegisterGlobalInterceptorCall m) = update_ref g (mutate_RegisterGlobalInterceptorCall g m) False"
| "store_call g (CallUse mw) = update_ref g (mutate_Use g mw) True"
| "store_call g (CallRegisterError code msg) = update_ref g (mutate_RegisterError code msg) False"
| "store_call g (CallRegisterMethod n m) = register_info g n m (new_info n None None) []"
| "store_call g (CallRegisterTyped n m p r opts) = register_info g n m (new_info n (Some p) (Some r)) opts"

text \<open>The same calls on values.\<close>

fun value_call :: "('e, 'v) writer_call \<Rightarrow> ('e, 'v) config \<Rightarrow> ('e, 'v) cfg_result" where
  "value_call (CallSetDefaultTimeOut t) = SetDefaultTimeOut t"
| "value_call (CallSetLogger l) = SetLogger l"
| "value_call (CallSetMaxBatchSize n) = SetMaxBatchSize n"
| "value_call (CallSetBatchConcurrency n) = SetBatchConcurrency n"
| "value_call (CallSetMaxMessageSize n) = SetMaxMessageSize n"
| "value_call (CallSetEnforcedTimeout b) = SetEnforcedTimeout b"
| "value_call (CallSetObserver f) = SetObserver f"
| "value_call (CallRegisterGlobalInterceptorCall m) = RegisterGlobalInterceptorCall m"
| "value_call (CallUse mw) = Use mw"
| "value_call (CallRegisterError code msg) = RegisterError code msg"
| "value_call (CallRegisterMethod n m) = RegisterMethod n m"
| "value_call (CallRegisterTyped n m p r opts) = registerMethod n m
     (foldl (\<lambda>mi opt. opt mi) (zero_methodinfo\<lparr>mi_Name := n, mi_Params := Some p, mi_Result := Some r\<rparr>)
        (map option_of opts))"

section \<open>Readers\<close>

fun clone_infos :: "(nat \<Rightarrow> nat) \<Rightarrow> info_ref list \<Rightarrow> 'x info_cells_scheme \<Rightarrow> info_ref list \<times> 'x info_cells_scheme" where
  "clone_infos grow [] s = ([], s)"
| "clone_infos grow (i # is) s =
     (case clone_info grow i s of (j, s1) \<Rightarrow>
      case clone_infos grow is s1 of (js, s2) \<Rightarrow> (j # js, s2))"

text \<open>\<open>Methods\<close>, with the order in which the map is ranged over.\<close>

definition Methods_ref :: "(nat \<Rightarrow> nat) \<Rightarrow> bytes list \<Rightarrow> nat \<Rightarrow> ('e, 'v) store \<Rightarrow> info_ref list \<times> ('e, 'v) store" where
  "Methods_ref grow order cfg s =
     (case clone_infos grow (map (\<lambda>k. the ((st_infos s ! cr_methodInfo (st_configs s ! cfg)) k)) order) s of
        (out, s1) \<Rightarrow> (sort_key ir_Name out, s1))"

section \<open>The server among its users\<close>

text \<open>
  \<open>wo_cfg\<close> is the atomic pointer. \<open>wo_loaded\<close> are the snapshots that goroutines loaded and may
  still use, with the values they had then; \<open>wo_handed\<close> are the infos that \<open>Methods\<close> returned;
  \<open>wo_calls\<close> is the history of the calls, which the mutex serialises.
\<close>

record ('e, 'v) world =
  wo_store :: "('e, 'v) store"
  wo_cfg :: nat
  wo_loaded :: "(nat \<times> ('e, 'v) config) list"
  wo_handed :: "info_ref list"
  wo_calls :: "('e, 'v) writer_call list"

definition New_ref :: "int \<Rightarrow> ('e, 'v) world" where
  "New_ref gomaxprocs = \<lparr>wo_store = \<lparr>ic_tags = [], ic_errors = [], ic_examples = [], ic_extras = [],
       st_errors = [default_errors], st_methods = [Map.empty, Map.empty], st_infos = [Map.empty],
       st_interceptors = [], st_middlewares = [],
       st_configs = [\<lparr>cr_errors = 0, cr_methods = 0, cr_composed = 1, cr_methodInfo = 0,
         cr_globalInterceptors = None, cr_middlewares = None, cr_defaultTimeOut = 30 * second,
         cr_logger = Some 0, cr_observe = None, cr_maxBatchSize = DefaultMaxBatchSize,
         cr_batchConcurrency = 4 * gomaxprocs, cr_maxMessageSize = 0, cr_enforcedTimeout = False\<rparr>]\<rparr>,
     wo_cfg = 0, wo_loaded = [], wo_handed = [], wo_calls = []\<rparr>"

text \<open>
  A caller may write anything to the arrays and maps of the infos he was given: \<open>edit\<close> changes
  one cell that an info in \<open>wo_handed\<close> refers to.
\<close>

inductive edit :: "info_ref \<Rightarrow> ('e, 'v) store \<Rightarrow> ('e, 'v) store \<Rightarrow> bool" for i s where
  tags: "ir_Tags i = Some (a, n) \<Longrightarrow> edit i s (s\<lparr>ic_tags := (ic_tags s)[a := x]\<rparr>)"
| errors: "ir_Errors i = Some (a, n) \<Longrightarrow> edit i s (s\<lparr>ic_errors := (ic_errors s)[a := y]\<rparr>)"
| examples: "ir_Examples i = Some (a, n) \<Longrightarrow> edit i s (s\<lparr>ic_examples := (ic_examples s)[a := z]\<rparr>)"
| extra: "ir_Extra i = Some a \<Longrightarrow> edit i s (s\<lparr>ic_extras := (ic_extras s)[a := m]\<rparr>)"
| published: "ir_PublishedExtra i = Some a \<Longrightarrow> edit i s (s\<lparr>ic_extras := (ic_extras s)[a := m]\<rparr>)"

inductive world_step :: "(nat \<Rightarrow> nat) \<Rightarrow> ('e, 'v) world \<Rightarrow> ('e, 'v) world \<Rightarrow> bool" for grow where
  call: "store_call grow x (wo_cfg w) (wo_store w) = (err, p, evs, s) \<Longrightarrow>
    world_step grow w (w\<lparr>wo_store := s, wo_cfg := p, wo_calls := wo_calls w @ [x]\<rparr>)"
| load: "world_step grow w
    (w\<lparr>wo_loaded := wo_loaded w @ [(wo_cfg w, config_value (wo_store w) (wo_cfg w))]\<rparr>)"
| list_methods: "(p, v) \<in> set (wo_loaded w) \<Longrightarrow> distinct order \<Longrightarrow> set order = dom (cf_methodInfo v) \<Longrightarrow>
    Methods_ref grow order p (wo_store w) = (out, s) \<Longrightarrow>
    world_step grow w (w\<lparr>wo_store := s, wo_handed := wo_handed w @ out\<rparr>)"
| caller_edits: "i \<in> set (wo_handed w) \<Longrightarrow> edit i (wo_store w) s \<Longrightarrow>
    world_step grow w (w\<lparr>wo_store := s\<rparr>)"

end
