(* ===== verification/StoreProps.thy ===== *)
theory StoreProps
  imports ConfigProps Store
begin

text \<open>
  The configuration in memory behaves like the immutable values of theory \<open>Config\<close>: a writer only
  writes to cells it has allocated itself, the snapshots in use keep their values, and the infos
  that \<open>Methods\<close> hands out share no cell with a registered one.
\<close>

section \<open>Cells\<close>

text \<open>\<open>ext m m'\<close>: every cell of \<open>m\<close> is in \<open>m'\<close> and unchanged.\<close>

definition ext :: "'a list \<Rightarrow> 'a list \<Rightarrow> bool" where
  "ext m m' \<longleftrightarrow> length m \<le> length m' \<and> (\<forall>a < length m. m' ! a = m ! a)"

lemma ext_refl [simp]: "ext m m" by (simp add: ext_def)
lemma ext_trans: "ext m m' \<Longrightarrow> ext m' m'' \<Longrightarrow> ext m m''" by (simp add: ext_def)
lemma ext_append [simp]: "ext m (m @ z)" by (simp add: ext_def nth_append)
lemma ext_alloc: "ext m m' \<Longrightarrow> ext m (m' @ z)" by (simp add: ext_def nth_append)
lemma ext_write: "ext m m' \<Longrightarrow> length m \<le> a \<Longrightarrow> ext m (m'[a := x])" by (simp add: ext_def)
lemma ext_length: "ext m m' \<Longrightarrow> length m \<le> length m'" by (simp add: ext_def)
lemma ext_nth: "ext m m' \<Longrightarrow> a < length m \<Longrightarrow> m' ! a = m ! a" by (simp add: ext_def)

text \<open>A slice within its array; a slice or map that was not there in \<open>m\<close>.\<close>

definition slice_ok :: "'a arrays \<Rightarrow> slice_ref \<Rightarrow> bool" where
  "slice_ok m r \<longleftrightarrow> (case r of None \<Rightarrow> True | Some (a, n) \<Rightarrow> a < length m \<and> n \<le> length (fst (m ! a)))"

definition cells :: "slice_ref \<Rightarrow> nat set" where
  "cells r = fst ` set_option r"

definition map_ok :: "'a list \<Rightarrow> map_ref \<Rightarrow> bool" where
  "map_ok m r \<longleftrightarrow> (case r of None \<Rightarrow> True | Some a \<Rightarrow> a < length m)"

lemma cells_simps [simp]: "cells None = {}" "cells (Some (a, n)) = {a}" by (simp_all add: cells_def)
lemma slice_ok_None [simp]: "slice_ok m None" by (simp add: slice_ok_def)
lemma map_ok_simps [simp]: "map_ok m None" "map_ok m (Some a) \<longleftrightarrow> a < length m" by (simp_all add: map_ok_def)
lemma elems_None [simp]: "elems m None = []" by (simp add: elems_def)

lemma slice_ok_cells: "slice_ok m r \<Longrightarrow> a \<in> cells r \<Longrightarrow> a < length m"
  by (cases r) (auto simp: slice_ok_def)

lemma elems_ext: "slice_ok m r \<Longrightarrow> ext m m' \<Longrightarrow> slice_ok m' r \<and> elems m' r = elems m r"
  by (cases r) (auto simp: slice_ok_def elems_def ext_def)

lemma elems_write: "a \<notin> cells r \<Longrightarrow> elems (m[a := x]) r = elems m r"
  by (cases r) (auto simp: elems_def)

lemma slice_ok_write: "a \<notin> cells r \<Longrightarrow> slice_ok (m[a := x]) r = slice_ok m r"
  by (cases r) (auto simp: slice_ok_def)

lemma map_at_ext: "map_ok m r \<Longrightarrow> ext m m' \<Longrightarrow> map_ok m' r \<and> map_at m' r = map_at m r"
  by (cases r) (auto simp: map_at_def ext_def)

lemma map_at_write: "a \<notin> set_option r \<Longrightarrow> map_at (m[a := x]) r = map_at m r"
  by (cases r) (auto simp: map_at_def)

text \<open>
  Appending to a slice whose array is not older than \<open>m0\<close> leaves the cells of \<open>m0\<close> as they are.
\<close>

lemma append_ref_ok:
  assumes "append_ref grow r xs m = (r', m')" "slice_ok m r" "ext m0 m" "\<forall>a \<in> cells r. length m0 \<le> a"
  shows "slice_ok m' r' \<and> elems m' r' = elems m r @ xs \<and> ext m0 m' \<and> (\<forall>a \<in> cells r'. length m0 \<le> a)"
proof (cases "xs = []")
  case True
  then have "r' = r" "m' = m" using assms(1) by (simp_all add: append_ref_def)
  with assms True show ?thesis by simp
next
  case xs: False
  show ?thesis
  proof (cases r)
    case None
    then have "r' = Some (length m, length xs)" "m' = m @ [(xs, max (length xs) (grow (length xs)))]"
      using assms(1) xs by (simp_all add: append_ref_def)
    with None assms(3) show ?thesis by (simp add: slice_ok_def elems_def ext_alloc ext_length)
  next
    case (Some p)
    obtain a n where p: "p = (a, n)" by (cases p)
    let ?es = "fst (m ! a)" let ?k = "n + length xs"
    have a: "a < length m" "n \<le> length ?es" "length m0 \<le> a" using assms(2,4) Some p by (simp_all add: slice_ok_def)
    show ?thesis
    proof (cases "?k \<le> snd (m ! a)")
      case True
      then have "r' = Some (a, ?k)" "m' = m[a := (take n ?es @ xs @ drop ?k ?es, snd (m ! a))]"
        using assms(1) Some p xs by (simp_all add: append_ref_def Let_def)
      with a Some p assms(3) show ?thesis by (simp add: slice_ok_def elems_def ext_write)
    next
      case False
      then have "r' = Some (length m, ?k)" "m' = m @ [(take n ?es @ xs, max ?k (grow ?k))]"
        using assms(1) Some p xs by (simp_all add: append_ref_def Let_def)
      with a Some p assms(3) show ?thesis by (simp add: slice_ok_def elems_def ext_alloc ext_length)
    qed
  qed
qed

lemma copy_slice_ok:
  assumes "copy_slice grow r m = (r', m')" "slice_ok m r" "ext m0 m"
  shows "slice_ok m' r' \<and> elems m' r' = elems m r \<and> ext m m' \<and> ext m0 m' \<and> (\<forall>a \<in> cells r'. length m \<le> a)"
proof -
  from append_ref_ok[OF assms(1)[unfolded copy_slice_def] slice_ok_None ext_refl]
  have "slice_ok m' r' \<and> elems m' r' = elems m r \<and> ext m m' \<and> (\<forall>a \<in> cells r'. length m \<le> a)" by simp
  with assms(3) show ?thesis by (meson ext_trans)
qed

lemma copy_map_ok:
  assumes "copy_map r m = (r', m')" "map_ok m r"
  shows "map_ok m' r' \<and> map_at m' r' = map_at m r \<and> ext m m' \<and> (\<forall>a \<in> set_option r'. length m \<le> a)"
  using assms by (cases r) (auto simp: copy_map_def map_at_def)

lemma put_map_ok:
  assumes "put_map r k v m = (r', m')" "map_ok m r" "ext m0 m" "\<forall>a \<in> set_option r. length m0 \<le> a"
  shows "map_ok m' r' \<and> map_at m' r' = (map_at m r)(k \<mapsto> v) \<and> ext m0 m' \<and> (\<forall>a \<in> set_option r'. length m0 \<le> a)"
  using assms by (cases r) (auto simp: put_map_def map_at_def ext_alloc ext_write ext_length)

lemma put_map_other:
  assumes "put_map r k v m = (r', m')" "map_ok m q" "set_option r \<inter> set_option q = {}"
  shows "map_ok m' q \<and> map_at m' q = map_at m q \<and> set_option r' \<inter> set_option q = {}"
  using assms by (cases r; cases q) (auto simp: put_map_def map_at_def nth_append)

section \<open>Infos\<close>

definition info_ok :: "'x info_cells_scheme \<Rightarrow> info_ref \<Rightarrow> bool" where
  "info_ok s i \<longleftrightarrow> slice_ok (ic_tags s) (ir_Tags i) \<and> slice_ok (ic_errors s) (ir_Errors i) \<and>
     slice_ok (ic_examples s) (ir_Examples i) \<and> map_ok (ic_extras s) (ir_Extra i) \<and>
     map_ok (ic_extras s) (ir_PublishedExtra i)"

definition extra_cells :: "info_ref \<Rightarrow> nat set" where
  "extra_cells i = set_option (ir_Extra i) \<union> set_option (ir_PublishedExtra i)"

text \<open>The info refers to no cell of \<open>s\<close>; two infos share no cell.\<close>

definition info_fresh :: "'x info_cells_scheme \<Rightarrow> info_ref \<Rightarrow> bool" where
  "info_fresh s i \<longleftrightarrow> (\<forall>a \<in> cells (ir_Tags i). length (ic_tags s) \<le> a) \<and>
     (\<forall>a \<in> cells (ir_Errors i). length (ic_errors s) \<le> a) \<and>
     (\<forall>a \<in> cells (ir_Examples i). length (ic_examples s) \<le> a) \<and>
     (\<forall>a \<in> extra_cells i. length (ic_extras s) \<le> a)"

definition apart :: "info_ref \<Rightarrow> info_ref \<Rightarrow> bool" where
  "apart i j \<longleftrightarrow> cells (ir_Tags i) \<inter> cells (ir_Tags j) = {} \<and> cells (ir_Errors i) \<inter> cells (ir_Errors j) = {} \<and>
     cells (ir_Examples i) \<inter> cells (ir_Examples j) = {} \<and> extra_cells i \<inter> extra_cells j = {}"

definition info_ext :: "'x info_cells_scheme \<Rightarrow> 'x info_cells_scheme \<Rightarrow> bool" where
  "info_ext s s' \<longleftrightarrow> ext (ic_tags s) (ic_tags s') \<and> ext (ic_errors s) (ic_errors s') \<and>
     ext (ic_examples s) (ic_examples s') \<and> ext (ic_extras s) (ic_extras s')"

lemma info_ext_refl [simp]: "info_ext s s" by (simp add: info_ext_def)

lemma info_ext_trans: "info_ext s s' \<Longrightarrow> info_ext s' s'' \<Longrightarrow> info_ext s s''"
  unfolding info_ext_def by (meson ext_trans)

lemma info_value_ext:
  assumes "info_ok s i" "info_ext s s'"
  shows "info_ok s' i \<and> info_value s' i = info_value s i"
proof -
  from assms have "slice_ok (ic_tags s') (ir_Tags i) \<and> elems (ic_tags s') (ir_Tags i) = elems (ic_tags s) (ir_Tags i)"
    "slice_ok (ic_errors s') (ir_Errors i) \<and> elems (ic_errors s') (ir_Errors i) = elems (ic_errors s) (ir_Errors i)"
    "slice_ok (ic_examples s') (ir_Examples i) \<and> elems (ic_examples s') (ir_Examples i) = elems (ic_examples s) (ir_Examples i)"
    "map_ok (ic_extras s') (ir_Extra i) \<and> map_at (ic_extras s') (ir_Extra i) = map_at (ic_extras s) (ir_Extra i)"
    "map_ok (ic_extras s') (ir_PublishedExtra i) \<and>
       map_at (ic_extras s') (ir_PublishedExtra i) = map_at (ic_extras s) (ir_PublishedExtra i)"
    unfolding info_ok_def info_ext_def by - ((elim conjE, (rule elems_ext map_at_ext; assumption))+)
  then show ?thesis by (simp add: info_ok_def info_value_def)
qed

lemma info_fresh_older: "info_fresh s' i \<Longrightarrow> info_ext s s' \<Longrightarrow> info_fresh s i"
  unfolding info_fresh_def info_ext_def by (meson ext_length order_trans)

lemma fresh_apart: "info_fresh s i \<Longrightarrow> info_ok s j \<Longrightarrow> apart i j"
  by (cases "ir_Extra j"; cases "ir_PublishedExtra j")
    (fastforce simp: info_fresh_def info_ok_def apart_def extra_cells_def dest: slice_ok_cells)+

lemma apart_sym: "apart i j \<Longrightarrow> apart j i"
  by (simp add: apart_def Int_commute)


text \<open>\<open>MethodInfo.clone\<close>.\<close>

lemma clone_info_ok:
  assumes "clone_info grow i s = (j, s')" "info_ok s i"
  shows "info_ok s' j \<and> info_value s' j = info_value s i \<and> info_ext s s' \<and> info_fresh s j"
proof -
  obtain tags m1 errs m2 exs m3 extra m4 pub m5 where
    c: "copy_slice grow (ir_Tags i) (ic_tags s) = (tags, m1)" "copy_slice grow (ir_Errors i) (ic_errors s) = (errs, m2)"
      "copy_slice grow (ir_Examples i) (ic_examples s) = (exs, m3)" "copy_map (ir_Extra i) (ic_extras s) = (extra, m4)"
      "copy_map (ir_PublishedExtra i) m4 = (pub, m5)"
    by (metis surj_pair)
  have j: "j = i\<lparr>ir_Tags := tags, ir_Errors := errs, ir_Examples := exs, ir_Extra := extra, ir_PublishedExtra := pub\<rparr>"
    and s': "s' = s\<lparr>ic_tags := m1, ic_errors := m2, ic_examples := m3, ic_extras := m5\<rparr>"
    using assms(1) by (simp_all add: clone_info_def c)
  from assms(2) have i: "slice_ok (ic_tags s) (ir_Tags i)" "slice_ok (ic_errors s) (ir_Errors i)"
    "slice_ok (ic_examples s) (ir_Examples i)" "map_ok (ic_extras s) (ir_Extra i)" "map_ok (ic_extras s) (ir_PublishedExtra i)"
    by (simp_all add: info_ok_def)
  note t = copy_slice_ok[OF c(1) i(1) ext_refl] copy_slice_ok[OF c(2) i(2) ext_refl] copy_slice_ok[OF c(3) i(3) ext_refl]
  note e = copy_map_ok[OF c(4) i(4)]
  have p: "map_ok m4 (ir_PublishedExtra i) \<and> map_at m4 (ir_PublishedExtra i) = map_at (ic_extras s) (ir_PublishedExtra i)"
    using map_at_ext[OF i(5)] e by blast
  note q = copy_map_ok[OF c(5) p[THEN conjunct1]]
  have x: "map_ok m5 extra \<and> map_at m5 extra = map_at (ic_extras s) (ir_Extra i)" "ext (ic_extras s) m5"
    using e q map_at_ext[of m4 extra m5] by (auto intro: ext_trans)
  have "length (ic_extras s) \<le> length m4" using e ext_length by blast
  then have f: "\<forall>a \<in> set_option extra \<union> set_option pub. length (ic_extras s) \<le> a" using e q by auto
  show ?thesis unfolding info_ok_def info_value_def info_ext_def info_fresh_def extra_cells_def j s'
    using t e p q x f by simp
qed

lemma clone_infos_ok:
  assumes "clone_infos grow is s = (js, s')" "\<forall>i \<in> set is. info_ok s i"
  shows "map (info_value s') js = map (info_value s) is \<and> map ir_Name js = map ir_Name is \<and>
     (\<forall>j \<in> set js. info_ok s' j \<and> info_fresh s j) \<and> info_ext s s'"
  using assms
proof (induction "is" arbitrary: js s)
  case Nil
  then show ?case by simp
next
  case (Cons i "is")
  obtain j s1 where j: "clone_info grow i s = (j, s1)" by (cases "clone_info grow i s")
  obtain ks where ks: "clone_infos grow is s1 = (ks, s')" and js: "js = j # ks"
    using Cons.prems(1) j by (auto split: prod.splits)
  have i: "info_ok s i" using Cons.prems(2) by simp
  note c = clone_info_ok[OF j i]
  have older: "info_ok s1 k \<and> info_value s1 k = info_value s k" if "k \<in> set is" for k
    using Cons.prems(2) that c info_value_ext[of s k s1] by auto
  then have r: "map (info_value s') ks = map (info_value s1) is" "map ir_Name ks = map ir_Name is"
    "\<forall>k \<in> set ks. info_ok s' k \<and> info_fresh s1 k" "info_ext s1 s'"
    using Cons.IH[OF ks] by auto
  have "map (info_value s1) is = map (info_value s) is" using older by simp
  moreover have "info_ok s' j \<and> info_value s' j = info_value s i" using c r(4) info_value_ext by metis
  moreover have "\<forall>k \<in> set ks. info_fresh s k" using r(3) c info_fresh_older by blast
  moreover have "info_ext s s'" using c r(4) info_ext_trans by blast
  moreover have "ir_Name j = ir_Name i" using j by (auto simp: clone_info_def split: prod.splits)
  ultimately show ?case using r c js by simp
qed

text \<open>The options, applied to an info that refers to no cell of an older store.\<close>

lemma option_ref_ok:
  assumes "option_ref grow opt (i, s) = (j, s')" "info_ok s i" "info_fresh s0 i" "info_ext s0 s"
    and sep: "set_option (ir_Extra i) \<inter> set_option (ir_PublishedExtra i) = {}"
  shows "info_ok s' j \<and> info_value s' j = option_of opt (info_value s i) \<and> info_fresh s0 j \<and> info_ext s0 s' \<and>
     set_option (ir_Extra j) \<inter> set_option (ir_PublishedExtra j) = {}"
proof -
  from assms(2-4) have i: "slice_ok (ic_tags s) (ir_Tags i)" "slice_ok (ic_errors s) (ir_Errors i)"
    "slice_ok (ic_examples s) (ir_Examples i)" "map_ok (ic_extras s) (ir_Extra i)" "map_ok (ic_extras s) (ir_PublishedExtra i)"
    and f: "\<forall>a \<in> cells (ir_Tags i). length (ic_tags s0) \<le> a" "\<forall>a \<in> cells (ir_Errors i). length (ic_errors s0) \<le> a"
    "\<forall>a \<in> cells (ir_Examples i). length (ic_examples s0) \<le> a" "\<forall>a \<in> set_option (ir_Extra i). length (ic_extras s0) \<le> a"
    "\<forall>a \<in> set_option (ir_PublishedExtra i). length (ic_extras s0) \<le> a"
    and e: "ext (ic_tags s0) (ic_tags s)" "ext (ic_errors s0) (ic_errors s)" "ext (ic_examples s0) (ic_examples s)"
    "ext (ic_extras s0) (ic_extras s)"
    by (simp_all add: info_ok_def info_fresh_def info_ext_def extra_cells_def)
  note d = info_ok_def info_value_def info_fresh_def info_ext_def extra_cells_def
  show ?thesis
  proof (cases opt)
    case (OptTags ts)
    obtain r m where a: "append_ref grow (ir_Tags i) ts (ic_tags s) = (r, m)" by (metis surj_pair)
    show ?thesis using assms(1) i f e sep append_ref_ok[OF a i(1) e(1) f(1)] by (auto simp: OptTags a d WithTags_def)
  next
    case (OptErrors es)
    obtain r m where a: "append_ref grow (ir_Errors i) es (ic_errors s) = (r, m)" by (metis surj_pair)
    show ?thesis using assms(1) i f e sep append_ref_ok[OF a i(2) e(2) f(2)] by (auto simp: OptErrors a d WithErrors_def)
  next
    case (OptExample n p q)
    obtain r m where a: "append_ref grow (ir_Examples i) [\<lparr>xp_Name = n, xp_Params = p, xp_Result = q\<rparr>] (ic_examples s) = (r, m)"
      by (metis surj_pair)
    show ?thesis using assms(1) i f e sep append_ref_ok[OF a i(3) e(3) f(3)] by (auto simp: OptExample a d WithExample_def)
  next
    case (OptExtra k v)
    obtain r m where a: "put_map (ir_Extra i) k v (ic_extras s) = (r, m)" by (metis surj_pair)
    show ?thesis using assms(1) i f e sep put_map_ok[OF a i(4) e(4) f(4)] put_map_other[OF a i(5) sep]
      by (auto simp: OptExtra a d WithExtra_def)
  next
    case (OptPublishedExtra k v)
    obtain r m where a: "put_map (ir_PublishedExtra i) k v (ic_extras s) = (r, m)" by (metis surj_pair)
    have sep': "set_option (ir_PublishedExtra i) \<inter> set_option (ir_Extra i) = {}" using sep by blast
    show ?thesis using assms(1) i f e sep put_map_ok[OF a i(5) e(4) f(5)] put_map_other[OF a i(4) sep']
      by (auto simp: OptPublishedExtra a d WithPublishedExtra_def)
  qed (use assms(1) i f e sep in \<open>auto simp: d WithSummary_def WithDescription_def WithDeprecated_def WithTimeout_def WithPublic_def\<close>)
qed


text \<open>A record update of other cells does not matter to an info.\<close>

lemma info_updates [simp]:
  "info_value (s\<lparr>st_errors := e\<rparr>) = info_value s" "info_value (s\<lparr>st_methods := ms\<rparr>) = info_value s"
  "info_value (s\<lparr>st_infos := is\<rparr>) = info_value s" "info_value (s\<lparr>st_interceptors := ns\<rparr>) = info_value s"
  "info_value (s\<lparr>st_middlewares := mw\<rparr>) = info_value s" "info_value (s\<lparr>st_configs := cs\<rparr>) = info_value s"
  "info_ok (s\<lparr>st_errors := e\<rparr>) i = info_ok s i" "info_ok (s\<lparr>st_methods := ms\<rparr>) i = info_ok s i"
  "info_ok (s\<lparr>st_infos := is\<rparr>) i = info_ok s i" "info_ok (s\<lparr>st_interceptors := ns\<rparr>) i = info_ok s i"
  "info_ok (s\<lparr>st_middlewares := mw\<rparr>) i = info_ok s i" "info_ok (s\<lparr>st_configs := cs\<rparr>) i = info_ok s i"
  by (simp_all add: fun_eq_iff info_value_def info_ok_def)

section \<open>The store\<close>

definition registered :: "('e, 'v) store \<Rightarrow> info_ref set" where
  "registered s = (\<Union>m \<in> set (st_infos s). ran m)"

definition ref_ok :: "('e, 'v) store \<Rightarrow> ('e, 'v) config_ref \<Rightarrow> bool" where
  "ref_ok s c \<longleftrightarrow> cr_errors c < length (st_errors s) \<and> cr_methods c < length (st_methods s) \<and>
     cr_composed c < length (st_methods s) \<and> cr_methodInfo c < length (st_infos s) \<and>
     slice_ok (st_interceptors s) (cr_globalInterceptors c) \<and> slice_ok (st_middlewares s) (cr_middlewares c)"

definition store_ok :: "('e, 'v) store \<Rightarrow> bool" where
  "store_ok s \<longleftrightarrow> (\<forall>c \<in> set (st_configs s). ref_ok s c) \<and> (\<forall>i \<in> registered s. info_ok s i)"

definition store_ext :: "('e, 'v) store \<Rightarrow> ('e, 'v) store \<Rightarrow> bool" where
  "store_ext s s' \<longleftrightarrow> info_ext s s' \<and> ext (st_errors s) (st_errors s') \<and> ext (st_methods s) (st_methods s') \<and>
     ext (st_infos s) (st_infos s') \<and> ext (st_interceptors s) (st_interceptors s') \<and>
     ext (st_middlewares s) (st_middlewares s') \<and> ext (st_configs s) (st_configs s')"

lemma store_ext_refl [simp]: "store_ext s s" by (simp add: store_ext_def)

lemma store_ext_trans: "store_ext s s' \<Longrightarrow> store_ext s' s'' \<Longrightarrow> store_ext s s''"
  unfolding store_ext_def by (meson ext_trans info_ext_trans)

lemma ref_ok_ext: "ref_ok s c \<Longrightarrow> store_ext s s' \<Longrightarrow> ref_ok s' c"
  unfolding ref_ok_def store_ext_def by (meson elems_ext ext_length order_less_le_trans)

lemma registered_at: "a < length (st_infos s) \<Longrightarrow> (st_infos s ! a) n = Some i \<Longrightarrow> i \<in> registered s"
  unfolding registered_def by (metis UN_I nth_mem ranI)

lemma ref_value_ext:
  assumes "ref_ok s c" "\<forall>i \<in> registered s. info_ok s i" "store_ext s s'"
  shows "ref_value s' c = ref_value s c"
proof -
  from assms(1) have c: "cr_errors c < length (st_errors s)" "cr_methods c < length (st_methods s)"
    "cr_composed c < length (st_methods s)" "cr_methodInfo c < length (st_infos s)"
    "slice_ok (st_interceptors s) (cr_globalInterceptors c)" "slice_ok (st_middlewares s) (cr_middlewares c)"
    by (simp_all add: ref_ok_def)
  from assms(3) have e: "info_ext s s'" "ext (st_errors s) (st_errors s')" "ext (st_methods s) (st_methods s')"
    "ext (st_infos s) (st_infos s')" "ext (st_interceptors s) (st_interceptors s')"
    "ext (st_middlewares s) (st_middlewares s')" by (simp_all add: store_ext_def)
  have "map_option (info_value s') ((st_infos s ! cr_methodInfo c) n) =
      map_option (info_value s) ((st_infos s ! cr_methodInfo c) n)" for n
    using registered_at[OF c(4)] assms(2) info_value_ext[OF _ e(1)]
    by (cases "(st_infos s ! cr_methodInfo c) n") auto
  then show ?thesis
    using ext_nth[OF e(2) c(1)] ext_nth[OF e(3) c(2)] ext_nth[OF e(3) c(3)] ext_nth[OF e(4) c(4)]
      elems_ext[OF c(5) e(5)] elems_ext[OF c(6) e(6)] by (simp add: ref_value_def)
qed

lemma config_value_ext:
  assumes "store_ok s" "p < length (st_configs s)" "store_ext s s'"
  shows "config_value s' p = config_value s p"
proof -
  have "st_configs s' ! p = st_configs s ! p" using assms(2,3) ext_nth unfolding store_ext_def by blast
  moreover have "ref_ok s (st_configs s ! p)" using assms(1,2) by (simp add: store_ok_def)
  ultimately show ?thesis using ref_value_ext[of s "st_configs s ! p" s'] assms(1,3)
    by (simp add: config_value_def store_ok_def)
qed

lemma ref_value_updates [simp]: "ref_value (s\<lparr>st_configs := cs\<rparr>) c = ref_value s c"
  by (simp add: ref_value_def)

section \<open>A writer's copy\<close>

text \<open>
  \<open>writers_copy s s1 q\<close>: \<open>s1\<close> has the cells of \<open>s\<close> unchanged, and the configuration at \<open>q\<close> is in cells
  of its own, but for the dispatch map, which it shares.
\<close>

definition own_cells :: "('e, 'v) store \<Rightarrow> ('e, 'v) config_ref \<Rightarrow> bool" where
  "own_cells s c \<longleftrightarrow> length (st_errors s) \<le> cr_errors c \<and> length (st_methods s) \<le> cr_methods c \<and>
     length (st_infos s) \<le> cr_methodInfo c \<and>
     (\<forall>a \<in> cells (cr_globalInterceptors c). length (st_interceptors s) \<le> a) \<and>
     (\<forall>a \<in> cells (cr_middlewares c). length (st_middlewares s) \<le> a) \<and> cr_composed c < length (st_methods s)"

definition writers_copy :: "('e, 'v) store \<Rightarrow> ('e, 'v) store \<Rightarrow> nat \<Rightarrow> bool" where
  "writers_copy s s1 q \<longleftrightarrow> store_ok s \<and> store_ext s s1 \<and> q = length (st_configs s) \<and>
     (\<exists>c. st_configs s1 = st_configs s @ [c] \<and> ref_ok s1 c \<and> own_cells s c) \<and> (\<forall>i \<in> registered s1. info_ok s1 i)"

lemma writers_copyE:
  assumes "writers_copy s s1 q"
  obtains c where "store_ok s" "store_ext s s1" "q = length (st_configs s)" "st_configs s1 = st_configs s @ [c]"
    "ref_ok s1 c" "own_cells s c" "\<forall>i \<in> registered s1. info_ok s1 i" "config_value s1 q = ref_value s1 c"
  using assms by (auto simp: writers_copy_def config_value_def)

lemma writers_copy_ok: "writers_copy s s1 q \<Longrightarrow> store_ok s1 \<and> q < length (st_configs s1)"
  by (auto simp: writers_copy_def store_ok_def intro: ref_ok_ext)

lemma clone_config_ok:
  assumes "clone_config grow p s = (q, s1)" "store_ok s" "p < length (st_configs s)"
  shows "writers_copy s s1 q \<and> config_value s1 q = config_value s p \<and> registered s1 = registered s"
proof -
  let ?c = "st_configs s ! p"
  obtain ints m1 mws m2 where
    m: "copy_slice grow (cr_globalInterceptors ?c) (st_interceptors s) = (ints, m1)"
      "copy_slice grow (cr_middlewares ?c) (st_middlewares s) = (mws, m2)" by (metis surj_pair)
  let ?d = "?c\<lparr>cr_errors := length (st_errors s), cr_methods := length (st_methods s),
                cr_methodInfo := length (st_infos s), cr_globalInterceptors := ints, cr_middlewares := mws\<rparr>"
  have q: "q = length (st_configs s)"
    and s1: "s1 = s\<lparr>st_errors := st_errors s @ [st_errors s ! cr_errors ?c],
           st_methods := st_methods s @ [st_methods s ! cr_methods ?c],
           st_infos := st_infos s @ [st_infos s ! cr_methodInfo ?c],
           st_interceptors := m1, st_middlewares := m2, st_configs := st_configs s @ [?d]\<rparr>"
    using assms(1) by (simp_all add: clone_config_def Let_def m)
  have c: "ref_ok s ?c" using assms(2,3) by (simp add: store_ok_def)
  then have k: "cr_errors ?c < length (st_errors s)" "cr_methods ?c < length (st_methods s)"
    "cr_composed ?c < length (st_methods s)" "cr_methodInfo ?c < length (st_infos s)"
    "slice_ok (st_interceptors s) (cr_globalInterceptors ?c)" "slice_ok (st_middlewares s) (cr_middlewares ?c)"
    by (simp_all add: ref_ok_def)
  note cp = copy_slice_ok[OF m(1) k(5) ext_refl] copy_slice_ok[OF m(2) k(6) ext_refl]
  have ext: "store_ext s s1" using cp by (simp add: store_ext_def s1 info_ext_def)
  have "st_infos s ! cr_methodInfo ?c \<in> set (st_infos s)" using k(4) by simp
  then have reg: "registered s1 = registered s" by (auto simp: registered_def s1)
  have d: "ref_ok s1 ?d" using cp k(3) by (simp add: ref_ok_def s1)
  have "writers_copy s s1 q" using assms(2) ext cp k(3) d reg
    by (auto simp: writers_copy_def own_cells_def q s1 store_ok_def)
  moreover have "config_value s1 q = config_value s p"
    using cp k by (simp add: config_value_def q s1 ref_value_def nth_append)
  ultimately show ?thesis using reg by simp
qed


text \<open>
  A mutation of the copy: it keeps \<open>writers_copy\<close>, registers no info but those of \<open>new\<close>, and does to the
  values what \<open>f\<close> says.
\<close>

definition implements :: "info_ref set \<Rightarrow> ('e, 'v) mutation_ref \<Rightarrow> (('e, 'v) store \<Rightarrow> ('e, 'v) mutation) \<Rightarrow> bool" where
  "implements new mutate f \<longleftrightarrow> (\<forall>s s1 q err evs s2. writers_copy s s1 q \<longrightarrow> (\<forall>i \<in> new. info_ok s i) \<longrightarrow>
     mutate q s1 = (err, evs, s2) \<longrightarrow> writers_copy s s2 q \<and> registered s2 \<subseteq> registered s1 \<union> new \<and>
     f s (config_value s1 q) = (case err of Some e \<Rightarrow> Inl e | None \<Rightarrow> Inr (config_value s2 q), evs))"

lemma implementsI:
  assumes "\<And>s s1 q err evs s2 c. writers_copy s s1 q \<Longrightarrow> store_ok s \<Longrightarrow> store_ext s s1 \<Longrightarrow> q = length (st_configs s) \<Longrightarrow>
      st_configs s1 = st_configs s @ [c] \<Longrightarrow> ref_ok s1 c \<Longrightarrow> own_cells s c \<Longrightarrow> \<forall>i \<in> registered s1. info_ok s1 i \<Longrightarrow>
      \<forall>i \<in> new. info_ok s i \<Longrightarrow> mutate q s1 = (err, evs, s2) \<Longrightarrow>
      writers_copy s s2 q \<and> registered s2 \<subseteq> registered s1 \<union> new \<and>
      f s (ref_value s1 c) = (case err of Some e \<Rightarrow> Inl e | None \<Rightarrow> Inr (config_value s2 q), evs)"
  shows "implements new mutate f"
  unfolding implements_def
proof (intro allI impI)
  fix s s1 q err evs s2
  assume c: "writers_copy s s1 q" and n: "\<forall>i \<in> new. info_ok s i" and m: "mutate q s1 = (err, evs, s2)"
  from c show "writers_copy s s2 q \<and> registered s2 \<subseteq> registered s1 \<union> new \<and>
      f s (config_value s1 q) = (case err of Some e \<Rightarrow> Inl e | None \<Rightarrow> Inr (config_value s2 q), evs)"
  proof (rule writers_copyE)
    fix d
    assume "store_ok s" "store_ext s s1" "q = length (st_configs s)" "st_configs s1 = st_configs s @ [d]"
      "ref_ok s1 d" "own_cells s d" "\<forall>i \<in> registered s1. info_ok s1 i" and v: "config_value s1 q = ref_value s1 d"
    from assms[OF c this(1-7) n m] show ?thesis by (simp only: v)
  qed
qed

lemma set_fields_last: "st_configs s = cs @ [c] \<Longrightarrow> set_fields f (length cs) s = s\<lparr>st_configs := cs @ [f c]\<rparr>"
  by (simp add: set_fields_def)

lemma implements_fields:
  assumes "\<And>(s :: ('e, 'v) store) c. ref_ok s (f c) = ref_ok s c" "\<And>(s :: ('e, 'v) store) c. own_cells s (f c) = own_cells s c"
    and "\<And>s c. ref_value s (f c) = g (ref_value s c)"
  shows "implements {} (mutate_fields f) (\<lambda>s c. (Inr (g c), []))"
proof (rule implementsI)
  fix s s1 :: "('e, 'v) store" and q err evs s2 c
  assume a: "store_ok s" "store_ext s s1" "q = length (st_configs s)" "st_configs s1 = st_configs s @ [c]"
    "ref_ok s1 c" "own_cells s c" "\<forall>i \<in> registered s1. info_ok s1 i" and m: "mutate_fields f q s1 = (err, evs, s2)"
  let ?t = "s1\<lparr>st_configs := st_configs s @ [f c]\<rparr>"
  have r: "err = None" "evs = []" "s2 = ?t" using m by (simp_all add: mutate_fields_def set_fields_last[OF a(4)] a(3))
  have "registered ?t = registered s1" by (simp add: registered_def)
  moreover have "store_ext s ?t" using a(2) by (simp add: store_ext_def info_ext_def)
  moreover have "ref_ok ?t (f c)" using a(5) by (simp add: assms(1)) (simp add: ref_ok_def)
  ultimately have "writers_copy s ?t q" using a by (simp add: writers_copy_def assms(2))
  then show "writers_copy s s2 q \<and> registered s2 \<subseteq> registered s1 \<union> {} \<and>
     (Inr (g (ref_value s1 c)), []) = (case err of Some e \<Rightarrow> Inl e | None \<Rightarrow> Inr (config_value s2 q), evs)"
    by (simp add: r registered_def config_value_def a(3) assms(3))
qed

lemma implements_interceptor:
  "implements {} (mutate_RegisterGlobalInterceptorCall grow m)
     (\<lambda>s c. (Inr (c\<lparr>cf_globalInterceptors := cf_globalInterceptors c @ [m]\<rparr>), []))"
proof (rule implementsI)
  fix s s1 :: "('a, 'b) store" and q err evs s2 c
  assume a: "store_ok s" "store_ext s s1" "q = length (st_configs s)" "st_configs s1 = st_configs s @ [c]"
    "ref_ok s1 c" "own_cells s c" "\<forall>i \<in> registered s1. info_ok s1 i"
    and m: "mutate_RegisterGlobalInterceptorCall grow m q s1 = (err, evs, s2)"
  obtain r ms where p: "append_ref grow (cr_globalInterceptors c) [m] (st_interceptors s1) = (r, ms)" by (metis surj_pair)
  let ?t = "s1\<lparr>st_interceptors := ms, st_configs := st_configs s @ [c\<lparr>cr_globalInterceptors := r\<rparr>]\<rparr>"
  have r: "err = None" "evs = []" "s2 = ?t" using m p
    by (simp_all add: mutate_RegisterGlobalInterceptorCall_def a(3,4) set_fields_def)
  have f: "slice_ok (st_interceptors s1) (cr_globalInterceptors c)" "ext (st_interceptors s) (st_interceptors s1)"
    "\<forall>k \<in> cells (cr_globalInterceptors c). length (st_interceptors s) \<le> k"
    using a(2,5,6) by (simp_all add: ref_ok_def store_ext_def own_cells_def)
  note w = append_ref_ok[OF p f]
  have "registered ?t = registered s1" by (simp add: registered_def)
  moreover have "store_ext s ?t" using a(2) w by (simp add: store_ext_def info_ext_def)
  moreover have "ref_ok ?t (c\<lparr>cr_globalInterceptors := r\<rparr>)" using a(5) w by (simp add: ref_ok_def)
  ultimately have "writers_copy s ?t q" using a w by (simp add: writers_copy_def own_cells_def)
  moreover have "ref_value ?t (c\<lparr>cr_globalInterceptors := r\<rparr>) =
      ref_value s1 c\<lparr>cf_globalInterceptors := cf_globalInterceptors (ref_value s1 c) @ [m]\<rparr>"
    using w by (simp add: ref_value_def)
  ultimately show "writers_copy s s2 q \<and> registered s2 \<subseteq> registered s1 \<union> {} \<and>
     (Inr (ref_value s1 c\<lparr>cf_globalInterceptors := cf_globalInterceptors (ref_value s1 c) @ [m]\<rparr>), []) =
       (case err of Some e \<Rightarrow> Inl e | None \<Rightarrow> Inr (config_value s2 q), evs)"
    by (simp add: r registered_def config_value_def a(3))
qed

lemma implements_middleware:
  "implements {} (mutate_Use grow mw) (\<lambda>s c. (Inr (c\<lparr>cf_middlewares := cf_middlewares c @ [mw]\<rparr>), []))"
proof (rule implementsI)
  fix s s1 :: "('a, 'b) store" and q err evs s2 c
  assume a: "store_ok s" "store_ext s s1" "q = length (st_configs s)" "st_configs s1 = st_configs s @ [c]"
    "ref_ok s1 c" "own_cells s c" "\<forall>i \<in> registered s1. info_ok s1 i" and m: "mutate_Use grow mw q s1 = (err, evs, s2)"
  obtain r ms where p: "append_ref grow (cr_middlewares c) [mw] (st_middlewares s1) = (r, ms)" by (metis surj_pair)
  let ?t = "s1\<lparr>st_middlewares := ms, st_configs := st_configs s @ [c\<lparr>cr_middlewares := r\<rparr>]\<rparr>"
  have r: "err = None" "evs = []" "s2 = ?t" using m p by (simp_all add: mutate_Use_def a(3,4) set_fields_def)
  have f: "slice_ok (st_middlewares s1) (cr_middlewares c)" "ext (st_middlewares s) (st_middlewares s1)"
    "\<forall>k \<in> cells (cr_middlewares c). length (st_middlewares s) \<le> k"
    using a(2,5,6) by (simp_all add: ref_ok_def store_ext_def own_cells_def)
  note w = append_ref_ok[OF p f]
  have "registered ?t = registered s1" by (simp add: registered_def)
  moreover have "store_ext s ?t" using a(2) w by (simp add: store_ext_def info_ext_def)
  moreover have "ref_ok ?t (c\<lparr>cr_middlewares := r\<rparr>)" using a(5) w by (simp add: ref_ok_def)
  ultimately have "writers_copy s ?t q" using a w by (simp add: writers_copy_def own_cells_def)
  moreover have "ref_value ?t (c\<lparr>cr_middlewares := r\<rparr>) =
      ref_value s1 c\<lparr>cf_middlewares := cf_middlewares (ref_value s1 c) @ [mw]\<rparr>"
    using w by (simp add: ref_value_def)
  ultimately show "writers_copy s s2 q \<and> registered s2 \<subseteq> registered s1 \<union> {} \<and>
     (Inr (ref_value s1 c\<lparr>cf_middlewares := cf_middlewares (ref_value s1 c) @ [mw]\<rparr>), []) =
       (case err of Some e \<Rightarrow> Inl e | None \<Rightarrow> Inr (config_value s2 q), evs)"
    by (simp add: r registered_def config_value_def a(3))
qed

text \<open>The mutations of \<open>RegisterError\<close> and \<open>registerMethod\<close> on values.\<close>

definition RegisterError_mutation :: "int \<Rightarrow> bytes \<Rightarrow> ('e, 'v) mutation" where
  "RegisterError_mutation code msg c =
     (if cf_errors c code \<noteq> None
      then (Inl (errors_New (''error with code '' @ itoa code @ '' already exists'')), [])
      else (Inr (c\<lparr>cf_errors := (cf_errors c)(code \<mapsto> msg)\<rparr>),
            if code \<ge> -32768 \<and> code \<le> -32000 \<and> cf_logger c \<noteq> None
            then [EvLog LevelWarn ''jsonrpc: registering error code in the spec-reserved range -32768..-32000''
                    [AttrInt ''code'' code]]
            else []))"

definition registerMethod_mutation :: "bytes \<Rightarrow> ('e, 'v) rpc_method \<Rightarrow> methodinfo \<Rightarrow> ('e, 'v) mutation" where
  "registerMethod_mutation name method info c =
     (if has_prefix name ''rpc.'' \<and> name \<noteq> rpcDiscover
      then (Inl (errors_New (''method name '' @ quoted name @ '': the '' @ quoted ''rpc.'' @
                 '' prefix is reserved (JSON-RPC 2.0 '' @ [CHR 0xC2, CHR 0xA7] @ ''4.1); only '' @
                 quoted rpcDiscover @ '' is permitted'')), [])
      else if cf_methods c name \<noteq> None
      then (Inl (errors_New (''method '' @ quoted name @ '' already exists'')), [])
      else (Inr (c\<lparr>cf_methods := (cf_methods c)(name \<mapsto> method),
                  cf_methodInfo := (cf_methodInfo c)(name \<mapsto> info)\<rparr>), []))"

lemma mutations:
  "RegisterError code msg = updateConfig (RegisterError_mutation code msg)"
  "registerMethod name method info = updateRegistry (registerMethod_mutation name method info)"
  by (simp_all only: RegisterError_def registerMethod_def RegisterError_mutation_def[abs_def]
      registerMethod_mutation_def[abs_def])

lemma implements_error: "implements {} (mutate_RegisterError code msg) (\<lambda>s. RegisterError_mutation code msg)"
proof (rule implementsI)
  fix s s1 :: "('a, 'b) store" and q err evs s2 c
  assume a: "writers_copy s s1 q" "store_ok s" "store_ext s s1" "q = length (st_configs s)" "st_configs s1 = st_configs s @ [c]"
    "ref_ok s1 c" "own_cells s c" "\<forall>i \<in> registered s1. info_ok s1 i"
    and m: "mutate_RegisterError code msg q s1 = (err, evs, s2)"
  let ?a = "cr_errors c"
  have c: "st_configs s1 ! q = c" by (simp add: a(4,5))
  have v: "cf_errors (ref_value s1 c) = st_errors s1 ! ?a" "cf_logger (ref_value s1 c) = cr_logger c"
    by (simp_all add: ref_value_def)
  show "writers_copy s s2 q \<and> registered s2 \<subseteq> registered s1 \<union> {} \<and>
     RegisterError_mutation code msg (ref_value s1 c) = (case err of Some e \<Rightarrow> Inl e | None \<Rightarrow> Inr (config_value s2 q), evs)"
  proof (cases "(st_errors s1 ! ?a) code = None")
    case False
    with m a(1) c v show ?thesis
      by (auto simp: mutate_RegisterError_def RegisterError_mutation_def Let_def)
  next
    case True
    let ?t = "s1\<lparr>st_errors := (st_errors s1)[?a := (st_errors s1 ! ?a)(code \<mapsto> msg)]\<rparr>"
    have r: "err = None" "s2 = ?t" "RegisterError_mutation code msg (ref_value s1 c) =
        (Inr (ref_value s1 c\<lparr>cf_errors := (st_errors s1 ! ?a)(code \<mapsto> msg)\<rparr>), evs)"
      using m True by (simp_all add: mutate_RegisterError_def RegisterError_mutation_def Let_def c v)
    have k: "?a < length (st_errors s1)" "length (st_errors s) \<le> ?a" using a(6,7) by (simp_all add: ref_ok_def own_cells_def)
    have "registered ?t = registered s1" by (simp add: registered_def)
    moreover have "store_ext s ?t" using a(3) k(2) by (simp add: store_ext_def info_ext_def ext_write)
    moreover have "ref_ok ?t c" using a(6) by (simp add: ref_ok_def)
    ultimately have "writers_copy s ?t q" using a by (simp add: writers_copy_def)
    moreover have "ref_value ?t c = ref_value s1 c\<lparr>cf_errors := (st_errors s1 ! ?a)(code \<mapsto> msg)\<rparr>"
      using k(1) by (simp add: ref_value_def)
    ultimately show ?thesis by (simp add: r registered_def config_value_def c)
  qed
qed

lemma ran_update: "ran (m(n \<mapsto> i)) \<subseteq> insert i (ran m)"
  by (auto simp: ran_def split: if_splits)

lemma registered_write:
  assumes "b < length ms"
  shows "(\<Union>m \<in> set (ms[b := (ms ! b)(n \<mapsto> i)]). ran m) \<subseteq> insert i (\<Union>m \<in> set ms. ran m)"
  using assms ran_update[of "ms ! b" n i] by (fastforce simp: in_set_conv_nth nth_list_update split: if_splits)

lemma implements_register:
  "implements {i} (mutate_registerMethod name method i) (\<lambda>s. registerMethod_mutation name method (info_value s i))"
proof (rule implementsI)
  fix s s1 :: "('a, 'b) store" and q err evs s2 c
  assume a: "writers_copy s s1 q" "store_ok s" "store_ext s s1" "q = length (st_configs s)" "st_configs s1 = st_configs s @ [c]"
    "ref_ok s1 c" "own_cells s c" "\<forall>i \<in> registered s1. info_ok s1 i" and i: "\<forall>j \<in> {i}. info_ok s j"
    and m: "mutate_registerMethod name method i q s1 = (err, evs, s2)"
  let ?a = "cr_methods c" let ?b = "cr_methodInfo c" let ?f = "registerMethod_mutation name method (info_value s i)"
  have c: "st_configs s1 ! q = c" by (simp add: a(4,5))
  have v: "cf_methods (ref_value s1 c) = st_methods s1 ! ?a" by (simp add: ref_value_def)
  show "writers_copy s s2 q \<and> registered s2 \<subseteq> registered s1 \<union> {i} \<and>
     ?f (ref_value s1 c) = (case err of Some e \<Rightarrow> Inl e | None \<Rightarrow> Inr (config_value s2 q), evs)"
  proof (cases "(has_prefix name ''rpc.'' \<and> name \<noteq> rpcDiscover) \<or> (st_methods s1 ! ?a) name \<noteq> None")
    case True
    with m a(1) c v show ?thesis
      by (auto simp: mutate_registerMethod_def registerMethod_mutation_def Let_def)
  next
    case False
    let ?t = "s1\<lparr>st_methods := (st_methods s1)[?a := (st_methods s1 ! ?a)(name \<mapsto> method)],
                 st_infos := (st_infos s1)[?b := (st_infos s1 ! ?b)(name \<mapsto> i)]\<rparr>"
    have r: "err = None" "evs = []" "s2 = ?t"
      using m False by (auto simp: mutate_registerMethod_def Let_def c)
    have f: "?f (ref_value s1 c) = (Inr (ref_value s1 c\<lparr>cf_methods := (st_methods s1 ! ?a)(name \<mapsto> method),
        cf_methodInfo := (cf_methodInfo (ref_value s1 c))(name \<mapsto> info_value s i)\<rparr>), [])"
      using False by (auto simp: registerMethod_mutation_def v)
    have k: "?a < length (st_methods s1)" "length (st_methods s) \<le> ?a" "?b < length (st_infos s1)"
      "length (st_infos s) \<le> ?b" "cr_composed c < length (st_methods s)"
      using a(6,7) by (simp_all add: ref_ok_def own_cells_def)
    have i1: "info_ok s1 i" "info_value s1 i = info_value s i"
      using info_value_ext[of s i s1] i a(3) by (simp_all add: store_ext_def)
    have reg: "registered ?t \<subseteq> insert i (registered s1)"
      using registered_write[OF k(3), of name i] by (simp add: registered_def)
    moreover have "store_ext s ?t" using a(3) k by (simp add: store_ext_def info_ext_def ext_write)
    moreover have "ref_ok ?t c" using a(6) by (simp add: ref_ok_def)
    moreover have "\<forall>j \<in> registered ?t. info_ok ?t j" using reg i1 a(8) by auto
    ultimately have "writers_copy s ?t q" using a by (simp add: writers_copy_def)
    moreover have "ref_value ?t c = ref_value s1 c\<lparr>cf_methods := (st_methods s1 ! ?a)(name \<mapsto> method),
        cf_methodInfo := (cf_methodInfo (ref_value s1 c))(name \<mapsto> info_value s i)\<rparr>"
      using k i1(2) by (auto simp: ref_value_def fun_eq_iff)
    ultimately show ?thesis using reg by (simp add: r f config_value_def c)
  qed
qed

section \<open>Writers\<close>

text \<open>What a writer does to the store, with the result of the operation \<open>f\<close> on values.\<close>

definition written :: "info_ref set \<Rightarrow> ('e, 'v) store \<Rightarrow> ('e, 'v) store \<Rightarrow> nat \<Rightarrow> bool" where
  "written new s t q \<longleftrightarrow> store_ok t \<and> store_ext s t \<and> q < length (st_configs t) \<and> registered t \<subseteq> registered s \<union> new"

lemma compose_ref_copy:
  assumes "writers_copy s s1 q"
  shows "store_ok (compose_ref q s1) \<and> store_ext s (compose_ref q s1) \<and>
     q < length (st_configs (compose_ref q s1)) \<and> registered (compose_ref q s1) = registered s1 \<and>
     config_value (compose_ref q s1) q = compose (config_value s1 q)"
proof -
  from assms obtain c where a: "store_ok s" "store_ext s s1" "q = length (st_configs s)" "st_configs s1 = st_configs s @ [c]"
    "ref_ok s1 c" "\<forall>i \<in> registered s1. info_ok s1 i" "config_value s1 q = ref_value s1 c" by (elim writers_copyE)
  let ?mws = "elems (st_middlewares s1) (cr_middlewares c)" and ?t = "compose_ref q s1"
  have c: "st_configs s1 ! q = c" by (simp add: a(3,4))
  have k: "cr_methods c < length (st_methods s1)" using a(5) by (simp add: ref_ok_def)
  have t: "store_ext s ?t \<and> registered ?t = registered s1 \<and> (\<exists>d. st_configs ?t = st_configs s @ [d] \<and> ref_ok ?t d \<and>
      ref_value ?t d = compose (ref_value s1 c)) \<and> (\<forall>i. info_ok ?t i = info_ok s1 i)"
  proof (cases "?mws = []")
    case True
    then have t: "?t = s1\<lparr>st_configs := st_configs s @ [c\<lparr>cr_composed := cr_methods c\<rparr>]\<rparr>"
      by (simp add: compose_ref_def Let_def c set_fields_def a(3,4))
    show ?thesis unfolding t using a(2,5) True
      by (simp add: store_ext_def info_ext_def registered_def ref_ok_def ref_value_def compose_def)
  next
    case False
    let ?m = "\<lambda>name. map_option (wrap ?mws name) ((st_methods s1 ! cr_methods c) name)"
    from False have t: "?t = s1\<lparr>st_methods := st_methods s1 @ [?m],
        st_configs := st_configs s @ [c\<lparr>cr_composed := length (st_methods s1)\<rparr>]\<rparr>"
      by (simp add: compose_ref_def Let_def c set_fields_def a(3,4))
    show ?thesis unfolding t using a(2,5) False k
      by (simp add: store_ext_def info_ext_def registered_def ref_ok_def ref_value_def compose_def nth_append ext_alloc)
  qed
  then obtain d where d: "st_configs ?t = st_configs s @ [d]" "ref_ok ?t d" "ref_value ?t d = compose (ref_value s1 c)"
    by blast
  have "store_ok ?t" using t d(1,2) a(1,6) ref_ok_ext[of s _ ?t] by (auto simp: store_ok_def)
  moreover have "config_value ?t q = compose (config_value s1 q)" using d(1,3) a(3,7) by (simp add: config_value_def)
  ultimately show ?thesis using t d(1) a(3) by simp
qed

lemma update_ref_ok:
  assumes "implements new mutate f" "store_ok s" "p < length (st_configs s)" "\<forall>i \<in> new. info_ok s i"
    and "update_ref grow mutate recompose p s = (err, q, evs, t)"
  shows "written new s t q \<and> update (f s) recompose (config_value s p) = (err, config_value t q, evs)"
proof -
  obtain n s1 where n: "clone_config grow p s = (n, s1)" by (metis surj_pair)
  obtain e es s2 where m: "mutate n s1 = (e, es, s2)" by (metis surj_pair)
  note c = clone_config_ok[OF n assms(2,3)]
  have i: "writers_copy s s2 n \<and> registered s2 \<subseteq> registered s1 \<union> new \<and>
      f s (config_value s1 n) = (case e of Some x \<Rightarrow> Inl x | None \<Rightarrow> Inr (config_value s2 n), es)"
    using assms(1,4) c m unfolding implements_def by blast
  then have ok: "store_ok s2 \<and> n < length (st_configs s2)" "store_ext s s2" using writers_copy_ok by (auto simp: writers_copy_def)
  have v: "f s (config_value s p) = (case e of Some x \<Rightarrow> Inl x | None \<Rightarrow> Inr (config_value s2 n), es)" using c i by simp
  have reg: "registered s2 \<subseteq> registered s \<union> new" using c i by simp
  show ?thesis
  proof (cases e)
    case (Some x)
    then have r: "err = Some x" "q = p" "evs = es" "t = s2" using assms(5) n m by (simp_all add: update_ref_def)
    have "p < length (st_configs s2)" using assms(3) ok(2) ext_length unfolding store_ext_def by (metis order_less_le_trans)
    then show ?thesis using ok reg v Some config_value_ext[OF assms(2,3) ok(2)] by (simp add: r written_def update_def)
  next
    case None
    then have r: "err = None" "q = n" "evs = es" "t = (if recompose then compose_ref n s2 else s2)"
      using assms(5) n m by (simp_all add: update_ref_def)
    show ?thesis
    proof (cases recompose)
      case True
      then show ?thesis using compose_ref_copy[of s s2 n] i reg v None by (simp add: r written_def update_def)
    next
      case False
      then show ?thesis using ok reg v None by (simp add: r written_def update_def)
    qed
  qed
qed

text \<open>A change of the cells of infos alone.\<close>

definition info_change :: "('e, 'v) store \<Rightarrow> ('e, 'v) store \<Rightarrow> bool" where
  "info_change s t \<longleftrightarrow> st_errors t = st_errors s \<and> st_methods t = st_methods s \<and> st_infos t = st_infos s \<and>
     st_interceptors t = st_interceptors s \<and> st_middlewares t = st_middlewares s \<and> st_configs t = st_configs s"

lemma info_change_refl [simp]: "info_change s s" by (simp add: info_change_def)
lemma info_change_trans: "info_change s t \<Longrightarrow> info_change t u \<Longrightarrow> info_change s u" by (simp add: info_change_def)

lemma info_change_registered: "info_change s t \<Longrightarrow> registered t = registered s"
  by (simp add: info_change_def registered_def)

lemma info_change_ext: "info_change s t \<Longrightarrow> info_ext s t \<Longrightarrow> store_ext s t"
  by (simp add: info_change_def store_ext_def)

lemma info_change_ref: "info_change s t \<Longrightarrow> ref_ok t c = ref_ok s c"
  by (simp add: info_change_def ref_ok_def)

lemma info_change_ok:
  assumes "info_change s t" "info_ext s t" "store_ok s"
  shows "store_ok t"
  using assms info_value_ext[OF _ assms(2)]
  by (auto simp: store_ok_def info_change_ref[OF assms(1)] info_change_registered[OF assms(1)] info_change_def)

lemma info_change_option: "option_ref grow opt (i, s) = (j, t) \<Longrightarrow> info_change s t"
  by (cases opt) (auto simp: info_change_def split: prod.splits)

lemma info_change_clone: "clone_info grow i s = (j, t) \<Longrightarrow> info_change s t"
  by (auto simp: clone_info_def info_change_def split: prod.splits)

lemma info_change_clones: "clone_infos grow is s = (js, t) \<Longrightarrow> info_change s t"
  by (induction "is" arbitrary: js s) (auto split: prod.splits dest!: info_change_clone intro: info_change_trans)

lemma options_ok:
  assumes "fold (option_ref grow) opts (i, s) = (j, t)" "info_ok s i" "info_fresh s0 i" "info_ext s0 s"
    and "set_option (ir_Extra i) \<inter> set_option (ir_PublishedExtra i) = {}"
  shows "info_ok t j \<and> info_value t j = foldl (\<lambda>mi opt. opt mi) (info_value s i) (map option_of opts) \<and>
     info_fresh s0 j \<and> info_ext s0 t \<and> info_change s t"
  using assms
proof (induction opts arbitrary: i s)
  case Nil
  then show ?case by simp
next
  case (Cons opt opts)
  obtain k u where k: "option_ref grow opt (i, s) = (k, u)" by (metis surj_pair)
  note o = option_ref_ok[OF k Cons.prems(2-5)]
  from Cons.IH[of k u] Cons.prems(1) o k
  have "info_ok t j \<and> info_value t j = foldl (\<lambda>mi opt. opt mi) (info_value u k) (map option_of opts) \<and>
     info_fresh s0 j \<and> info_ext s0 t \<and> info_change u t" by simp
  then show ?case using o info_change_trans[OF info_change_option[OF k]] by simp
qed

lemma new_info_ok:
  "info_ok s (new_info n p r)" "info_fresh s (new_info n p r)"
  "info_value s (new_info n p r) = zero_methodinfo\<lparr>mi_Name := n, mi_Params := p, mi_Result := r\<rparr>"
  "set_option (ir_Extra (new_info n p r)) \<inter> set_option (ir_PublishedExtra (new_info n p r)) = {}"
  by (simp_all add: new_info_def info_ok_def info_fresh_def extra_cells_def info_value_def map_at_def zero_methodinfo_def)

lemma register_info_ok:
  assumes "register_info grow n m (new_info n p r) opts c s = (err, q, evs, t)" "store_ok s" "c < length (st_configs s)"
  shows "written {i. info_fresh s i} s t q \<and> (err, config_value t q, evs) =
     registerMethod n m (foldl (\<lambda>mi opt. opt mi) (zero_methodinfo\<lparr>mi_Name := n, mi_Params := p, mi_Result := r\<rparr>)
       (map option_of opts)) (config_value s c)"
proof -
  obtain i u where i: "fold (option_ref grow) opts (new_info n p r, s) = (i, u)" by (metis surj_pair)
  note o = options_ok[OF i new_info_ok(1,2) info_ext_refl new_info_ok(4)]
  then have ch: "info_change s u" "info_ext s u" by simp_all
  have u: "store_ok u" "store_ext s u" "registered u = registered s" "c < length (st_configs u)"
    using info_change_ok[OF ch assms(2)] info_change_ext[OF ch] info_change_registered[OF ch(1)] assms(3) ch(1)
    by (simp_all add: info_change_def)
  have "update_ref grow (mutate_registerMethod n m i) True c u = (err, q, evs, t)"
    using assms(1) i by (simp add: register_info_def)
  from update_ref_ok[OF implements_register u(1) u(4) _ this] o
  have w: "written {i} u t q" "update (registerMethod_mutation n m (info_value u i)) True (config_value u c) =
      (err, config_value t q, evs)" by simp_all
  have "written {i. info_fresh s i} s t q" using w(1) u o store_ext_trans[OF u(2)] unfolding written_def by blast
  moreover have "config_value u c = config_value s c" by (rule config_value_ext[OF assms(2,3) u(2)])
  ultimately show ?thesis using w(2) o by (simp add: mutations updateRegistry_def new_info_ok(3))
qed

lemmas field_simps_ref = ref_ok_def own_cells_def ref_value_def

lemma update_field:
  assumes "update_ref grow (mutate_fields f) False c s = (err, q, evs, t)" "store_ok s" "c < length (st_configs s)"
    and "\<And>(s :: ('e, 'v) store) c. ref_ok s (f c) = ref_ok s c" "\<And>(s :: ('e, 'v) store) c. own_cells s (f c) = own_cells s c"
    and "\<And>(s :: ('e, 'v) store) c. ref_value s (f c) = g (ref_value s c)"
  shows "written {} (s :: ('e, 'v) store) t q \<and> (err, config_value t q, evs) = updateConfig (\<lambda>c. (Inr (g c), [])) (config_value s c)"
  using update_ref_ok[OF implements_fields[OF assms(4-6)] assms(2,3) _ assms(1)] by (simp add: updateConfig_def)

lemma written_more: "written {} s t q \<Longrightarrow> written new s t q"
  by (auto simp: written_def)

lemma store_call_ok:
  assumes "store_call grow x c s = (err, q, evs, t)" "store_ok s" "c < length (st_configs s)"
  shows "written {i. info_fresh s i} s t q \<and> (err, config_value t q, evs) = value_call x (config_value s c)"
proof (cases x)
  case (CallRegisterGlobalInterceptorCall m)
  then have u: "update_ref grow (mutate_RegisterGlobalInterceptorCall grow m) False c s = (err, q, evs, t)" using assms(1) by simp
  from update_ref_ok[OF implements_interceptor assms(2,3) _ u] show ?thesis by (simp add: CallRegisterGlobalInterceptorCall written_more RegisterGlobalInterceptorCall_def updateConfig_def)
next
  case (CallUse mw)
  then have u: "update_ref grow (mutate_Use grow mw) True c s = (err, q, evs, t)" using assms(1) by simp
  from update_ref_ok[OF implements_middleware assms(2,3) _ u] show ?thesis by (simp add: CallUse written_more Use_def updateRegistry_def)
next
  case (CallRegisterError code msg)
  then have u: "update_ref grow (mutate_RegisterError code msg) False c s = (err, q, evs, t)" using assms(1) by simp
  from update_ref_ok[OF implements_error assms(2,3) _ u] show ?thesis by (simp add: CallRegisterError written_more mutations updateConfig_def)
next
  case (CallRegisterMethod n m)
  with register_info_ok[OF _ assms(2,3), of grow n m None None "[]" err q evs t] assms(1) show ?thesis
    by (simp add: RegisterMethod_def zero_methodinfo_def)
next
  case (CallRegisterTyped n m p r opts)
  with register_info_ok[OF _ assms(2,3), of grow n m "Some p" "Some r" opts err q evs t] assms(1) show ?thesis
    by simp
next
  case (CallSetDefaultTimeOut n)
  with update_field[of grow "cr_defaultTimeOut_update (\<lambda>_. n)" c s err q evs t "cf_defaultTimeOut_update (\<lambda>_. n)"] assms
  show ?thesis by (simp add: SetDefaultTimeOut_def field_simps_ref written_more)
next
  case (CallSetLogger n)
  with update_field[of grow "cr_logger_update (\<lambda>_. n)" c s err q evs t "cf_logger_update (\<lambda>_. n)"] assms
  show ?thesis by (simp add: SetLogger_def field_simps_ref written_more)
next
  case (CallSetMaxBatchSize n)
  with update_field[of grow "cr_maxBatchSize_update (\<lambda>_. n)" c s err q evs t "cf_maxBatchSize_update (\<lambda>_. n)"] assms
  show ?thesis by (simp add: SetMaxBatchSize_def field_simps_ref written_more)
next
  case (CallSetBatchConcurrency n)
  with update_field[of grow "cr_batchConcurrency_update (\<lambda>_. n)" c s err q evs t "cf_batchConcurrency_update (\<lambda>_. n)"] assms
  show ?thesis by (simp add: SetBatchConcurrency_def field_simps_ref written_more)
next
  case (CallSetMaxMessageSize n)
  with update_field[of grow "cr_maxMessageSize_update (\<lambda>_. n)" c s err q evs t "cf_maxMessageSize_update (\<lambda>_. n)"] assms
  show ?thesis by (simp add: SetMaxMessageSize_def field_simps_ref written_more)
next
  case (CallSetEnforcedTimeout n)
  with update_field[of grow "cr_enforcedTimeout_update (\<lambda>_. n)" c s err q evs t "cf_enforcedTimeout_update (\<lambda>_. n)"] assms
  show ?thesis by (simp add: SetEnforcedTimeout_def field_simps_ref written_more)
next
  case (CallSetObserver n)
  with update_field[of grow "cr_observe_update (\<lambda>_. n)" c s err q evs t "cf_observe_update (\<lambda>_. n)"] assms
  show ?thesis by (simp add: SetObserver_def field_simps_ref written_more)
qed

section \<open>The server among its users\<close>

definition info_within :: "'x info_cells_scheme \<Rightarrow> info_ref \<Rightarrow> bool" where
  "info_within s i \<longleftrightarrow> (\<forall>a \<in> cells (ir_Tags i). a < length (ic_tags s)) \<and>
     (\<forall>a \<in> cells (ir_Errors i). a < length (ic_errors s)) \<and> (\<forall>a \<in> cells (ir_Examples i). a < length (ic_examples s)) \<and>
     (\<forall>a \<in> extra_cells i. a < length (ic_extras s))"

lemma info_ok_within: "info_ok s i \<Longrightarrow> info_within s i"
  unfolding info_ok_def info_within_def extra_cells_def
  by (cases "ir_Extra i"; cases "ir_PublishedExtra i") (auto dest: slice_ok_cells)

lemma within_ext: "info_within s i \<Longrightarrow> info_ext s t \<Longrightarrow> info_within t i"
  unfolding info_within_def info_ext_def by (meson ext_length order_less_le_trans)

lemma within_fresh_apart: "info_within s i \<Longrightarrow> info_fresh s j \<Longrightarrow> apart i j"
  unfolding info_within_def info_fresh_def apart_def by (fastforce simp: not_le)

lemma edit_other:
  assumes "edit i s t" "apart i j"
  shows "info_ok t j = info_ok s j \<and> info_value t j = info_value s j"
  using assms by (cases rule: edit.cases)
    (auto simp: apart_def extra_cells_def info_ok_def info_value_def elems_write slice_ok_write map_at_write map_ok_def
      split: option.splits)

lemma edit_change: "edit i s t \<Longrightarrow> info_change s t \<and> (\<forall>j. info_within t j = info_within s j)"
  by (cases rule: edit.cases) (auto simp: info_change_def info_within_def)

definition world_ok :: "int \<Rightarrow> ('e, 'v) world \<Rightarrow> bool" where
  "world_ok gomaxprocs w \<longleftrightarrow> store_ok (wo_store w) \<and> wo_cfg w < length (st_configs (wo_store w)) \<and>
     config_value (wo_store w) (wo_cfg w) = foldl (\<lambda>c x. fst (snd (value_call x c))) (New gomaxprocs) (wo_calls w) \<and>
     (\<forall>(p, v) \<in> set (wo_loaded w). p < length (st_configs (wo_store w)) \<and> config_value (wo_store w) p = v) \<and>
     (\<forall>i \<in> set (wo_handed w). info_within (wo_store w) i \<and> (\<forall>j \<in> registered (wo_store w). apart i j))"

lemma world_ok_New: "world_ok g (New_ref g)"
  by (simp add: world_ok_def New_ref_def store_ok_def registered_def ref_ok_def config_value_def ref_value_def New_def)

lemma snapshot_infos:
  assumes "store_ok s" "p < length (st_configs s)" "set order = dom (cf_methodInfo (config_value s p))"
  shows "\<forall>i \<in> set (map (\<lambda>k. the ((st_infos s ! cr_methodInfo (st_configs s ! p)) k)) order). i \<in> registered s \<and> info_ok s i"
    and "map (info_value s) (map (\<lambda>k. the ((st_infos s ! cr_methodInfo (st_configs s ! p)) k)) order) =
      map (\<lambda>k. the (cf_methodInfo (config_value s p) k)) order"
proof -
  let ?m = "st_infos s ! cr_methodInfo (st_configs s ! p)"
  have "cr_methodInfo (st_configs s ! p) < length (st_infos s)" using assms(1,2) by (simp add: store_ok_def ref_ok_def)
  note reg = registered_at[OF this]
  have v: "cf_methodInfo (config_value s p) = (\<lambda>n. map_option (info_value s) (?m n))"
    by (simp add: config_value_def ref_value_def)
  have d: "\<exists>i. ?m k = Some i" if "k \<in> set order" for k using assms(3) that v by (auto simp: dom_def)
  show "\<forall>i \<in> set (map (\<lambda>k. the (?m k)) order). i \<in> registered s \<and> info_ok s i"
    using d reg assms(1) by (force simp: store_ok_def)
  show "map (info_value s) (map (\<lambda>k. the (?m k)) order) = map (\<lambda>k. the (cf_methodInfo (config_value s p) k)) order"
    using d v by (force intro!: map_cong)
qed

lemma world_call:
  assumes "world_ok g w" "store_call grow x (wo_cfg w) (wo_store w) = (err, p, evs, s)"
  shows "world_ok g (w\<lparr>wo_store := s, wo_cfg := p, wo_calls := wo_calls w @ [x]\<rparr>)"
proof -
  let ?s = "wo_store w"
  from assms(1) have w: "store_ok ?s" "wo_cfg w < length (st_configs ?s)"
    "config_value ?s (wo_cfg w) = foldl (\<lambda>c x. fst (snd (value_call x c))) (New g) (wo_calls w)"
    "\<forall>(p, v) \<in> set (wo_loaded w). p < length (st_configs ?s) \<and> config_value ?s p = v"
    "\<forall>i \<in> set (wo_handed w). info_within ?s i \<and> (\<forall>j \<in> registered ?s. apart i j)"
    by (simp_all add: world_ok_def)
  from store_call_ok[OF assms(2) w(1,2)]
  have s: "store_ok s" "store_ext ?s s" "p < length (st_configs s)" "registered s \<subseteq> registered ?s \<union> {i. info_fresh ?s i}"
    and v: "(err, config_value s p, evs) = value_call x (config_value ?s (wo_cfg w))" by (simp_all add: written_def)
  have e: "info_ext ?s s" and len: "length (st_configs ?s) \<le> length (st_configs s)"
    using s(2) by (simp_all add: store_ext_def ext_length)
  have "config_value s p = fst (snd (value_call x (config_value ?s (wo_cfg w))))" using v by (metis fst_conv snd_conv)
  moreover have "p < length (st_configs s) \<and> config_value s p = v" if "(p, v) \<in> set (wo_loaded w)" for p v
    using w(4) that len config_value_ext[OF w(1) _ s(2)] by fastforce
  moreover have "info_within s i \<and> (\<forall>j \<in> registered s. apart i j)" if "i \<in> set (wo_handed w)" for i
    using w(5) that within_ext[OF _ e] within_fresh_apart s(4) by blast
  ultimately show ?thesis using w(3) s(1,3) by (auto simp: world_ok_def)
qed

lemma methods_run:
  assumes "store_ok s" "p < length (st_configs s)" "set order = dom (cf_methodInfo (config_value s p))"
    and "Methods_ref grow order p s = (out, t)"
  shows "info_change s t \<and> info_ext s t \<and> (\<forall>i \<in> set out. info_ok t i \<and> info_fresh s i)"
proof -
  obtain xs where x: "clone_infos grow (map (\<lambda>k. the ((st_infos s ! cr_methodInfo (st_configs s ! p)) k)) order) s = (xs, t)"
    "out = sort_key ir_Name xs" using assms(4) by (auto simp: Methods_ref_def split: prod.splits)
  have "\<forall>i \<in> set (map (\<lambda>k. the ((st_infos s ! cr_methodInfo (st_configs s ! p)) k)) order). info_ok s i"
    using snapshot_infos(1)[OF assms(1-3)] by blast
  from clone_infos_ok[OF x(1) this] info_change_clones[OF x(1)] x(2) show ?thesis by simp
qed

lemma world_methods:
  assumes "world_ok g w" "(p, v) \<in> set (wo_loaded w)" "set order = dom (cf_methodInfo v)"
    and "Methods_ref grow order p (wo_store w) = (out, s)"
  shows "world_ok g (w\<lparr>wo_store := s, wo_handed := wo_handed w @ out\<rparr>)"
proof -
  let ?s = "wo_store w"
  from assms(1) have w: "store_ok ?s" "wo_cfg w < length (st_configs ?s)"
    "config_value ?s (wo_cfg w) = foldl (\<lambda>c x. fst (snd (value_call x c))) (New g) (wo_calls w)"
    "\<forall>(p, v) \<in> set (wo_loaded w). p < length (st_configs ?s) \<and> config_value ?s p = v"
    "\<forall>i \<in> set (wo_handed w). info_within ?s i \<and> (\<forall>j \<in> registered ?s. apart i j)"
    by (simp_all add: world_ok_def)
  have p: "p < length (st_configs ?s)" "config_value ?s p = v" using w(4) assms(2) by auto
  have m: "info_change ?s s" "info_ext ?s s" "\<forall>i \<in> set out. info_ok s i \<and> info_fresh ?s i"
    using methods_run[OF w(1) p(1) _ assms(4)] assms(3) p(2) by simp_all
  note e = info_change_ext[OF m(1,2)] and reg = info_change_registered[OF m(1)]
  have len: "st_configs s = st_configs ?s" using m(1) by (simp add: info_change_def)
  have "info_within s i \<and> (\<forall>j \<in> registered s. apart i j)" if "i \<in> set (wo_handed w)" for i
    using w(5) that within_ext[OF _ m(2)] reg by blast
  moreover have "info_within s i \<and> (\<forall>j \<in> registered s. apart i j)" if "i \<in> set out" for i
    using m(3) that info_ok_within fresh_apart reg w(1) unfolding store_ok_def by blast
  moreover have "config_value s q = config_value ?s q" if "q < length (st_configs ?s)" for q
    by (rule config_value_ext[OF w(1) that e])
  ultimately show ?thesis using w info_change_ok[OF m(1,2) w(1)] len by (auto simp: world_ok_def)
qed

lemma world_edit:
  assumes "world_ok g w" "i \<in> set (wo_handed w)" "edit i (wo_store w) s"
  shows "world_ok g (w\<lparr>wo_store := s\<rparr>)"
proof -
  let ?s = "wo_store w"
  from assms(1) have w: "store_ok ?s" "wo_cfg w < length (st_configs ?s)"
    "config_value ?s (wo_cfg w) = foldl (\<lambda>c x. fst (snd (value_call x c))) (New g) (wo_calls w)"
    "\<forall>(p, v) \<in> set (wo_loaded w). p < length (st_configs ?s) \<and> config_value ?s p = v"
    "\<forall>i \<in> set (wo_handed w). info_within ?s i \<and> (\<forall>j \<in> registered ?s. apart i j)"
    by (simp_all add: world_ok_def)
  have c: "info_change ?s s" "\<And>j. info_within s j = info_within ?s j" using edit_change[OF assms(3)] by simp_all
  have o: "info_ok s j = info_ok ?s j \<and> info_value s j = info_value ?s j" if "j \<in> registered ?s" for j
    using edit_other[OF assms(3)] w(5) assms(2) that by blast
  have reg: "registered s = registered ?s" by (rule info_change_registered[OF c(1)])
  have ok: "store_ok s" using w(1) o reg c(1) info_change_ref[OF c(1)] by (simp add: store_ok_def info_change_def)
  have "ref_value s d = ref_value ?s d" if d: "ref_ok ?s d" for d
  proof -
    have "cr_methodInfo d < length (st_infos ?s)" using d by (simp add: ref_ok_def)
    note at = registered_at[OF this]
    have "map_option (info_value s) ((st_infos ?s ! cr_methodInfo d) n) =
        map_option (info_value ?s) ((st_infos ?s ! cr_methodInfo d) n)" for n
      using at o by (cases "(st_infos ?s ! cr_methodInfo d) n") auto
    then show ?thesis using c(1) by (simp add: ref_value_def info_change_def)
  qed
  then have v: "config_value s q = config_value ?s q" if "q < length (st_configs ?s)" for q
    using that w(1) c(1) by (simp add: config_value_def store_ok_def info_change_def)
  have "st_configs s = st_configs ?s" using c(1) by (simp add: info_change_def)
  then show ?thesis using w ok v c(2) reg by (auto simp: world_ok_def)
qed

lemma world_run: "(world_step grow)\<^sup>*\<^sup>* v w \<Longrightarrow> world_ok g v \<Longrightarrow> world_ok g w"
proof (induction rule: rtranclp_induct)
  case (step x y)
  from step.hyps(2) step.IH[OF step.prems] show ?case
  proof (cases rule: world_step.cases)
    case load
    then show ?thesis using step.IH[OF step.prems] by (auto simp: world_ok_def)
  qed (simp_all only: world_call world_methods world_edit)
qed

section \<open>Properties of the store\<close>

text \<open>
  C18: copy-on-write is sound. Whatever configuration calls, loads of the snapshot, calls of
  \<open>Methods\<close> and edits of what it returned have interleaved, the installed snapshot is the one
  that the calls make of a fresh server on immutable values; every snapshot a goroutine loaded
  is still what it was when it was loaded; and the next call does in memory, with its result
  and log, what it does on values.
\<close>

theorem config_snapshots_isolated:
  assumes "(world_step grow)\<^sup>*\<^sup>* (New_ref gomaxprocs) w"
  shows "config_value (wo_store w) (wo_cfg w) =
       foldl (\<lambda>c x. fst (snd (value_call x c))) (New gomaxprocs) (wo_calls w) \<and>
     list_all (\<lambda>(p, v). config_value (wo_store w) p = v) (wo_loaded w) \<and>
     (case store_call grow x (wo_cfg w) (wo_store w) of (err, p, evs, s) \<Rightarrow> (err, config_value s p, evs)) =
       value_call x (config_value (wo_store w) (wo_cfg w))"
proof -
  have ok: "world_ok gomaxprocs w" by (rule world_run[OF assms world_ok_New])
  obtain err p evs s where c: "store_call grow x (wo_cfg w) (wo_store w) = (err, p, evs, s)" by (metis surj_pair)
  have "(err, config_value s p, evs) = value_call x (config_value (wo_store w) (wo_cfg w))"
    using store_call_ok[OF c] ok by (simp add: world_ok_def)
  with ok c show ?thesis by (auto simp: world_ok_def list_all_iff)
qed

lemma map_sort_key: "map f (sort_key (\<lambda>x. k (f x)) xs) = sort_key k (map f xs)"
proof -
  have "map f (insort_key (\<lambda>x. k (f x)) x ys) = insort_key k (f x) (map f ys)" for x ys
    by (induction ys) simp_all
  then show ?thesis by (induction xs) simp_all
qed

text \<open>
  C19: \<open>Methods\<close>, called on a snapshot loaded at any time, returns the infos that were registered
  then, sorted by name and in whatever order the map is ranged over, in slices and maps that no
  registered info uses: however the callers write to those they were given, it keeps returning
  the same.
\<close>

theorem Methods_deep_copies:
  assumes "(world_step grow)\<^sup>*\<^sup>* (New_ref gomaxprocs) w" "(p, v) \<in> set (wo_loaded w)"
    and "set order = dom (cf_methodInfo v)"
    and "Methods_ref grow order p (wo_store w) = (out, s)" "(\<lambda>s t. \<exists>i \<in> set out. edit i s t)\<^sup>*\<^sup>* s t"
  shows "map (info_value s) out = Methods order v \<and>
     (case Methods_ref grow order p t of (out', u) \<Rightarrow> map (info_value u) out') = Methods order v"
proof -
  have stable: "map (info_value u) xs = Methods order v"
    if r: "world_ok gomaxprocs w" "(p, v) \<in> set (wo_loaded w)" "Methods_ref grow order p (wo_store w) = (xs, u)" for w xs u
  proof -
    have ok: "store_ok (wo_store w)" "p < length (st_configs (wo_store w))" "config_value (wo_store w) p = v"
      using r(1,2) by (auto simp: world_ok_def)
    with assms(3) have d: "set order = dom (cf_methodInfo (config_value (wo_store w) p))" by simp
    let ?is = "map (\<lambda>k. the ((st_infos (wo_store w) ! cr_methodInfo (st_configs (wo_store w) ! p)) k)) order"
    obtain ys where y: "clone_infos grow ?is (wo_store w) = (ys, u)" "xs = sort_key ir_Name ys"
      using r(3) by (auto simp: Methods_ref_def split: prod.splits)
    have "\<forall>i \<in> set ?is. info_ok (wo_store w) i" using snapshot_infos(1)[OF ok(1,2) d] by blast
    from clone_infos_ok[OF y(1) this] have "map (info_value u) ys = map (info_value (wo_store w)) ?is" by simp
    also have "\<dots> = map (\<lambda>k. the (cf_methodInfo v k)) order" using snapshot_infos(2)[OF ok(1,2) d] ok(3) by simp
    finally have "sort_key mi_Name (map (info_value u) ys) = Methods order v" by (simp add: Methods_def)
    moreover have "ir_Name = (\<lambda>i. mi_Name (info_value u i))" by (simp add: info_value_def fun_eq_iff)
    ultimately show ?thesis using map_sort_key[of "info_value u" mi_Name ys] y(2) by simp
  qed
  have w: "world_ok gomaxprocs w" by (rule world_run[OF assms(1) world_ok_New])
  let ?w = "\<lambda>u. w\<lparr>wo_store := u, wo_handed := wo_handed w @ out\<rparr>"
  have "world_ok gomaxprocs (?w t)" using assms(5)
  proof (induction rule: rtranclp_induct)
    case base
    show ?case by (rule world_methods[OF w assms(2-4)])
  next
    case (step x y)
    from step.hyps(2) obtain i where "i \<in> set out" "edit i x y" by blast
    with world_edit[OF step.IH, of i y] have "world_ok gomaxprocs ((?w x)\<lparr>wo_store := y\<rparr>)" by simp
    moreover have "(?w x)\<lparr>wo_store := y\<rparr> = ?w y" by (cases w) simp
    ultimately show ?case by simp
  qed
  from stable[OF this, of "fst (Methods_ref grow order p t)" "snd (Methods_ref grow order p t)"] assms(2)
  have "map (info_value (snd (Methods_ref grow order p t))) (fst (Methods_ref grow order p t)) = Methods order v" by simp
  with stable[OF w assms(2,4)] show ?thesis by (simp add: case_prod_unfold)
qed

section \<open>A server with a tagged method\<close>

definition tagged_handler :: "(unit, unit) rpc_method" where
  "tagged_handler = (\<lambda>e now ctx data. (Hangs, 0))"

definition tagged_call :: "(unit, unit) writer_call" where
  "tagged_call = CallRegisterTyped ''add'' tagged_handler 1 2 [OptTags [''math''], OptPublic]"

lemma tagged_value: "cf_methodInfo (fst (snd (value_call tagged_call (New 4)))) =
   [''add'' \<mapsto> zero_methodinfo\<lparr>mi_Name := ''add'', mi_Params := Some 1, mi_Result := Some 2,
      mi_Tags := [''math''], mi_Public := True\<rparr>]"
proof -
  have "method_permitted ''add''" "cf_methods (New 4 :: (unit, unit) config) ''add'' = None"
    by (simp_all add: method_permitted_def New_def)
  from registerMethod_accepts[OF this] show ?thesis
    by (simp add: tagged_call_def WithTags_def WithPublic_def New_def zero_methodinfo_def)
qed

text \<open>A snapshot that is in use when the logger is removed keeps it.\<close>

theorem config_snapshots_isolated_witness:
  "\<exists>w :: (unit, unit) world. (world_step (\<lambda>n. n))\<^sup>*\<^sup>* (New_ref 4) w \<and>
     cf_logger (config_value (wo_store w) (wo_cfg w)) = None \<and>
     wo_loaded w \<noteq> [] \<and> list_all (\<lambda>(p, v). cf_logger (config_value (wo_store w) p) = Some 0) (wo_loaded w)"
proof -
  let ?w0 = "New_ref 4 :: (unit, unit) world"
  let ?w1 = "?w0\<lparr>wo_loaded := [(0, config_value (wo_store ?w0) 0)]\<rparr>"
  obtain err p evs s where c: "store_call (\<lambda>n. n) (CallSetLogger None) (wo_cfg ?w1) (wo_store ?w1) = (err, p, evs, s)"
    by (metis surj_pair)
  let ?w2 = "?w1\<lparr>wo_store := s, wo_cfg := p, wo_calls := wo_calls ?w1 @ [CallSetLogger None]\<rparr>"
  have "world_step (\<lambda>n. n) ?w0 ?w1" using world_step.load[of "\<lambda>n. n" ?w0] by (simp add: New_ref_def)
  then have r: "(world_step (\<lambda>n. n))\<^sup>*\<^sup>* ?w0 ?w2"
    using world_step.call[OF c] by (meson converse_rtranclp_into_rtranclp rtranclp.rtrancl_refl)
  have "cf_logger (config_value (wo_store ?w0) 0) = Some 0" by (simp add: New_ref_def config_value_def ref_value_def)
  with config_snapshots_isolated[OF r] r show ?thesis
    by (intro exI[of _ ?w2]) (simp add: New_ref_def SetLogger_def updateConfig_def update_def)
qed

text \<open>The caller overwrites the tag in the list that he was given.\<close>

theorem Methods_deep_copies_witness:
  "\<exists>(w :: (unit, unit) world) p out s t. (world_step (\<lambda>n. n))\<^sup>*\<^sup>* (New_ref 4) w \<and>
     Methods_ref (\<lambda>n. n) [''add''] p (wo_store w) = (out, s) \<and> (\<lambda>s t. \<exists>i \<in> set out. edit i s t)\<^sup>*\<^sup>* s t \<and>
     map (mi_Tags \<circ> info_value t) out = [[''x'']] \<and>
     map mi_Tags (case Methods_ref (\<lambda>n. n) [''add''] p t of (out', u) \<Rightarrow> map (info_value u) out') = [[''math'']]"
proof -
  let ?w0 = "New_ref 4 :: (unit, unit) world"
  obtain err p evs s1 where c: "store_call (\<lambda>n. n) tagged_call (wo_cfg ?w0) (wo_store ?w0) = (err, p, evs, s1)"
    by (metis surj_pair)
  let ?w1 = "?w0\<lparr>wo_store := s1, wo_cfg := p, wo_calls := wo_calls ?w0 @ [tagged_call]\<rparr>"
  let ?v = "config_value s1 p"
  let ?w2 = "?w1\<lparr>wo_loaded := [(p, ?v)]\<rparr>"
  have st: "world_step (\<lambda>n. n) ?w0 ?w1" "world_step (\<lambda>n. n) ?w1 ?w2"
    using world_step.call[OF c] world_step.load[of "\<lambda>n. n" ?w1] by (simp_all add: New_ref_def)
  then have r: "(world_step (\<lambda>n. n))\<^sup>*\<^sup>* ?w0 ?w2" by (meson converse_rtranclp_into_rtranclp rtranclp.rtrancl_refl)
  have ok: "world_ok 4 ?w2" by (rule world_run[OF r world_ok_New])
  then have v: "cf_methodInfo ?v = [''add'' \<mapsto> zero_methodinfo\<lparr>mi_Name := ''add'', mi_Params := Some 1,
      mi_Result := Some 2, mi_Tags := [''math''], mi_Public := True\<rparr>]"
    using tagged_value by (simp add: world_ok_def New_ref_def)
  have d: "set [''add''] = dom (cf_methodInfo ?v)" by (simp add: v)
  have m: "map mi_Tags (Methods [''add''] ?v) = [[''math'']]" by (simp add: Methods_def v)
  obtain out s where l: "Methods_ref (\<lambda>n. n) [''add''] p (wo_store ?w2) = (out, s)" by (metis surj_pair)
  have in2: "(p, ?v) \<in> set (wo_loaded ?w2)" by simp
  note same = Methods_deep_copies[OF r in2 d l]
  from same[OF rtranclp.rtrancl_refl] m have "map (mi_Tags \<circ> info_value s) out = [[''math'']]" by (metis map_map)
  then obtain i where i: "out = [i]" "elems (ic_tags s) (ir_Tags i) = [''math'']" by (auto simp: info_value_def)
  then obtain a n where a: "ir_Tags i = Some (a, n)" by (cases "ir_Tags i") auto
  have "info_ok s i" using methods_run[of s1 p "[''add'']" "\<lambda>n. n" out s] ok d l i(1) by (simp add: world_ok_def)
  then have len: "a < length (ic_tags s)" "n \<le> length (fst (ic_tags s ! a))"
    using a by (simp_all add: info_ok_def slice_ok_def)
  have n: "n = 1" using i(2) a len(2) by (simp add: elems_def) (metis length_take length_Cons list.size(3) min.absorb2 One_nat_def)
  let ?t = "s\<lparr>ic_tags := (ic_tags s)[a := ([''x''], 1)]\<rparr>"
  have e: "(\<lambda>s t. \<exists>i \<in> set out. edit i s t)\<^sup>*\<^sup>* s ?t" using edit.tags[OF a] i(1) by auto
  have "map (mi_Tags \<circ> info_value ?t) out = [[''x'']]" using i(1) a len(1) n by (simp add: info_value_def elems_def)
  with same[OF e] r l e m show ?thesis by (intro exI[of _ ?w2] exI[of _ p] exI[of _ out] exI[of _ s] exI[of _ ?t]) simp
qed

end
