(* ===== verification/Codec.thy ===== *)
theory Codec
  imports Types
begin

text \<open>
  The wire codecs of package \<open>structs\<close>: \<open>request_codec.go\<close>, \<open>error_codec.go\<close>, \<open>id.go\<close> and
  \<open>structs_easyjson.go\<close>. They are written against \<open>jwriter.Writer\<close> and \<open>jlexer.Lexer\<close> of
  easyjson, which is not part of the repository: the operations of the two are the fields of
  the records \<open>jwriter\<close> and \<open>jlexer\<close>, and the codecs take them as parameters. A lexer
  operation that may fetch a token returns the lexer after it. An encoder threads the writer;
  a decoder is \<open>None\<close> if its loop over the tokens never ends.
\<close>

section \<open>Writers\<close>

record 'w jwriter =
  jw_new :: 'w
  jw_RawByte :: "'w \<Rightarrow> char \<Rightarrow> 'w"
  jw_RawString :: "'w \<Rightarrow> bytes \<Rightarrow> 'w"
  jw_String :: "'w \<Rightarrow> bytes \<Rightarrow> 'w"
  jw_Int :: "'w \<Rightarrow> int \<Rightarrow> 'w"
  jw_Raw :: "'w \<Rightarrow> bytes + slice \<Rightarrow> 'w"
  jw_BuildBytes :: "'w \<Rightarrow> bytes"
  jw_Error :: "'w \<Rightarrow> bytes option"
  jw_nilSliceAsEmpty :: "'w \<Rightarrow> bool"

text \<open>\<open>jw_Raw w (Inl e)\<close> is \<open>w.Raw(data, e)\<close> with a non-nil error.\<close>

definition built :: "'w jwriter \<Rightarrow> 'w \<Rightarrow> bytes + bytes" where
  "built jw w = (case jw_Error jw w of Some e \<Rightarrow> Inl e | None \<Rightarrow> Inr (jw_BuildBytes jw w))"

section \<open>Encoders\<close>

definition ID_MarshalEasyJSON :: "'w jwriter \<Rightarrow> slice \<Rightarrow> 'w \<Rightarrow> 'w" where
  "ID_MarshalEasyJSON jw v w =
     (if slice_len v = 0 then jw_RawString jw w ''null'' else jw_Raw jw w (Inr v))"

definition ID_MarshalJSON :: "slice \<Rightarrow> bytes" where
  "ID_MarshalJSON v = (if slice_len v = 0 then ''null'' else slice_bytes v)"

definition ID_UnmarshalJSON :: "bytes \<Rightarrow> slice" where
  "ID_UnmarshalJSON data = (if data = [] then None else Some data)"

definition Request_MarshalEasyJSON :: "'w jwriter \<Rightarrow> request \<Rightarrow> 'w \<Rightarrow> 'w" where
  "Request_MarshalEasyJSON jw v w0 =
     (let w = jw_RawString jw w0 ''{\"jsonrpc\":'';
          w = jw_String jw w (rq_Version v);
          w = jw_RawString jw w '',\"method\":'';
          w = jw_String jw w (rq_Method v);
          w = (if slice_len (rq_Params v) > 0
               then jw_Raw jw (jw_RawString jw w '',\"params\":'') (Inr (rq_Params v)) else w);
          w = (if rq_ID v \<noteq> None
               then ID_MarshalEasyJSON jw (rq_ID v) (jw_RawString jw w '',\"id\":'') else w)
      in jw_RawByte jw w RBRACE)"

definition Request_MarshalJSON :: "'w jwriter \<Rightarrow> request \<Rightarrow> bytes + bytes" where
  "Request_MarshalJSON jw v = built jw (Request_MarshalEasyJSON jw v (jw_new jw))"

text \<open>
  The data member: \<open>structs.ID\<close> is an \<open>easyjson.Marshaler\<close>, \<open>json.RawMessage\<close> a
  \<open>json.Marshaler\<close> whose result is not compacted, everything else goes through
  \<open>json.Marshal\<close>.
\<close>

definition encode_data :: "'w jwriter \<Rightarrow> goany \<Rightarrow> 'w \<Rightarrow> 'w" where
  "encode_data jw d w =
     (case d of
        AID v \<Rightarrow> ID_MarshalEasyJSON jw v w
      | ARawMessage m \<Rightarrow> jw_Raw jw w (Inr (case m of None \<Rightarrow> Some ''null'' | Some b \<Rightarrow> Some b))
      | _ \<Rightarrow> jw_Raw jw w (case codec_Marshal d of Inl e \<Rightarrow> Inl e | Inr b \<Rightarrow> Inr (Some b)))"

definition Error_MarshalEasyJSON :: "'w jwriter \<Rightarrow> rpc_error \<Rightarrow> 'w \<Rightarrow> 'w" where
  "Error_MarshalEasyJSON jw v w0 =
     (let w = jw_RawString jw w0 ''{\"code\":'';
          w = jw_Int jw w (er_Code v);
          w = jw_RawString jw w '',\"message\":'';
          w = jw_String jw w (er_Message v);
          w = (if er_Data v \<noteq> ANil
               then encode_data jw (er_Data v) (jw_RawString jw w '',\"data\":'') else w)
      in jw_RawByte jw w RBRACE)"

definition Error_MarshalJSON :: "'w jwriter \<Rightarrow> rpc_error \<Rightarrow> bytes + bytes" where
  "Error_MarshalJSON jw v = built jw (Error_MarshalEasyJSON jw v (jw_new jw))"

text \<open>\<open>(*in.Result).MarshalJSON()\<close> gives \<open>null\<close> for a nil raw message.\<close>

definition Response_MarshalEasyJSON :: "'w jwriter \<Rightarrow> response \<Rightarrow> 'w \<Rightarrow> 'w" where
  "Response_MarshalEasyJSON jw v w0 =
     (let w = jw_RawByte jw w0 LBRACE;
          w = jw_RawString jw w ''\"jsonrpc\":'';
          w = jw_String jw w (rs_Version v);
          w = (case rs_Result v of None \<Rightarrow> w
               | Some m \<Rightarrow> jw_Raw jw (jw_RawString jw w '',\"result\":'')
                   (Inr (case m of None \<Rightarrow> Some ''null'' | Some b \<Rightarrow> Some b)));
          w = (case rs_Error v of None \<Rightarrow> w
               | Some e \<Rightarrow> Error_MarshalEasyJSON jw e (jw_RawString jw w '',\"error\":''));
          w = jw_RawString jw w '',\"id\":'';
          w = ID_MarshalEasyJSON jw (rs_ID v) w
      in jw_RawByte jw w RBRACE)"

definition Response_MarshalJSON :: "'w jwriter \<Rightarrow> response \<Rightarrow> bytes + bytes" where
  "Response_MarshalJSON jw v = built jw (Response_MarshalEasyJSON jw v (jw_new jw))"

text \<open>A slice of structs; \<open>None\<close> is the nil slice.\<close>

fun encode_items :: "'w jwriter \<Rightarrow> ('a \<Rightarrow> 'w \<Rightarrow> 'w) \<Rightarrow> bool \<Rightarrow> 'a list \<Rightarrow> 'w \<Rightarrow> 'w" where
  "encode_items jw enc first [] w = w"
| "encode_items jw enc first (x # xs) w =
     encode_items jw enc False xs (enc x (if first then w else jw_RawByte jw w COMMA))"

definition encode_array :: "'w jwriter \<Rightarrow> ('a \<Rightarrow> 'w \<Rightarrow> 'w) \<Rightarrow> 'a list option \<Rightarrow> 'w \<Rightarrow> 'w" where
  "encode_array jw enc v w =
     (if v = None \<and> \<not> jw_nilSliceAsEmpty jw w then jw_RawString jw w ''null''
      else jw_RawByte jw (encode_items jw enc True (case v of None \<Rightarrow> [] | Some xs \<Rightarrow> xs)
             (jw_RawByte jw w LBRACK)) RBRACK)"

definition Requests_MarshalJSON :: "'w jwriter \<Rightarrow> request list option \<Rightarrow> bytes + bytes" where
  "Requests_MarshalJSON jw v = built jw (encode_array jw (Request_MarshalEasyJSON jw) v (jw_new jw))"

definition BatchFullResponse_MarshalJSON :: "'w jwriter \<Rightarrow> response list option \<Rightarrow> bytes + bytes" where
  "BatchFullResponse_MarshalJSON jw v =
     built jw (encode_array jw (Response_MarshalEasyJSON jw) v (jw_new jw))"

section \<open>Lexers\<close>

record 'l jlexer =
  lx_new :: "bytes \<Rightarrow> 'l"
  lx_IsStart :: "'l \<Rightarrow> bool"
  lx_IsNull :: "'l \<Rightarrow> bool \<times> 'l"
  lx_Skip :: "'l \<Rightarrow> 'l"
  lx_SkipRecursive :: "'l \<Rightarrow> 'l"
  lx_Delim :: "'l \<Rightarrow> char \<Rightarrow> 'l"
  lx_IsDelim :: "'l \<Rightarrow> char \<Rightarrow> bool \<times> 'l"
  lx_UnsafeFieldName :: "'l \<Rightarrow> bytes \<times> 'l"
  lx_WantColon :: "'l \<Rightarrow> 'l"
  lx_WantComma :: "'l \<Rightarrow> 'l"
  lx_String :: "'l \<Rightarrow> bytes \<times> 'l"
  lx_Int :: "'l \<Rightarrow> int \<times> 'l"
  lx_Raw :: "'l \<Rightarrow> slice \<times> 'l"
  lx_Ok :: "'l \<Rightarrow> bool"
  lx_Consumed :: "'l \<Rightarrow> 'l"
  lx_Error :: "'l \<Rightarrow> bytes option"

section \<open>Decoders\<close>

text \<open>The loop over the members of an object; \<open>field\<close> is the \<open>switch\<close> on the key.\<close>

type_synonym ('l, 'a) field = "bytes \<Rightarrow> 'a \<Rightarrow> 'l \<Rightarrow> ('a \<times> 'l) option"

partial_function (option) object_loop :: "'l jlexer \<Rightarrow> ('l, 'a) field \<Rightarrow> 'a \<Rightarrow> 'l \<Rightarrow> ('a \<times> 'l) option" where
  "object_loop lx field v l =
     (let (stop, l1) = lx_IsDelim lx l RBRACE in
      if stop then Some (v, l1)
      else (let (key, l2) = lx_UnsafeFieldName lx l1 in
            Option.bind (field key v (lx_WantColon lx l2))
              (\<lambda>(v', l3). object_loop lx field v' (lx_WantComma lx l3))))"

text \<open>The decoder of a struct, as the hand-written and the generated code share it.\<close>

definition decode_struct :: "'l jlexer \<Rightarrow> ('l, 'a) field \<Rightarrow> 'a \<Rightarrow> 'l \<Rightarrow> ('a \<times> 'l) option" where
  "decode_struct lx field v l =
     (let isTopLevel = lx_IsStart lx l;
          (isNull, l1) = lx_IsNull lx l
      in if isNull then Some (v, lx_Skip lx (if isTopLevel then lx_Consumed lx l1 else l1))
         else Option.bind (object_loop lx field v (lx_Delim lx l1 LBRACE))
           (\<lambda>(v', l2). let l3 = lx_Delim lx l2 RBRACE
                        in Some (v', if isTopLevel then lx_Consumed lx l3 else l3)))"

text \<open>\<open>append(T(nil), raw...)\<close>.\<close>

definition copied :: "slice \<Rightarrow> slice" where
  "copied raw = (if slice_len raw = 0 then None else raw)"

definition Request_field :: "'l jlexer \<Rightarrow> ('l, request) field" where
  "Request_field lx key v l = Some
     (if key = ''jsonrpc'' then (let (s, l1) = lx_String lx l in (v\<lparr>rq_Version := s\<rparr>, l1))
      else if key = ''method'' then (let (s, l1) = lx_String lx l in (v\<lparr>rq_Method := s\<rparr>, l1))
      else if key = ''params'' then
        (let (isNull, l1) = lx_IsNull lx l in
         if isNull then (v\<lparr>rq_Params := None\<rparr>, lx_Skip lx l1)
         else (let (raw, l2) = lx_Raw lx l1 in (v\<lparr>rq_Params := copied raw\<rparr>, l2)))
      else if key = ''id'' then (let (raw, l1) = lx_Raw lx l in (v\<lparr>rq_ID := copied raw\<rparr>, l1))
      else (v, lx_SkipRecursive lx l))"

definition Request_UnmarshalEasyJSON :: "'l jlexer \<Rightarrow> request \<Rightarrow> 'l \<Rightarrow> (request \<times> 'l) option" where
  "Request_UnmarshalEasyJSON lx = decode_struct lx (Request_field lx)"

text \<open>\<open>UnmarshalJSON\<close> into \<open>v\<close>: the decoded value and the error, if any.\<close>

definition Request_UnmarshalJSON :: "'l jlexer \<Rightarrow> request \<Rightarrow> bytes \<Rightarrow> (request \<times> bytes option) option" where
  "Request_UnmarshalJSON lx v data =
     map_option (\<lambda>(v', l). (v', lx_Error lx l)) (Request_UnmarshalEasyJSON lx v (lx_new lx data))"

definition Error_field :: "'l jlexer \<Rightarrow> ('l, rpc_error) field" where
  "Error_field lx key v l = Some
     (if key = ''code'' then
        (let (isNull, l1) = lx_IsNull lx l in
         if isNull then (v, lx_Skip lx l1)
         else (let (n, l2) = lx_Int lx l1 in (v\<lparr>er_Code := n\<rparr>, l2)))
      else if key = ''message'' then
        (let (isNull, l1) = lx_IsNull lx l in
         if isNull then (v, lx_Skip lx l1)
         else (let (s, l2) = lx_String lx l1 in (v\<lparr>er_Message := s\<rparr>, l2)))
      else if key = ''data'' then
        (let (isNull, l1) = lx_IsNull lx l in
         if isNull then (v\<lparr>er_Data := ANil\<rparr>, lx_Skip lx l1)
         else (let (raw, l2) = lx_Raw lx l1 in (v\<lparr>er_Data := ARawMessage (copied raw)\<rparr>, l2)))
      else (v, lx_SkipRecursive lx l))"

definition Error_UnmarshalEasyJSON :: "'l jlexer \<Rightarrow> rpc_error \<Rightarrow> 'l \<Rightarrow> (rpc_error \<times> 'l) option" where
  "Error_UnmarshalEasyJSON lx = decode_struct lx (Error_field lx)"

definition Error_UnmarshalJSON :: "'l jlexer \<Rightarrow> rpc_error \<Rightarrow> bytes \<Rightarrow> (rpc_error \<times> bytes option) option" where
  "Error_UnmarshalJSON lx v data =
     map_option (\<lambda>(v', l). (v', lx_Error lx l)) (Error_UnmarshalEasyJSON lx v (lx_new lx data))"

definition zero_error :: rpc_error where
  "zero_error = \<lparr>er_Code = 0, er_Message = [], er_Data = ANil\<rparr>"

definition zero_response :: response where
  "zero_response = \<lparr>rs_Version = [], rs_Result = None, rs_Error = None, rs_ID = None\<rparr>"

text \<open>\<open>json.RawMessage.UnmarshalJSON\<close>: \<open>append((*m)[0:0], data...)\<close>, which never fails here.\<close>

definition rawmessage_set :: "slice \<Rightarrow> bytes \<Rightarrow> slice" where
  "rawmessage_set old data =
     (if data = [] then (case old of None \<Rightarrow> None | Some _ \<Rightarrow> Some []) else Some data)"

definition Response_field :: "'l jlexer \<Rightarrow> ('l, response) field" where
  "Response_field lx key v l =
     (if key = ''jsonrpc'' then Some
        (let (isNull, l1) = lx_IsNull lx l in
         if isNull then (v, lx_Skip lx l1)
         else (let (s, l2) = lx_String lx l1 in (v\<lparr>rs_Version := s\<rparr>, l2)))
      else if key = ''result'' then Some
        (let (isNull, l1) = lx_IsNull lx l in
         if isNull then (v\<lparr>rs_Result := None\<rparr>, lx_Skip lx l1)
         else (let old = (case rs_Result v of None \<Rightarrow> None | Some m \<Rightarrow> m);
                   (isNull', l2) = lx_IsNull lx l1
               in if isNull' then (v\<lparr>rs_Result := Some old\<rparr>, lx_Skip lx l2)
                  else (let (raw, l3) = lx_Raw lx l2
                        in if lx_Ok lx l3
                           then (v\<lparr>rs_Result := Some (rawmessage_set old (slice_bytes raw))\<rparr>, l3)
                           else (v\<lparr>rs_Result := Some old\<rparr>, l3))))
      else if key = ''error'' then
        (let (isNull, l1) = lx_IsNull lx l in
         if isNull then Some (v\<lparr>rs_Error := None\<rparr>, lx_Skip lx l1)
         else (let old = (case rs_Error v of None \<Rightarrow> zero_error | Some e \<Rightarrow> e);
                   (isNull', l2) = lx_IsNull lx l1
               in if isNull' then Some (v\<lparr>rs_Error := Some old\<rparr>, lx_Skip lx l2)
                  else map_option (\<lambda>(e, l3). (v\<lparr>rs_Error := Some e\<rparr>, l3)) (Error_UnmarshalEasyJSON lx old l2)))
      else if key = ''id'' then Some
        (let (isNull, l1) = lx_IsNull lx l in
         if isNull then (v, lx_Skip lx l1)
         else (let (raw, l2) = lx_Raw lx l1 in (v\<lparr>rs_ID := raw\<rparr>, l2)))
      else Some (v, lx_SkipRecursive lx l))"

definition Response_UnmarshalEasyJSON :: "'l jlexer \<Rightarrow> response \<Rightarrow> 'l \<Rightarrow> (response \<times> 'l) option" where
  "Response_UnmarshalEasyJSON lx = decode_struct lx (Response_field lx)"

definition Response_UnmarshalJSON :: "'l jlexer \<Rightarrow> response \<Rightarrow> bytes \<Rightarrow> (response \<times> bytes option) option" where
  "Response_UnmarshalJSON lx v data =
     map_option (\<lambda>(v', l). (v', lx_Error lx l)) (Response_UnmarshalEasyJSON lx v (lx_new lx data))"

text \<open>
  The decoders of the two slice types (generated code): \<open>null\<close> gives the nil slice, elements
  are appended in order, a \<open>null\<close> element is a zero value.
\<close>

partial_function (option) array_loop :: "'l jlexer \<Rightarrow> ('l \<Rightarrow> ('a \<times> 'l) option) \<Rightarrow> 'a \<Rightarrow> 'a list \<Rightarrow> 'l \<Rightarrow> ('a list \<times> 'l) option" where
  "array_loop lx dec zero xs l =
     (let (stop, l1) = lx_IsDelim lx l RBRACK in
      if stop then Some (xs, l1)
      else (let (isNull, l2) = lx_IsNull lx l1 in
            if isNull then array_loop lx dec zero (xs @ [zero]) (lx_WantComma lx (lx_Skip lx l2))
            else Option.bind (dec l2) (\<lambda>(x, l3). array_loop lx dec zero (xs @ [x]) (lx_WantComma lx l3))))"

definition decode_array :: "'l jlexer \<Rightarrow> ('l \<Rightarrow> ('a \<times> 'l) option) \<Rightarrow> 'a \<Rightarrow> 'a list option \<Rightarrow> 'l \<Rightarrow>
    ('a list option \<times> 'l) option" where
  "decode_array lx dec zero out l =
     (let isTopLevel = lx_IsStart lx l;
          (isNull, l1) = lx_IsNull lx l;
          fin = (\<lambda>l. if isTopLevel then lx_Consumed lx l else l)
      in if isNull then Some (None, fin (lx_Skip lx l1))
         else (let l2 = lx_Delim lx l1 LBRACK;
                   l3 = (if out = None then snd (lx_IsDelim lx l2 RBRACK) else l2)
               in map_option (\<lambda>(xs, l4). (Some xs, fin (lx_Delim lx l4 RBRACK))) (array_loop lx dec zero [] l3)))"

definition Requests_UnmarshalJSON :: "'l jlexer \<Rightarrow> request list option \<Rightarrow> bytes \<Rightarrow> (request list option \<times> bytes option) option" where
  "Requests_UnmarshalJSON lx v data =
     map_option (\<lambda>(v', l). (v', lx_Error lx l))
       (decode_array lx (Request_UnmarshalEasyJSON lx zero_request) zero_request v (lx_new lx data))"

definition BatchFullResponse_UnmarshalJSON :: "'l jlexer \<Rightarrow> response list option \<Rightarrow> bytes \<Rightarrow> (response list option \<times> bytes option) option" where
  "BatchFullResponse_UnmarshalJSON lx v data =
     map_option (\<lambda>(v', l). (v', lx_Error lx l))
       (decode_array lx (Response_UnmarshalEasyJSON lx zero_response) zero_response v (lx_new lx data))"

end
