(* ===== verification/Dispatch.thy ===== *)
theory Dispatch
  imports Config
begin

text \<open>
  Executing requests: \<open>handle.go\<close> from \<open>handleRPC\<close> on, \<open>call\<close> of \<open>main.go\<close>, the error
  responses of \<open>error.go\<close>, the interceptor chain, and \<open>observeOutcome\<close>.

  One request runs against one configuration snapshot, which no call of user code can change,
  so each function maps the snapshot, the context, the request and the clock to what it
  returns, the clock afterwards and the log records and observer calls it made, in order.
  \<open>None\<close> is a run that never comes back because user code hangs. The library's own code
  takes no time on this clock. \<open>env\<close> is what the request sees of the rest of the process:
  \<open>ev_user\<close> what user code sees, \<open>ev_late\<close> how long after its context is done the waiting
  goroutine of an enforced timeout is scheduled.
\<close>

record 'e env =
  ev_user :: 'e
  ev_late :: nat

section \<open>Error responses\<close>

definition rpc_error_of :: "goerr option \<Rightarrow> rpcerr option" where
  "rpc_error_of err =
     (case err of None \<Rightarrow> None
      | Some e \<Rightarrow> (case errors_As e of Some (Some r) \<Rightarrow> Some r | _ \<Rightarrow> None))"

definition errorResponse :: "('e, 'v) config \<Rightarrow> goerr option \<Rightarrow> int \<Rightarrow> goany \<Rightarrow> response \<times> event list" where
  "errorResponse cfg err errorCode0 v =
     (let rpcErr = rpc_error_of err;
          errorCode = (case rpcErr of Some r \<Rightarrow> re_Code r | None \<Rightarrow> errorCode0);
          data = (case rpcErr of Some r \<Rightarrow> re_Data r | None \<Rightarrow> ANil);
          internalMsg = (case cf_errors cfg InternalErrorCode of Some m \<Rightarrow> m | None \<Rightarrow> []);
          (code, msg, data, warn) =
            (case cf_errors cfg errorCode of
               Some m \<Rightarrow> (errorCode, m, data, [])
             | None \<Rightarrow> (InternalErrorCode, internalMsg, ANil,
                 if cf_logger cfg \<noteq> None
                 then [EvLog LevelWarn ''jsonrpc: unregistered error code'' [AttrInt ''code'' errorCode]]
                 else []));
          logged = (case err of
              Some e \<Rightarrow> if cf_logger cfg \<noteq> None
                then [EvLog (levelForCode code) ''jsonrpc: error response''
                        [AttrInt ''code'' code, AttrErr ''error'' e]]
                else []
            | None \<Rightarrow> [])
      in (newError msg code data v, warn @ logged))"

text \<open>The exported \<open>Error\<close>, on the installed snapshot.\<close>

definition Error :: "('e, 'v) config \<Rightarrow> goerr option \<Rightarrow> int \<Rightarrow> goany \<Rightarrow> response \<times> event list" where
  "Error j err errorCode v = errorResponse j err errorCode v"

section \<open>Interceptors and the method call\<close>

fun run_interceptors :: "('e, 'v) interceptor list \<Rightarrow> 'e \<Rightarrow> int \<Rightarrow> 'v ctx \<Rightarrow> bytes \<Rightarrow> slice \<Rightarrow> goany \<Rightarrow>
    ('v ctx \<times> int \<times> goerr option) outcome \<times> int" where
  "run_interceptors [] e now ctx methodName data v = (Returns (ctx, OK, None), now)"
| "run_interceptors (i # is) e now ctx methodName data v =
     (case i e now ctx methodName data v of
        (Hangs, d) \<Rightarrow> (Hangs, now + int d)
      | (Panics p, d) \<Rightarrow> (Panics p, now + int d)
      | (Returns (ctx', code, Some err), d) \<Rightarrow> (Returns (ctx', code, Some err), now + int d)
      | (Returns (ctx', code, None), d) \<Rightarrow> run_interceptors is e (now + int d) ctx' methodName data v)"

definition callGlobalInterceptors :: "('e, 'v) config \<Rightarrow> 'e \<Rightarrow> int \<Rightarrow> 'v ctx \<Rightarrow> bytes \<Rightarrow> slice \<Rightarrow> goany \<Rightarrow>
    ('v ctx \<times> int \<times> goerr option) outcome \<times> int" where
  "callGlobalInterceptors cfg = run_interceptors (cf_globalInterceptors cfg)"

text \<open>
  \<open>call\<close>: a panic anywhere below is recovered into an internal error whose text is the
  panic value's \<open>%v\<close>.
\<close>

definition rpc_call :: "('e, 'v) config \<Rightarrow> 'e \<Rightarrow> int \<Rightarrow> 'v ctx \<Rightarrow> bytes \<Rightarrow> slice \<Rightarrow> goany \<Rightarrow>
    (response \<times> event list \<times> int) option" where
  "rpc_call cfg e now ctx methodName data v =
     (let fail = (\<lambda>err code t. let (resp, evs) = errorResponse cfg err code v in Some (resp, evs, t));
          recovered = (\<lambda>p t. fail (Some (errors_New p)) InternalErrorCode t)
      in case callGlobalInterceptors cfg e now ctx methodName data v of
           (Hangs, t) \<Rightarrow> None
         | (Panics p, t) \<Rightarrow> recovered p t
         | (Returns (ctx', code, Some err), t) \<Rightarrow> fail (Some err) code t
         | (Returns (ctx', code, None), t) \<Rightarrow>
             (case cf_composed cfg methodName of
                None \<Rightarrow> fail None MethodNotFoundErrorCode t
              | Some m \<Rightarrow>
                  (case m e t ctx' data of
                     (Hangs, d) \<Rightarrow> None
                   | (Panics p, d) \<Rightarrow> recovered p (t + int d)
                   | (Returns (res, errCode, Some err), d) \<Rightarrow> fail (Some err) errCode (t + int d)
                   | (Returns (res, errCode, None), d) \<Rightarrow>
                       Some (NewResponse v (Some res) None, [], t + int d))))"

section \<open>Timeouts\<close>

text \<open>The outcome of \<open>dispatch\<close>: \<open>dp_detached\<close> are the records of an abandoned call, which
  finishes in the background.\<close>

record dispatched =
  dp_resp :: response
  dp_time :: int
  dp_events :: "event list"
  dp_detached :: "event list"

definition method_timeout :: "('e, 'v) config \<Rightarrow> bytes \<Rightarrow> int" where
  "method_timeout cfg name =
     (case cf_methodInfo cfg name of
        Some info \<Rightarrow> if mi_Timeout info > 0 then mi_Timeout info else cf_defaultTimeOut cfg
      | None \<Rightarrow> cf_defaultTimeOut cfg)"

definition too_long :: "bytes \<Rightarrow> goerr" where
  "too_long name = errors_New (''method '' @ quoted name @ '' took too long'')"

definition aborted :: "bytes \<Rightarrow> goerr \<Rightarrow> goerr" where
  "aborted name cause = Errorf_w (''method '' @ quoted name @ '' aborted: '' @ goerr_Error cause) cause"

text \<open>
  In enforced mode the waiter is scheduled \<open>ev_late\<close> after the context is done; a response
  that is ready by then is preferred. In inline mode the deadline is checked when the call
  is over.
\<close>

definition dispatch :: "'e env \<Rightarrow> 'v ctx \<Rightarrow> ('e, 'v) config \<Rightarrow> request \<Rightarrow> int \<Rightarrow> dispatched option" where
  "dispatch env ctx cfg data now =
     (let ctxt = WithTimeoutCtx ctx now (method_timeout cfg (rq_Method data));
          called = rpc_call cfg (ev_user env) now ctxt (rq_Method data) (rq_Params data) (AID (rq_ID data));
          limit = (\<lambda>err. errorResponse cfg (Some err) RequestTimeLimit (AID (rq_ID data)))
      in if cf_enforcedTimeout cfg then
           (case cx_done ctxt of
              None \<Rightarrow> map_option (\<lambda>(resp, evs, t). \<lparr>dp_resp = resp, dp_time = t, dp_events = evs, dp_detached = []\<rparr>) called
            | Some (td, cerr, cause) \<Rightarrow>
                (let wake = max now td + int (ev_late env);
                     abort = (\<lambda>bg. let (resp, evs) = limit (if cerr = DeadlineExceeded then too_long (rq_Method data)
                                                            else aborted (rq_Method data) cause)
                                   in Some \<lparr>dp_resp = resp, dp_time = wake, dp_events = evs, dp_detached = bg\<rparr>)
                 in case called of
                      None \<Rightarrow> abort []
                    | Some (resp, evs, t) \<Rightarrow>
                        if t \<le> wake
                        then Some \<lparr>dp_resp = resp, dp_time = t, dp_events = evs, dp_detached = []\<rparr>
                        else abort evs))
         else
           (case called of
              None \<Rightarrow> None
            | Some (resp, evs, t) \<Rightarrow>
                if ctx_Err ctxt t = Some DeadlineExceeded
                then (let (resp', evs') = limit (too_long (rq_Method data))
                      in Some \<lparr>dp_resp = resp', dp_time = t, dp_events = evs @ evs', dp_detached = []\<rparr>)
                else Some \<lparr>dp_resp = resp, dp_time = t, dp_events = evs, dp_detached = []\<rparr>))"

section \<open>The observer\<close>

definition observeOutcome :: "response option \<Rightarrow> int \<times> rpc_error option" where
  "observeOutcome resp =
     (case resp of
        Some r \<Rightarrow> (case rs_Error r of Some e \<Rightarrow> (er_Code e, Some e) | None \<Rightarrow> (OK, None))
      | None \<Rightarrow> (OK, None))"

definition observe :: "'e env \<Rightarrow> 'v ctx \<Rightarrow> ('e, 'v) config \<Rightarrow> response option \<Rightarrow> bytes \<Rightarrow> bool \<Rightarrow> int \<Rightarrow> int \<Rightarrow>
    (int \<times> event list) option" where
  "observe env ctx cfg resp meth notification start now =
     (case cf_observe cfg of
        None \<Rightarrow> Some (now, [])
      | Some f \<Rightarrow>
          (let (code, cerr) = observeOutcome resp;
               info = \<lparr>ci_Method = meth, ci_Code = code, ci_Err = cerr, ci_Duration = now - start,
                       ci_Notification = notification\<rparr>
           in case f (ev_user env) now ctx info of
                (Hangs, d) \<Rightarrow> None
              | (Returns _, d) \<Rightarrow> Some (now + int d, [EvObserve info])
              | (Panics p, d) \<Rightarrow> Some (now + int d, EvObserve info #
                  (if cf_logger cfg \<noteq> None
                   then [EvLog LevelError ''jsonrpc: observer panicked'' [AttrPanic ''panic'' p]] else []))))"

section \<open>One request\<close>

definition validateRequest :: "request \<Rightarrow> goerr option" where
  "validateRequest data =
     (if rq_Version data \<noteq> Version then Some (errors_New ''not valid version'')
      else if rq_Method data = '''' then Some (errors_New ''method is required'')
      else if slice_len (rq_ID data) > 0 then
        (if hd (slice_bytes (rq_ID data)) \<in> set (QUOTE # ''-n0123456789'')
         then if \<not> Valid (slice_bytes (rq_ID data)) then Some (errors_New ''id is not a valid JSON value'')
              else None
         else Some (errors_New ''id must be a string, number, or null''))
      else None)"

text \<open>What a handled request leaves behind: the response (\<open>None\<close>: the server stays silent),
  the clock, the records, and those of an abandoned call.\<close>

record handled =
  hd_resp :: "response option"
  hd_time :: int
  hd_events :: "event list"
  hd_detached :: "event list"

definition handleRPC :: "'e env \<Rightarrow> 'v ctx \<Rightarrow> ('e, 'v) config \<Rightarrow> request \<Rightarrow> int \<Rightarrow> handled option" where
  "handleRPC env ctx cfg data start =
     (case validateRequest data of
        Some err \<Rightarrow>
          (let v = (if slice_len (rq_ID data) > 0 \<and> \<not> Valid (slice_bytes (rq_ID data)) then None else rq_ID data);
               (resp, evs) = errorResponse cfg (Some err) InvalidRequestErrorCode (AID v)
           in case observe env ctx cfg (Some resp) (rq_Method data) False start start of
                None \<Rightarrow> None
              | Some (t, obs) \<Rightarrow>
                  Some \<lparr>hd_resp = Some resp, hd_time = t, hd_events = evs @ obs, hd_detached = []\<rparr>)
      | None \<Rightarrow>
          (case dispatch env ctx cfg data start of
             None \<Rightarrow> None
           | Some d \<Rightarrow>
               (case observe env ctx cfg (Some (dp_resp d)) (rq_Method data) (slice_len (rq_ID data) = 0) start (dp_time d) of
                  None \<Rightarrow> None
                | Some (t, obs) \<Rightarrow>
                    Some \<lparr>hd_resp = (if slice_len (rq_ID data) = 0 then None else Some (dp_resp d)),
                          hd_time = t, hd_events = dp_events d @ obs, hd_detached = dp_detached d\<rparr>)))"

text \<open>The exported \<open>HandleRPC\<close> loads the installed snapshot once.\<close>

definition HandleRPC :: "'e env \<Rightarrow> 'v ctx \<Rightarrow> ('e, 'v) config \<Rightarrow> request \<Rightarrow> int \<Rightarrow> handled option" where
  "HandleRPC env ctx j data start = handleRPC env ctx j data start"

section \<open>A batch\<close>

text \<open>
  One entry of a batch, as a worker runs it. \<open>sched i\<close> is what entry \<open>i\<close> sees of the rest
  of the process and when its worker starts it.
\<close>

definition batch_entry :: "(nat \<Rightarrow> 'e env \<times> int) \<Rightarrow> 'v ctx \<Rightarrow> ('e, 'v) config \<Rightarrow> request list \<Rightarrow> bool list option \<Rightarrow>
    nat \<Rightarrow> handled option" where
  "batch_entry sched ctx cfg data parseFailed idx =
     (let (env, start) = sched idx in
      if (case parseFailed of Some pf \<Rightarrow> pf ! idx | None \<Rightarrow> False) then
        (let (resp, evs) = errorResponse cfg
               (Some (errors_New ''batch entry is not a valid request object'')) InvalidRequestErrorCode ANil
         in case observe env ctx cfg (Some resp) '''' False start start of
              None \<Rightarrow> None
            | Some (t, obs) \<Rightarrow> Some \<lparr>hd_resp = Some resp, hd_time = t, hd_events = evs @ obs, hd_detached = []\<rparr>)
      else handleRPC env ctx cfg (data ! idx) start)"

text \<open>
  \<open>handleBatchRPC\<close> waits for every entry and collects the responses in request order. How the
  workers share the entries is the step machine of theory \<open>BatchPool\<close>.
\<close>

definition handleBatchRPC :: "(nat \<Rightarrow> 'e env \<times> int) \<Rightarrow> 'v ctx \<Rightarrow> ('e, 'v) config \<Rightarrow> request list \<Rightarrow> bool list option \<Rightarrow>
    response list option" where
  "handleBatchRPC sched ctx cfg data parseFailed =
     (let raw = map (batch_entry sched ctx cfg data parseFailed) [0..<length data]
      in if None \<in> set raw then None
         else Some (List.map_filter (\<lambda>h. hd_resp (the h)) raw))"

definition HandleBatchRPC :: "(nat \<Rightarrow> 'e env \<times> int) \<Rightarrow> 'v ctx \<Rightarrow> ('e, 'v) config \<Rightarrow> request list \<Rightarrow> response list option" where
  "HandleBatchRPC sched ctx j data = handleBatchRPC sched ctx j data None"

end
