(* ===== verification/Handle.thy ===== *)
theory Handle
  imports Codec Dispatch
begin

text \<open>
  \<open>HandleRPCJSONRawMessage\<close> (\<open>handle.go\<close>): from the raw bytes of a message to the raw bytes of
  the reply, with the size limits, the classification of malformed payloads, the decoding of
  the entries of a batch one by one, and the fallbacks when a response does not marshal.
  The result is \<open>None\<close> if user code (or the lexer's loop) never comes back; otherwise the
  reply, \<open>None\<close> being Go's \<open>nil\<close> (the server stays silent), and the log records written at
  this level; those of the requests are in theory \<open>Dispatch\<close>.
\<close>

record message_result =
  mr_reply :: "bytes option"
  mr_log :: "event list"

definition reply :: "bytes \<Rightarrow> message_result option" where
  "reply b = Some \<lparr>mr_reply = Some b, mr_log = []\<rparr>"

definition silent :: "message_result option" where
  "silent = Some \<lparr>mr_reply = None, mr_log = []\<rparr>"

definition logging :: "event list \<Rightarrow> message_result option \<Rightarrow> message_result option" where
  "logging evs r = map_option (\<lambda>m. m\<lparr>mr_log := evs @ mr_log m\<rparr>) r"

definition debug_log :: "('e, 'v) config \<Rightarrow> bytes \<Rightarrow> attr list \<Rightarrow> event list" where
  "debug_log cfg msg attrs = (if cf_logger cfg \<noteq> None then [EvLog LevelDebug msg attrs] else [])"

definition logMarshalFailure :: "('e, 'v) config \<Rightarrow> bytes \<Rightarrow> event list" where
  "logMarshalFailure cfg err =
     (if cf_logger cfg \<noteq> None
      then [EvLog LevelError ''jsonrpc: response marshal failed'' [AttrErr ''error'' (errors_New err)]] else [])"

definition safeInternalResponse :: "('e, 'v) config \<Rightarrow> goany \<Rightarrow> response" where
  "safeInternalResponse cfg v =
     newError (case cf_errors cfg InternalErrorCode of Some m \<Rightarrow> m | None \<Rightarrow> []) InternalErrorCode ANil v"

section \<open>Batches\<close>

text \<open>
  The entries of a batch, decoded one by one: \<open>Some None\<close> when an entry is not JSON,
  otherwise the requests and which entries are JSON but not a request object.
\<close>

fun decode_entries :: "'l jlexer \<Rightarrow> bytes list \<Rightarrow> (request list \<times> bool list) option option" where
  "decode_entries lx [] = Some (Some ([], []))"
| "decode_entries lx (e # es) =
     (case Request_UnmarshalJSON lx zero_request e of
        None \<Rightarrow> None
      | Some (r, err) \<Rightarrow>
          if err \<noteq> None \<and> \<not> Valid e then Some None
          else (case decode_entries lx es of
                  Some (Some (rs, failed)) \<Rightarrow>
                    Some (Some ((if err = None then r else zero_request) # rs, (err \<noteq> None) # failed))
                | x \<Rightarrow> x))"

text \<open>Entries that do not marshal are replaced, keeping their ids.\<close>

definition replace_broken :: "'w jwriter \<Rightarrow> ('e, 'v) config \<Rightarrow> response list \<Rightarrow> response list" where
  "replace_broken jw cfg rs =
     map (\<lambda>r. case Response_MarshalJSON jw r of
                Inl _ \<Rightarrow> safeInternalResponse cfg (AID (rs_ID r)) | Inr _ \<Rightarrow> r) rs"

definition marshal_batch :: "'w jwriter \<Rightarrow> ('e, 'v) config \<Rightarrow> response list \<Rightarrow> message_result option" where
  "marshal_batch jw cfg batchResp =
     (case BatchFullResponse_MarshalJSON jw (Some batchResp) of
        Inr raw \<Rightarrow> reply raw
      | Inl err \<Rightarrow> logging (logMarshalFailure cfg err)
          (case BatchFullResponse_MarshalJSON jw (Some (replace_broken jw cfg batchResp)) of
             Inr raw \<Rightarrow> reply raw
           | Inl _ \<Rightarrow> reply respInternal))"

definition handle_array :: "'w jwriter \<Rightarrow> 'l jlexer \<Rightarrow> (nat \<Rightarrow> 'e env \<times> int) \<Rightarrow> 'v ctx \<Rightarrow> ('e, 'v) config \<Rightarrow>
    bytes \<Rightarrow> message_result option" where
  "handle_array jw lx sched ctx cfg data =
     (case splitBatchElements data of
        None \<Rightarrow> reply (errorForMalformed data)
      | Some elems \<Rightarrow>
          if length elems = 0 then reply respInvalidRequest
          else (case decode_entries lx elems of
                  None \<Rightarrow> None
                | Some None \<Rightarrow> reply respParseError
                | Some (Some (batchReq, parseFailed)) \<Rightarrow>
                    (case handleBatchRPC sched ctx cfg batchReq (Some parseFailed) of
                       None \<Rightarrow> None
                     | Some batchResp \<Rightarrow>
                         if length batchResp = 0 then silent else marshal_batch jw cfg batchResp)))"

section \<open>Single requests\<close>

definition marshal_single :: "'w jwriter \<Rightarrow> ('e, 'v) config \<Rightarrow> slice \<Rightarrow> response \<Rightarrow> message_result option" where
  "marshal_single jw cfg v resp =
     (case Response_MarshalJSON jw resp of
        Inr raw \<Rightarrow> reply raw
      | Inl err \<Rightarrow> logging (logMarshalFailure cfg err)
          (case Response_MarshalJSON jw (safeInternalResponse cfg (AID v)) of
             Inr raw \<Rightarrow> reply raw
           | Inl _ \<Rightarrow> reply respInternal))"

definition handle_object :: "'w jwriter \<Rightarrow> 'l jlexer \<Rightarrow> (nat \<Rightarrow> 'e env \<times> int) \<Rightarrow> 'v ctx \<Rightarrow> ('e, 'v) config \<Rightarrow>
    bytes \<Rightarrow> message_result option" where
  "handle_object jw lx sched ctx cfg data =
     (case Request_UnmarshalJSON lx zero_request data of
        None \<Rightarrow> None
      | Some (req, Some err) \<Rightarrow> reply (errorForMalformed data)
      | Some (req, None) \<Rightarrow>
          (case handleRPC (fst (sched 0)) ctx cfg req (snd (sched 0)) of
             None \<Rightarrow> None
           | Some h \<Rightarrow>
               (case hd_resp h of
                  None \<Rightarrow> silent
                | Some resp \<Rightarrow> marshal_single jw cfg (rq_ID req) resp)))"

section \<open>The entry point\<close>

definition HandleRPCJSONRawMessage :: "'w jwriter \<Rightarrow> 'l jlexer \<Rightarrow> (nat \<Rightarrow> 'e env \<times> int) \<Rightarrow> 'v ctx \<Rightarrow>
    ('e, 'v) config \<Rightarrow> bytes \<Rightarrow> message_result option" where
  "HandleRPCJSONRawMessage jw lx sched ctx cfg data0 =
     (if cf_maxMessageSize cfg > 0 \<and> int (length data0) > cf_maxMessageSize cfg then
        logging (debug_log cfg ''jsonrpc: request too large''
            [AttrInt ''max'' (cf_maxMessageSize cfg), AttrInt ''got'' (int (length data0))])
          (if lacksResponseID data0 then silent else reply respRequestTooLarge)
      else
        (let data = TrimSpace data0; reqLen = length data in
         if reqLen = 0 then reply respParseError
         else if reqLen < 2 then reply (errorForMalformed data)
         else if hd data = LBRACK \<and> last data = RBRACK then
           (let n = approxBatchLen data (cf_maxBatchSize cfg) in
            if cf_maxBatchSize cfg > 0 \<and> n > cf_maxBatchSize cfg then
              logging (debug_log cfg ''jsonrpc: batch too large''
                  [AttrInt ''max'' (cf_maxBatchSize cfg), AttrInt ''got_at_least'' n])
                (if lacksResponseID data then silent else reply respBatchTooLarge)
            else handle_array jw lx sched ctx cfg data)
         else if hd data = LBRACE \<and> last data = RBRACE then handle_object jw lx sched ctx cfg data
         else reply (errorForMalformed data)))"

end
