(* ===== verification/JsonCompose.thy ===== *)
theory JsonCompose
  imports JsonScan
begin

text \<open>
  Composing JSON texts: a valid value put after a colon, a comma or an opening bracket of a
  larger text is scanned like the value alone, as long as the nesting bound of the scanner is
  kept. \<open>nesting\<close> is the greatest depth the scanner reaches on a text. Used for every encoder
  of the repository.
\<close>

section \<open>Nesting\<close>

fun max_depth :: "scanner \<Rightarrow> bytes \<Rightarrow> nat" where
  "max_depth s [] = length (sc_stack s)"
| "max_depth s (c # cs) = max (length (sc_stack s)) (max_depth (step1 s c) cs)"

definition nesting :: "bytes \<Rightarrow> nat" where
  "nesting v = max_depth scanner_init v"

lemma max_depth_start: "length (sc_stack s) \<le> max_depth s v"
  by (cases v) auto

section \<open>A value inside a larger text\<close>

definition at_value :: "pstate list \<Rightarrow> scanner" where
  "at_value B = \<lparr>sc_step = BeginValue, sc_stack = B, sc_endTop = False\<rparr>"

definition nested :: "pstate list \<Rightarrow> scanner \<Rightarrow> scanner \<Rightarrow> bool" where
  "nested B t s \<longleftrightarrow> sc_stack s = sc_stack t @ B \<and> \<not> sc_endTop s \<and>
     (sc_step t = EndTop \<longrightarrow> sc_stack t = []) \<and> (sc_step t = BeginStringOrEmpty \<longrightarrow> sc_stack t \<noteq> []) \<and>
     sc_step s = (if sc_step t = EndTop then EndValue else sc_step t)"

lemma nested_start: "nested B scanner_init (at_value B)"
  by (simp add: nested_def at_value_def scanner_init_def)

lemma nested_string:
  assumes "in_string t" "sc_step s = sc_step t"
  shows "step1 s c = s\<lparr>sc_step := sc_step (step1 t c)\<rparr> \<and> sc_stack (step1 t c) = sc_stack t \<and>
     sc_step (step1 t c) \<noteq> EndTop \<and> sc_step (step1 t c) \<noteq> BeginStringOrEmpty"
  using assms
  by (cases "sc_step t") (auto simp: in_string_def scan_step_def state_fun_defs)

definition closable :: "jstate \<Rightarrow> bool" where
  "closable st \<longleftrightarrow> st \<in> {EndValue, St0, St1, StDot0, StE0}"

lemma closable_step:
  assumes "closable (sc_step s)" "c \<in> {RBRACK, RBRACE, COMMA, COLON, SPACE, TAB, CR, LF}"
  shows "step1 s c = fst (stateEndValue s c)"
  using assms
  by (cases "sc_step s") (auto simp: closable_def scan_step_def state0_def stateDot0_def isDigit_def)

lemma end_dead:
  assumes "\<not> structural c \<or> c = QUOTE"
  shows "\<not> alive (fst (stateEndValue s c))"
proof -
  from assms have c: "c \<noteq> RBRACK" "c \<noteq> RBRACE" "c \<noteq> COMMA" "c \<noteq> COLON" "\<not> isSpace c"
    by (auto simp: structural_def isSpace_def)
  show ?thesis
    by (cases "sc_stack s"; cases "hd (sc_stack s)")
      (simp_all add: stateEndValue_def stateEndTop_def c scan_error_def alive_def)
qed

lemma nested_other:
  assumes "\<not> in_string t" "sc_step s = sc_step t" "alive (step1 t c)" "\<not> structural c \<or> c = QUOTE"
  shows "step1 s c = s\<lparr>sc_step := sc_step (step1 t c)\<rparr> \<and> sc_stack (step1 t c) = sc_stack t \<and>
     sc_step (step1 t c) \<noteq> EndTop \<and> sc_step (step1 t c) \<noteq> BeginStringOrEmpty"
proof -
  from assms(4) have c: "c \<noteq> LBRACK" "c \<noteq> LBRACE" "c \<noteq> RBRACK" "c \<noteq> RBRACE"
    "c \<noteq> COMMA" "c \<noteq> COLON" "\<not> isSpace c"
    by (auto simp: structural_def isSpace_def)
  note e = end_dead[OF assms(4)]
  note e0 = e[of t]
  have upd: "s\<lparr>sc_step := sc_step t\<rparr> = s" using assms(2) by (cases s) simp
  show ?thesis
  proof (cases "sc_step t")
    case EndTop
    then show ?thesis using assms(3) c by (simp add: scan_step_def stateEndTop_def scan_error_def alive_def)
  next
    case EndValue
    then show ?thesis using assms(3) e0 by (simp add: scan_step_def)
  next
    case St0
    then show ?thesis using assms(2,3) e0 by (auto simp: scan_step_def state0_def split: if_splits)
  next
    case St1
    then show ?thesis using assms(2,3) e0 upd by (auto simp: scan_step_def state0_def split: if_splits)
  next
    case StDot0
    then show ?thesis using assms(2,3) e0 upd by (auto simp: scan_step_def stateDot0_def split: if_splits)
  next
    case StE0
    then show ?thesis using assms(2,3) e0 upd by (auto simp: scan_step_def split: if_splits)
  qed (use assms(1-3) c upd in \<open>auto simp: in_string_def alive_def scan_step_def stateBeginValue_def
        stateBeginValueOrEmpty_def stateBeginString_def stateBeginStringOrEmpty_def expect_def scan_error_def
        split: if_splits\<close>)
qed

lemma nested_end:
  assumes "nested B t s" "sc_step t \<noteq> EndTop" "sc_stack t = p # rest" "alive (fst (stateEndValue t c))" "B \<noteq> []"
  shows "nested B (fst (stateEndValue t c)) (fst (stateEndValue s c))"
  using assms
  by (cases p) (auto simp: nested_def stateEndValue_def popParseState_def scan_error_def alive_def Let_def)

text \<open>The states that accept a delimiter.\<close>

lemma delim_states:
  assumes "\<not> in_string t" "alive (step1 t c)" "c = RBRACK \<or> c = RBRACE \<or> c = COMMA \<or> c = COLON"
  shows "sc_stack t \<noteq> [] \<and> (closable (sc_step t) \<or> c = RBRACK \<and> sc_step t = BeginValueOrEmpty \<or>
     c = RBRACE \<and> sc_step t = BeginStringOrEmpty) \<or> c = RBRACE \<and> sc_step t = BeginStringOrEmpty"
  using assms(3,1,2)
  by (elim disjE; cases "sc_step t"; cases "sc_stack t")
    (simp_all add: closable_def in_string_def alive_def scan_step_def state_fun_defs char_class_defs Let_def)

lemma nested_delim:
  assumes "nested B t s" "alive (step1 t c)" "B \<noteq> []" "\<not> in_string t"
    "c = RBRACK \<or> c = RBRACE \<or> c = COMMA \<or> c = COLON"
  shows "nested B (step1 t c) (step1 s c)"
proof -
  have c: "c \<in> {RBRACK, RBRACE, COMMA, COLON, SPACE, TAB, CR, LF}" "\<not> isSpace c"
    using assms(5) by (auto simp: isSpace_def)
  from delim_states[OF assms(4,2,5)] assms(1) have stk: "sc_stack t \<noteq> []"
    and st: "closable (sc_step t) \<or> c = RBRACK \<and> sc_step t = BeginValueOrEmpty \<or> c = RBRACE \<and> sc_step t = BeginStringOrEmpty"
    by (auto simp: nested_def)
  obtain p rest where pr: "sc_stack t = p # rest" using stk by (cases "sc_stack t") auto
  have ss: "sc_step s = sc_step t" "sc_step t \<noteq> EndTop"
    using assms(1) st by (auto simp: nested_def closable_def)
  from st consider "closable (sc_step t)" | "c = RBRACK" "sc_step t = BeginValueOrEmpty"
    | "c = RBRACE" "sc_step t = BeginStringOrEmpty" by blast
  then show ?thesis
  proof cases
    case 1
    then have "closable (sc_step s)" using ss by simp
    then show ?thesis
      using nested_end[OF assms(1) ss(2) pr, of c] assms(2,3) closable_step[OF 1 c(1)] closable_step[OF _ c(1), of s]
      by simp
  next
    case 2
    have "step1 t c = fst (stateEndValue t c)" "step1 s c = fst (stateEndValue s c)"
      using 2 ss by (simp_all add: scan_step_def stateBeginValueOrEmpty_def isSpace_def)
    then show ?thesis using nested_end[OF assms(1) ss(2) pr, of c] assms(2,3) by simp
  next
    case 3
    let ?u = "\<lambda>s. s\<lparr>sc_stack := ParseObjectValue # tl (sc_stack s)\<rparr>"
    have e: "step1 t c = fst (stateEndValue (?u t) c)" "step1 s c = fst (stateEndValue (?u s) c)"
      using 3 ss by (simp_all add: scan_step_def stateBeginStringOrEmpty_def isSpace_def)
    have "nested B (?u t) (?u s)" using assms(1) stk by (auto simp: nested_def)
    then show ?thesis unfolding e
      by (rule nested_end) (use ss assms(2,3) e in simp_all)
  qed
qed

lemma nested_space:
  assumes "nested B t s" "alive (step1 t c)" "B \<noteq> []" "\<not> in_string t" "isSpace c"
  shows "nested B (step1 t c) (step1 s c)"
proof (cases "fresh t")
  case True
  have "step1 t c = t" using step1_space[OF assms(4,2,5)] True by simp
  moreover have "sc_step s = sc_step t" using assms(1) True by (auto simp: nested_def fresh_def)
  then have "step1 s c = s"
    using True assms(5) by (auto simp: fresh_def scan_step_def stateBeginValue_def stateBeginValueOrEmpty_def
        stateBeginString_def stateBeginStringOrEmpty_def)
  ultimately show ?thesis using assms(1) by simp
next
  case False
  note sh = step1_space[OF assms(4,2,5)]
  have c: "c \<in> {RBRACK, RBRACE, COMMA, COLON, SPACE, TAB, CR, LF}" using assms(5) by (auto simp: isSpace_def)
  have cl: "closable (sc_step s)"
  proof (cases "sc_step t = EndTop")
    case True
    then show ?thesis using assms(1) by (simp add: nested_def closable_def)
  next
    case nt: False
    have "sc_step s = sc_step t" using assms(1) nt by (simp add: nested_def)
    moreover have "closable (sc_step t)"
      using assms(5,4,2) False nt unfolding isSpace_def
      by (elim disjE; cases "sc_step t")
        (simp_all add: closable_def in_string_def fresh_def alive_def scan_step_def expect_def scan_error_def char_class_defs)
    ultimately show ?thesis by simp
  qed
  obtain b bs where "sc_stack s = b # bs" using assms(1,3) by (cases "sc_stack s") (auto simp: nested_def)
  then have "step1 s c = s\<lparr>sc_step := EndValue\<rparr>"
    using closable_step[OF cl c] assms(5) by (simp add: stateEndValue_def)
  then show ?thesis using sh False assms(1) by (auto simp: nested_def split: if_splits)
qed

lemma nested_open:
  assumes "nested B t s" "alive (step1 t c)" "B \<noteq> []" "\<not> in_string t" "c = LBRACK \<or> c = LBRACE"
    "length (sc_stack (step1 t c)) + length B \<le> maxNestingDepth"
  shows "nested B (step1 t c) (step1 s c)"
  using assms(5)
proof
  assume c: "c = LBRACK"
  note sh = step1_lbrack[OF assms(4)]
  have ss: "sc_step s = BeginValue \<or> sc_step s = BeginValueOrEmpty" using sh assms(1,2) c by (auto simp: nested_def)
  have l: "length (sc_stack s) < maxNestingDepth" using sh assms(1,2,6) c by (auto simp: nested_def)
  have "step1 s c = s\<lparr>sc_step := BeginValueOrEmpty, sc_stack := ParseArrayValue # sc_stack s\<rparr>"
    using ss l c by (auto simp: scan_step_def stateBeginValue_def stateBeginValueOrEmpty_def isSpace_def pushParseState_def Let_def)
  then show ?thesis using sh assms(1,2) c by (auto simp: nested_def)
next
  assume c: "c = LBRACE"
  note sh = step1_lbrace[OF assms(4)]
  have ss: "sc_step s = BeginValue \<or> sc_step s = BeginValueOrEmpty" using sh assms(1,2) c by (auto simp: nested_def)
  have l: "length (sc_stack s) < maxNestingDepth" using sh assms(1,2,6) c by (auto simp: nested_def)
  have "step1 s c = s\<lparr>sc_step := BeginStringOrEmpty, sc_stack := ParseObjectKey # sc_stack s\<rparr>"
    using ss l c by (auto simp: scan_step_def stateBeginValue_def stateBeginValueOrEmpty_def isSpace_def pushParseState_def Let_def)
  then show ?thesis using sh assms(1,2) c by (auto simp: nested_def)
qed

lemma nested_step:
  assumes "nested B t s" "alive (step1 t c)" "B \<noteq> []"
    "length (sc_stack (step1 t c)) + length B \<le> maxNestingDepth"
  shows "nested B (step1 t c) (step1 s c)"
proof -
  have keep: "nested B (step1 t c) (step1 s c)"
    if "sc_step s = sc_step t \<Longrightarrow> step1 s c = s\<lparr>sc_step := sc_step (step1 t c)\<rparr> \<and> sc_stack (step1 t c) = sc_stack t \<and>
     sc_step (step1 t c) \<noteq> EndTop \<and> sc_step (step1 t c) \<noteq> BeginStringOrEmpty" "sc_step t \<noteq> EndTop"
    using that assms(1) by (simp add: nested_def)
  consider "in_string t" | "\<not> in_string t" "\<not> structural c \<or> c = QUOTE"
    | "\<not> in_string t" "c = LBRACK \<or> c = LBRACE" | "\<not> in_string t" "isSpace c"
    | "\<not> in_string t" "c = RBRACK \<or> c = RBRACE \<or> c = COMMA \<or> c = COLON"
    by (auto simp: structural_def)
  then show ?thesis
  proof cases
    case 1
    then have "sc_step t \<noteq> EndTop" by (auto simp: in_string_def)
    then show ?thesis by (intro keep nested_string[OF 1]) simp_all
  next
    case 2
    have "sc_step t \<noteq> EndTop"
    proof
      assume "sc_step t = EndTop"
      then show False using 2(2) assms(2)
        by (auto simp: alive_def scan_step_def state_fun_defs structural_def isSpace_def)
    qed
    then show ?thesis by (intro keep nested_other[OF 2(1) _ assms(2) 2(2)]) simp_all
  next
    case 3
    then show ?thesis using nested_open[OF assms(1,2,3) 3 assms(4)] by simp
  next
    case 4
    then show ?thesis using nested_space[OF assms(1,2,3)] by simp
  next
    case 5
    then show ?thesis using nested_delim[OF assms(1,2,3)] by simp
  qed
qed

lemma nested_run:
  assumes "nested B t s" "alive (srun t v)" "B \<noteq> []" "max_depth t v + length B \<le> maxNestingDepth"
  shows "nested B (srun t v) (srun s v)"
  using assms
proof (induction v arbitrary: t s)
  case Nil
  then show ?case by simp
next
  case (Cons c cs)
  have a: "alive (step1 t c)" using Cons.prems(2) srun_dead by fastforce
  have "length (sc_stack (step1 t c)) + length B \<le> maxNestingDepth"
    using Cons.prems(4) max_depth_start[of "step1 t c" cs] by simp
  from nested_step[OF Cons.prems(1) a Cons.prems(3) this]
  have "nested B (step1 t c) (step1 s c)" .
  from Cons.IH[OF this] Cons.prems show ?case by simp
qed

text \<open>The scanner after a complete value: what follows must be a comma or a closing bracket.\<close>

definition after_value :: "pstate list \<Rightarrow> scanner \<Rightarrow> bool" where
  "after_value B s \<longleftrightarrow> sc_stack s = B \<and> \<not> sc_endTop s \<and> sc_step s \<in> {EndValue, St0, St1, StDot0, StE0}"

lemma eof_ok_states:
  assumes "scan_eof_ok t" "sc_endTop t \<longrightarrow> sc_step t = EndTop" "sc_step t = EndTop \<longrightarrow> sc_stack t = []"
  shows "sc_stack t = [] \<and> sc_step t \<in> {EndTop, EndValue, St0, St1, StDot0, StE0}"
  using assms
  by (cases "sc_step t"; cases "sc_stack t")
    (auto simp: scan_eof_ok_def scan_step_def state_fun_defs char_class_defs split: pstate.splits if_splits)

lemma endTop_step:
  assumes "alive (step1 t c)" "sc_endTop t \<longrightarrow> sc_step t = EndTop"
  shows "sc_endTop (step1 t c) \<longrightarrow> sc_step (step1 t c) = EndTop"
  using assms
  by (cases "sc_step t"; cases "sc_stack t")
    (auto simp: alive_def scan_step_def state_fun_defs Let_def split: if_splits pstate.splits)

lemma endTop_srun:
  assumes "alive (srun t v)" "sc_endTop t \<longrightarrow> sc_step t = EndTop"
  shows "sc_endTop (srun t v) \<longrightarrow> sc_step (srun t v) = EndTop"
  using assms
proof (induction v arbitrary: t)
  case (Cons c cs)
  have "alive (step1 t c)" using Cons.prems(1) srun_dead by fastforce
  from Cons.IH[OF _ endTop_step[OF this Cons.prems(2)]] Cons.prems(1) show ?case by simp
qed simp

lemma value_run:
  assumes "Valid v" "B \<noteq> []" "nesting v + length B \<le> maxNestingDepth"
  shows "after_value B (srun (at_value B) v)"
proof -
  have ok: "scan_eof_ok (srun scanner_init v)" using assms(1) by (simp add: Valid_srun)
  then have a: "alive (srun scanner_init v)" by (rule eof_ok_alive)
  from nested_run[OF nested_start a assms(2)] assms(3)
  have n: "nested B (srun scanner_init v) (srun (at_value B) v)" by (simp add: nesting_def)
  have "sc_endTop (srun scanner_init v) \<longrightarrow> sc_step (srun scanner_init v) = EndTop"
    by (rule endTop_srun[OF a]) (simp add: scanner_init_def)
  from eof_ok_states[OF ok this] n
  have st: "sc_stack (srun scanner_init v) = []"
    "sc_step (srun scanner_init v) \<in> {EndTop, EndValue, St0, St1, StDot0, StE0}"
    by (auto simp: nested_def)
  show ?thesis
    unfolding after_value_def using st n by (auto simp: nested_def)
qed

text \<open>What a delimiter does after a complete value.\<close>

lemma after_value_step:
  assumes "after_value (p # B) s"
  shows "p = ParseObjectValue \<Longrightarrow> step1 s COMMA = \<lparr>sc_step = BeginString, sc_stack = ParseObjectKey # B, sc_endTop = False\<rparr>"
    and "p = ParseArrayValue \<Longrightarrow> step1 s COMMA = at_value (p # B)"
    and "p = ParseObjectValue \<Longrightarrow> step1 s RBRACE =
       \<lparr>sc_step = (if B = [] then EndTop else EndValue), sc_stack = B, sc_endTop = (B = [])\<rparr>"
    and "p = ParseArrayValue \<Longrightarrow> step1 s RBRACK =
       \<lparr>sc_step = (if B = [] then EndTop else EndValue), sc_stack = B, sc_endTop = (B = [])\<rparr>"
proof -
  obtain st e where s: "s = \<lparr>sc_step = st, sc_stack = p # B, sc_endTop = e\<rparr>" "\<not> e"
    "st \<in> {EndValue, St0, St1, StDot0, StE0}"
    using assms by (cases s) (auto simp: after_value_def)
  show "p = ParseObjectValue \<Longrightarrow> step1 s COMMA = \<lparr>sc_step = BeginString, sc_stack = ParseObjectKey # B, sc_endTop = False\<rparr>"
    and "p = ParseArrayValue \<Longrightarrow> step1 s COMMA = at_value (p # B)"
    and "p = ParseObjectValue \<Longrightarrow> step1 s RBRACE =
       \<lparr>sc_step = (if B = [] then EndTop else EndValue), sc_stack = B, sc_endTop = (B = [])\<rparr>"
    and "p = ParseArrayValue \<Longrightarrow> step1 s RBRACK =
       \<lparr>sc_step = (if B = [] then EndTop else EndValue), sc_stack = B, sc_endTop = (B = [])\<rparr>"
    using s(2,3) unfolding s(1)
    by (auto simp: at_value_def scan_step_def state_fun_defs char_class_defs Let_def)
qed

section \<open>Object members\<close>

text \<open>A key that needs no escapes.\<close>

definition plain_key :: "bytes \<Rightarrow> bool" where
  "plain_key k \<longleftrightarrow> (\<forall>c \<in> set k. c \<noteq> QUOTE \<and> c \<noteq> BSLASH \<and> \<not> byte_val c < 0x20)"

lemma in_string_plain:
  "plain_key k \<Longrightarrow> srun \<lparr>sc_step = InString, sc_stack = B, sc_endTop = e\<rparr> k = \<lparr>sc_step = InString, sc_stack = B, sc_endTop = e\<rparr>"
  by (induction k) (auto simp: plain_key_def scan_step_def stateInString_def)

lemma key_run:
  assumes "plain_key k" "st = BeginString \<or> st = BeginStringOrEmpty"
  shows "srun \<lparr>sc_step = st, sc_stack = ParseObjectKey # B, sc_endTop = False\<rparr> (QUOTE # k @ [QUOTE, COLON]) =
    at_value (ParseObjectValue # B)"
proof -
  have "step1 \<lparr>sc_step = st, sc_stack = ParseObjectKey # B, sc_endTop = False\<rparr> QUOTE =
      \<lparr>sc_step = InString, sc_stack = ParseObjectKey # B, sc_endTop = False\<rparr>"
    using assms(2) by (auto simp: scan_step_def state_fun_defs char_class_defs)
  then show ?thesis
    using in_string_plain[OF assms(1)]
    by (simp add: at_value_def scan_step_def state_fun_defs char_class_defs)
qed

text \<open>\<open>members B ms\<close>: the text of the members \<open>ms\<close>, with the braces, at depth \<open>length B\<close>.\<close>

definition member :: "bytes \<times> bytes \<Rightarrow> bytes" where
  "member kv = QUOTE # fst kv @ [QUOTE, COLON] @ snd kv"

fun object_text :: "(bytes \<times> bytes) list \<Rightarrow> bytes" where
  "object_text [] = [LBRACE, RBRACE]"
| "object_text (kv # ms) = LBRACE # member kv @ concat (map (\<lambda>m. COMMA # member m) ms) @ [RBRACE]"

definition array_text :: "bytes list \<Rightarrow> bytes" where
  "array_text xs = LBRACK # (case xs of [] \<Rightarrow> [] | y # ys \<Rightarrow> y @ concat (map (\<lambda>x. COMMA # x) ys)) @ [RBRACK]"

definition embeddable :: "nat \<Rightarrow> bytes \<Rightarrow> bool" where
  "embeddable d v \<longleftrightarrow> Valid v \<and> nesting v + d \<le> maxNestingDepth"

text \<open>\<open>fits d v\<close>: at depth \<open>d\<close> the scanner reads \<open>v\<close> as one complete value.\<close>

definition fits :: "nat \<Rightarrow> bytes \<Rightarrow> bool" where
  "fits d v \<longleftrightarrow> (\<forall>B. length B = d \<longrightarrow> B \<noteq> [] \<longrightarrow> after_value B (srun (at_value B) v))"

lemma embeddable_fits: "embeddable d v \<Longrightarrow> fits d v"
  by (auto simp: embeddable_def fits_def intro: value_run)

lemma value_run': "fits d v \<Longrightarrow> length B = d \<Longrightarrow> B \<noteq> [] \<Longrightarrow> after_value B (srun (at_value B) v)"
  by (simp add: fits_def)

lemma member_run:
  assumes "plain_key (fst kv)" "fits (Suc (length B)) (snd kv)" "st = BeginString \<or> st = BeginStringOrEmpty"
  shows "after_value (ParseObjectValue # B)
    (srun \<lparr>sc_step = st, sc_stack = ParseObjectKey # B, sc_endTop = False\<rparr> (member kv))"
proof -
  have e: "member kv = (QUOTE # fst kv @ [QUOTE, COLON]) @ snd kv" by (simp add: member_def)
  show ?thesis
    unfolding e srun_append key_run[OF assms(1,3)] by (rule value_run'[OF assms(2)]) simp_all
qed

lemma members_run:
  assumes "after_value (ParseObjectValue # B) s"
    "\<forall>kv \<in> set ms. plain_key (fst kv) \<and> fits (Suc (length B)) (snd kv)"
  shows "after_value (ParseObjectValue # B) (srun s (concat (map (\<lambda>m. COMMA # member m) ms)))"
  using assms
proof (induction ms arbitrary: s)
  case (Cons kv ms)
  have "after_value (ParseObjectValue # B) (srun s (COMMA # member kv))"
    unfolding srun_simps after_value_step(1)[OF Cons.prems(1) refl]
    by (rule member_run) (use Cons.prems in auto)
  from Cons.IH[OF this] Cons.prems(2) show ?case by simp
qed simp

definition ended :: "pstate list \<Rightarrow> scanner" where
  "ended B = \<lparr>sc_step = (if B = [] then EndTop else EndValue), sc_stack = B, sc_endTop = (B = [])\<rparr>"

lemma object_run:
  assumes "length B < maxNestingDepth"
    and "\<forall>kv \<in> set ms. plain_key (fst kv) \<and> fits (Suc (length B)) (snd kv)"
  shows "srun (at_value B) (object_text ms) = ended B"
proof (cases ms)
  case Nil
  then show ?thesis
    using assms(1) by (simp add: at_value_def ended_def scan_step_def state_fun_defs char_class_defs Let_def)
next
  case (Cons kv rest)
  have open': "step1 (at_value B) LBRACE = \<lparr>sc_step = BeginStringOrEmpty, sc_stack = ParseObjectKey # B, sc_endTop = False\<rparr>"
    using assms(1) by (simp add: at_value_def scan_step_def state_fun_defs char_class_defs Let_def)
  have "after_value (ParseObjectValue # B) (srun (at_value B) (LBRACE # member kv))"
    unfolding srun_simps open' by (rule member_run) (use assms(2) Cons in auto)
  from members_run[OF this, of rest] assms(2) Cons
  have "after_value (ParseObjectValue # B)
     (srun (at_value B) (LBRACE # member kv @ concat (map (\<lambda>m. COMMA # member m) rest)))" by simp
  from after_value_step(3)[OF this refl] Cons show ?thesis by (simp add: ended_def)
qed

lemma elements_run:
  assumes "after_value (ParseArrayValue # B) s" "\<forall>x \<in> set xs. fits (Suc (length B)) x"
  shows "after_value (ParseArrayValue # B) (srun s (concat (map (\<lambda>x. COMMA # x) xs)))"
  using assms
proof (induction xs arbitrary: s)
  case (Cons x xs)
  have "after_value (ParseArrayValue # B) (srun s (COMMA # x))"
    unfolding srun_simps after_value_step(2)[OF Cons.prems(1) refl]
    by (rule value_run') (use Cons.prems in auto)
  from Cons.IH[OF this] Cons.prems(2) show ?case by simp
qed simp

lemma Valid_object:
  assumes "\<forall>kv \<in> set ms. plain_key (fst kv) \<and> fits 1 (snd kv)"
  shows "Valid (object_text ms)"
proof -
  have "at_value [] = scanner_init" by (simp add: at_value_def scanner_init_def)
  moreover have "srun (at_value []) (object_text ms) = ended []"
    by (rule object_run) (use assms in \<open>simp_all add: maxNestingDepth_def\<close>)
  ultimately show ?thesis by (simp add: Valid_srun ended_def scan_eof_ok_def)
qed


lemma fits_object:
  assumes "\<forall>kv \<in> set ms. plain_key (fst kv) \<and> fits (Suc d) (snd kv)" "d < maxNestingDepth"
  shows "fits d (object_text ms)"
  unfolding fits_def
proof (intro allI impI)
  fix B :: "pstate list"
  assume "length B = d" "B \<noteq> []"
  then show "after_value B (srun (at_value B) (object_text ms))"
    using object_run[of B ms] assms by (simp add: ended_def after_value_def)
qed

lemma Valid_array:
  assumes "\<forall>x \<in> set xs. fits 1 x \<and> (\<exists>y. x = LBRACE # y)"
  shows "Valid (array_text xs)"
proof -
  let ?B = "[ParseArrayValue]"
  let ?o = "\<lparr>sc_step = BeginValueOrEmpty, sc_stack = ?B, sc_endTop = False\<rparr>"
  have o: "step1 scanner_init LBRACK = ?o"
    by (simp add: scanner_init_def scan_step_def stateBeginValue_def isSpace_def pushParseState_def maxNestingDepth_def)
  have e: "scan_eof_ok \<lparr>sc_step = EndTop, sc_stack = [], sc_endTop = True\<rparr>" by (simp add: scan_eof_ok_def)
  show ?thesis
  proof (cases xs)
    case Nil
    have "step1 ?o RBRACK = \<lparr>sc_step = EndTop, sc_stack = [], sc_endTop = True\<rparr>"
      by (simp add: scan_step_def state_fun_defs isSpace_def Let_def)
    then show ?thesis using o e Nil by (simp add: Valid_srun array_text_def)
  next
    case (Cons x ys)
    then obtain y where y: "x = LBRACE # y" using assms by auto
    have "step1 ?o LBRACE = step1 (at_value ?B) LBRACE"
      by (simp add: at_value_def scan_step_def stateBeginValueOrEmpty_def isSpace_def stateBeginValue_def pushParseState_def Let_def)
    then have "srun ?o x = srun (at_value ?B) x" unfolding y by simp
    then have "after_value ?B (srun ?o x)" using value_run'[of 1 x ?B] assms Cons by simp
    from elements_run[OF this, of ys] assms Cons
    have "after_value ?B (srun ?o (x @ concat (map (\<lambda>x. COMMA # x) ys)))" by simp
    from after_value_step(4)[OF this refl] show ?thesis
      using o e Cons by (simp add: Valid_srun array_text_def)
  qed
qed

end
