(* ===== verification/CodecProps.thy ===== *)
theory CodecProps
  imports Codec JsonCompose
begin

text \<open>
  What the codecs write and read. The writer's documented behaviour is \<open>jwriter_ok\<close>: a buffer
  the operations append to and an error that sticks once set. Under it the encoders write the
  reference texts \<open>response_text\<close> and \<open>request_text\<close> below, which are valid JSON. The
  lexer's documented behaviour on an object is \<open>lx_members\<close>: it yields the members one after
  another; under it the decoders assign the fields of the last members with their names.
\<close>

section \<open>Valid literals\<close>

lemma digit_isDigit: "n < 10 \<Longrightarrow> isDigit (digit n)"
  by (auto simp: isDigit_def digit_def numeral_eq_Suc less_Suc_eq)

lemma digit_isDigit19: "0 < n \<Longrightarrow> n < 10 \<Longrightarrow> isDigit19 (digit n)"
  by (auto simp: isDigit19_def digit_def numeral_eq_Suc less_Suc_eq)

lemma digit_not_space: "n < 10 \<Longrightarrow> \<not> isSpace (digit n) \<and> digit n \<notin> {LBRACE, LBRACK, QUOTE, CHR ''-''}"
  by (auto simp: isSpace_def digit_def numeral_eq_Suc less_Suc_eq)

lemma digit_neq: "0 < n \<Longrightarrow> n < 10 \<Longrightarrow> digit n \<notin> {CHR ''0'', CHR ''t'', CHR ''f'', CHR ''n''}"
  by (auto simp: digit_def numeral_eq_Suc less_Suc_eq)

lemma max_depth_append: "max_depth s (xs @ ys) = max (max_depth s xs) (max_depth (srun s xs) ys)"
  by (induction xs arbitrary: s) (auto simp: max_depth_start max_def intro: order.antisym dest: order.trans[OF max_depth_start])

lemma digits_run:
  "0 < n \<Longrightarrow> st \<in> {BeginValue, StNeg} \<Longrightarrow>
     srun \<lparr>sc_step = st, sc_stack = [], sc_endTop = False\<rparr> (nat_digits n) = \<lparr>sc_step = St1, sc_stack = [], sc_endTop = False\<rparr> \<and>
     max_depth \<lparr>sc_step = st, sc_stack = [], sc_endTop = False\<rparr> (nat_digits n) = 0"
proof (induction n rule: nat_digits.induct)
  case (1 n)
  have one: "step1 \<lparr>sc_step = st, sc_stack = [], sc_endTop = False\<rparr> (digit n) = \<lparr>sc_step = St1, sc_stack = [], sc_endTop = False\<rparr>"
    if "n < 10"
    using that 1 digit_isDigit19[of n] digit_not_space[of n] digit_neq[of n]
    by (auto simp: scan_step_def stateBeginValue_def expect_def)
  have more: "step1 \<lparr>sc_step = St1, sc_stack = [], sc_endTop = False\<rparr> (digit (n mod 10)) = \<lparr>sc_step = St1, sc_stack = [], sc_endTop = False\<rparr>"
    using digit_isDigit[of "n mod 10"] by (simp add: scan_step_def)
  show ?case
  proof (cases "n < 10")
    case True
    then show ?thesis using one by (simp add: nat_digits.simps[of n])
  next
    case False
    then have "0 < n div 10" by simp
    from "1.IH"[OF False this "1.prems"(2)] show ?thesis
      using False more by (simp add: nat_digits.simps[of n] max_depth_append)
  qed
qed

lemma itoa_value: "Valid (itoa i) \<and> nesting (itoa i) = 0"
proof -
  have e: "scan_eof_ok \<lparr>sc_step = St1, sc_stack = [], sc_endTop = False\<rparr>"
    "scan_eof_ok \<lparr>sc_step = St0, sc_stack = [], sc_endTop = False\<rparr>"
    by (simp_all add: scan_eof_ok_def scan_step_def state_fun_defs char_class_defs)
  consider "i < 0" | "i = 0" | "0 < i" by linarith
  then show ?thesis
  proof cases
    case 1
    have "step1 scanner_init CHR ''-'' = \<lparr>sc_step = StNeg, sc_stack = [], sc_endTop = False\<rparr>"
      by (simp add: scanner_init_def scan_step_def stateBeginValue_def isSpace_def)
    then show ?thesis
      using 1 digits_run[of "nat (- i)" StNeg] e(1)
      by (simp add: itoa_def Valid_srun nesting_def scanner_init_def)
  next
    case 2
    then have i: "itoa i = ''0''" by (simp add: itoa_def nat_digits.simps digit_def)
    have "step1 scanner_init CHR ''0'' = \<lparr>sc_step = St0, sc_stack = [], sc_endTop = False\<rparr>"
      by (simp add: scanner_init_def scan_step_def stateBeginValue_def isSpace_def)
    then show ?thesis unfolding i using e(2) by (simp add: Valid_srun nesting_def scanner_init_def)
  next
    case 3
    then show ?thesis
      using digits_run[of "nat i" BeginValue] e(1)
      by (simp add: itoa_def Valid_srun nesting_def scanner_init_def)
  qed
qed

text \<open>A text that keeps the scanner inside a string.\<close>

abbreviation (input) in_str :: scanner where
  "in_str \<equiv> \<lparr>sc_step = InString, sc_stack = [], sc_endTop = False\<rparr>"

definition keeps_string :: "bytes \<Rightarrow> bool" where
  "keeps_string xs \<longleftrightarrow> srun in_str xs = in_str \<and> max_depth in_str xs = 0"

lemma keeps_string_append: "keeps_string xs \<Longrightarrow> keeps_string ys \<Longrightarrow> keeps_string (xs @ ys)"
  by (simp add: keeps_string_def max_depth_append)

lemma keeps_string_Nil: "keeps_string []"
  by (simp add: keeps_string_def)

lemma keeps_string_high: "\<forall>c \<in> set xs. 0x80 \<le> byte_val c \<Longrightarrow> keeps_string xs"
proof (induction xs)
  case (Cons c cs)
  have "c \<noteq> QUOTE" "c \<noteq> BSLASH" using Cons.prems by (auto simp: byte_val_def)
  with Cons show ?case by (simp add: keeps_string_def scan_step_def stateInString_def)
qed (simp add: keeps_string_Nil)

lemma hex_digit_isHex: "n < 16 \<Longrightarrow> isHex (hex_digit n)"
  by (auto simp: isHex_def hex_digit_def numeral_eq_Suc less_Suc_eq)

lemma keeps_string_escape: "byte_val b < 0x80 \<Longrightarrow> keeps_string (escape_ascii b)"
proof -
  assume b: "byte_val b < 0x80"
  have h: "isHex (hex_digit (byte_val b div 16))" "isHex (hex_digit (byte_val b mod 16))"
    using b by (auto intro!: hex_digit_isHex)
  have z: "isHex CHR ''0''" by (simp add: isHex_def)
  show ?thesis
    using h z by (simp add: escape_ascii_def keeps_string_def scan_step_def stateInString_def stateInStringEsc_def expect_def)
qed


lemma rune_size_high:
  "rune_size (b # bs) = Some n \<Longrightarrow> 0x80 \<le> byte_val b \<Longrightarrow> \<forall>c \<in> set (take n (b # bs)). 0x80 \<le> byte_val c"
  by (auto simp: Let_def cont_byte_def numeral_eq_Suc split: if_splits list.splits)

lemma keeps_string_literals: "keeps_string (BSLASH # ''ufffd'')" "keeps_string (BSLASH # ''u2028'')"
  "keeps_string (BSLASH # ''u2029'')"
  by (code_simp)+

lemma keeps_string_body: "keeps_string (string_body s)"
proof (induction s rule: string_body.induct)
  case 1
  then show ?case by (simp add: keeps_string_Nil)
next
  case (2 b bs)
  show ?case
  proof (cases "byte_val b < 0x80")
    case True
    with 2(1) show ?thesis by (simp add: keeps_string_append keeps_string_escape)
  next
    case high: False
    show ?thesis
    proof (cases "rune_size (b # bs)")
      case None
      with high 2(2) show ?thesis
        using keeps_string_append[OF keeps_string_literals(1)] by simp
    next
      case (Some n)
      let ?r = "take n (b # bs)"
      let ?h = "if ?r = [CHR 0xE2, CHR 0x80, CHR 0xA8] then BSLASH # ''u2028''
              else if ?r = [CHR 0xE2, CHR 0x80, CHR 0xA9] then BSLASH # ''u2029'' else ?r"
      have "keeps_string ?r"
        using rune_size_high[OF Some] high by (intro keeps_string_high) simp
      then have "keeps_string ?h" using keeps_string_literals(2,3) by presburger
      moreover have "string_body (b # bs) = ?h @ string_body (drop (n - 1) bs)"
        using high Some by (simp only: string_body.simps if_False option.case Let_def)
      ultimately show ?thesis using 2(3)[OF high Some] by (simp only: keeps_string_append)
    qed
  qed
qed

lemma json_string_value: "Valid (json_string s) \<and> nesting (json_string s) = 0"
proof -
  have q: "step1 scanner_init QUOTE = in_str"
    by (simp add: scanner_init_def scan_step_def stateBeginValue_def isSpace_def)
  have c: "step1 in_str QUOTE = \<lparr>sc_step = EndValue, sc_stack = [], sc_endTop = False\<rparr>"
    by (simp add: scan_step_def stateInString_def)
  have "scan_eof_ok \<lparr>sc_step = EndValue, sc_stack = [], sc_endTop = False\<rparr>"
    by (simp add: scan_eof_ok_def scan_step_def state_fun_defs char_class_defs)
  then show ?thesis
    using keeps_string_body[of s] q c
    by (simp add: json_string_def Valid_srun nesting_def max_depth_append keeps_string_def scanner_init_def)
qed

section \<open>The writer\<close>

definition jwriter_ok :: "'w jwriter \<Rightarrow> (bytes \<Rightarrow> bytes) \<Rightarrow> ('w \<Rightarrow> bytes \<times> bytes option) \<Rightarrow> bool" where
  "jwriter_ok jw quote view \<longleftrightarrow>
     view (jw_new jw) = ([], None) \<and>
     (\<forall>w c. view (jw_RawByte jw w c) = (fst (view w) @ [c], snd (view w))) \<and>
     (\<forall>w s. view (jw_RawString jw w s) = (fst (view w) @ s, snd (view w))) \<and>
     (\<forall>w s. view (jw_String jw w s) = (fst (view w) @ quote s, snd (view w))) \<and>
     (\<forall>w i. view (jw_Int jw w i) = (fst (view w) @ itoa i, snd (view w))) \<and>
     (\<forall>w r. view (jw_Raw jw w r) =
        (if snd (view w) \<noteq> None then view w
         else case r of Inl e \<Rightarrow> (fst (view w), Some e)
              | Inr s \<Rightarrow> (fst (view w) @ (if slice_len s > 0 then slice_bytes s else ''null''), None))) \<and>
     (\<forall>w. jw_BuildBytes jw w = fst (view w) \<and> jw_Error jw w = snd (view w) \<and> \<not> jw_nilSliceAsEmpty jw w)"

definition quote_ok :: "(bytes \<Rightarrow> bytes) \<Rightarrow> bool" where
  "quote_ok quote \<longleftrightarrow> (\<forall>s. Valid (quote s) \<and> nesting (quote s) = 0)"

lemma quote_ok_json_string: "quote_ok json_string"
  by (simp add: quote_ok_def json_string_value)

text \<open>A writer over a plain buffer, which behaves as documented.\<close>

definition buffer_writer :: "(bytes \<times> bytes option) jwriter" where
  "buffer_writer = \<lparr>jw_new = ([], None),
     jw_RawByte = \<lambda>(b, e) c. (b @ [c], e), jw_RawString = \<lambda>(b, e) s. (b @ s, e),
     jw_String = \<lambda>(b, e) s. (b @ json_string s, e), jw_Int = \<lambda>(b, e) i. (b @ itoa i, e),
     jw_Raw = \<lambda>(b, e) r. (if e \<noteq> None then (b, e)
        else case r of Inl e' \<Rightarrow> (b, Some e') | Inr s \<Rightarrow> (b @ (if slice_len s > 0 then slice_bytes s else ''null''), None)),
     jw_BuildBytes = fst, jw_Error = snd, jw_nilSliceAsEmpty = \<lambda>_. False\<rparr>"

lemma buffer_writer_ok: "jwriter_ok buffer_writer json_string id"
  by (auto simp: jwriter_ok_def buffer_writer_def split: sum.splits)

lemma jwriter_okD:
  assumes "jwriter_ok jw quote view"
  shows "view (jw_new jw) = ([], None)" "view (jw_RawByte jw w c) = (fst (view w) @ [c], snd (view w))"
    "view (jw_RawString jw w s) = (fst (view w) @ s, snd (view w))"
    "view (jw_String jw w s) = (fst (view w) @ quote s, snd (view w))"
    "view (jw_Int jw w i) = (fst (view w) @ itoa i, snd (view w))"
    "view (jw_Raw jw w r) = (if snd (view w) \<noteq> None then view w
         else case r of Inl e \<Rightarrow> (fst (view w), Some e)
              | Inr s \<Rightarrow> (fst (view w) @ (if slice_len s > 0 then slice_bytes s else ''null''), None))"
    "jw_BuildBytes jw w = fst (view w)" "jw_Error jw w = snd (view w)" "\<not> jw_nilSliceAsEmpty jw w"
  using assms unfolding jwriter_ok_def by blast+

section \<open>Reference texts\<close>

definition id_text :: "slice \<Rightarrow> bytes" where
  "id_text v = (if slice_len v = 0 then ''null'' else slice_bytes v)"

text \<open>The text of an error's data, or the error of marshaling it.\<close>

definition data_text :: "goany \<Rightarrow> bytes + bytes" where
  "data_text d =
     (case d of
        AID v \<Rightarrow> Inr (id_text v)
      | ARawMessage m \<Rightarrow> Inr (id_text m)
      | _ \<Rightarrow> (case codec_Marshal d of Inl e \<Rightarrow> Inl e | Inr b \<Rightarrow> Inr (id_text (Some b))))"

definition error_members :: "(bytes \<Rightarrow> bytes) \<Rightarrow> rpc_error \<Rightarrow> (bytes \<times> bytes) list" where
  "error_members quote e =
     [(''code'', itoa (er_Code e)), (''message'', quote (er_Message e))] @
     (if er_Data e = ANil then []
      else [(''data'', case data_text (er_Data e) of Inr b \<Rightarrow> b | Inl _ \<Rightarrow> [])])"

definition response_members :: "(bytes \<Rightarrow> bytes) \<Rightarrow> response \<Rightarrow> (bytes \<times> bytes) list" where
  "response_members quote r =
     [(''jsonrpc'', quote (rs_Version r))] @
     (case rs_Result r of None \<Rightarrow> [] | Some m \<Rightarrow> [(''result'', id_text m)]) @
     (case rs_Error r of None \<Rightarrow> [] | Some e \<Rightarrow> [(''error'', object_text (error_members quote e))]) @
     [(''id'', id_text (rs_ID r))]"

text \<open>The error a response fails to marshal with: only its error's data can.\<close>

definition response_failure :: "response \<Rightarrow> bytes option" where
  "response_failure r =
     (case rs_Error r of
        Some e \<Rightarrow> (if er_Data e = ANil then None
                   else case data_text (er_Data e) of Inl x \<Rightarrow> Some x | Inr _ \<Rightarrow> None)
      | None \<Rightarrow> None)"

definition request_members :: "(bytes \<Rightarrow> bytes) \<Rightarrow> request \<Rightarrow> (bytes \<times> bytes) list" where
  "request_members quote r =
     [(''jsonrpc'', quote (rq_Version r)), (''method'', quote (rq_Method r))] @
     (if slice_len (rq_Params r) > 0 then [(''params'', slice_bytes (rq_Params r))] else []) @
     (if rq_ID r \<noteq> None then [(''id'', id_text (rq_ID r))] else [])"

lemma ID_write:
  assumes "jwriter_ok jw quote view" "snd (view w) = None"
  shows "view (ID_MarshalEasyJSON jw v w) = (fst (view w) @ id_text v, None)"
  using assms(2) by (simp add: ID_MarshalEasyJSON_def jwriter_okD[OF assms(1)] id_text_def)

lemma data_write:
  assumes "jwriter_ok jw quote view" "snd (view w) = None"
  shows "view (encode_data jw d w) =
    (case data_text d of Inr b \<Rightarrow> (fst (view w) @ b, None) | Inl e \<Rightarrow> (fst (view w), Some e))"
proof (cases d)
  case (ARawMessage m)
  then show ?thesis
    using assms(2) by (cases m) (auto simp: encode_data_def data_text_def jwriter_okD[OF assms(1)] id_text_def)
next
  case (AID v)
  then show ?thesis using ID_write[OF assms] by (simp add: encode_data_def data_text_def)
qed (use assms(2) in \<open>auto simp: encode_data_def data_text_def jwriter_okD[OF assms(1)] id_text_def split: sum.splits\<close>)

lemma error_write:
  assumes "jwriter_ok jw quote view" "snd (view w) = None"
  shows "view (Error_MarshalEasyJSON jw e w) =
    (if er_Data e \<noteq> ANil \<and> isl (data_text (er_Data e))
     then (fst (view w) @ ''{\"code\":'' @ itoa (er_Code e) @ '',\"message\":'' @ quote (er_Message e) @ '',\"data\":'' @ ''}'',
           Some (projl (data_text (er_Data e))))
     else (fst (view w) @ object_text (error_members quote e), None))"
  using assms(2)
  by (auto simp: Error_MarshalEasyJSON_def Let_def jwriter_okD[OF assms(1)] data_write[OF assms(1)]
      error_members_def member_def isl_def split: sum.splits)

lemma response_write:
  assumes "jwriter_ok jw quote view" "snd (view w) = None"
  shows "snd (view (Response_MarshalEasyJSON jw r w)) = response_failure r"
    and "response_failure r = None \<Longrightarrow>
      fst (view (Response_MarshalEasyJSON jw r w)) = fst (view w) @ object_text (response_members quote r)"
  using assms(2)
  by (auto simp: Response_MarshalEasyJSON_def Let_def jwriter_okD[OF assms(1)] error_write[OF assms(1)]
      ID_write[OF assms(1)] response_failure_def response_members_def member_def isl_def id_text_def
      ID_MarshalEasyJSON_def split: option.splits sum.splits if_splits)

lemma request_write:
  assumes "jwriter_ok jw quote view" "snd (view w) = None"
  shows "view (Request_MarshalEasyJSON jw r w) = (fst (view w) @ object_text (request_members quote r), None)"
  using assms(2)
  by (auto simp: Request_MarshalEasyJSON_def Let_def jwriter_okD[OF assms(1)] ID_write[OF assms(1)]
      request_members_def member_def)


section \<open>Slices\<close>

lemma response_write_stuck:
  assumes "jwriter_ok jw quote view" "snd (view w) = Some e"
  shows "snd (view (Response_MarshalEasyJSON jw r w)) = Some e"
proof -
  have i: "snd (view (ID_MarshalEasyJSON jw v w)) = Some e" if "snd (view w) = Some e" for v w
    using that by (simp add: ID_MarshalEasyJSON_def jwriter_okD[OF assms(1)])
  have d: "snd (view (encode_data jw x w)) = Some e" if "snd (view w) = Some e" for x w
    using that i by (cases x) (simp_all add: encode_data_def jwriter_okD[OF assms(1)])
  have "snd (view (Error_MarshalEasyJSON jw x w)) = Some e" if "snd (view w) = Some e" for x w
    using that d by (simp add: Error_MarshalEasyJSON_def Let_def jwriter_okD[OF assms(1)])
  then show ?thesis
    using assms(2) i by (simp add: Response_MarshalEasyJSON_def Let_def jwriter_okD[OF assms(1)] split: option.splits)
qed

lemma items_stuck:
  assumes "jwriter_ok jw quote view" "snd (view w) = Some e"
  shows "snd (view (encode_items jw (Response_MarshalEasyJSON jw) first rs w)) = Some e"
  using assms(2)
  by (induction rs arbitrary: first w)
    (simp_all add: response_write_stuck[OF assms(1)] jwriter_okD[OF assms(1)])

lemma items_write:
  assumes "jwriter_ok jw quote view" "snd (view w) = None"
  shows "if \<forall>r \<in> set rs. response_failure r = None
    then view (encode_items jw (Response_MarshalEasyJSON jw) first rs w) =
      (fst (view w) @ (if first then
          (case map (\<lambda>r. object_text (response_members quote r)) rs of [] \<Rightarrow> [] | y # ys \<Rightarrow> y @ concat (map (\<lambda>x. COMMA # x) ys))
        else concat (map (\<lambda>r. COMMA # object_text (response_members quote r)) rs)), None)
    else snd (view (encode_items jw (Response_MarshalEasyJSON jw) first rs w)) \<noteq> None"
  using assms(2)
proof (induction rs arbitrary: first w)
  case Nil
  then show ?case by (cases "view w") auto
next
  case (Cons r rs)
  let ?w = "Response_MarshalEasyJSON jw r (if first then w else jw_RawByte jw w COMMA)"
  have n: "snd (view (if first then w else jw_RawByte jw w COMMA)) = None"
    using Cons.prems by (simp add: jwriter_okD[OF assms(1)])
  note rw = response_write[OF assms(1) n, of r]
  show ?case
  proof (cases "response_failure r")
    case None
    then have "snd (view ?w) = None" using rw(1) by simp
    from Cons.IH[OF this, of False] rw(2)[OF None] None show ?thesis
      by (cases "\<forall>r \<in> set rs. response_failure r = None"; cases first)
        (auto simp: jwriter_okD[OF assms(1)] comp_def)
  next
    case (Some e)
    then have "snd (view ?w) = Some e" using rw(1) by simp
    from items_stuck[OF assms(1) this] Some show ?thesis by auto
  qed
qed

definition response_text :: "(bytes \<Rightarrow> bytes) \<Rightarrow> response \<Rightarrow> bytes" where
  "response_text quote r = object_text (response_members quote r)"

lemma response_marshal:
  assumes "jwriter_ok jw quote view"
  shows "Response_MarshalJSON jw r =
    (case response_failure r of Some e \<Rightarrow> Inl e | None \<Rightarrow> Inr (response_text quote r))"
  using response_write[OF assms, of "jw_new jw" r]
  by (auto simp: Response_MarshalJSON_def built_def jwriter_okD[OF assms] response_text_def split: option.splits)

lemma batch_marshal:
  assumes "jwriter_ok jw quote view"
  shows "if \<forall>r \<in> set rs. response_failure r = None
    then BatchFullResponse_MarshalJSON jw (Some rs) = Inr (array_text (map (response_text quote) rs))
    else \<exists>e. BatchFullResponse_MarshalJSON jw (Some rs) = Inl e"
proof -
  let ?w = "jw_RawByte jw (jw_new jw) LBRACK"
  have "snd (view ?w) = None" "fst (view ?w) = [LBRACK]" by (simp_all add: jwriter_okD[OF assms])
  then show ?thesis
    using items_write[OF assms, of ?w rs True]
    by (auto simp: BatchFullResponse_MarshalJSON_def encode_array_def built_def jwriter_okD[OF assms]
        array_text_def response_text_def[abs_def] split: option.splits if_splits)
qed

section \<open>Validity of the texts\<close>

text \<open>The parts of a response that come from outside are JSON values, and not nested so deeply
  that the reply, \<open>d\<close> levels down, would exceed the scanner's bound.\<close>

definition payload_ok :: "nat \<Rightarrow> response \<Rightarrow> bool" where
  "payload_ok d r \<longleftrightarrow>
     (case rs_Result r of Some m \<Rightarrow> embeddable (d + 1) (id_text m) | None \<Rightarrow> True) \<and>
     (case rs_Error r of Some e \<Rightarrow> (case data_text (er_Data e) of Inr b \<Rightarrow> embeddable (d + 2) b | Inl _ \<Rightarrow> True) | None \<Rightarrow> True) \<and>
     embeddable (d + 1) (id_text (rs_ID r))"

lemma plain_keys: "plain_key ''jsonrpc''" "plain_key ''result''" "plain_key ''error''" "plain_key ''id''"
  "plain_key ''code''" "plain_key ''message''" "plain_key ''data''" "plain_key ''method''" "plain_key ''params''"
  by (code_simp)+

lemma value_fits: "Valid v \<Longrightarrow> nesting v = 0 \<Longrightarrow> d \<le> 10 \<Longrightarrow> fits d v"
  by (rule embeddable_fits) (simp add: embeddable_def maxNestingDepth_def)

lemma response_members_fit:
  assumes "quote_ok quote" "payload_ok d r" "response_failure r = None" "d \<le> 1"
  shows "\<forall>kv \<in> set (response_members quote r). plain_key (fst kv) \<and> fits (Suc d) (snd kv)"
proof -
  have q: "fits n (quote s)" if "n \<le> 10" for n s
    using assms(1) value_fits that by (auto simp: quote_ok_def)
  have i: "fits n (itoa k)" if "n \<le> 10" for n k
    using itoa_value value_fits that by auto
  have e: "fits (Suc d) (object_text (error_members quote e))" if "rs_Error r = Some e" for e
  proof (rule fits_object)
    show "Suc d < maxNestingDepth" using assms(4) by (simp add: maxNestingDepth_def)
    show "\<forall>kv \<in> set (error_members quote e). plain_key (fst kv) \<and> fits (Suc (Suc d)) (snd kv)"
      using assms(2-4) that q i
      by (auto simp: error_members_def plain_keys payload_ok_def response_failure_def embeddable_fits
          split: sum.splits)
  qed
  show ?thesis
    using assms(2,4) q e
    by (auto simp: response_members_def plain_keys payload_ok_def embeddable_fits split: option.splits)
qed

lemma response_text_valid:
  assumes "quote_ok quote" "payload_ok 0 r" "response_failure r = None"
  shows "Valid (response_text quote r)"
  unfolding response_text_def
  by (rule Valid_object) (use response_members_fit[OF assms(1,2,3)] in simp)

lemma batch_text_valid:
  assumes "quote_ok quote" "\<forall>r \<in> set rs. payload_ok 1 r \<and> response_failure r = None"
  shows "Valid (array_text (map (response_text quote) rs))"
proof (rule Valid_array, intro ballI conjI)
  fix x assume "x \<in> set (map (response_text quote) rs)"
  then obtain r where r: "r \<in> set rs" "x = response_text quote r" by auto
  have "fits 1 (object_text (response_members quote r))"
    by (rule fits_object) (use response_members_fit[OF assms(1), of 1 r] assms(2) r in \<open>simp_all add: maxNestingDepth_def\<close>)
  then show "fits 1 x" using r by (simp add: response_text_def)
  show "\<exists>y. x = LBRACE # y" using r by (cases "response_members quote r") (simp_all add: response_text_def)
qed


section \<open>The lexer on an object\<close>

text \<open>A member's value as the lexer may see it: \<open>null\<close>, a string with its raw text, or any
  other value by its raw text.\<close>

datatype lexval = LNull | LStr bytes bytes | LRaw bytes

fun raw_of :: "lexval \<Rightarrow> bytes" where
  "raw_of LNull = ''null''" | "raw_of (LStr s raw) = raw" | "raw_of (LRaw raw) = raw"

text \<open>\<open>reads lx l v l'\<close>: at \<open>l\<close> stands the value \<open>v\<close>, and each way of reading it ends at \<open>l'\<close>.\<close>

definition reads :: "'l jlexer \<Rightarrow> 'l \<Rightarrow> lexval \<Rightarrow> 'l \<Rightarrow> bool" where
  "reads lx l v l' \<longleftrightarrow>
     lx_Raw lx l = (Some (raw_of v), l') \<and> lx_SkipRecursive lx l = l' \<and> raw_of v \<noteq> [] \<and>
     (case v of
        LNull \<Rightarrow> fst (lx_IsNull lx l) \<and> lx_Skip lx (snd (lx_IsNull lx l)) = l'
      | LStr s raw \<Rightarrow> \<not> fst (lx_IsNull lx l) \<and> lx_Raw lx (snd (lx_IsNull lx l)) = (Some raw, l') \<and>
          lx_String lx l = (s, l')
      | LRaw raw \<Rightarrow> \<not> fst (lx_IsNull lx l) \<and> lx_Raw lx (snd (lx_IsNull lx l)) = (Some raw, l'))"

text \<open>Between the braces the lexer delivers the members \<open>ms\<close>, in order.\<close>

inductive lx_members :: "'l jlexer \<Rightarrow> 'l \<Rightarrow> (bytes \<times> lexval) list \<Rightarrow> 'l \<Rightarrow> bool" for lx where
  no_more: "lx_IsDelim lx l RBRACE = (True, l') \<Longrightarrow> lx_members lx l [] l'"
| next_member: "lx_IsDelim lx l RBRACE = (False, l1) \<Longrightarrow> lx_UnsafeFieldName lx l1 = (k, l2) \<Longrightarrow>
     reads lx (lx_WantColon lx l2) v l3 \<Longrightarrow> lx_members lx (lx_WantComma lx l3) ms l' \<Longrightarrow>
     lx_members lx l ((k, v) # ms) l'"

inductive_cases lx_membersE: "lx_members lx l ms l'"

text \<open>The version and the method are strings in every member that has their name.\<close>

definition well_typed :: "(bytes \<times> lexval) list \<Rightarrow> bool" where
  "well_typed ms \<longleftrightarrow> (\<forall>(k, v) \<in> set ms. k = ''jsonrpc'' \<or> k = ''method'' \<longrightarrow> (\<exists>s raw. v = LStr s raw))"

definition request_of_members :: "request \<Rightarrow> (bytes \<times> lexval) list \<Rightarrow> request" where
  "request_of_members v0 ms =
     \<lparr>rq_Version = (case map_of (rev ms) ''jsonrpc'' of Some (LStr s _) \<Rightarrow> s | _ \<Rightarrow> rq_Version v0),
      rq_Method = (case map_of (rev ms) ''method'' of Some (LStr s _) \<Rightarrow> s | _ \<Rightarrow> rq_Method v0),
      rq_Params = (case map_of (rev ms) ''params'' of
          None \<Rightarrow> rq_Params v0 | Some v \<Rightarrow> if v = LNull then None else Some (raw_of v)),
      rq_ID = (case map_of (rev ms) ''id'' of None \<Rightarrow> rq_ID v0 | Some v \<Rightarrow> Some (raw_of v))\<rparr>"

lemma field_reads:
  assumes "reads lx l v l'" "well_typed [(k, v)]"
  shows "Request_field lx k v0 l = Some (request_of_members v0 [(k, v)], l')"
proof -
  have c: "copied (Some (raw_of v)) = Some (raw_of v)"
    using assms(1) by (simp add: copied_def reads_def)
  consider "k = ''jsonrpc''" | "k = ''method''" | "k = ''params''" | "k = ''id''"
    | "k \<notin> {''jsonrpc'', ''method'', ''params'', ''id''}" by auto
  then show ?thesis
  proof cases
    case 3
    then show ?thesis using assms c
      by (cases v) (auto simp: Request_field_def request_of_members_def reads_def Let_def case_prod_unfold)
  qed (use assms c in \<open>auto simp: Request_field_def request_of_members_def reads_def well_typed_def Let_def\<close>)
qed

lemma last_member_Cons:
  "map_of (rev ((k, v) # ms)) k' = (case map_of (rev ms) k' of Some x \<Rightarrow> Some x | None \<Rightarrow> if k' = k then Some v else None)"
  by (auto simp: map_add_def split: option.splits)

lemma well_typed_last:
  "well_typed ms \<Longrightarrow> k = ''jsonrpc'' \<or> k = ''method'' \<Longrightarrow> map_of (rev ms) k = Some x \<Longrightarrow> \<exists>s raw. x = LStr s raw"
  using map_of_SomeD[of "rev ms" k x] by (fastforce simp: well_typed_def)

lemma request_of_members_Cons:
  assumes "well_typed ((k, v) # ms)"
  shows "request_of_members v0 ((k, v) # ms) = request_of_members (request_of_members v0 [(k, v)]) ms"
proof -
  have wt: "well_typed ms" using assms by (simp add: well_typed_def)
  have one: "map_of (rev [(k, v)]) k' = (if k' = k then Some v else None)" for k' by simp
  note last = last_member_Cons[of k v ms]
  show ?thesis
  proof (rule request.equality)
    show "rq_Version (request_of_members v0 ((k, v) # ms)) = rq_Version (request_of_members (request_of_members v0 [(k, v)]) ms)"
      using well_typed_last[OF wt, of "''jsonrpc''"]
      unfolding request_of_members_def last one request.select_convs by (cases "map_of (rev ms) ''jsonrpc''") auto
    show "rq_Method (request_of_members v0 ((k, v) # ms)) = rq_Method (request_of_members (request_of_members v0 [(k, v)]) ms)"
      using well_typed_last[OF wt, of "''method''"]
      unfolding request_of_members_def last one request.select_convs by (cases "map_of (rev ms) ''method''") auto
    show "rq_Params (request_of_members v0 ((k, v) # ms)) = rq_Params (request_of_members (request_of_members v0 [(k, v)]) ms)"
      unfolding request_of_members_def last one request.select_convs by (cases "map_of (rev ms) ''params''") auto
    show "rq_ID (request_of_members v0 ((k, v) # ms)) = rq_ID (request_of_members (request_of_members v0 [(k, v)]) ms)"
      unfolding request_of_members_def last one request.select_convs by (cases "map_of (rev ms) ''id''") auto
  qed simp
qed

lemma object_loop_members:
  assumes "lx_members lx l ms l'" "well_typed ms"
  shows "object_loop lx (Request_field lx) v0 l = Some (request_of_members v0 ms, l')"
  using assms
proof (induction arbitrary: v0 rule: lx_members.induct)
  case (no_more l l')
  then show ?case by (subst object_loop.simps) (simp add: request_of_members_def)
next
  case (next_member l l1 k l2 v l3 ms l')
  have wt: "well_typed [(k, v)]" "well_typed ms"
    using next_member.prems by (auto simp: well_typed_def)
  show ?case
    using next_member.IH[OF wt(2)] next_member.hyps field_reads[OF next_member.hyps(3) wt(1)]
      request_of_members_Cons[OF next_member.prems]
    by (subst object_loop.simps) simp
qed

section \<open>A token lexer\<close>

text \<open>A lexer over the members of one object, which behaves as documented.\<close>

datatype tlex = TStart "(bytes \<times> lexval) list" | TKeys "(bytes \<times> lexval) list"
  | TVal lexval "(bytes \<times> lexval) list" | TEnd

fun tl_next :: "tlex \<Rightarrow> tlex" where
  "tl_next (TVal v ms) = TKeys ms" | "tl_next l = l"

fun tl_val :: "tlex \<Rightarrow> lexval" where
  "tl_val (TVal v ms) = v" | "tl_val l = LNull"

definition token_lexer :: "(bytes \<times> lexval) list \<Rightarrow> tlex jlexer" where
  "token_lexer ms0 = \<lparr>lx_new = \<lambda>_. TStart ms0,
     lx_IsStart = \<lambda>l. (case l of TStart _ \<Rightarrow> True | _ \<Rightarrow> False),
     lx_IsNull = \<lambda>l. ((case l of TVal v _ \<Rightarrow> v = LNull | _ \<Rightarrow> False), l),
     lx_Skip = tl_next, lx_SkipRecursive = tl_next,
     lx_Delim = \<lambda>l c. (case l of TStart ms \<Rightarrow> TKeys ms | TKeys _ \<Rightarrow> TEnd | _ \<Rightarrow> l),
     lx_IsDelim = \<lambda>l c. ((case l of TKeys (_ # _) \<Rightarrow> False | _ \<Rightarrow> True), l),
     lx_UnsafeFieldName = \<lambda>l. (case l of TKeys ((k, v) # ms) \<Rightarrow> (k, TVal v ms) | _ \<Rightarrow> ([], l)),
     lx_WantColon = id, lx_WantComma = id,
     lx_String = \<lambda>l. ((case tl_val l of LStr s _ \<Rightarrow> s | _ \<Rightarrow> []), tl_next l),
     lx_Int = \<lambda>l. (0, tl_next l),
     lx_Raw = \<lambda>l. (Some (raw_of (tl_val l)), tl_next l),
     lx_Ok = \<lambda>_. True, lx_Consumed = id, lx_Error = \<lambda>_. None\<rparr>"

lemma token_lexer_members:
  "\<forall>(k, v) \<in> set ms. raw_of v \<noteq> [] \<Longrightarrow> lx_members (token_lexer ms0) (TKeys ms) ms (TKeys [])"
proof (induction ms)
  case Nil
  show ?case by (rule lx_members.no_more) (simp add: token_lexer_def)
next
  case (Cons kv ms)
  obtain k v where kv: "kv = (k, v)" by (cases kv)
  show ?case unfolding kv
  proof (rule lx_members.next_member)
    show "lx_IsDelim (token_lexer ms0) (TKeys ((k, v) # ms)) RBRACE = (False, TKeys ((k, v) # ms))"
      "lx_UnsafeFieldName (token_lexer ms0) (TKeys ((k, v) # ms)) = (k, TVal v ms)"
      by (simp_all add: token_lexer_def)
    show "reads (token_lexer ms0) (lx_WantColon (token_lexer ms0) (TVal v ms)) v (TKeys ms)"
      using Cons.prems kv by (cases v) (auto simp: reads_def token_lexer_def)
    show "lx_members (token_lexer ms0) (lx_WantComma (token_lexer ms0) (TKeys ms)) ms (TKeys [])"
      using Cons by (simp add: token_lexer_def)
  qed
qed

section \<open>Properties of the codecs\<close>

text \<open>
  C27: a response is written exactly as its reference text, in the member order jsonrpc, result,
  error, id, with a nil result pointer and a nil error left out and an absent id as null; the
  only way to fail is an error whose data does not marshal, and then the whole response fails.
\<close>

theorem Response_MarshalJSON_text:
  assumes "jwriter_ok jw quote view"
  shows "Response_MarshalJSON jw r =
    (case response_failure r of
       Some e \<Rightarrow> Inl e
     | None \<Rightarrow> Inr (object_text (
         [(''jsonrpc'', quote (rs_Version r))] @
         (case rs_Result r of None \<Rightarrow> [] | Some m \<Rightarrow> [(''result'', id_text m)]) @
         (case rs_Error r of None \<Rightarrow> [] | Some e \<Rightarrow> [(''error'', object_text (error_members quote e))]) @
         [(''id'', id_text (rs_ID r))])))"
  unfolding response_marshal[OF assms, of r] response_text_def response_members_def ..

theorem Response_MarshalJSON_text_witness:
  "Response_MarshalJSON buffer_writer (NewResponse (AInt 7) (Some (Some ''true'')) None) =
     Inr ''{\"jsonrpc\":\"2.0\",\"result\":true,\"id\":7}''"
  unfolding Response_MarshalJSON_text[OF buffer_writer_ok] by code_simp

text \<open>
  C26: decoding a request: members may come in any order and more than once, the last one of a
  name counts, unknown ones are ignored; an absent id stays nil while a present null id is the
  literal \<open>null\<close>, so a notification and a request with a null id stay distinguishable.
\<close>

theorem Request_UnmarshalEasyJSON_members:
  assumes "\<not> fst (lx_IsNull lx l)" "lx_members lx (lx_Delim lx (snd (lx_IsNull lx l)) LBRACE) ms l'"
    and "well_typed ms"
  shows "Request_UnmarshalEasyJSON lx v0 l =
    Some (request_of_members v0 ms,
      if lx_IsStart lx l then lx_Consumed lx (lx_Delim lx l' RBRACE) else lx_Delim lx l' RBRACE)"
  using assms(1) object_loop_members[OF assms(2,3), of v0]
  by (simp add: Request_UnmarshalEasyJSON_def decode_struct_def Let_def case_prod_unfold)

theorem Request_UnmarshalEasyJSON_members_witness:
  "Request_UnmarshalEasyJSON (token_lexer []) zero_request
     (TStart [(''id'', LRaw ''1''), (''x'', LNull), (''jsonrpc'', LStr ''2.0'' ''\"2.0\"''), (''id'', LNull)]) =
   Some (\<lparr>rq_Version = ''2.0'', rq_Method = [], rq_Params = None, rq_ID = Some ''null''\<rparr>, TEnd)"
proof -
  let ?ms = "[(''id'', LRaw ''1''), (''x'', LNull), (''jsonrpc'', LStr ''2.0'' ''\"2.0\"''), (''id'', LNull)]"
  have d: "lx_Delim (token_lexer []) (snd (lx_IsNull (token_lexer []) (TStart ?ms))) LBRACE = TKeys ?ms"
    "\<not> fst (lx_IsNull (token_lexer []) (TStart ?ms))"
    by (simp_all add: token_lexer_def)
  have m: "lx_members (token_lexer []) (lx_Delim (token_lexer []) (snd (lx_IsNull (token_lexer []) (TStart ?ms))) LBRACE) ?ms (TKeys [])"
    unfolding d by (rule token_lexer_members) simp
  have w: "well_typed ?ms" by (simp add: well_typed_def)
  have r: "request_of_members zero_request ?ms =
      \<lparr>rq_Version = ''2.0'', rq_Method = [], rq_Params = None, rq_ID = Some ''null''\<rparr>"
    by (simp add: request_of_members_def zero_request_def)
  show ?thesis
    using Request_UnmarshalEasyJSON_members[OF d(2) m w, of zero_request] by (simp add: token_lexer_def r)
qed

end
