(* ===== verification/DispatchProps.thy ===== *)
theory DispatchProps
  imports Dispatch ConfigProps
begin

text \<open>
  What a client may rely on when a request is dispatched: which responses are sent, what they
  contain, and when; and what the observer and the log see.
\<close>

section \<open>Error responses\<close>

text \<open>The code, message and data of the response to an error.\<close>

definition public_error :: "('e, 'v) config \<Rightarrow> goerr option \<Rightarrow> int \<Rightarrow> rpc_error" where
  "public_error cfg err code0 =
     (let (code, data) = (case rpc_error_of err of Some r \<Rightarrow> (re_Code r, re_Data r) | None \<Rightarrow> (code0, ANil))
      in case cf_errors cfg code of
           Some msg \<Rightarrow> \<lparr>er_Code = code, er_Message = msg, er_Data = data\<rparr>
         | None \<Rightarrow> \<lparr>er_Code = InternalErrorCode,
                   er_Message = (case cf_errors cfg InternalErrorCode of Some m \<Rightarrow> m | None \<Rightarrow> []),
                   er_Data = ANil\<rparr>)"

lemma errorResponse_public: "fst (errorResponse cfg err code v) = NewResponse v None (Some (public_error cfg err code))"
  by (auto simp: errorResponse_def public_error_def newError_def Let_def split: option.splits)

lemma errorResponse_simps [simp]:
  "rs_Version (fst (errorResponse cfg err code v)) = Version"
  "rs_Result (fst (errorResponse cfg err code v)) = None"
  "rs_Error (fst (errorResponse cfg err code v)) = Some (public_error cfg err code)"
  "rs_ID (fst (errorResponse cfg err code v)) = toID v"
  by (simp_all add: errorResponse_public)

definition is_observe :: "event \<Rightarrow> bool" where
  "is_observe ev \<longleftrightarrow> (case ev of EvObserve _ \<Rightarrow> True | _ \<Rightarrow> False)"

lemma is_observe_simps [simp]: "is_observe (EvObserve i)" "\<not> is_observe (EvLog l m a)"
  by (simp_all add: is_observe_def)

lemma errorResponse_no_observe: "filter is_observe (snd (errorResponse cfg err code v)) = []"
  by (auto simp: errorResponse_def Let_def split: option.splits)

text \<open>A response that the server may send to the request id \<open>v\<close>.\<close>

definition proper :: "('e, 'v) config \<Rightarrow> slice \<Rightarrow> response \<Rightarrow> bool" where
  "proper cfg v resp \<longleftrightarrow> rs_Version resp = ''2.0'' \<and> rs_ID resp = v \<and>
     (case rs_Error resp of
        None \<Rightarrow> rs_Result resp \<noteq> None
      | Some e \<Rightarrow> rs_Result resp = None \<and> cf_errors cfg (er_Code e) = Some (er_Message e))"

lemma public_error_registered:
  assumes "cf_errors cfg InternalErrorCode \<noteq> None"
  shows "cf_errors cfg (er_Code (public_error cfg err code)) = Some (er_Message (public_error cfg err code))"
  using assms by (auto simp: public_error_def Let_def split: option.splits)

lemma proper_errorResponse:
  assumes "cf_errors cfg InternalErrorCode \<noteq> None"
  shows "proper cfg (toID v) (fst (errorResponse cfg err code v))"
  using public_error_registered[OF assms] by (simp add: proper_def Version_def)

lemma config_ok_internal: "config_ok cfg \<Longrightarrow> cf_errors cfg InternalErrorCode = Some ''internal_error''"
  by (auto simp: config_ok_def map_le_def default_errors_def code_defs dom_def split: if_splits)

section \<open>The call\<close>

lemma rpc_call_cases:
  assumes "rpc_call cfg e now ctx name data v = Some (resp, evs, t)"
  obtains (error) err code where "errorResponse cfg err code v = (resp, evs)"
  | (result) res where "resp = NewResponse v (Some res) None" "evs = []"
  using assms
  by (auto simp: rpc_call_def Let_def split: prod.splits outcome.splits option.splits)

lemma rpc_call_facts:
  assumes "rpc_call cfg e now ctx name data v = Some (resp, evs, t)"
    and "cf_errors cfg InternalErrorCode \<noteq> None"
  shows "proper cfg (toID v) resp" "filter is_observe evs = []"
proof -
  have "proper cfg (toID v) resp \<and> filter is_observe evs = []"
    using assms(1)
  proof (cases rule: rpc_call_cases)
    case (error err code)
    then have "resp = fst (errorResponse cfg err code v)" "evs = snd (errorResponse cfg err code v)"
      by simp_all
    then show ?thesis using proper_errorResponse[OF assms(2)] errorResponse_no_observe by simp
  next
    case (result res)
    then show ?thesis by (simp add: proper_def Version_def)
  qed
  then show "proper cfg (toID v) resp" "filter is_observe evs = []" by simp_all
qed

lemma dispatch_facts:
  assumes "dispatch env ctx cfg data now = Some d" "cf_errors cfg InternalErrorCode \<noteq> None"
  shows "proper cfg (rq_ID data) (dp_resp d)" "filter is_observe (dp_events d) = []"
proof -
  have "proper cfg (rq_ID data) (dp_resp d) \<and> filter is_observe (dp_events d) = []"
    using assms(1)
      proper_errorResponse[OF assms(2), of "AID (rq_ID data)"]
      errorResponse_no_observe[of cfg _ _ "AID (rq_ID data)"]
      rpc_call_facts[OF _ assms(2), of _ _ _ _ _ "AID (rq_ID data)"]
    unfolding dispatch_def Let_def
    by (auto simp: case_prod_unfold split: if_splits option.splits)
  then show "proper cfg (rq_ID data) (dp_resp d)" "filter is_observe (dp_events d) = []" by simp_all
qed


lemma observe_events:
  assumes "observe env ctx cfg (Some resp) name notif start now = Some (t, obs)"
  shows "filter is_observe obs = (if cf_observe cfg = None then []
    else [EvObserve \<lparr>ci_Method = name, ci_Code = (case rs_Error resp of Some e \<Rightarrow> er_Code e | None \<Rightarrow> OK),
            ci_Err = rs_Error resp, ci_Duration = now - start, ci_Notification = notif\<rparr>])"
    "now \<le> t"
  using assms by (auto simp: observe_def observeOutcome_def Let_def split: option.splits prod.splits outcome.splits if_splits)

lemma handleRPC_cases:
  assumes "handleRPC env ctx cfg data start = Some h"
  obtains (invalid) err where "validateRequest data = Some err"
      "hd_resp h = Some (fst (errorResponse cfg (Some err) InvalidRequestErrorCode
         (AID (if slice_len (rq_ID data) > 0 \<and> \<not> Valid (slice_bytes (rq_ID data)) then None else rq_ID data))))"
      "\<exists>evs obs. hd_events h = evs @ obs \<and> filter is_observe evs = [] \<and>
         evs = snd (errorResponse cfg (Some err) InvalidRequestErrorCode ANil) \<and>
         observe env ctx cfg (hd_resp h) (rq_Method data) False start start = Some (hd_time h, obs)"
  | (valid) d where "validateRequest data = None" "dispatch env ctx cfg data start = Some d"
      "hd_resp h = (if slice_len (rq_ID data) = 0 then None else Some (dp_resp d))"
      "\<exists>obs. hd_events h = dp_events d @ obs \<and>
         observe env ctx cfg (Some (dp_resp d)) (rq_Method data) (slice_len (rq_ID data) = 0) start (dp_time d) = Some (hd_time h, obs)"
proof (cases "validateRequest data")
  case None
  with assms valid show ?thesis
    by (auto simp: handleRPC_def split: option.splits prod.splits)
next
  case (Some err)
  have same: "snd (errorResponse cfg (Some err) InvalidRequestErrorCode v) =
      snd (errorResponse cfg (Some err) InvalidRequestErrorCode ANil)" for v
    by (simp add: errorResponse_def Let_def split: option.splits)
  let ?v = "AID (if slice_len (rq_ID data) > 0 \<and> \<not> Valid (slice_bytes (rq_ID data)) then None else rq_ID data)"
  obtain resp evs where er: "errorResponse cfg (Some err) InvalidRequestErrorCode ?v = (resp, evs)"
    by (cases "errorResponse cfg (Some err) InvalidRequestErrorCode ?v") simp
  obtain t obs where ob: "observe env ctx cfg (Some resp) (rq_Method data) False start start = Some (t, obs)"
    and h: "h = \<lparr>hd_resp = Some resp, hd_time = t, hd_events = evs @ obs, hd_detached = []\<rparr>"
    using assms Some er by (auto simp: handleRPC_def Let_def split: option.splits prod.splits)
  have "evs = snd (errorResponse cfg (Some err) InvalidRequestErrorCode ANil)"
    using same[of ?v] er by simp
  then show ?thesis
    using invalid[OF Some] er ob h errorResponse_no_observe[of cfg "Some err" InvalidRequestErrorCode ANil]
    by simp
qed

lemma valid_id:
  assumes "validateRequest data = None"
  shows "slice_len (rq_ID data) = 0 \<or> Valid (slice_bytes (rq_ID data))"
  using assms by (auto simp: validateRequest_def split: if_splits)

section \<open>Properties of dispatch\<close>

text \<open>
  The notification rule. A handled request is left unanswered exactly when it is a valid
  request without an id; every invalid request, with or without id, is answered.
\<close>

theorem handleRPC_silent_iff_notification:
  assumes "handleRPC env ctx cfg data start = Some h"
  shows "hd_resp h = None \<longleftrightarrow> validateRequest data = None \<and> slice_len (rq_ID data) = 0"
  using assms by (cases rule: handleRPC_cases) auto

text \<open>
  C11: every response is well-formed JSON-RPC 2.0: version 2.0, a result or an error but not
  both, an error only with a registered code and the message registered for it (so no
  internal error text can reach the client), and the id of the request byte for byte, except
  that an id that is not valid JSON is replaced by the null id; hence the echoed id is always
  empty (null) or valid JSON.
\<close>

theorem handleRPC_response_proper:
  assumes "handleRPC env ctx cfg data start = Some h" "hd_resp h = Some resp"
    and "cf_errors cfg InternalErrorCode \<noteq> None"
  shows "proper cfg (if Valid (slice_bytes (rq_ID data)) \<or> slice_len (rq_ID data) = 0 then rq_ID data else None) resp
    \<and> (slice_len (rs_ID resp) = 0 \<or> Valid (slice_bytes (rs_ID resp)))"
  using assms(1)
proof (cases rule: handleRPC_cases)
  case (invalid err)
  let ?v = "if slice_len (rq_ID data) > 0 \<and> \<not> Valid (slice_bytes (rq_ID data)) then None else rq_ID data"
  have v: "?v = (if Valid (slice_bytes (rq_ID data)) \<or> slice_len (rq_ID data) = 0 then rq_ID data else None)"
    by auto
  have "proper cfg ?v resp"
    using proper_errorResponse[OF assms(3), of "AID ?v"] invalid(2) assms(2) by simp
  then show ?thesis unfolding v by (auto simp: proper_def)
next
  case (valid d)
  then have "proper cfg (rq_ID data) resp"
    using dispatch_facts(1)[OF valid(2) assms(3)] assms(2) by (auto split: if_splits)
  then show ?thesis using valid_id[OF valid(1)] by (auto simp: proper_def)
qed

text \<open>
  C31: the observer fires exactly once per handled request, also for invalid requests, unknown
  methods, panics and timeouts, and reports the code and error the client got (or would have
  got), the time the request took, and whether it went unanswered; without an observer
  nothing is reported.
\<close>

theorem handleRPC_observed_once:
  assumes "handleRPC env ctx cfg data start = Some h" "cf_errors cfg InternalErrorCode \<noteq> None"
  shows "if cf_observe cfg = None then filter is_observe (hd_events h) = []
    else \<exists>resp now. filter is_observe (hd_events h) =
      [EvObserve \<lparr>ci_Method = rq_Method data,
         ci_Code = (case rs_Error resp of Some e \<Rightarrow> er_Code e | None \<Rightarrow> OK), ci_Err = rs_Error resp,
         ci_Duration = now - start, ci_Notification = (hd_resp h = None)\<rparr>] \<and>
      now \<le> hd_time h \<and> (hd_resp h \<noteq> None \<longrightarrow> hd_resp h = Some resp)"
  using assms(1)
proof (cases rule: handleRPC_cases)
  case (invalid err)
  from invalid(3) obtain evs obs where e: "hd_events h = evs @ obs" "filter is_observe evs = []"
    and o: "observe env ctx cfg (hd_resp h) (rq_Method data) False start start = Some (hd_time h, obs)"
    by blast
  from invalid(2) obtain resp where r: "hd_resp h = Some resp" by blast
  show ?thesis
    using observe_events[OF o[unfolded r]] e r by (auto intro!: exI[of _ start])
next
  case (valid d)
  from valid(4) obtain obs where e: "hd_events h = dp_events d @ obs"
    and o: "observe env ctx cfg (Some (dp_resp d)) (rq_Method data) (slice_len (rq_ID data) = 0) start (dp_time d) = Some (hd_time h, obs)"
    by blast
  have n: "(hd_resp h = None) = (slice_len (rq_ID data) = 0)"
    "hd_resp h \<noteq> None \<Longrightarrow> hd_resp h = Some (dp_resp d)"
    using valid(3) by (auto split: if_splits)
  show ?thesis
    using observe_events[OF o] e n dispatch_facts(2)[OF valid(2) assms(2)]
    by (auto intro!: exI[of _ "dp_resp d"] exI[of _ "dp_time d"])
qed


section \<open>A sample server\<close>

text \<open>A server with three methods, one of them panicking and one never returning, and an
  observer; the properties above are applied to it.\<close>

definition sample_methods :: "(bytes \<times> (unit, unit) rpc_method) list" where
  "sample_methods =
     [(''echo'', \<lambda>e now ctx data. (Returns (data, OK, None), 5)),
      (''boom'', \<lambda>e now ctx data. (Panics ''secret detail'', 1)),
      (''stuck'', \<lambda>e now ctx data. (Hangs, 0))]"

definition sample :: "(unit, unit) config" where
  "sample = run_ops
     (map (\<lambda>(n, m). OpRegisterMethod n m (zero_methodinfo\<lparr>mi_Name := n\<rparr>)) sample_methods @
      [OpSetObserver (Some (\<lambda>e now ctx info. (Returns (), 0)))]) (New 1)"

definition sample_ctx :: "unit ctx" where
  "sample_ctx = \<lparr>cx_done = None, cx_pusher = None, cx_values = ()\<rparr>"

definition sample_env :: "unit env" where
  "sample_env = \<lparr>ev_user = (), ev_late = 0\<rparr>"

definition sample_request :: "bytes \<Rightarrow> slice \<Rightarrow> request" where
  "sample_request name v = \<lparr>rq_Version = ''2.0'', rq_Method = name, rq_Params = Some ''[1]'', rq_ID = v\<rparr>"

lemmas sample_defs = sample_def sample_methods_def run_ops_def registerMethod_def updateRegistry_def
  update_def updateConfig_def SetObserver_def New_def compose_def has_prefix.simps

lemma sample_ok: "config_ok sample"
  by (simp add: sample_def config_ok_run_ops config_ok_New)

lemma sample_internal: "cf_errors sample InternalErrorCode \<noteq> None"
  using config_ok_internal[OF sample_ok] by simp

lemma sample_simps:
  "cf_composed sample ''echo'' = Some (\<lambda>e now ctx data. (Returns (data, OK, None), 5))"
  "cf_composed sample ''boom'' = Some (\<lambda>e now ctx data. (Panics ''secret detail'', 1))"
  "cf_composed sample ''stuck'' = Some (\<lambda>e now ctx data. (Hangs, 0))"
  "cf_globalInterceptors sample = []" "cf_defaultTimeOut sample = 30 * second"
  "cf_enforcedTimeout sample = False" "cf_logger sample = Some 0"
  "cf_observe sample = Some (\<lambda>e now ctx info. (Returns (), 0))"
  "cf_errors sample = default_errors"
  "cf_methodInfo sample ''echo'' = Some (zero_methodinfo\<lparr>mi_Name := ''echo''\<rparr>)"
  "cf_methodInfo sample ''boom'' = Some (zero_methodinfo\<lparr>mi_Name := ''boom''\<rparr>)"
  "cf_methodInfo sample ''stuck'' = Some (zero_methodinfo\<lparr>mi_Name := ''stuck''\<rparr>)"
  by (simp_all add: sample_defs)

lemma sample_valid: "validateRequest (sample_request ''echo'' None) = None"
  "validateRequest (sample_request ''echo'' (Some ''7'')) = None"
  "validateRequest (sample_request ''boom'' (Some ''7'')) = None"
  "validateRequest (sample_request ''stuck'' (Some ''7'')) = None"
  by (code_simp)+

lemma sample_id: "Valid ''7''"
  by code_simp

lemmas sample_run = handleRPC_def dispatch_def rpc_call_def callGlobalInterceptors_def WithTimeoutCtx_def
  method_timeout_def ctx_Err_def observe_def observeOutcome_def sample_ctx_def sample_env_def
  sample_request_def zero_methodinfo_def Let_def second_def

lemma sample_notification: "\<exists>h. handleRPC sample_env sample_ctx sample (sample_request ''echo'' None) 0 = Some h"
  using sample_valid by (simp add: sample_run sample_simps)


lemma sample_call: "\<exists>h. handleRPC sample_env sample_ctx sample (sample_request ''boom'' (Some ''7'')) 0 = Some h \<and>
   hd_resp h = Some (newError ''internal_error'' InternalErrorCode ANil (AID (Some ''7'')))"
proof -
  have "errorResponse sample (Some (errors_New ''secret detail'')) InternalErrorCode (AID (Some ''7'')) =
    (newError ''internal_error'' InternalErrorCode ANil (AID (Some ''7'')),
     [EvLog LevelError ''jsonrpc: error response''
       [AttrInt ''code'' InternalErrorCode, AttrErr ''error'' (errors_New ''secret detail'')]])"
    by (simp add: errorResponse_def rpc_error_of_def errors_New_def sample_simps default_errors_def code_defs
        levelForCode_def)
  then show ?thesis
    using sample_valid by (simp add: sample_run sample_simps)
qed

theorem handleRPC_silent_iff_notification_witness:
  "hd_resp (the (handleRPC sample_env sample_ctx sample (sample_request ''echo'' None) 0)) = None \<longleftrightarrow>
     validateRequest (sample_request ''echo'' None) = None \<and> slice_len (rq_ID (sample_request ''echo'' None)) = 0"
  by (rule handleRPC_silent_iff_notification) (use sample_notification in auto)

theorem handleRPC_response_proper_witness:
  "proper sample (if Valid (slice_bytes (rq_ID (sample_request ''boom'' (Some ''7'')))) \<or>
        slice_len (rq_ID (sample_request ''boom'' (Some ''7''))) = 0
      then rq_ID (sample_request ''boom'' (Some ''7'')) else None)
     (newError ''internal_error'' InternalErrorCode ANil (AID (Some ''7''))) \<and>
   (slice_len (rs_ID (newError ''internal_error'' InternalErrorCode ANil (AID (Some ''7'')))) = 0 \<or>
    Valid (slice_bytes (rs_ID (newError ''internal_error'' InternalErrorCode ANil (AID (Some ''7''))))))"
proof -
  obtain h where h: "handleRPC sample_env sample_ctx sample (sample_request ''boom'' (Some ''7'')) 0 = Some h"
    "hd_resp h = Some (newError ''internal_error'' InternalErrorCode ANil (AID (Some ''7'')))"
    using sample_call by blast
  show ?thesis by (rule handleRPC_response_proper[OF h sample_internal])
qed

theorem handleRPC_observed_once_witness:
  "\<exists>h. handleRPC sample_env sample_ctx sample (sample_request ''boom'' (Some ''7'')) 0 = Some h \<and>
     length (filter is_observe (hd_events h)) = 1"
proof -
  obtain h where h: "handleRPC sample_env sample_ctx sample (sample_request ''boom'' (Some ''7'')) 0 = Some h"
    using sample_call by blast
  have "cf_observe sample \<noteq> None" by (simp add: sample_simps)
  with handleRPC_observed_once[OF h sample_internal] h show ?thesis by auto
qed

section \<open>Errors, panics and interceptors\<close>

text \<open>
  C30: a panic in an interceptor or in the handler is contained: the call returns, with the
  internal error and its registered message, no data, and the request's id.
\<close>

theorem rpc_call_contains_panics:
  assumes "config_ok cfg"
    and "callGlobalInterceptors cfg e now ctx name data v = (Panics p, t) \<or>
      callGlobalInterceptors cfg e now ctx name data v = (Returns (ctx', code, None), t0) \<and>
        cf_composed cfg name = Some m \<and> m e t0 ctx' data = (Panics p, d) \<and> t = t0 + int d"
  shows "\<exists>evs. rpc_call cfg e now ctx name data v =
    Some (newError ''internal_error'' InternalErrorCode ANil v, evs, t)"
proof -
  have "fst (errorResponse cfg (Some (errors_New p)) InternalErrorCode v) = newError ''internal_error'' InternalErrorCode ANil v"
    unfolding errorResponse_public
    using config_ok_internal[OF assms(1)]
    by (simp add: public_error_def rpc_error_of_def errors_New_def newError_def)
  then obtain evs where "errorResponse cfg (Some (errors_New p)) InternalErrorCode v =
      (newError ''internal_error'' InternalErrorCode ANil v, evs)"
    by (cases "errorResponse cfg (Some (errors_New p)) InternalErrorCode v") auto
  then show ?thesis using assms(2) by (auto simp: rpc_call_def)
qed

theorem rpc_call_contains_panics_witness:
  "\<exists>evs. rpc_call sample () 0 sample_ctx ''boom'' None (AID (Some ''7'')) =
     Some (newError ''internal_error'' InternalErrorCode ANil (AID (Some ''7'')), evs, 1)"
  by (rule rpc_call_contains_panics[OF sample_ok, where p = "''secret detail''" and ctx' = sample_ctx
        and code = OK and ?t0.0 = 0 and d = 1 and m = "\<lambda>e now ctx data. (Panics ''secret detail'', 1)"])
    (simp add: callGlobalInterceptors_def sample_simps)

lemma run_interceptors_append:
  assumes "run_interceptors is e now ctx name data v = (Returns (ctx', code, None), t)"
  shows "run_interceptors (is @ js) e now ctx name data v = run_interceptors js e t ctx' name data v"
  using assms
  by (induction "is" arbitrary: now ctx) (auto split: prod.splits outcome.splits option.splits)

text \<open>
  Interceptors run in registration order before the method; the first one that returns an
  error ends the call with that error and code, and neither the later interceptors nor the
  method table have any influence on the outcome.
\<close>

theorem interceptor_aborts_call:
  assumes "run_interceptors is e now ctx name data v = (Returns (ctx1, OK, None), t1)"
    and "i e t1 ctx1 name data v = (Returns (ctx2, code, Some err), d)"
    and "cf_globalInterceptors cfg = is @ i # js"
  shows "rpc_call cfg e now ctx name data v =
    (let (resp, evs) = errorResponse cfg (Some err) code v in Some (resp, evs, t1 + int d))"
  using assms(2,3) run_interceptors_append[OF assms(1)]
  by (simp add: rpc_call_def callGlobalInterceptors_def)

theorem interceptor_aborts_call_witness:
  "\<exists>cfg :: (unit, unit) config. cf_composed cfg ''echo'' \<noteq> None \<and>
     rpc_call cfg () 0 sample_ctx ''echo'' None ANil =
     (let (resp, evs) = errorResponse cfg (Some (errors_New ''denied'')) InvalidParamsErrorCode ANil
      in Some (resp, evs, 0 + int 3))"
proof -
  let ?i = "\<lambda>e now ctx name data v. (Returns (ctx, InvalidParamsErrorCode, Some (errors_New ''denied'')), 3)"
  let ?c = "sample\<lparr>cf_globalInterceptors := [] @ ?i # []\<rparr>"
  have "rpc_call ?c () 0 sample_ctx ''echo'' None ANil =
     (let (resp, evs) = errorResponse ?c (Some (errors_New ''denied'')) InvalidParamsErrorCode ANil
      in Some (resp, evs, 0 + int 3))"
    by (rule interceptor_aborts_call[of "[]" "()" 0 sample_ctx "''echo''" None ANil sample_ctx 0 ?i sample_ctx
          InvalidParamsErrorCode "errors_New ''denied''" 3 ?c "[]"]) simp_all
  moreover have "cf_composed ?c ''echo'' \<noteq> None" by (simp add: sample_simps)
  ultimately show ?thesis by blast
qed

section \<open>Timeouts\<close>

lemma WithTimeoutCtx_done:
  "\<exists>td cerr cause. cx_done (WithTimeoutCtx ctx now timeout) = Some (td, cerr, cause) \<and>
     td \<le> max now (now + timeout)"
  by (auto simp: WithTimeoutCtx_def Let_def split: option.splits)

lemma ctx_Err_mono: "ctx_Err c t = None \<Longrightarrow> t' \<le> t \<Longrightarrow> ctx_Err c t' = None"
  by (auto simp: ctx_Err_def split: option.splits if_splits)

text \<open>
  C28: with enforced timeouts a request is always answered in time: whatever the handler and
  the interceptors do, even if they never return, \<open>handleRPC\<close> comes back (observers aside) no
  later than the method's timeout after the start, plus the delay with which the waiting
  goroutine is scheduled.
\<close>

theorem enforced_timeout_bounds_request:
  assumes "cf_enforcedTimeout cfg" "cf_observe cfg = None"
  shows "\<exists>h. handleRPC env ctx cfg data start = Some h \<and>
    hd_time h \<le> max start (start + method_timeout cfg (rq_Method data)) + int (ev_late env)"
proof -
  let ?ctxt = "WithTimeoutCtx ctx start (method_timeout cfg (rq_Method data))"
  obtain td cerr cause where td: "cx_done ?ctxt = Some (td, cerr, cause)"
    "td \<le> max start (start + method_timeout cfg (rq_Method data))"
    using WithTimeoutCtx_done by blast
  let ?wake = "max start td + int (ev_late env)"
  have w: "?wake \<le> max start (start + method_timeout cfg (rq_Method data)) + int (ev_late env)"
    using td(2) by linarith
  have "\<exists>d. dispatch env ctx cfg data start = Some d \<and> dp_time d \<le> ?wake"
    using assms(1) td(1) unfolding dispatch_def Let_def
    by (auto simp: case_prod_unfold split: option.splits)
  then show ?thesis
    using assms(2) w unfolding handleRPC_def Let_def
    by (fastforce simp: observe_def case_prod_unfold split: option.splits)
qed

theorem enforced_timeout_bounds_request_witness:
  "\<exists>h. handleRPC sample_env sample_ctx (sample\<lparr>cf_enforcedTimeout := True, cf_observe := None\<rparr>)
         (sample_request ''stuck'' (Some ''7'')) 0 = Some h \<and>
       hd_time h \<le> max 0 (0 + method_timeout (sample\<lparr>cf_enforcedTimeout := True, cf_observe := None\<rparr>)
         (rq_Method (sample_request ''stuck'' (Some ''7'')))) + int (ev_late sample_env)"
  by (rule enforced_timeout_bounds_request) simp_all

lemma snapshot_enforced [simp]:
  "errorResponse (cfg\<lparr>cf_enforcedTimeout := b\<rparr>) = errorResponse cfg"
  "rpc_call (cfg\<lparr>cf_enforcedTimeout := b\<rparr>) = rpc_call cfg"
  "method_timeout (cfg\<lparr>cf_enforcedTimeout := b\<rparr>) = method_timeout cfg"
proof -
  show e: "errorResponse (cfg\<lparr>cf_enforcedTimeout := b\<rparr>) = errorResponse cfg"
    by (intro ext) (simp add: errorResponse_def cong: option.case_cong prod.case_cong if_cong)
  show "rpc_call (cfg\<lparr>cf_enforcedTimeout := b\<rparr>) = rpc_call cfg"
    by (intro ext) (simp add: rpc_call_def callGlobalInterceptors_def e
        cong: option.case_cong prod.case_cong outcome.case_cong if_cong)
  show "method_timeout (cfg\<lparr>cf_enforcedTimeout := b\<rparr>) = method_timeout cfg"
    by (intro ext) (simp add: method_timeout_def cong: option.case_cong if_cong)
qed

text \<open>
  The two timeout modes differ only when time runs out: if the call is over before its
  context is done, inline and enforced dispatch give the same response at the same time with
  the same records.
\<close>

theorem timeout_modes_agree:
  assumes "rpc_call cfg (ev_user env) now (WithTimeoutCtx ctx now (method_timeout cfg (rq_Method data)))
      (rq_Method data) (rq_Params data) (AID (rq_ID data)) = Some (resp, evs, t)"
    and "ctx_Err (WithTimeoutCtx ctx now (method_timeout cfg (rq_Method data))) t = None"
  shows "dispatch env ctx (cfg\<lparr>cf_enforcedTimeout := enforced\<rparr>) data now =
      Some \<lparr>dp_resp = resp, dp_time = t, dp_events = evs, dp_detached = []\<rparr>"
proof -
  obtain td cerr cause where td: "cx_done (WithTimeoutCtx ctx now (method_timeout cfg (rq_Method data))) = Some (td, cerr, cause)"
    using WithTimeoutCtx_done by blast
  have "t < td" using assms(2) td by (simp add: ctx_Err_def split: if_splits)
  then have w: "t \<le> max now td + int (ev_late env)" by linarith
  show ?thesis
    using assms td w by (cases enforced) (simp_all add: dispatch_def Let_def)
qed

theorem timeout_modes_agree_witness:
  "\<forall>enforced. \<exists>resp evs. dispatch sample_env sample_ctx (sample\<lparr>cf_enforcedTimeout := enforced\<rparr>)
      (sample_request ''boom'' (Some ''7'')) 0 =
    Some \<lparr>dp_resp = resp, dp_time = 1, dp_events = evs, dp_detached = []\<rparr>"
proof
  fix enforced
  let ?ctx = "WithTimeoutCtx sample_ctx 0 (method_timeout sample (rq_Method (sample_request ''boom'' (Some ''7''))))"
  have n: "rq_Method (sample_request ''boom'' (Some ''7'')) = ''boom''" by (simp add: sample_request_def)
  obtain resp evs where "errorResponse sample (Some (errors_New ''secret detail'')) InternalErrorCode
      (AID (rq_ID (sample_request ''boom'' (Some ''7'')))) = (resp, evs)"
    by (cases "errorResponse sample (Some (errors_New ''secret detail'')) InternalErrorCode
      (AID (rq_ID (sample_request ''boom'' (Some ''7''))))")
  then have c: "rpc_call sample (ev_user sample_env) 0 ?ctx (rq_Method (sample_request ''boom'' (Some ''7'')))
      (rq_Params (sample_request ''boom'' (Some ''7''))) (AID (rq_ID (sample_request ''boom'' (Some ''7'')))) = Some (resp, evs, 1)"
    unfolding n by (simp add: rpc_call_def callGlobalInterceptors_def sample_simps)
  have "ctx_Err ?ctx 1 = None"
    unfolding n by (simp add: ctx_Err_def WithTimeoutCtx_def sample_ctx_def method_timeout_def sample_simps
        zero_methodinfo_def second_def)
  from timeout_modes_agree[OF c this, of enforced]
  show "\<exists>resp evs. dispatch sample_env sample_ctx (sample\<lparr>cf_enforcedTimeout := enforced\<rparr>)
      (sample_request ''boom'' (Some ''7'')) 0 =
    Some \<lparr>dp_resp = resp, dp_time = 1, dp_events = evs, dp_detached = []\<rparr>" by blast
qed

text \<open>
  An expired deadline becomes a time-limit error and nothing else does: in inline mode the
  call's own response is kept unless the deadline has passed when the call returns, so a
  parent that was merely canceled does not cost the client its response.
\<close>

theorem inline_keeps_response_unless_deadline:
  assumes "\<not> cf_enforcedTimeout cfg" "dispatch env ctx cfg data now = Some d"
  shows "\<exists>resp evs. rpc_call cfg (ev_user env) now (WithTimeoutCtx ctx now (method_timeout cfg (rq_Method data)))
      (rq_Method data) (rq_Params data) (AID (rq_ID data)) = Some (resp, evs, dp_time d) \<and>
    (if ctx_Err (WithTimeoutCtx ctx now (method_timeout cfg (rq_Method data))) (dp_time d) = Some DeadlineExceeded
     then rs_Error (dp_resp d) = Some (public_error cfg (Some (too_long (rq_Method data))) RequestTimeLimit)
     else dp_resp d = resp)"
  using assms by (auto simp: dispatch_def Let_def case_prod_unfold split: option.splits if_splits)

theorem inline_keeps_response_unless_deadline_witness:
  "\<exists>d resp evs. dispatch sample_env (sample_ctx\<lparr>cx_done := Some (3, Canceled, errors_New ''gone'')\<rparr>) sample
       (sample_request ''echo'' (Some ''7'')) 0 = Some d \<and>
     rpc_call sample (ev_user sample_env) 0 (WithTimeoutCtx (sample_ctx\<lparr>cx_done := Some (3, Canceled, errors_New ''gone'')\<rparr>) 0
         (method_timeout sample (rq_Method (sample_request ''echo'' (Some ''7'')))))
       (rq_Method (sample_request ''echo'' (Some ''7''))) (rq_Params (sample_request ''echo'' (Some ''7'')))
       (AID (rq_ID (sample_request ''echo'' (Some ''7'')))) = Some (resp, evs, dp_time d) \<and> dp_resp d = resp"
proof -
  let ?ctx = "sample_ctx\<lparr>cx_done := Some (3, Canceled, errors_New ''gone'')\<rparr>"
  let ?req = "sample_request ''echo'' (Some ''7'')"
  have d: "dispatch sample_env ?ctx sample ?req 0 =
    Some \<lparr>dp_resp = NewResponse (AID (Some ''7'')) (Some (Some ''[1]'')) None, dp_time = 5, dp_events = [], dp_detached = []\<rparr>"
    by (simp add: dispatch_def rpc_call_def callGlobalInterceptors_def WithTimeoutCtx_def method_timeout_def
        ctx_Err_def sample_ctx_def sample_env_def sample_request_def zero_methodinfo_def Let_def second_def sample_simps)
  have e: "\<not> cf_enforcedTimeout sample" by (simp add: sample_simps)
  have "ctx_Err (WithTimeoutCtx ?ctx 0 (method_timeout sample (rq_Method ?req))) 5 = Some Canceled"
    by (simp add: WithTimeoutCtx_def method_timeout_def ctx_Err_def sample_ctx_def sample_request_def
        zero_methodinfo_def Let_def second_def sample_simps)
  then show ?thesis using inline_keeps_response_unless_deadline[OF e d] d by auto
qed

text \<open>
  The code of the abort response is not always the time limit. When an enforced call is
  abandoned because its parent was canceled, the cancellation's cause is wrapped into the
  reported error, so a cause that is a \<open>*RPCError\<close> with a registered code decides the
  response's code and data.
\<close>

theorem abort_reports_cause_code:
  assumes "cf_enforcedTimeout cfg" "cf_errors cfg (re_Code r) = Some msg"
    and "cx_done (WithTimeoutCtx ctx now (method_timeout cfg (rq_Method data))) = Some (td, Canceled, RPCErr (Some r))"
    and "rpc_call cfg (ev_user env) now (WithTimeoutCtx ctx now (method_timeout cfg (rq_Method data)))
      (rq_Method data) (rq_Params data) (AID (rq_ID data)) = None"
  shows "\<exists>d. dispatch env ctx cfg data now = Some d \<and>
    rs_Error (dp_resp d) = Some \<lparr>er_Code = re_Code r, er_Message = msg, er_Data = re_Data r\<rparr>"
  using assms
  by (auto simp: dispatch_def Let_def case_prod_unfold public_error_def rpc_error_of_def aborted_def Errorf_w_def)

theorem abort_reports_cause_code_witness:
  "\<exists>d. dispatch sample_env (sample_ctx\<lparr>cx_done := Some (3, Canceled, RPCErr (Some (RPCError InvalidParamsErrorCode (AString ''x'') None)))\<rparr>)
      (sample\<lparr>cf_enforcedTimeout := True\<rparr>) (sample_request ''stuck'' (Some ''7'')) 0 = Some d \<and>
    rs_Error (dp_resp d) = Some \<lparr>er_Code = InvalidParamsErrorCode, er_Message = ''invalid_method_parameters'', er_Data = AString ''x''\<rparr>"
proof -
  let ?r = "RPCError InvalidParamsErrorCode (AString ''x'') None"
  have "\<exists>d. dispatch sample_env (sample_ctx\<lparr>cx_done := Some (3, Canceled, RPCErr (Some ?r))\<rparr>)
      (sample\<lparr>cf_enforcedTimeout := True\<rparr>) (sample_request ''stuck'' (Some ''7'')) 0 = Some d \<and>
    rs_Error (dp_resp d) = Some \<lparr>er_Code = re_Code ?r, er_Message = ''invalid_method_parameters'', er_Data = re_Data ?r\<rparr>"
    by (rule abort_reports_cause_code[where td = 3])
      (simp_all add: sample_simps default_errors_def code_defs WithTimeoutCtx_def method_timeout_def
        sample_ctx_def sample_request_def zero_methodinfo_def second_def rpc_call_def callGlobalInterceptors_def Let_def)
  then show ?thesis by simp
qed

end
