(* ===== verification/BatchPool.thy ===== *)
theory BatchPool
  imports DispatchProps
begin

text \<open>
  The worker pool of \<open>handleBatchRPC\<close> as a step relation: one producer hands the entry
  indexes over an unbuffered channel to the workers and then closes it; a worker executes the
  entry it received, writes its slot of \<open>raw\<close> and waits for the next index, until the closed
  channel ends its loop. The steps of the workers interleave in any order. The theorems: the
  bound on concurrent entries, that every interleaving ends, and that however it went the
  responses are those of the sequential \<open>handleBatchRPC\<close> of theory \<open>Dispatch\<close>.
\<close>

section \<open>The pool\<close>

datatype worker = Idle | Busy nat | Exited

record pool =
  pl_next :: nat
  pl_closed :: bool
  pl_workers :: "worker list"
  pl_raw :: "response option list"

definition pool_size :: "('e, 'v) config \<Rightarrow> nat \<Rightarrow> nat" where
  "pool_size cfg n =
     (if cf_batchConcurrency cfg \<le> 0 \<or> cf_batchConcurrency cfg > int n then n
      else nat (cf_batchConcurrency cfg))"

definition pool_init :: "nat \<Rightarrow> nat \<Rightarrow> pool" where
  "pool_init concurrency n =
     \<lparr>pl_next = 0, pl_closed = False, pl_workers = replicate concurrency Idle, pl_raw = replicate n None\<rparr>"

text \<open>\<open>result i r\<close>: executing entry \<open>i\<close> can leave \<open>r\<close> in its slot.\<close>

inductive pool_step :: "nat \<Rightarrow> (nat \<Rightarrow> response option \<Rightarrow> bool) \<Rightarrow> pool \<Rightarrow> pool \<Rightarrow> bool"
  for n result where
  handoff: "w < length (pl_workers p) \<Longrightarrow> pl_workers p ! w = Idle \<Longrightarrow> pl_next p < n \<Longrightarrow>
     pool_step n result p (p\<lparr>pl_next := pl_next p + 1, pl_workers := (pl_workers p)[w := Busy (pl_next p)]\<rparr>)"
| close: "pl_next p = n \<Longrightarrow> \<not> pl_closed p \<Longrightarrow> pool_step n result p (p\<lparr>pl_closed := True\<rparr>)"
| finish: "w < length (pl_workers p) \<Longrightarrow> pl_workers p ! w = Busy i \<Longrightarrow> result i r \<Longrightarrow>
     pool_step n result p (p\<lparr>pl_raw := (pl_raw p)[i := r], pl_workers := (pl_workers p)[w := Idle]\<rparr>)"
| exit: "w < length (pl_workers p) \<Longrightarrow> pl_workers p ! w = Idle \<Longrightarrow> pl_closed p \<Longrightarrow>
     pool_step n result p (p\<lparr>pl_workers := (pl_workers p)[w := Exited]\<rparr>)"

inductive_cases pool_stepE: "pool_step n result p q"

text \<open>\<open>wg.Wait\<close> returns.\<close>

definition pool_done :: "pool \<Rightarrow> bool" where
  "pool_done p \<longleftrightarrow> pl_closed p \<and> (\<forall>w \<in> set (pl_workers p). w = Exited)"

text \<open>The responses collected from \<open>raw\<close>.\<close>

definition pool_responses :: "pool \<Rightarrow> response list" where
  "pool_responses p = List.map_filter id (pl_raw p)"

section \<open>Invariant\<close>

definition busy :: "pool \<Rightarrow> nat \<Rightarrow> nat \<Rightarrow> bool" where
  "busy p w i \<longleftrightarrow> w < length (pl_workers p) \<and> pl_workers p ! w = Busy i"

definition pool_inv :: "nat \<Rightarrow> nat \<Rightarrow> (nat \<Rightarrow> response option \<Rightarrow> bool) \<Rightarrow> pool \<Rightarrow> bool" where
  "pool_inv concurrency n result p \<longleftrightarrow>
     length (pl_workers p) = concurrency \<and> length (pl_raw p) = n \<and> pl_next p \<le> n \<and>
     (pl_closed p \<longrightarrow> pl_next p = n) \<and> (\<not> pl_closed p \<longrightarrow> Exited \<notin> set (pl_workers p)) \<and>
     (\<forall>w i. busy p w i \<longrightarrow> i < pl_next p) \<and>
     (\<forall>w w' i. busy p w i \<longrightarrow> busy p w' i \<longrightarrow> w = w') \<and>
     (\<forall>i < pl_next p. (\<exists>w. busy p w i) \<or> result i (pl_raw p ! i))"

lemma pool_inv_init: "pool_inv concurrency n result (pool_init concurrency n)"
  by (auto simp: pool_inv_def pool_init_def busy_def)

lemma busy_update:
  "w < length (pl_workers p) \<Longrightarrow>
     busy (p\<lparr>pl_next := k, pl_workers := (pl_workers p)[w := x]\<rparr>) w' i \<longleftrightarrow>
       (if w' = w then x = Busy i else busy p w' i)"
  by (auto simp: busy_def nth_list_update)

lemma busy_simps [simp]:
  "busy (p\<lparr>pl_closed := c\<rparr>) = busy p" "busy (p\<lparr>pl_raw := r\<rparr>) = busy p"
  "busy (p\<lparr>pl_next := k\<rparr>) = busy p"
  by (simp_all add: busy_def fun_eq_iff)

lemma busy_workers:
  "w < length (pl_workers p) \<Longrightarrow>
     busy (p\<lparr>pl_workers := (pl_workers p)[w := x]\<rparr>) w' i \<longleftrightarrow> (if w' = w then x = Busy i else busy p w' i)"
  by (auto simp: busy_def nth_list_update)

lemma pool_inv_step:
  assumes "pool_step n result p q" "pool_inv concurrency n result p"
  shows "pool_inv concurrency n result q"
  using assms(1)
proof cases
  case (handoff w)
  have notbusy: "\<not> busy p w' (pl_next p)" for w'
    using assms(2) by (auto simp: pool_inv_def)
  have q: "busy q w' i \<longleftrightarrow> (if w' = w then i = pl_next p else busy p w' i)" for w' i
    using handoff by (auto simp: busy_update)
  have idle: "\<not> busy p w i" for i using handoff by (simp add: busy_def)
  have open': "\<not> pl_closed p" using assms(2) handoff by (auto simp: pool_inv_def)
  have ex: "Exited \<notin> set (pl_workers q)"
    using assms(2) handoff open' set_update_subset_insert[of "pl_workers p" w] by (auto simp: pool_inv_def)
  have res: "(\<exists>w. busy q w i) \<or> result i (pl_raw q ! i)" if i: "i < pl_next q" for i
  proof (cases "i = pl_next p")
    case True
    then show ?thesis using q by auto
  next
    case False
    with i handoff have "i < pl_next p" by simp
    with assms(2) have "(\<exists>w. busy p w i) \<or> result i (pl_raw p ! i)" by (auto simp: pool_inv_def)
    moreover have "pl_raw q = pl_raw p" using handoff by simp
    ultimately show ?thesis using q idle by metis
  qed
  show ?thesis
    using assms(2) handoff ex notbusy res unfolding pool_inv_def q
    by (auto simp: less_Suc_eq)
next
  case close
  then show ?thesis using assms(2) by (auto simp: pool_inv_def)
next
  case (finish w i r)
  have b: "busy p w i" using finish by (simp add: busy_def)
  have q: "busy q w' j \<longleftrightarrow> (w' \<noteq> w \<and> busy p w' j)" for w' j
    using finish busy_workers[of w "p\<lparr>pl_raw := (pl_raw p)[i := r]\<rparr>" Idle w' j] by (auto simp: busy_def)
  have len: "i < length (pl_raw p)" using assms(2) b by (fastforce simp: pool_inv_def)
  have ex: "\<not> pl_closed q \<longrightarrow> Exited \<notin> set (pl_workers q)"
    using assms(2) finish set_update_subset_insert[of "pl_workers p" w Idle] by (auto simp: pool_inv_def)
  have res: "(\<exists>w. busy q w j) \<or> result j (pl_raw q ! j)" if j: "j < pl_next q" for j
  proof (cases "j = i")
    case True
    then show ?thesis using finish len by simp
  next
    case False
    have "(\<exists>w. busy p w j) \<or> result j (pl_raw p ! j)"
      using assms(2) j finish by (auto simp: pool_inv_def)
    moreover have "w' \<noteq> w" if "busy p w' j" for w'
      using that b False by (auto simp: busy_def)
    moreover have "pl_raw q ! j = pl_raw p ! j" using finish False by simp
    ultimately show ?thesis using q by metis
  qed
  show ?thesis
    using assms(2) finish ex res unfolding pool_inv_def q by auto
next
  case (exit w)
  have q: "busy q w' j \<longleftrightarrow> busy p w' j" for w' j
    using exit by (auto simp: busy_def nth_list_update split: if_splits)
  have "pl_next q = pl_next p" "pl_raw q = pl_raw p" "pl_closed q" "length (pl_workers q) = length (pl_workers p)"
    using exit by simp_all
  then show ?thesis using assms(2) exit(4) unfolding pool_inv_def q by auto
qed

lemma pool_inv_steps:
  "(pool_step n result)\<^sup>*\<^sup>* p q \<Longrightarrow> pool_inv concurrency n result p \<Longrightarrow> pool_inv concurrency n result q"
  by (induction rule: rtranclp_induct) (auto intro: pool_inv_step)

section \<open>Progress\<close>

definition worker_weight :: "worker \<Rightarrow> nat" where
  "worker_weight w = (case w of Exited \<Rightarrow> 0 | Idle \<Rightarrow> 1 | Busy _ \<Rightarrow> 2)"

definition pool_measure :: "nat \<Rightarrow> pool \<Rightarrow> nat" where
  "pool_measure n p = 2 * (n - pl_next p) + (if pl_closed p then 0 else 1) + sum_list (map worker_weight (pl_workers p))"

lemma weight_update:
  "w < length ws \<Longrightarrow>
     sum_list (map worker_weight (ws[w := x])) + worker_weight (ws ! w) = sum_list (map worker_weight ws) + worker_weight x"
proof (induction ws arbitrary: w)
  case (Cons a ws)
  then show ?case by (cases w) auto
qed simp

lemma pool_step_decreases: "pool_step n result p q \<Longrightarrow> pool_measure n q < pool_measure n p"
proof (induction rule: pool_step.induct)
  case (handoff w p)
  with weight_update[of w "pl_workers p" "Busy (pl_next p)"] show ?case
    by (simp add: pool_measure_def worker_weight_def)
next
  case (finish w p i r)
  with weight_update[of w "pl_workers p" Idle] show ?case
    by (simp add: pool_measure_def worker_weight_def)
next
  case (exit w p)
  with weight_update[of w "pl_workers p" Exited] show ?case
    by (simp add: pool_measure_def worker_weight_def)
qed (simp add: pool_measure_def)

lemma pool_progress:
  assumes "pool_inv concurrency n result p" "\<not> pool_done p" "\<And>i. i < n \<Longrightarrow> \<exists>r. result i r"
    and "0 < concurrency \<or> n = 0"
  shows "\<exists>q. pool_step n result p q"
proof (cases "\<exists>w i. busy p w i")
  case True
  then obtain w i where b: "busy p w i" by blast
  then have "i < n" using assms(1) by (fastforce simp: pool_inv_def)
  with assms(3) obtain r where "result i r" by blast
  with b show ?thesis using pool_step.finish[of w p i result r n] by (auto simp: busy_def)
next
  case False
  show ?thesis
  proof (cases "pl_closed p")
    case True
    with assms(2) obtain w where w: "w < length (pl_workers p)" "pl_workers p ! w \<noteq> Exited"
      by (auto simp: pool_done_def in_set_conv_nth)
    with False have "pl_workers p ! w = Idle" by (cases "pl_workers p ! w") (auto simp: busy_def)
    with w True show ?thesis using pool_step.exit by blast
  next
    case opn: False
    show ?thesis
    proof (cases "pl_next p = n")
      case True
      with opn show ?thesis using pool_step.close by blast
    next
      case next': False
      then have lt: "pl_next p < n" "0 < length (pl_workers p)"
        using assms(1,4) by (auto simp: pool_inv_def)
      have "pl_workers p ! 0 \<noteq> Exited"
        using assms(1) opn lt by (auto simp: pool_inv_def in_set_conv_nth)
      with False lt have "pl_workers p ! 0 = Idle"
        by (cases "pl_workers p ! 0") (auto simp: busy_def)
      with lt show ?thesis using pool_step.handoff by blast
    qed
  qed
qed

lemma pool_completes:
  assumes "pool_inv concurrency n result p" "\<And>i. i < n \<Longrightarrow> \<exists>r. result i r" "0 < concurrency \<or> n = 0"
  shows "\<exists>q. (pool_step n result)\<^sup>*\<^sup>* p q \<and> pool_done q"
  using assms(1)
proof (induction "pool_measure n p" arbitrary: p rule: less_induct)
  case less
  show ?case
  proof (cases "pool_done p")
    case True
    then show ?thesis by blast
  next
    case False
    then obtain q where q: "pool_step n result p q"
      using pool_progress[OF less.prems _ assms(2,3)] by blast
    from less.hyps[OF pool_step_decreases[OF q] pool_inv_step[OF q less.prems]]
    show ?thesis using q by (meson converse_rtranclp_into_rtranclp)
  qed
qed

lemma pool_size_pos: "0 < pool_size cfg n \<or> n = 0"
  by (auto simp: pool_size_def)


section \<open>The pool and the sequential batch\<close>

text \<open>What executing entry \<open>i\<close> can yield, whenever a worker starts it and whatever it sees.\<close>

definition entry_result :: "'v ctx \<Rightarrow> ('e, 'v) config \<Rightarrow> request list \<Rightarrow> bool list option \<Rightarrow> nat \<Rightarrow> response option \<Rightarrow> bool" where
  "entry_result ctx cfg data pf i r \<longleftrightarrow> (\<exists>s h. batch_entry (\<lambda>_. s) ctx cfg data pf i = Some h \<and> r = hd_resp h)"

lemma batch_entry_sched: "batch_entry sched ctx cfg data pf i = batch_entry (\<lambda>_. sched i) ctx cfg data pf i"
  by (simp add: batch_entry_def)

lemma pool_done_raw:
  assumes "(pool_step n result)\<^sup>*\<^sup>* (pool_init concurrency n) p" "pool_done p"
  shows "length (pl_raw p) = n" "i < n \<Longrightarrow> result i (pl_raw p ! i)"
proof -
  have inv: "pool_inv concurrency n result p"
    using pool_inv_steps[OF assms(1) pool_inv_init] .
  then show "length (pl_raw p) = n" by (simp add: pool_inv_def)
  have "\<not> busy p w j" for w j
    using assms(2) by (fastforce simp: pool_done_def busy_def in_set_conv_nth)
  then show "i < n \<Longrightarrow> result i (pl_raw p ! i)"
    using inv assms(2) by (auto simp: pool_inv_def pool_done_def)
qed

lemma map_filter_conv: "List.map_filter f xs = List.map_filter id (map f xs)"
  by (induction xs) (auto simp: List.map_filter_simps split: option.splits)

lemma map_map_filter:
  assumes "\<And>i. i \<in> set is \<Longrightarrow> h i = map_option g (f i)"
  shows "map g (List.map_filter f is) = List.map_filter h is"
  using assms by (induction "is") (auto simp: List.map_filter_simps split: option.splits)

section \<open>Properties of the batch\<close>

text \<open>
  C20: the interleaving of the workers cannot be observed in the responses: every completed run
  of the pool, with any number of workers, returns what the sequential \<open>handleBatchRPC\<close>
  returns when each entry is started when its worker started it; in particular each response
  is in the place of its request.
\<close>

theorem pool_refines_handleBatchRPC:
  assumes "(pool_step (length data) (entry_result ctx cfg data pf))\<^sup>*\<^sup>* (pool_init concurrency (length data)) p"
    and "pool_done p"
  shows "\<exists>sched. handleBatchRPC sched ctx cfg data pf = Some (pool_responses p)"
proof -
  note raw = pool_done_raw[OF assms]
  have "\<forall>i. \<exists>s. i < length data \<longrightarrow> (\<exists>h. batch_entry (\<lambda>_. s) ctx cfg data pf i = Some h \<and> pl_raw p ! i = hd_resp h)"
    using raw(2) by (auto simp: entry_result_def)
  then obtain sched where s: "\<And>i. i < length data \<Longrightarrow>
      \<exists>h. batch_entry (\<lambda>_. sched i) ctx cfg data pf i = Some h \<and> pl_raw p ! i = hd_resp h"
    by metis
  have s': "\<exists>h. batch_entry sched ctx cfg data pf i = Some h \<and> pl_raw p ! i = hd_resp h" if "i < length data" for i
    by (subst batch_entry_sched) (rule s[OF that])
  let ?raw = "map (batch_entry sched ctx cfg data pf) [0..<length data]"
  have none: "None \<notin> set ?raw" using s' by force
  have m: "map (\<lambda>h. hd_resp (the h)) ?raw = pl_raw p"
  proof (rule nth_equalityI)
    show "length (map (\<lambda>h. hd_resp (the h)) ?raw) = length (pl_raw p)" using raw(1) by simp
    show "map (\<lambda>h. hd_resp (the h)) ?raw ! i = pl_raw p ! i"
      if "i < length (map (\<lambda>h. hd_resp (the h)) ?raw)" for i
      using that s'[of i] by auto
  qed
  have "List.map_filter (\<lambda>h. hd_resp (the h)) ?raw = pool_responses p"
    by (simp only: map_filter_conv[of "\<lambda>h. hd_resp (the h)"] m pool_responses_def)
  with none have "handleBatchRPC sched ctx cfg data pf = Some (pool_responses p)"
    unfolding handleBatchRPC_def Let_def by (simp only: if_False)
  then show ?thesis by blast
qed

text \<open>How many entries are being executed.\<close>

definition running :: "pool \<Rightarrow> nat" where
  "running p = length (filter (\<lambda>w. case w of Busy _ \<Rightarrow> True | _ \<Rightarrow> False) (pl_workers p))"

lemma running_bound: "running p \<le> length (pl_workers p)"
  by (simp add: running_def)

lemma pool_size_bound: "pool_size cfg n \<le> n" "0 < cf_batchConcurrency cfg \<Longrightarrow> int (pool_size cfg n) \<le> cf_batchConcurrency cfg"
  by (auto simp: pool_size_def)

text \<open>The producer can put every worker to work before any of them is done.\<close>

lemma all_running:
  assumes "k \<le> m" "m \<le> n"
  shows "(pool_step n result)\<^sup>*\<^sup>* (pool_init m n) ((pool_init m n)\<lparr>pl_next := k,
    pl_workers := map Busy [0..<k] @ replicate (m - k) Idle\<rparr>)"
  using assms(1)
proof (induction k)
  case 0
  then show ?case by (simp add: pool_init_def)
next
  case (Suc k)
  let ?p = "(pool_init m n)\<lparr>pl_next := k, pl_workers := map Busy [0..<k] @ replicate (m - k) Idle\<rparr>"
  obtain r where r: "m - k = Suc r" "r = m - Suc k" using Suc.prems by (metis Suc_diff_Suc Suc_le_lessD)
  have "pool_step n result ?p (?p\<lparr>pl_next := pl_next ?p + 1, pl_workers := (pl_workers ?p)[k := Busy (pl_next ?p)]\<rparr>)"
    by (rule pool_step.handoff) (use Suc.prems assms(2) in \<open>simp_all add: nth_append\<close>)
  moreover have "?p\<lparr>pl_next := pl_next ?p + 1, pl_workers := (pl_workers ?p)[k := Busy (pl_next ?p)]\<rparr> =
      (pool_init m n)\<lparr>pl_next := Suc k, pl_workers := map Busy [0..<Suc k] @ replicate (m - Suc k) Idle\<rparr>"
    using r by (simp add: list_update_append)
  ultimately show ?case using Suc.IH Suc.prems by (metis Suc_leD rtranclp.rtrancl_into_rtrancl)
qed

text \<open>
  C32: the pool always finishes, within the configured concurrency, and makes use of it. From
  every reachable state a completed one is reachable as long as no entry hangs, and each step
  decreases a measure, so no schedule can go on for ever. With a positive
  \<open>batchConcurrency\<close> never more entries than that are being executed at a time, none of
  them twice; and that many can be: the greatest number of entries in execution is the number of
  entries of the batch, or \<open>batchConcurrency\<close> if it is positive and smaller.
\<close>

theorem pool_terminates_within_bound:
  assumes "(pool_step n result)\<^sup>*\<^sup>* (pool_init (pool_size cfg n) n) p" "\<And>i. i < n \<Longrightarrow> \<exists>r. result i r"
  shows "(\<exists>q. (pool_step n result)\<^sup>*\<^sup>* p q \<and> pool_done q)
    \<and> (\<forall>q. pool_step n result p q \<longrightarrow> pool_measure n q < pool_measure n p)
    \<and> running p \<le> n \<and> (0 < cf_batchConcurrency cfg \<longrightarrow> int (running p) \<le> cf_batchConcurrency cfg)
    \<and> (\<forall>w w' i. busy p w i \<and> busy p w' i \<longrightarrow> w = w')
    \<and> (\<exists>q. (pool_step n result)\<^sup>*\<^sup>* (pool_init (pool_size cfg n) n) q \<and>
         int (running q) = (if cf_batchConcurrency cfg \<le> 0 then int n else min (cf_batchConcurrency cfg) (int n)))"
proof -
  have inv: "pool_inv (pool_size cfg n) n result p"
    using pool_inv_steps[OF assms(1) pool_inv_init] .
  have "running p \<le> pool_size cfg n" using inv running_bound[of p] by (simp add: pool_inv_def)
  then have "running p \<le> n" "0 < cf_batchConcurrency cfg \<longrightarrow> int (running p) \<le> cf_batchConcurrency cfg"
    using pool_size_bound[of cfg n] by linarith+
  moreover have "\<forall>w w' i. busy p w i \<and> busy p w' i \<longrightarrow> w = w'"
    using inv unfolding pool_inv_def by blast
  moreover obtain q where "(pool_step n result)\<^sup>*\<^sup>* (pool_init (pool_size cfg n) n) q" "running q = pool_size cfg n"
    using all_running[where result = result, OF order.refl pool_size_bound(1)[of cfg n]] by (fastforce simp: running_def comp_def)
  moreover have "int (pool_size cfg n) = (if cf_batchConcurrency cfg \<le> 0 then int n else min (cf_batchConcurrency cfg) (int n))"
    by (auto simp: pool_size_def)
  ultimately show ?thesis
    using pool_completes[OF inv assms(2) pool_size_pos] pool_step_decreases by (metis (no_types, lifting))
qed

text \<open>The id of the reply to entry \<open>i\<close>; \<open>None\<close> if it gets no reply.\<close>

definition entry_reply :: "request list \<Rightarrow> bool list option \<Rightarrow> nat \<Rightarrow> slice option" where
  "entry_reply data pf i =
    (if (case pf of Some l \<Rightarrow> l ! i | None \<Rightarrow> False) then Some None
     else if validateRequest (data ! i) = None \<and> slice_len (rq_ID (data ! i)) = 0 then None
     else Some (if Valid (slice_bytes (rq_ID (data ! i))) \<or> slice_len (rq_ID (data ! i)) = 0
       then rq_ID (data ! i) else None))"

lemma batch_entry_resp:
  assumes "batch_entry sched ctx cfg data pf i = Some h" "cf_errors cfg InternalErrorCode \<noteq> None"
  shows "map_option rs_ID (hd_resp h) = entry_reply data pf i"
proof (cases "case pf of Some l \<Rightarrow> l ! i | None \<Rightarrow> False")
  case True
  then show ?thesis
    using assms(1) by (auto simp: entry_reply_def batch_entry_def case_prod_unfold Let_def split: option.splits)
next
  case False
  obtain env start where s: "sched i = (env, start)" by (cases "sched i")
  have h: "handleRPC env ctx cfg (data ! i) start = Some h"
    using assms(1) False s by (simp add: batch_entry_def)
  from h show ?thesis
  proof (cases rule: handleRPC_cases)
    case (invalid err)
    then show ?thesis using False by (auto simp: entry_reply_def)
  next
    case (valid d)
    then show ?thesis
      using False dispatch_facts(1)[OF valid(2) assms(2)] valid_id[OF valid(1)]
      by (auto simp: proper_def entry_reply_def)
  qed
qed


lemma batch_ids:
  assumes "handleBatchRPC sched ctx cfg data pf = Some rs" "cf_errors cfg InternalErrorCode \<noteq> None"
  shows "map rs_ID rs = List.map_filter (entry_reply data pf) [0..<length data]"
proof -
  let ?e = "batch_entry sched ctx cfg data pf"
  from assms(1) have none: "None \<notin> set (map ?e [0..<length data])"
    and rs: "rs = List.map_filter (\<lambda>h. hd_resp (the h)) (map ?e [0..<length data])"
    by (auto simp: handleBatchRPC_def Let_def split: if_splits)
  have "map_option rs_ID (hd_resp (the (?e i))) = entry_reply data pf i" if "i \<in> set [0..<length data]" for i
  proof -
    have "?e i \<in> set (map ?e [0..<length data])" using that unfolding set_map by (rule imageI)
    with none have "?e i \<noteq> None" by metis
    then obtain h where "?e i = Some h" by blast
    then show ?thesis using batch_entry_resp[OF _ assms(2)] by simp
  qed
  then have "map rs_ID (List.map_filter (\<lambda>i. hd_resp (the (?e i))) [0..<length data]) =
      List.map_filter (entry_reply data pf) [0..<length data]"
    by (intro map_map_filter) simp
  moreover have "rs = List.map_filter (\<lambda>i. hd_resp (the (?e i))) [0..<length data]"
    unfolding rs by (simp add: List.map_filter_def comp_def filter_map)
  ultimately show ?thesis by simp
qed

text \<open>
  C21: replies in a batch are aligned with the requests: reading the ids of the responses from
  left to right gives, in request order, the id of each entry that must be answered, the null
  id for an entry that did not decode or whose id is not JSON, and nothing for notifications.
\<close>

theorem handleBatchRPC_aligned:
  assumes "handleBatchRPC sched ctx cfg data pf = Some rs" "cf_errors cfg InternalErrorCode \<noteq> None"
  shows "map rs_ID rs = List.map_filter (entry_reply data pf) [0..<length data]"
  by (rule batch_ids[OF assms])

definition sample_batch :: "request list" where
  "sample_batch = [sample_request ''boom'' (Some ''7''), sample_request ''echo'' None, sample_request ''nope'' (Some ''8'')]"

lemma sample_entries:
  "\<exists>h. batch_entry (\<lambda>_. (sample_env, 0)) sample_ctx sample sample_batch None 0 = Some h"
  "\<exists>h. batch_entry (\<lambda>_. (sample_env, 0)) sample_ctx sample sample_batch None 1 = Some h"
  "\<exists>h. batch_entry (\<lambda>_. (sample_env, 0)) sample_ctx sample sample_batch None 2 = Some h"
proof -
  have v: "validateRequest (sample_request ''nope'' (Some ''8'')) = None" by code_simp
  have c: "cf_composed sample ''nope'' = None" "cf_methodInfo sample ''nope'' = None"
    by (simp_all add: sample_defs)
  show "\<exists>h. batch_entry (\<lambda>_. (sample_env, 0)) sample_ctx sample sample_batch None 0 = Some h"
    using sample_call by (auto simp: batch_entry_def sample_batch_def)
  show "\<exists>h. batch_entry (\<lambda>_. (sample_env, 0)) sample_ctx sample sample_batch None 1 = Some h"
    using sample_notification by (auto simp: batch_entry_def sample_batch_def)
  obtain resp evs where e: "errorResponse sample None MethodNotFoundErrorCode (AID (Some ''8'')) = (resp, evs)"
    by (cases "errorResponse sample None MethodNotFoundErrorCode (AID (Some ''8''))")
  show "\<exists>h. batch_entry (\<lambda>_. (sample_env, 0)) sample_ctx sample sample_batch None 2 = Some h"
    using v c e by (simp add: batch_entry_def sample_batch_def sample_run sample_simps split: option.splits)
qed

lemma sample_batch_entry:
  assumes "i < length sample_batch"
  shows "\<exists>h. batch_entry (\<lambda>_. (sample_env, 0)) sample_ctx sample sample_batch None i = Some h"
proof -
  have "i = 0 \<or> i = 1 \<or> i = 2" using assms by (auto simp: sample_batch_def)
  then show ?thesis using sample_entries by blast
qed

theorem pool_refines_handleBatchRPC_witness:
  "\<exists>p sched. pool_done p \<and> handleBatchRPC sched sample_ctx sample sample_batch None = Some (pool_responses p)"
proof -
  let ?n = "length sample_batch" and ?r = "entry_result sample_ctx sample sample_batch None"
  have "\<exists>r. ?r i r" if "i < ?n" for i
    using sample_batch_entry[OF that] by (auto simp: entry_result_def)
  then obtain p where p: "(pool_step ?n ?r)\<^sup>*\<^sup>* (pool_init 2 ?n) p" "pool_done p"
    using pool_completes[OF pool_inv_init, of ?n ?r 2] by auto
  show ?thesis using pool_refines_handleBatchRPC[OF p] p(2) by blast
qed

theorem pool_terminates_within_bound_witness:
  "\<exists>p. (pool_step 3 (\<lambda>i r. r = None))\<^sup>*\<^sup>* (pool_init (pool_size (sample\<lparr>cf_batchConcurrency := 2\<rparr>) 3) 3) p \<and> running p = 2 \<and>
     (\<exists>q. (pool_step 3 (\<lambda>i r. r = None))\<^sup>*\<^sup>* p q \<and> pool_done q)"
proof -
  let ?c = "sample\<lparr>cf_batchConcurrency := 2\<rparr>" and ?r = "\<lambda>i r. r = (None :: response option)"
  have r: "\<exists>r. ?r i r" for i :: nat by blast
  from pool_terminates_within_bound[where cfg = ?c and n = 3, OF rtranclp.rtrancl_refl r]
  obtain p where p: "(pool_step 3 ?r)\<^sup>*\<^sup>* (pool_init (pool_size ?c 3) 3) p" "int (running p) = 2" by auto
  from pool_terminates_within_bound[where cfg = ?c, OF p(1) r] p show ?thesis by auto
qed

theorem handleBatchRPC_aligned_witness:
  "\<exists>rs. handleBatchRPC (\<lambda>_. (sample_env, 0)) sample_ctx sample sample_batch None = Some rs \<and>
     map rs_ID rs = [Some ''7'', Some ''8'']"
proof -
  have "None \<notin> set (map (batch_entry (\<lambda>_. (sample_env, 0)) sample_ctx sample sample_batch None) [0..<length sample_batch])"
    using sample_batch_entry by force
  then obtain rs where rs: "handleBatchRPC (\<lambda>_. (sample_env, 0)) sample_ctx sample sample_batch None = Some rs"
    by (simp add: handleBatchRPC_def)
  have "List.map_filter (entry_reply sample_batch None) [0..<length sample_batch] = [Some ''7'', Some ''8'']"
    by code_simp
  with handleBatchRPC_aligned[OF rs sample_internal] rs show ?thesis by auto
qed

end
