(* ===== verification/ScanProps.thy ===== *)
theory ScanProps
  imports Scan
begin

section \<open>Byte scanners that follow the JSON scanner\<close>

locale json_follower =
  fixes full :: bytes
    and body :: "nat \<Rightarrow> char \<Rightarrow> 'st \<Rightarrow> 'r + 'st"
    and rel :: "bytes \<Rightarrow> scanner \<Rightarrow> 'st \<Rightarrow> bool"
    and early :: "bytes \<Rightarrow> 'r \<Rightarrow> bool"
    and stop :: "scanner \<Rightarrow> bool"
  assumes follow:
    "prefix (p @ [c]) full \<Longrightarrow> rel p s st \<Longrightarrow> alive (step1 s c) \<Longrightarrow> \<not> stop (step1 s c) \<Longrightarrow>
       (case body (length p) c st of
          Inl r \<Rightarrow> early (p @ [c]) r
        | Inr st' \<Rightarrow> rel (p @ [c]) (step1 s c) st')"
begin

lemma run:
  assumes "rel p s st" "prefix (p @ xs) full" "alive (srun s xs)"
    and "\<And>q. prefix q xs \<Longrightarrow> q \<noteq> [] \<Longrightarrow> \<not> stop (srun s q)"
  shows "case byte_loop body (length p) xs st of
           Inl r \<Rightarrow> (\<exists>q. prefix q (p @ xs) \<and> early q r)
         | Inr st' \<Rightarrow> rel (p @ xs) (srun s xs) st'"
  using assms
proof (induction xs arbitrary: p s st)
  case Nil
  then show ?case by simp
next
  case (Cons c cs)
  have a: "alive (step1 s c)"
    using Cons.prems(3) srun_dead by fastforce
  have ns: "\<not> stop (step1 s c)"
    using Cons.prems(4)[of "[c]"] by simp
  have pre: "prefix (p @ [c]) full"
    using Cons.prems(2) by (auto simp: prefix_def)
  note step = follow[OF pre Cons.prems(1) a ns]
  show ?case
  proof (cases "body (length p) c st")
    case (Inl r)
    with step have "early (p @ [c]) r" by simp
    moreover have "prefix (p @ [c]) (p @ c # cs)" by simp
    ultimately show ?thesis using Inl by (auto intro!: exI[of _ "p @ [c]"])
  next
    case (Inr st')
    with step have rel': "rel (p @ [c]) (step1 s c) st'" by simp
    have "case byte_loop body (length (p @ [c])) cs st' of
           Inl r \<Rightarrow> (\<exists>q. prefix q ((p @ [c]) @ cs) \<and> early q r)
         | Inr st' \<Rightarrow> rel ((p @ [c]) @ cs) (srun (step1 s c) cs) st'"
    proof (rule Cons.IH[OF rel'])
      show "prefix ((p @ [c]) @ cs) full" using Cons.prems(2) by simp
      show "alive (srun (step1 s c) cs)" using Cons.prems(3) by simp
      show "\<not> stop (srun (step1 s c) q)" if "prefix q cs" "q \<noteq> []" for q
        using Cons.prems(4)[of "c # q"] that by simp
    qed
    with Inr show ?thesis by (simp cong: sum.case_cong)
  qed
qed

end

section \<open>splitBatchElements on valid JSON\<close>

lemma beginValueOrEmpty_step:
  assumes "sc_step s = BeginValueOrEmpty" "\<not> isSpace c" "c \<noteq> RBRACK"
  shows "step1 s c = step1 (s\<lparr>sc_step := BeginValue\<rparr>) c"
  using assms
  by (simp add: scan_step_def stateBeginValueOrEmpty_def stateBeginValue_def pushParseState_def
      scan_error_def Let_def)

lemma begin_value_cases:
  assumes "sc_step s = BeginValue \<or> sc_step s = BeginValueOrEmpty" "\<not> isSpace c" "c \<noteq> RBRACK"
    "alive (step1 s c)"
  shows "\<not> fresh (step1 s c) \<and> sc_stack (step1 s c) = sc_stack s \<or>
    (\<exists>p. sc_stack (step1 s c) = p # sc_stack s)"
proof -
  have ns: "\<not> in_string s" and fs: "fresh s" and nb: "sc_step s \<noteq> BeginStringOrEmpty"
    using assms(1) by (auto simp: in_string_def fresh_def)
  consider "c = QUOTE" | "c = LBRACK" | "c = LBRACE" | "c = RBRACE" | "c = COMMA" | "c = COLON"
    | "\<not> structural c"
    using assms(2,3) by (auto simp: structural_def)
  then show ?thesis
  proof cases
    case 1 with step1_quote[OF ns] assms(4) show ?thesis by (auto simp: fresh_def)
  next
    case 2 with step1_lbrack[OF ns] assms(4) show ?thesis by auto
  next
    case 3 with step1_lbrace[OF ns] assms(4) show ?thesis by auto
  next
    case 4 with step1_rbrace[OF ns] assms(4) nb fs show ?thesis by simp
  next
    case 5 with step1_comma[OF ns] assms(4) fs show ?thesis by simp
  next
    case 6 with step1_colon[OF ns] assms(4) fs show ?thesis by simp
  next
    case 7 with step1_other[OF ns assms(4)] show ?thesis by simp
  qed
qed

lemma framed_first:
  assumes "sc_stack s = [ParseArrayValue]" "sc_step s = BeginValue \<or> sc_step s = BeginValueOrEmpty"
    "\<not> sc_endTop s" "c \<noteq> RBRACK" "\<not> isSpace c" "alive (step1 s c)"
  shows "framed (step1 scanner_init c) (step1 s c) \<and>
    (length (sc_stack (step1 s c)) = 1 \<longrightarrow> \<not> fresh (step1 s c))"
proof -
  let ?s = "s\<lparr>sc_step := BeginValue\<rparr>"
  have eq: "step1 s c = step1 ?s c"
  proof (cases "sc_step s = BeginValue")
    case True
    then have "?s = s" by (cases s) simp
    then show ?thesis by simp
  next
    case False
    with assms(2) show ?thesis using beginValueOrEmpty_step[OF _ assms(5,4)] by simp
  qed
  have "framed scanner_init ?s"
    using assms(1) by (simp add: framed_def scanner_init_def)
  moreover have "c \<noteq> COMMA"
  proof
    assume "c = COMMA"
    moreover have "\<not> in_string ?s" "fresh ?s" by (simp_all add: in_string_def fresh_def)
    ultimately show False using step1_comma[of ?s] assms(6) eq by simp
  qed
  ultimately have "framed (step1 scanner_init c) (step1 ?s c)"
    using framed_step[of scanner_init ?s c] assms(4,6) eq by simp
  then show ?thesis
    using eq begin_value_cases[OF assms(2,5,4,6)] assms(1) by auto
qed

definition split_rel :: "bytes \<Rightarrow> scanner \<Rightarrow> split_st \<Rightarrow> bool" where
  "split_rel p s st \<longleftrightarrow> alive s \<and> \<not> sc_endTop s \<and>
     sc_stack s \<noteq> [] \<and> last (sc_stack s) = ParseArrayValue \<and>
     sp_depth st = int (length (sc_stack s)) - 1 \<and>
     sp_inString st = in_string s \<and> sp_escaped st = in_escape s \<and>
     (if sp_start st = -1
      then length (sc_stack s) = 1 \<and>
           sc_step s = (if sp_elems st = [] then BeginValueOrEmpty else BeginValue)
      else 0 \<le> sp_start st \<and> sp_start st < int (length p) \<and>
           framed (srun scanner_init (drop (nat (sp_start st)) p)) s \<and>
           (length (sc_stack s) = 1 \<longrightarrow> \<not> fresh s)) \<and>
     (\<forall>e \<in> set (sp_elems st). Valid e)"

text \<open>The element read so far is complete when the array's comma or bracket comes.\<close>

lemma framed_complete:
  assumes "framed t s" "sc_stack s = [ParseArrayValue]" "\<not> in_string s" "\<not> fresh s"
    "alive (step1 s c)" "c = COMMA \<or> c = RBRACK"
  shows "scan_eof_ok t"
  using assms(6,1-5)
  by (elim disjE; cases "sc_step s")
    (auto simp: framed_def scan_eof_ok_def in_string_def fresh_def alive_def scan_step_def
       state_fun_defs char_class_defs)

lemma split_follow_string:
  assumes "split_rel p s st" "in_string s" "alive (step1 s c)" "\<not> sc_stack (step1 s c) = []"
  shows "case split_body inner (length p) c st of
          Inl r \<Rightarrow> False | Inr st' \<Rightarrow> split_rel (p @ [c]) (step1 s c) st'"
proof -
  note sh = step1_in_string[OF assms(2,3)]
  have nf: "\<not> fresh s"
    using assms(2) by (auto simp: fresh_def in_string_def)
  have st: "sp_start st \<noteq> -1"
    using assms(1) nf by (auto simp: split_rel_def fresh_def split: if_splits)
  let ?t = "srun scanner_init (drop (nat (sp_start st)) p)"
  from assms(1) st have fr: "framed ?t s" "0 \<le> sp_start st" "sp_start st < int (length p)"
    by (auto simp: split_rel_def)
  have "framed (step1 ?t c) (step1 s c)"
    using framed_step[OF fr(1) assms(3)] assms(2) nf by simp
  then have fr': "framed (srun scanner_init (drop (nat (sp_start st)) (p @ [c]))) (step1 s c)"
    using fr(2,3) by simp
  have nf': "\<not> fresh (step1 s c)" and ns: "\<not> in_escape s \<Longrightarrow> c = QUOTE \<Longrightarrow> \<not> in_string (step1 s c) \<and> \<not> in_escape (step1 s c)"
    using sh by (auto simp: fresh_def in_string_def in_escape_def split: if_splits)
  show ?thesis
    using assms(1-3) sh st fr fr' nf' ns
    by (cases "in_escape s"; cases "c = BSLASH"; cases "c = QUOTE")
      (simp_all add: split_rel_def split_body_def)
qed

lemma framed_extend:
  assumes "split_rel p s st" "sp_start st \<noteq> -1" "alive (step1 s c)"
    and "length (sc_stack s) = 1 \<longrightarrow> \<not> in_string s \<longrightarrow> c \<noteq> RBRACK \<and> c \<noteq> COMMA"
  shows "framed (srun scanner_init (drop (nat (sp_start st)) (p @ [c]))) (step1 s c)"
proof -
  let ?t = "srun scanner_init (drop (nat (sp_start st)) p)"
  from assms(1,2) have fr: "framed ?t s" "0 \<le> sp_start st" "sp_start st < int (length p)"
    "length (sc_stack s) = 1 \<longrightarrow> \<not> fresh s"
    by (auto simp: split_rel_def)
  then have "framed (step1 ?t c) (step1 s c)"
    using framed_step[OF fr(1) assms(3)] assms(4) by (auto simp: framed_def)
  then show ?thesis using fr(2,3) by simp
qed

lemma split_follow_begin:
  assumes "split_rel p s st" "\<not> in_string s" "alive (step1 s c)" "sp_start st = -1"
    "\<not> isSpace c" "c \<noteq> RBRACK"
  shows "framed (srun scanner_init (drop (length p) (p @ [c]))) (step1 s c) \<and>
    (length (sc_stack (step1 s c)) = 1 \<longrightarrow> \<not> fresh (step1 s c)) \<and>
    c \<noteq> RBRACE \<and> c \<noteq> COMMA"
proof -
  from assms(1,4) have s: "sc_stack s = [ParseArrayValue]" "\<not> sc_endTop s"
    "sc_step s = BeginValue \<or> sc_step s = BeginValueOrEmpty"
    by (auto simp: split_rel_def length_Suc_conv split: if_splits)
  have "fresh s" "sc_step s \<noteq> BeginStringOrEmpty" using s(3) by (auto simp: fresh_def)
  then have "c \<noteq> RBRACE \<and> c \<noteq> COMMA"
    using step1_rbrace[OF assms(2)] step1_comma[OF assms(2)] assms(3) by auto
  then show ?thesis
    using framed_first[OF s(1,3,2) assms(6,5,3)] by simp
qed

lemma split_follow_quote:
  assumes "split_rel p s st" "\<not> in_string s" "alive (step1 s QUOTE)"
  shows "case split_body inner (length p) QUOTE st of
          Inl r \<Rightarrow> False | Inr st' \<Rightarrow> split_rel (p @ [QUOTE]) (step1 s QUOTE) st'"
proof -
  note sh = step1_quote[OF assms(2,3)]
  have ns: "in_string (step1 s QUOTE)" "\<not> in_escape (step1 s QUOTE)" "\<not> fresh (step1 s QUOTE)"
    "\<not> in_escape s"
    using sh assms(2) by (simp_all add: in_string_def in_escape_def fresh_def)
  show ?thesis
  proof (cases "sp_start st = -1")
    case True
    then show ?thesis
      using assms sh ns split_follow_begin[OF assms(1-3) True]
      by (simp add: split_rel_def split_body_def isSpace_def)
  next
    case False
    then show ?thesis
      using assms sh ns framed_extend[OF assms(1) False assms(3)]
      by (simp add: split_rel_def split_body_def)
  qed
qed

lemma split_follow_open:
  assumes "split_rel p s st" "\<not> in_string s" "alive (step1 s c)" "c = LBRACK \<or> c = LBRACE"
  shows "case split_body inner (length p) c st of
          Inl r \<Rightarrow> False | Inr st' \<Rightarrow> split_rel (p @ [c]) (step1 s c) st'"
proof -
  have sh: "\<exists>q. sc_stack (step1 s c) = q # sc_stack s" "sc_endTop (step1 s c) = sc_endTop s"
    "\<not> in_string (step1 s c)" "\<not> in_escape (step1 s c)"
    using step1_lbrack[OF assms(2)] step1_lbrace[OF assms(2)] assms(3,4)
    by (auto simp: in_string_def in_escape_def)
  then obtain q where q: "sc_stack (step1 s c) = q # sc_stack s" by blast
  have ns: "\<not> in_escape s" using assms(2) by (simp add: in_string_def in_escape_def)
  have c: "\<not> isSpace c" "c \<noteq> RBRACK" "c \<noteq> QUOTE" "c \<noteq> COMMA" using assms(4) by (auto simp: isSpace_def)
  show ?thesis
  proof (cases "sp_start st = -1")
    case True
    then show ?thesis
      using assms sh ns c q split_follow_begin[OF assms(1-3) True c(1,2)]
      by (simp add: split_rel_def split_body_def)
  next
    case False
    then show ?thesis
      using assms sh ns c q framed_extend[OF assms(1) False assms(3)]
      by (auto simp add: split_rel_def split_body_def)
  qed
qed

lemma alive_upd [simp]: "alive (s\<lparr>sc_step := x\<rparr>) \<longleftrightarrow> x \<noteq> StError"
  "alive (s\<lparr>sc_stack := y\<rparr>) \<longleftrightarrow> alive s"
  by (simp_all add: alive_def)

lemma not_in_escape: "\<not> in_string s \<Longrightarrow> \<not> in_escape s"
  by (simp add: in_string_def in_escape_def)

lemma step1_close_stack:
  assumes "\<not> in_string s" "alive (step1 s c)" "c = RBRACK \<or> c = RBRACE" "sc_stack (step1 s c) \<noteq> []"
  shows "sc_stack (step1 s c) = tl (sc_stack s) \<and> sc_step (step1 s c) = EndValue \<and>
    sc_endTop (step1 s c) = sc_endTop s"
  using assms(3)
proof
  assume c: "c = RBRACK"
  with step1_rbrack[OF assms(1)] assms(2) have "step1 s c = popParseState s" by auto
  with assms(4) show ?thesis by (auto simp: popParseState_def Let_def split: if_splits)
next
  assume c: "c = RBRACE"
  show ?thesis
    using step1_rbrace[OF assms(1)] assms(2,4) c
    by (auto simp: popParseState_def Let_def split: if_splits)
qed

lemma split_follow_close:
  assumes "split_rel p s st" "\<not> in_string s" "alive (step1 s c)" "c = RBRACK \<or> c = RBRACE"
    "sc_stack (step1 s c) \<noteq> []"
  shows "case split_body inner (length p) c st of
          Inl r \<Rightarrow> False | Inr st' \<Rightarrow> split_rel (p @ [c]) (step1 s c) st'"
proof -
  note sh = step1_close_stack[OF assms(2-5)]
  have ns: "\<not> in_string (step1 s c)" "\<not> in_escape (step1 s c)" "\<not> fresh (step1 s c)" "\<not> in_escape s"
    using sh assms(2) by (auto simp: in_string_def in_escape_def fresh_def)
  obtain q q' rest where stk: "sc_stack s = q # q' # rest"
    using sh assms(1,5) by (cases "sc_stack s"; cases "tl (sc_stack s)") (auto simp: split_rel_def)
  have st: "sp_start st \<noteq> -1" using assms(1) stk by (auto simp: split_rel_def)
  show ?thesis
    using assms sh ns stk st framed_extend[OF assms(1) st assms(3)]
    by (auto simp: split_rel_def split_body_def)
qed

lemma split_follow_space:
  assumes "split_rel p s st" "\<not> in_string s" "alive (step1 s c)" "isSpace c"
  shows "case split_body inner (length p) c st of
          Inl r \<Rightarrow> False | Inr st' \<Rightarrow> split_rel (p @ [c]) (step1 s c) st'"
proof -
  have c: "c \<noteq> QUOTE" "c \<noteq> LBRACK" "c \<noteq> LBRACE" "c \<noteq> RBRACK" "c \<noteq> RBRACE" "c \<noteq> COMMA"
    "c = SPACE \<or> c = TAB \<or> c = LF \<or> c = CR"
    using assms(4) by (auto simp: isSpace_def)
  have body: "split_body inner (length p) c st = Inr st"
    using assms(1,2) c by (simp add: split_body_def split_rel_def)
  note sh = step1_space[OF assms(2-4)]
  show ?thesis
  proof (cases "fresh s")
    case True
    with sh have eq: "step1 s c = s" by simp
    show ?thesis
    proof (cases "sp_start st = -1")
      case True
      with assms(1) eq body show ?thesis by (simp add: split_rel_def)
    next
      case False
      then show ?thesis
        using assms(1) eq body c framed_extend[OF assms(1) False assms(3)] by (simp add: split_rel_def)
    qed
  next
    case False
    have st: "sp_start st \<noteq> -1"
      using assms(1) False by (auto simp: split_rel_def fresh_def split: if_splits)
    have fr: "framed (srun scanner_init (drop (nat (sp_start st)) (p @ [c]))) (step1 s c)"
      using framed_extend[OF assms(1) st assms(3)] c by simp
    have "sc_step s \<noteq> EndTop" "sc_stack s \<noteq> []"
      using assms(1) st by (auto simp: split_rel_def framed_def)
    then have sh': "sc_stack (step1 s c) = sc_stack s" "sc_step (step1 s c) = EndValue"
      "sc_endTop (step1 s c) = sc_endTop s"
      using sh False by simp_all
    then have "\<not> in_string (step1 s c)" "\<not> in_escape (step1 s c)" "\<not> fresh (step1 s c)"
      by (simp_all add: in_string_def in_escape_def fresh_def)
    with sh' fr st body assms(1-3) not_in_escape[OF assms(2)] show ?thesis
      by (simp add: split_rel_def)
  qed
qed

lemma split_follow_comma:
  assumes "split_rel p s st" "\<not> in_string s" "alive (step1 s COMMA)" "prefix (p @ [COMMA]) inner"
  shows "case split_body inner (length p) COMMA st of
          Inl r \<Rightarrow> False | Inr st' \<Rightarrow> split_rel (p @ [COMMA]) (step1 s COMMA) st'"
proof -
  note sh = step1_comma[OF assms(2,3)]
  have ns: "\<not> in_string (step1 s COMMA)" "\<not> in_escape (step1 s COMMA)" "\<not> in_escape s"
    "sc_endTop (step1 s COMMA) = sc_endTop s"
    using sh assms(2) by (auto simp: in_string_def in_escape_def)
  have st: "sp_start st \<noteq> -1"
    using assms(1) sh by (auto simp: split_rel_def fresh_def split: if_splits)
  show ?thesis
  proof (cases "length (sc_stack s) = 1")
    case True
    then have stk: "sc_stack s = [ParseArrayValue]"
      using assms(1) by (auto simp: split_rel_def length_Suc_conv)
    let ?e = "drop (nat (sp_start st)) p"
    have fr: "framed (srun scanner_init ?e) s" "0 \<le> sp_start st" "sp_start st < int (length p)"
      using assms(1) st by (auto simp: split_rel_def)
    have "Valid ?e"
      unfolding Valid_srun
      using framed_complete[OF fr(1) stk assms(2) _ assms(3)] sh by simp
    moreover have "take (length p - nat (sp_start st)) (drop (nat (sp_start st)) inner) = ?e"
      using assms(4) fr(2,3) by (auto simp: prefix_def)
    ultimately show ?thesis
      using assms(1,2) sh ns st stk by (auto simp: split_rel_def split_body_def)
  next
    case False
    have "step1 s COMMA = s\<lparr>sc_step := BeginValue\<rparr> \<or>
       (\<exists>rest. rest \<noteq> [] \<and> sc_stack s = ParseObjectValue # rest \<and>
        step1 s COMMA = s\<lparr>sc_stack := ParseObjectKey # rest, sc_step := BeginString\<rparr>)"
      using sh False by (auto split: if_splits)
    moreover have "alive (step1 s COMMA)" by fact
    ultimately show ?thesis
      using assms(1,2) ns st False framed_extend[OF assms(1) st assms(3)]
      by (auto simp: split_rel_def split_body_def)
  qed
qed

lemma split_follow_other:
  assumes "split_rel p s st" "\<not> in_string s" "alive (step1 s c)" "\<not> structural c \<or> c = COLON"
  shows "case split_body inner (length p) c st of
          Inl r \<Rightarrow> False | Inr st' \<Rightarrow> split_rel (p @ [c]) (step1 s c) st'"
proof -
  have c: "c \<noteq> QUOTE" "c \<noteq> LBRACK" "c \<noteq> LBRACE" "c \<noteq> RBRACK" "c \<noteq> RBRACE" "c \<noteq> COMMA"
    "\<not> isSpace c" "c \<noteq> SPACE \<and> c \<noteq> TAB \<and> c \<noteq> LF \<and> c \<noteq> CR"
    using assms(4) by (auto simp: structural_def isSpace_def)
  have sh: "length (sc_stack (step1 s c)) = length (sc_stack s)"
    "sc_endTop (step1 s c) = sc_endTop s" "\<not> in_string (step1 s c)"
    "last (sc_stack (step1 s c)) = last (sc_stack s) \<or> length (sc_stack s) = 1"
    "length (sc_stack s) = 1 \<longrightarrow> last (sc_stack s) = ParseArrayValue \<longrightarrow>
       \<not> fresh (step1 s c) \<and> last (sc_stack (step1 s c)) = ParseArrayValue"
    using assms(4) step1_other[OF assms(2,3)] step1_colon[OF assms(2)] assms(3)
    by (auto simp: in_string_def)
  have body: "split_body inner (length p) c st =
      Inr (st\<lparr>sp_start := (if sp_start st = -1 then int (length p) else sp_start st)\<rparr>)"
    using assms(1,2) c by (simp add: split_body_def split_rel_def)
  have ne: "sc_stack (step1 s c) \<noteq> []" "last (sc_stack (step1 s c)) = ParseArrayValue"
    using sh assms(1) by (auto simp: split_rel_def)
  show ?thesis
  proof (cases "sp_start st = -1")
    case True
    show ?thesis
      using assms(1-3) sh(1-3) ne True body not_in_escape[OF assms(2)] not_in_escape[OF sh(3)]
        split_follow_begin[OF assms(1-3) True c(7,4)]
      by (simp add: split_rel_def)
  next
    case False
    show ?thesis
      using assms(1-3) sh(1-3,5) ne False body not_in_escape[OF assms(2)] not_in_escape[OF sh(3)]
        framed_extend[OF assms(1) False assms(3)] c
      by (simp add: split_rel_def)
  qed
qed

lemma split_follow:
  assumes "prefix (p @ [c]) inner" "split_rel p s st" "alive (step1 s c)" "sc_stack (step1 s c) \<noteq> []"
  shows "case split_body inner (length p) c st of
          Inl r \<Rightarrow> False | Inr st' \<Rightarrow> split_rel (p @ [c]) (step1 s c) st'"
proof (cases "in_string s")
  case True
  with assms show ?thesis by (intro split_follow_string)
next
  case False
  consider "c = QUOTE" | "c = LBRACK \<or> c = LBRACE" | "c = RBRACK \<or> c = RBRACE" | "c = COMMA"
    | "isSpace c" | "\<not> structural c \<or> c = COLON"
    by (auto simp: structural_def)
  then show ?thesis
  proof cases
    case 1 with assms False show ?thesis by (auto intro: split_follow_quote)
  next
    case 2 with assms False show ?thesis by (intro split_follow_open)
  next
    case 3 with assms False show ?thesis by (intro split_follow_close)
  next
    case 4 with assms False show ?thesis by (auto intro: split_follow_comma)
  next
    case 5 with assms False show ?thesis by (intro split_follow_space)
  next
    case 6 with assms False show ?thesis by (intro split_follow_other)
  qed
qed

interpretation split_follower:
  json_follower inner "split_body inner" split_rel "\<lambda>_ _. False" "\<lambda>s. sc_stack s = []" for inner
  by unfold_locales (rule split_follow)

text \<open>
  Once the outer array is closed only spaces may follow, so inside a valid array text
  the scanner's stack is never empty.
\<close>

lemma endTop_run:
  "sc_step s = EndTop \<Longrightarrow> alive (srun s xs) \<Longrightarrow> list_all isSpace xs"
proof (induction xs arbitrary: s)
  case (Cons c cs)
  have "alive (step1 s c)" using Cons.prems(2) srun_dead by fastforce
  with Cons.prems(1) have "isSpace c" "step1 s c = s"
    by (auto simp: scan_step_def stateEndTop_def scan_error_def alive_def split: if_splits)
  with Cons show ?case by simp
qed simp


lemma stack_emptied:
  assumes "sc_stack s \<noteq> []" "alive (step1 s c)" "sc_stack (step1 s c) = []"
  shows "sc_step (step1 s c) = EndTop"
proof (cases "in_string s")
  case True
  with step1_in_string[OF True assms(2)] assms show ?thesis by simp
next
  case False
  consider "c = QUOTE" | "c = LBRACK" | "c = LBRACE" | "c = RBRACK" | "c = RBRACE" | "c = COMMA"
    | "c = COLON" | "isSpace c" | "\<not> structural c"
    by (auto simp: structural_def)
  then show ?thesis
  proof cases
    case 1 with step1_quote[OF False] assms show ?thesis by auto
  next
    case 2 with step1_lbrack[OF False] assms show ?thesis by auto
  next
    case 3 with step1_lbrace[OF False] assms show ?thesis by auto
  next
    case 4 with step1_rbrack[OF False] assms show ?thesis
      by (auto simp: popParseState_def Let_def split: if_splits)
  next
    case 5 with step1_rbrace[OF False] assms show ?thesis
      by (auto simp: popParseState_def Let_def split: if_splits)
  next
    case 6 with step1_comma[OF False] assms show ?thesis by auto
  next
    case 7 with step1_colon[OF False] assms show ?thesis by auto
  next
    case 8 with step1_space[OF False assms(2)] assms show ?thesis by (auto split: if_splits)
  next
    case 9 with step1_other[OF False assms(2)] assms show ?thesis by auto
  qed
qed

lemma stack_stays:
  assumes "sc_stack s \<noteq> []" "alive (srun s (xs @ c # ys))" "\<not> isSpace c" "prefix q xs"
  shows "sc_stack (srun s q) \<noteq> []"
  using assms
proof (induction xs arbitrary: s q)
  case (Cons x xs)
  have a: "alive (step1 s x)"
    using Cons.prems(2) srun_dead[of "step1 s x" "xs @ c # ys"] by auto
  have ne: "sc_stack (step1 s x) \<noteq> []"
  proof
    assume "sc_stack (step1 s x) = []"
    from endTop_run[OF stack_emptied[OF Cons.prems(1) a this], of "xs @ c # ys"] Cons.prems(2,3)
    show False by simp
  qed
  show ?case
  proof (cases q)
    case (Cons a q')
    with Cons.IH[OF ne, of q'] Cons.prems show ?thesis by simp
  qed (use Cons.prems in simp)
qed simp

lemma alive_srunD: "alive (srun s (xs @ ys)) \<Longrightarrow> alive (srun s xs)"
  using srun_dead by auto

text \<open>The state after the opening bracket of an array.\<close>

definition after_open :: scanner where
  "after_open = \<lparr>sc_step = BeginValueOrEmpty, sc_stack = [ParseArrayValue], sc_endTop = False\<rparr>"

lemma step1_init_lbrack: "step1 scanner_init LBRACK = after_open"
  by (simp add: scanner_init_def after_open_def scan_step_def stateBeginValue_def isSpace_def
      pushParseState_def maxNestingDepth_def)

lemma split_rel_init: "split_rel [] after_open split_init"
  by (simp add: split_rel_def after_open_def split_init_def alive_def in_string_def in_escape_def)

lemma in_string_space: "in_string s \<Longrightarrow> sc_endTop (step1 s SPACE) = sc_endTop s"
  by (cases "sc_step s")
    (simp_all add: in_string_def scan_step_def stateInString_def stateInStringEsc_def expect_def
      scan_error_def char_class_defs)

lemma array_closed:
  assumes "scan_eof_ok (step1 s RBRACK)" "sc_stack s \<noteq> []" "\<not> sc_endTop s"
  shows "\<not> in_string s" "length (sc_stack s) = 1"
proof -
  have a: "alive (step1 s RBRACK)" using assms(1) eof_ok_alive by blast
  show ns: "\<not> in_string s"
  proof
    assume i: "in_string s"
    let ?s = "step1 s RBRACK"
    have i': "in_string ?s" "\<not> sc_endTop ?s"
      using step1_in_string[OF i a] assms(3) by (simp_all split: if_splits)
    have "\<not> sc_endTop (step1 ?s SPACE)"
      using in_string_space[OF i'(1)] i'(2) by simp
    with assms(1) i' show False by (auto simp: scan_eof_ok_def split: if_splits)
  qed
  from step1_rbrack[OF ns a] obtain rest where r: "sc_stack s = ParseArrayValue # rest"
    and st: "step1 s RBRACK = popParseState s" by blast
  have "rest = []"
  proof (rule ccontr)
    assume "rest \<noteq> []"
    then obtain q rs where "rest = q # rs" by (cases rest) auto
    with st r assms(3) have "\<not> scan_eof_ok (step1 s RBRACK)"
      by (simp add: popParseState_def scan_eof_ok_def scan_step_def stateEndValue_def isSpace_def)
    with assms(1) show False by simp
  qed
  with r show "length (sc_stack s) = 1" by simp
qed

lemma split_on_valid:
  assumes "Valid (LBRACK # inner @ [RBRACK])"
  shows "\<exists>es. splitBatchElements (LBRACK # inner @ [RBRACK]) = Some es \<and> (\<forall>e \<in> set es. Valid e)"
proof -
  let ?s = "srun after_open inner"
  have ok: "scan_eof_ok (step1 ?s RBRACK)"
    using assms by (simp add: Valid_srun step1_init_lbrack)
  then have a: "alive (srun after_open (inner @ RBRACK # []))"
    using eof_ok_alive by simp
  have ne: "sc_stack (srun after_open q) \<noteq> []" if "prefix q inner" for q
    using stack_stays[OF _ a _ that] by (simp add: after_open_def isSpace_def)
  have ai: "alive ?s" using alive_srunD[OF a] .
  obtain st where loop: "byte_loop (split_body inner) 0 inner split_init = Inr st"
    and rel: "split_rel inner ?s st"
    using split_follower.run[of "[]" after_open split_init inner inner, OF split_rel_init _ ai] ne
    by (auto split: sum.splits)
  have s: "sc_stack ?s \<noteq> []" "\<not> sc_endTop ?s" using rel by (simp_all add: split_rel_def)
  note cl = array_closed[OF ok s]
  have stk: "sc_stack ?s = [ParseArrayValue]"
    using cl(2) rel by (auto simp: split_rel_def length_Suc_conv)
  have aR: "alive (step1 ?s RBRACK)" using a by simp
  have base: "\<not> sp_inString st" "sp_depth st = 0" "\<forall>e \<in> set (sp_elems st). Valid e"
    using rel cl stk by (auto simp: split_rel_def)
  have "\<exists>es. split_end inner st = Some es \<and> (\<forall>e \<in> set es. Valid e)"
  proof (cases "sp_start st = -1")
    case True
    have "sc_step ?s = BeginValueOrEmpty"
      using True rel step1_rbrack[OF cl(1) aR] by (auto simp: split_rel_def split: if_splits)
    then have "sp_elems st = []" using True rel by (auto simp: split_rel_def split: if_splits)
    with True base show ?thesis by (simp add: split_end_def)
  next
    case False
    have "Valid (drop (nat (sp_start st)) inner)"
      unfolding Valid_srun
      using rel False stk by (intro framed_complete[OF _ stk cl(1) _ aR]) (auto simp: split_rel_def)
    with False base show ?thesis by (auto simp: split_end_def)
  qed
  with loop show ?thesis by (simp add: splitBatchElements_def)
qed

text \<open>
  The comment at \<open>lacksResponseID\<close> says that a batch with an element that is not an object keeps
  its reply. That holds for numbers, literals and arrays, but not for strings.
\<close>

lemma lacksResponseID_string_element:
  "lacksResponseID ''[\"x\",{}]''" "\<not> lacksResponseID ''[1,{}]''" "\<not> lacksResponseID ''[[],{}]''"
  by code_simp+

end
