(* ===== verification/BatchScan.thy ===== *)
theory BatchScan
  imports ScanProps
begin

text \<open>
  What the batch scanners of \<open>handle.go\<close> guarantee about a batch's bytes, beyond valid
  JSON: the loop bodies of \<open>splitBatchElements\<close> and \<open>approxBatchLen\<close> byte by byte,
  the invariant that the split loses no byte, and the simulation between the two loops
  which makes the cheap count exact. The properties of the scanners close the theory.
\<close>

section \<open>The loop bodies byte by byte\<close>

lemma byte_cases [case_names quote open_br close_br comma colon space plain]:
  assumes "c = QUOTE \<Longrightarrow> P" "c = LBRACK \<or> c = LBRACE \<Longrightarrow> P" "c = RBRACK \<or> c = RBRACE \<Longrightarrow> P"
    "c = COMMA \<Longrightarrow> P" "c = COLON \<Longrightarrow> P" "isSpace c \<Longrightarrow> P" "\<not> structural c \<Longrightarrow> P"
  shows P
  using assms by (auto simp: structural_def)

lemma isSpace_neq:
  assumes "isSpace c"
  shows "c \<noteq> QUOTE" "c \<noteq> LBRACK" "c \<noteq> LBRACE" "c \<noteq> RBRACK" "c \<noteq> RBRACE" "c \<noteq> COMMA" "c \<noteq> COLON"
    "c = SPACE \<or> c = TAB \<or> c = LF \<or> c = CR"
  using assms by (auto simp: isSpace_def)

lemma plain_neq:
  assumes "\<not> structural c"
  shows "c \<noteq> QUOTE" "c \<noteq> LBRACK" "c \<noteq> LBRACE" "c \<noteq> RBRACK" "c \<noteq> RBRACE" "c \<noteq> COMMA" "c \<noteq> COLON"
    "c \<noteq> SPACE" "c \<noteq> TAB" "c \<noteq> LF" "c \<noteq> CR" "\<not> isSpace c"
  using assms by (auto simp: structural_def isSpace_def)

lemma split_body_in_string:
  "sp_inString st \<Longrightarrow> split_body inner i c st =
     Inr (if sp_escaped st then st\<lparr>sp_escaped := False\<rparr>
          else if c = BSLASH then st\<lparr>sp_escaped := True\<rparr>
          else if c = QUOTE then st\<lparr>sp_inString := False\<rparr> else st)"
  by (simp add: split_body_def)

lemma split_body_quote:
  "\<not> sp_inString st \<Longrightarrow> split_body inner i QUOTE st =
     Inr (st\<lparr>sp_inString := True, sp_start := (if sp_start st = -1 then int i else sp_start st)\<rparr>)"
  by (simp add: split_body_def)

lemma split_body_open:
  "\<not> sp_inString st \<Longrightarrow> c = LBRACK \<or> c = LBRACE \<Longrightarrow> split_body inner i c st =
     Inr (st\<lparr>sp_start := (if sp_start st = -1 then int i else sp_start st),
            sp_depth := sp_depth st + 1\<rparr>)"
  by (elim disjE) (simp_all add: split_body_def)

lemma split_body_close:
  "\<not> sp_inString st \<Longrightarrow> c = RBRACK \<or> c = RBRACE \<Longrightarrow> split_body inner i c st =
     (if sp_depth st < 1 then Inl () else Inr (st\<lparr>sp_depth := sp_depth st - 1\<rparr>))"
  by (elim disjE) (simp_all add: split_body_def)

lemma split_body_comma:
  "\<not> sp_inString st \<Longrightarrow> split_body inner i COMMA st =
     (if sp_depth st = 0 then
        (if sp_start st = -1 then Inl ()
         else Inr (st\<lparr>sp_elems := sp_elems st @
                [take (i - nat (sp_start st)) (drop (nat (sp_start st)) inner)], sp_start := -1\<rparr>))
      else Inr st)"
  by (simp add: split_body_def)

lemma split_body_space:
  "\<not> sp_inString st \<Longrightarrow> isSpace c \<Longrightarrow> split_body inner i c st = Inr st"
  by (simp add: split_body_def isSpace_neq isSpace_def [symmetric])

lemma split_body_plain:
  "\<not> sp_inString st \<Longrightarrow> c = COLON \<or> \<not> structural c \<Longrightarrow> split_body inner i c st =
     Inr (st\<lparr>sp_start := (if sp_start st = -1 then int i else sp_start st)\<rparr>)"
  by (elim disjE) (simp_all add: split_body_def plain_neq)

lemma approx_body_in_string:
  "ap_inString a \<Longrightarrow> approx_body limit i c a =
     Inr (if ap_escaped a then a\<lparr>ap_escaped := False\<rparr>
          else if c = BSLASH then a\<lparr>ap_escaped := True\<rparr>
          else if c = QUOTE then a\<lparr>ap_inString := False\<rparr> else a)"
  by (simp add: approx_body_def)

lemma approx_body_quote:
  "\<not> ap_inString a \<Longrightarrow> approx_body limit i QUOTE a =
     Inr (a\<lparr>ap_inString := True, ap_seen := (ap_depth a = 1 \<or> ap_seen a)\<rparr>)"
  by (simp add: approx_body_def)

lemma approx_body_open:
  "\<not> ap_inString a \<Longrightarrow> c = LBRACK \<or> c = LBRACE \<Longrightarrow> approx_body limit i c a =
     Inr (a\<lparr>ap_seen := (ap_depth a = 1 \<or> ap_seen a), ap_depth := ap_depth a + 1\<rparr>)"
  by (elim disjE) (simp_all add: approx_body_def)

lemma approx_body_close:
  "\<not> ap_inString a \<Longrightarrow> c = RBRACK \<or> c = RBRACE \<Longrightarrow> approx_body limit i c a =
     Inr (a\<lparr>ap_depth := ap_depth a - 1\<rparr>)"
  by (elim disjE) (simp_all add: approx_body_def)

lemma approx_body_comma:
  "\<not> ap_inString a \<Longrightarrow> approx_body limit i COMMA a =
     (if ap_depth a = 1 then
        (if ap_count a + 2 > limit then Inl (ap_count a + 2) else Inr (a\<lparr>ap_count := ap_count a + 1\<rparr>))
      else Inr a)"
  by (simp add: approx_body_def)

lemma approx_body_space:
  "\<not> ap_inString a \<Longrightarrow> isSpace c \<Longrightarrow> approx_body limit i c a = Inr a"
  by (simp add: approx_body_def isSpace_neq isSpace_def [symmetric])

lemma approx_body_plain:
  "\<not> ap_inString a \<Longrightarrow> c = COLON \<or> \<not> structural c \<Longrightarrow> approx_body limit i c a =
     Inr (a\<lparr>ap_seen := (ap_depth a = 1 \<or> ap_seen a)\<rparr>)"
  by (elim disjE) (simp_all add: approx_body_def plain_neq)

lemmas split_body_rules = split_body_in_string split_body_quote split_body_open split_body_close
  split_body_comma split_body_space split_body_plain

lemmas approx_body_rules = approx_body_in_string approx_body_quote approx_body_open
  approx_body_close approx_body_comma approx_body_space approx_body_plain

lemma split_body_effect:
  assumes "split_body inner i c st = Inr st'"
  obtains (cut) "c = COMMA" "\<not> sp_inString st" "sp_depth st = 0" "sp_start st \<noteq> -1"
      "st' = st\<lparr>sp_elems := sp_elems st @
                [take (i - nat (sp_start st)) (drop (nat (sp_start st)) inner)], sp_start := -1\<rparr>"
  | (keep) "sp_elems st' = sp_elems st" "sp_start st' = sp_start st"
      "sp_inString st \<or> sp_start st \<noteq> -1 \<or> isSpace c \<or> sp_depth st \<noteq> 0"
      "sp_start st = -1 \<longrightarrow> sp_depth st' \<le> sp_depth st" "0 \<le> sp_depth st \<longrightarrow> 0 \<le> sp_depth st'" "sp_inString st' \<longrightarrow> sp_inString st \<or> sp_start st \<noteq> -1"
  | (start) "sp_elems st' = sp_elems st" "sp_start st = -1" "sp_start st' = int i" "\<not> isSpace c"
      "\<not> sp_inString st" "0 \<le> sp_depth st \<longrightarrow> 0 \<le> sp_depth st'"
proof (cases "sp_inString st")
  case True
  then show ?thesis using assms by (intro keep) (auto simp: split_body_in_string split: if_splits)
next
  case False
  note r = split_body_rules(2-)[OF False]
  have quiet: thesis
    if "split_body inner i c st = Inr (f (st\<lparr>sp_start := (if sp_start st = -1 then int i else sp_start st)\<rparr>))"
      "\<not> isSpace c" "\<And>s. sp_elems (f s) = sp_elems s \<and> sp_start (f s) = sp_start s"
      "\<And>s. 0 \<le> sp_depth s \<Longrightarrow> 0 \<le> sp_depth (f s)" "\<And>s. \<not> sp_inString s \<Longrightarrow> sp_inString (f s) \<Longrightarrow> c = QUOTE" for f
  proof (cases "sp_start st = -1")
    case True
    then show ?thesis using that False assms by (intro start) auto
  next
    case nn: False
    then show ?thesis using that False assms by (intro keep) auto
  qed
  show ?thesis
  proof (cases c rule: byte_cases)
    case quote
    show ?thesis
      by (rule quiet[of "\<lambda>s. s\<lparr>sp_inString := True\<rparr>"]) (auto simp: quote r(1) isSpace_def)
  next
    case open_br
    show ?thesis
      by (rule quiet[of "\<lambda>s. s\<lparr>sp_depth := sp_depth s + 1\<rparr>"])
        (use open_br in \<open>auto simp: r(2) isSpace_def\<close>)
  next
    case close_br
    have "\<not> sp_depth st < 1" "st' = st\<lparr>sp_depth := sp_depth st - 1\<rparr>"
      using assms r(3)[OF close_br] by (simp_all split: if_splits)
    with False show ?thesis by (intro keep) auto
  next
    case comma
    with assms r(4) False show ?thesis
      by (cases "sp_depth st = 0 \<and> sp_start st \<noteq> -1") (auto intro: cut keep split: if_splits)
  next
    case colon
    show ?thesis by (rule quiet[of id]) (use colon in \<open>auto simp: r(6) isSpace_def\<close>)
  next
    case space
    with assms r(5) False show ?thesis by (intro keep) auto
  next
    case plain
    show ?thesis by (rule quiet[of id]) (use plain plain_neq(12)[OF plain] in \<open>auto simp: r(6)\<close>)
  qed
qed

section \<open>splitBatchElements loses nothing\<close>

definition blank :: "bytes \<Rightarrow> bool" where
  "blank w \<longleftrightarrow> list_all isSpace w"

lemma blank_simps [simp]: "blank []" "blank (w @ v) \<longleftrightarrow> blank w \<and> blank v" "blank (c # w) \<longleftrightarrow> isSpace c \<and> blank w"
  by (simp_all add: blank_def)

text \<open>The elements put back between the commas, each after the blanks that were skipped.\<close>

fun weave :: "(bytes \<times> bytes) list \<Rightarrow> bytes" where
  "weave [] = []"
| "weave [(w, e)] = w @ e"
| "weave ((w, e) # x # xs) = w @ e @ [COMMA] @ weave (x # xs)"

definition weave_open :: "(bytes \<times> bytes) list \<Rightarrow> bytes" where
  "weave_open xs = concat (map (\<lambda>(w, e). w @ e @ [COMMA]) xs)"

lemma weave_snoc: "weave (xs @ [(w, e)]) = weave_open xs @ w @ e"
proof (induction xs)
  case (Cons x xs)
  then show ?case by (cases x; cases xs) (auto simp: weave_open_def)
qed (simp add: weave_open_def)

lemma weave_open_snoc [simp]: "weave_open (xs @ [(w, e)]) = weave_open xs @ w @ e @ [COMMA]"
  by (simp add: weave_open_def)

definition started :: "bytes \<Rightarrow> bytes \<Rightarrow> bytes \<Rightarrow> split_st \<Rightarrow> bool" where
  "started pre w p st \<longleftrightarrow> blank w \<and>
     (if sp_start st = -1 then p = pre @ w
      else \<exists>c e. p = pre @ w @ c # e \<and> sp_start st = int (length (pre @ w)) \<and> \<not> isSpace c)"

definition split_inv :: "bytes \<Rightarrow> split_st \<Rightarrow> bool" where
  "split_inv p st \<longleftrightarrow> 0 \<le> sp_depth st \<and> (sp_inString st \<or> 0 < sp_depth st \<longrightarrow> sp_start st \<noteq> -1) \<and>
     (\<exists>xs w. map snd xs = sp_elems st \<and> (\<forall>x \<in> set xs. blank (fst x) \<and> snd x \<noteq> [] \<and> \<not> isSpace (hd (snd x)))
        \<and> started (weave_open xs) w p st) "

lemma started_keep:
  assumes "started pre w p st" "sp_start st' = sp_start st" "sp_start st \<noteq> -1 \<or> isSpace c"
  shows "started pre (if sp_start st = -1 then w @ [c] else w) (p @ [c]) st'"
  using assms by (auto simp: started_def)

lemma split_inv_step:
  assumes "split_inv p st" "prefix (p @ [c]) inner" "split_body inner (length p) c st = Inr st'"
  shows "split_inv (p @ [c]) st'"
proof -
  from assms(1) obtain xs w where xs: "map snd xs = sp_elems st"
     "\<forall>x \<in> set xs. blank (fst x) \<and> snd x \<noteq> [] \<and> \<not> isSpace (hd (snd x))"
     and st: "started (weave_open xs) w p st" and i: "0 \<le> sp_depth st"
       "sp_inString st \<or> 0 < sp_depth st \<longrightarrow> sp_start st \<noteq> -1"
    by (auto simp: split_inv_def)
  from assms(3) show ?thesis
  proof (cases rule: split_body_effect)
    case keep
    have "started (weave_open xs) (if sp_start st = -1 then w @ [c] else w) (p @ [c]) st'"
      using st keep(2) by (rule started_keep) (use keep(3) i in auto)
    moreover have "0 \<le> sp_depth st'" "sp_inString st' \<or> 0 < sp_depth st' \<longrightarrow> sp_start st' \<noteq> -1"
      using keep(2,4-6) i by auto
    ultimately show ?thesis using xs keep(1) unfolding split_inv_def by auto
  next
    case start
    have "started (weave_open xs) w (p @ [c]) st'"
      using st start by (auto simp: started_def)
    with start xs i show ?thesis unfolding split_inv_def by auto
  next
    case cut
    from st cut(4) obtain d e where p: "p = weave_open xs @ w @ d # e" and d: "\<not> isSpace d"
      and s: "sp_start st = int (length (weave_open xs @ w))" and w: "blank w"
      by (auto simp: started_def)
    have ns: "nat (sp_start st) = length (weave_open xs @ w)" using s by simp
    have "take (length p - nat (sp_start st)) (drop (nat (sp_start st)) inner) = d # e"
      using assms(2) unfolding ns by (auto simp: prefix_def p)
    with cut(5) have el: "sp_elems st' = sp_elems st @ [d # e]" "sp_start st' = -1"
      "sp_depth st' = 0" "\<not> sp_inString st'"
      using cut(2,3) by simp_all
    have "started (weave_open (xs @ [(w, d # e)])) [] (p @ [c]) st'"
      using cut(1) el p by (simp add: started_def)
    moreover have "map snd (xs @ [(w, d # e)]) = sp_elems st'" using xs el by simp
    ultimately show ?thesis
      using xs(2) w d el unfolding split_inv_def
      by (intro conjI exI[of _ "xs @ [(w, d # e)]"] exI[of _ "[]"]) auto
  qed
qed

lemma split_inv_init: "split_inv [] split_init"
  by (auto simp: split_inv_def split_init_def started_def weave_open_def intro!: exI[of _ "[]"])

lemma split_weave:
  assumes "splitBatchElements (LBRACK # inner @ [RBRACK]) = Some es"
  shows "\<exists>ws. length ws = length es \<and> (\<forall>w \<in> set ws. blank w) \<and>
     (if es = [] then blank inner else inner = weave (zip ws es)) \<and>
     (\<forall>e \<in> set es. e \<noteq> [] \<and> \<not> isSpace (hd e))"
proof -
  from assms obtain st where loop: "byte_loop (split_body inner) 0 inner split_init = Inr st"
    and fin: "split_end inner st = Some es"
    by (auto simp: splitBatchElements_def split: sum.splits)
  have "split_inv ([] @ inner) st"
    by (rule byte_loop_invariant[of split_inv inner "split_body inner", OF split_inv_step split_inv_init])
      (use loop in auto)
  then obtain xs w where xs: "map snd xs = sp_elems st"
     "\<forall>x \<in> set xs. blank (fst x) \<and> snd x \<noteq> [] \<and> \<not> isSpace (hd (snd x))"
     and st: "started (weave_open xs) w inner st"
    by (auto simp: split_inv_def)
  show ?thesis
  proof (cases "sp_start st = -1")
    case True
    with fin have "es = []" "sp_elems st = []" by (auto simp: split_end_def split: if_splits)
    with xs st True show ?thesis by (auto simp: started_def weave_open_def)
  next
    case False
    with st obtain d e where p: "inner = weave_open xs @ w @ d # e" "\<not> isSpace d" "blank w"
      and s: "sp_start st = int (length (weave_open xs @ w))"
      by (auto simp: started_def)
    have es: "es = map snd xs @ [d # e]"
      using fin False xs(1) p(1) s by (auto simp: split_end_def split: if_splits)
    have z: "zip (map fst xs @ [w]) es = xs @ [(w, d # e)]"
      by (simp add: es zip_map_fst_snd)
    show ?thesis
      using es z p xs(2)
      by (intro exI[of _ "map fst xs @ [w]"]) (auto simp: weave_snoc)
  qed
qed

section \<open>approxBatchLen counts what splitBatchElements splits\<close>

definition approx_rel :: "split_st \<Rightarrow> approx_st \<Rightarrow> bool" where
  "approx_rel st a \<longleftrightarrow> ap_depth a = sp_depth st + 1 \<and> 0 \<le> sp_depth st \<and>
     ap_inString a = sp_inString st \<and> ap_escaped a = sp_escaped st \<and>
     ap_count a = int (length (sp_elems st)) \<and> (sp_start st = -1 \<or> 0 \<le> sp_start st) \<and>
     (ap_seen a \<longleftrightarrow> sp_start st \<noteq> -1 \<or> sp_elems st \<noteq> []) \<and>
     (sp_inString st \<longrightarrow> sp_start st \<noteq> -1) \<and> (0 < sp_depth st \<longrightarrow> sp_start st \<noteq> -1)"

lemma split_elems_mono:
  assumes "byte_loop (split_body inner) i xs st = Inr st'"
  shows "length (sp_elems st) \<le> length (sp_elems st')"
  using assms
proof (induction xs arbitrary: i st)
  case (Cons c cs)
  then obtain st1 where st1: "split_body inner i c st = Inr st1"
    and rest: "byte_loop (split_body inner) (Suc i) cs st1 = Inr st'"
    by (auto split: sum.splits)
  have "length (sp_elems st) \<le> length (sp_elems st1)"
    using st1 by (auto simp: split_body_def split: if_splits)
  with Cons.IH[OF rest] show ?case by simp
qed simp

lemma approx_step:
  assumes "approx_rel st a" "split_body inner i c st = Inr st'" "int (length (sp_elems st)) < limit"
  shows "case approx_body limit j c a of
     Inl n \<Rightarrow> n = limit + 1 \<and> length (sp_elems st') = length (sp_elems st) + 1 \<and>
       limit = int (length (sp_elems st'))
   | Inr a' \<Rightarrow> approx_rel st' a' \<and> int (length (sp_elems st')) < limit"
proof (cases "sp_inString st")
  case True
  note t = this
  have ap: "ap_inString a" using t assms(1) by (simp add: approx_rel_def)
  have st': "st' = (if sp_escaped st then st\<lparr>sp_escaped := False\<rparr>
          else if c = BSLASH then st\<lparr>sp_escaped := True\<rparr>
          else if c = QUOTE then st\<lparr>sp_inString := False\<rparr> else st)"
    using assms(2) by (simp add: split_body_in_string[OF t])
  have "approx_rel st' (if ap_escaped a then a\<lparr>ap_escaped := False\<rparr>
          else if c = BSLASH then a\<lparr>ap_escaped := True\<rparr>
          else if c = QUOTE then a\<lparr>ap_inString := False\<rparr> else a)"
    using assms(1) t unfolding st' by (auto simp: approx_rel_def)
  moreover have "sp_elems st' = sp_elems st" unfolding st' by simp
  ultimately show ?thesis
    using assms(3) unfolding approx_body_in_string[OF ap] by simp
next
  case nis: False
  note r = split_body_rules(2-)[OF nis]
  have "\<not> ap_inString a" using nis assms(1) by (simp add: approx_rel_def)
  note ra = approx_body_rules(2-)[OF this]
  show ?thesis
  proof (cases c rule: byte_cases)
    case quote
    have st': "st' = st\<lparr>sp_inString := True, sp_start := (if sp_start st = -1 then int i else sp_start st)\<rparr>"
      using assms(2) by (simp add: quote r(1) split: if_splits)
    show ?thesis
      using assms(1,3) unfolding quote ra(1) st' by (auto simp: approx_rel_def)
  next
    case open_br
    have st': "st' = st\<lparr>sp_start := (if sp_start st = -1 then int i else sp_start st), sp_depth := sp_depth st + 1\<rparr>"
      using assms(2) by (simp add: r(2)[OF open_br] split: if_splits)
    show ?thesis
      using assms(1,3) unfolding ra(2)[OF open_br] st' by (auto simp: approx_rel_def)
  next
    case close_br
    have st': "st' = st\<lparr>sp_depth := sp_depth st - 1\<rparr>" "1 \<le> sp_depth st"
      using assms(2) by (simp_all add: r(3)[OF close_br] split: if_splits)
    show ?thesis
      using assms(1,3) st'(2) unfolding ra(3)[OF close_br] st'(1) by (auto simp: approx_rel_def)
  next
    case comma
    show ?thesis
    proof (cases "sp_depth st = 0")
      case True
      have st': "st' = st\<lparr>sp_elems := sp_elems st @
                [take (i - nat (sp_start st)) (drop (nat (sp_start st)) inner)], sp_start := -1\<rparr>"
        using assms(2) True by (simp add: comma r(4) split: if_splits)
      have "sp_start st \<noteq> -1" using assms(2) True by (simp add: comma r(4) split: if_splits)
      then show ?thesis
        using assms(1,3) True nis unfolding comma ra(4) st' by (auto simp: approx_rel_def)
    next
      case False
      then have "st' = st" using assms(2) by (simp add: comma r(4))
      with assms(1,3) False show ?thesis unfolding comma ra(4) by (auto simp: approx_rel_def)
    qed
  next
    case colon
    then have pl: "c = COLON \<or> \<not> structural c" by simp
    have st': "st' = st\<lparr>sp_start := (if sp_start st = -1 then int i else sp_start st)\<rparr>"
      using assms(2) by (simp add: r(6)[OF pl] split: if_splits)
    show ?thesis
      using assms(1,3) unfolding ra(6)[OF pl] st' by (auto simp: approx_rel_def)
  next
    case space
    have "st' = st" using assms(2) by (simp add: r(5)[OF space])
    with assms(1,3) show ?thesis unfolding ra(5)[OF space] by simp
  next
    case plain
    then have pl: "c = COLON \<or> \<not> structural c" by simp
    have st': "st' = st\<lparr>sp_start := (if sp_start st = -1 then int i else sp_start st)\<rparr>"
      using assms(2) by (simp add: r(6)[OF pl] split: if_splits)
    show ?thesis
      using assms(1,3) unfolding ra(6)[OF pl] st' by (auto simp: approx_rel_def)
  qed
qed

lemma approx_loop:
  assumes "approx_rel st a" "byte_loop (split_body inner) i xs st = Inr st'"
    "int (length (sp_elems st)) < limit"
  shows "case byte_loop (approx_body limit) j xs a of
     Inl n \<Rightarrow> n = limit + 1 \<and> limit \<le> int (length (sp_elems st'))
   | Inr a' \<Rightarrow> approx_rel st' a' \<and> int (length (sp_elems st')) < limit"
  using assms
proof (induction xs arbitrary: i j st a)
  case (Cons c cs)
  then obtain st1 where st1: "split_body inner i c st = Inr st1"
    and rest: "byte_loop (split_body inner) (Suc i) cs st1 = Inr st'"
    by (auto split: sum.splits)
  note step = approx_step[OF Cons.prems(1) st1 Cons.prems(3), of j]
  show ?case
  proof (cases "approx_body limit j c a")
    case (Inl n)
    with step split_elems_mono[OF rest] show ?thesis by simp
  next
    case (Inr a1)
    with step have "approx_rel st1 a1" "int (length (sp_elems st1)) < limit" by simp_all
    from Cons.IH[OF this(1) rest this(2), of "Suc j"] Inr show ?thesis by simp
  qed
qed simp

lemma approx_counts:
  assumes "splitBatchElements (LBRACK # inner @ [RBRACK]) = Some es" "1 \<le> limit"
  shows "approxBatchLen (LBRACK # inner @ [RBRACK]) limit = min (int (length es)) (limit + 1)"
proof -
  from assms(1) obtain st where loop: "byte_loop (split_body inner) 0 inner split_init = Inr st"
    and fin: "split_end inner st = Some es"
    by (auto simp: splitBatchElements_def split: sum.splits)
  let ?a = "approx_init\<lparr>ap_depth := 1\<rparr>"
  have open_step: "approx_body limit 0 LBRACK approx_init = Inr ?a"
    by (simp add: approx_body_def approx_init_def)
  have "approx_rel split_init ?a" by (simp add: approx_rel_def split_init_def approx_init_def)
  from approx_loop[OF this loop, of limit 1] assms(2)
  have sim: "case byte_loop (approx_body limit) 1 inner ?a of
     Inl n \<Rightarrow> n = limit + 1 \<and> limit \<le> int (length (sp_elems st))
   | Inr a' \<Rightarrow> approx_rel st a' \<and> int (length (sp_elems st)) < limit"
    by (simp add: split_init_def)
  show ?thesis
  proof (cases "byte_loop (approx_body limit) 1 inner ?a")
    case (Inl n)
    with sim have n: "n = limit + 1" "limit \<le> int (length (sp_elems st))" by simp_all
    with assms(2) fin have "length es = length (sp_elems st) + 1"
      by (auto simp: split_end_def split: if_splits)
    with n Inl open_step show ?thesis
      by (simp add: approxBatchLen_def byte_loop_append)
  next
    case (Inr a)
    with sim have a: "approx_rel st a" "int (length (sp_elems st)) < limit" by simp_all
    have "\<not> ap_inString a" using a(1) fin by (auto simp: approx_rel_def split_end_def split: if_splits)
    then have "approx_body limit j RBRACK a = Inr (a\<lparr>ap_depth := ap_depth a - 1\<rparr>)" for j
      by (simp add: approx_body_def)
    with Inr open_step a fin show ?thesis
      by (auto simp add: approxBatchLen_def byte_loop_append approx_rel_def split_end_def split: if_splits)
  qed
qed


section \<open>Properties of the batch scanners\<close>

lemma bracketed:
  assumes "2 \<le> length data" "hd data = x" "last data = y"
  shows "data = x # butlast (tl data) @ [y]"
  using butlast_tl_last[OF assms(1)] assms(2,3) by simp

text \<open>
  C17: a payload that is valid JSON and is bracketed like an array is never rejected by
  \<open>splitBatchElements\<close>, and every element it cuts out is valid JSON by itself, so a
  batch is decoded entry by entry without a spurious parse error.
\<close>

theorem splitBatchElements_valid_array:
  assumes "Valid data" "2 \<le> length data" "hd data = LBRACK" "last data = RBRACK"
  shows "\<exists>es. splitBatchElements data = Some es \<and> (\<forall>e \<in> set es. Valid e)"
  using split_on_valid[of "butlast (tl data)"] bracketed[OF assms(2-4)] assms(1) by simp

theorem splitBatchElements_valid_array_witness:
  "\<exists>es. splitBatchElements ''[1, {},[2]]'' = Some es \<and> (\<forall>e \<in> set es. Valid e)"
  by (rule splitBatchElements_valid_array) (code_simp, simp_all)

text \<open>
  C23: \<open>splitBatchElements\<close> loses and invents nothing, on any bytes: when it succeeds,
  putting the elements back between commas, each after the blanks skipped before it, gives
  the array's contents; no element is empty or starts with a blank; and an empty result
  means the contents were blank.
\<close>

theorem splitBatchElements_lossless:
  assumes "splitBatchElements data = Some es" "2 \<le> length data" "hd data = LBRACK" "last data = RBRACK"
  shows "\<exists>ws. length ws = length es \<and> (\<forall>w \<in> set ws. blank w) \<and>
     (if es = [] then blank (butlast (tl data)) else butlast (tl data) = weave (zip ws es)) \<and>
     (\<forall>e \<in> set es. e \<noteq> [] \<and> \<not> isSpace (hd e))"
  using split_weave[of "butlast (tl data)" es] bracketed[OF assms(2-4)] assms(1) by simp

theorem splitBatchElements_lossless_witness:
  "\<exists>ws. length ws = length [''1'', ''{} ''] \<and> (\<forall>w \<in> set ws. blank w) \<and>
     (if [''1'', ''{} ''] = [] then blank (butlast (tl ''[1, {} ]''))
      else butlast (tl ''[1, {} ]'') = weave (zip ws [''1'', ''{} ''])) \<and>
     (\<forall>e \<in> set [''1'', ''{} '']. e \<noteq> [] \<and> \<not> isSpace (hd e))"
  by (rule splitBatchElements_lossless) (code_simp, simp_all)

text \<open>
  C22: \<open>approxBatchLen\<close> is exact: whenever the batch can be split, the cheap count is
  the number of elements, capped at one above the limit, so the size check rejects a batch
  exactly when the number of elements exceeds the limit.
\<close>

theorem approxBatchLen_exact:
  assumes "splitBatchElements data = Some es" "2 \<le> length data" "hd data = LBRACK" "last data = RBRACK"
    and "1 \<le> limit"
  shows "approxBatchLen data limit = min (int (length es)) (limit + 1)"
  using approx_counts[of "butlast (tl data)" es limit] bracketed[OF assms(2-4)] assms(1,5) by simp

theorem approxBatchLen_exact_witness:
  "approxBatchLen ''[1, {} ,3]'' 2 = min (int (length [''1'', ''{} '', ''3''])) (2 + 1)"
  by (rule approxBatchLen_exact) (code_simp, simp_all)

end
