(* ===== verification/HandleProps.thy ===== *)
theory HandleProps
  imports Handle CodecProps BatchPool BatchScan
begin

text \<open>
  What a raw message is answered with: the replies are valid JSON, notifications stay
  unanswered, the batch limit is exact, one bad entry of a batch costs only its own response,
  and one response that does not marshal is replaced without touching its siblings.
\<close>

lemma reply_simps [simp]: "reply b = Some m \<longleftrightarrow> m = \<lparr>mr_reply = Some b, mr_log = []\<rparr>"
  "silent = Some m \<longleftrightarrow> m = \<lparr>mr_reply = None, mr_log = []\<rparr>"
  by (auto simp: reply_def silent_def)

lemma logging_reply: "logging evs r = Some m \<Longrightarrow> \<exists>m'. r = Some m' \<and> mr_reply m = mr_reply m'"
  by (auto simp: logging_def)

lemma plain_string_value: "plain_key m \<Longrightarrow> Valid (QUOTE # m @ [QUOTE]) \<and> nesting (QUOTE # m @ [QUOTE]) = 0"
proof -
  assume "plain_key m"
  then have k: "keeps_string m"
    by (induction m) (auto simp: plain_key_def keeps_string_def scan_step_def stateInString_def)
  have q: "step1 scanner_init QUOTE = \<lparr>sc_step = InString, sc_stack = [], sc_endTop = False\<rparr>"
    by (simp add: scanner_init_def scan_step_def stateBeginValue_def isSpace_def)
  have c: "step1 \<lparr>sc_step = InString, sc_stack = [], sc_endTop = False\<rparr> QUOTE = \<lparr>sc_step = EndValue, sc_stack = [], sc_endTop = False\<rparr>"
    by (simp add: scan_step_def stateInString_def)
  have "scan_eof_ok \<lparr>sc_step = EndValue, sc_stack = [], sc_endTop = False\<rparr>"
    by (simp add: scan_eof_ok_def scan_step_def state_fun_defs char_class_defs)
  then show ?thesis using k q c
    by (simp add: Valid_srun nesting_def max_depth_append keeps_string_def scanner_init_def)
qed

text \<open>The shape of the pre-serialized replies.\<close>

definition fixed_reply :: "int \<Rightarrow> bytes \<Rightarrow> bytes" where
  "fixed_reply code msg = object_text [(''jsonrpc'', QUOTE # ''2.0'' @ [QUOTE]),
     (''error'', object_text [(''code'', itoa code), (''message'', QUOTE # msg @ [QUOTE])]), (''id'', ''null'')]"

lemma fixed_reply_valid: "plain_key msg \<Longrightarrow> Valid (fixed_reply code msg)"
proof -
  assume m: "plain_key msg"
  have v: "plain_key ''2.0''" "Valid ''null''" "nesting ''null'' = 0" by (code_simp)+
  have f: "fits d (QUOTE # s @ [QUOTE])" if "plain_key s" "d \<le> 10" for d s
    using plain_string_value[OF that(1)] value_fits that(2) by blast
  have "fits 1 (object_text [(''code'', itoa code), (''message'', QUOTE # msg @ [QUOTE])])"
    by (rule fits_object)
      (use f[OF m, of 2] itoa_value[of code] value_fits[of "itoa code" 2] in
        \<open>simp_all add: plain_keys maxNestingDepth_def numeral_2_eq_2\<close>)
  then show ?thesis
    unfolding fixed_reply_def using f[OF v(1), of 1] value_fits[OF v(2,3), of 1]
    by (intro Valid_object) (simp add: plain_keys)
qed

lemma resp_fixed:
  "respInternal = fixed_reply (-32603) ''internal_error''"
  "respInvalidRequest = fixed_reply (-32600) ''invalid_request_not_conforming_to_spec''"
  "respBatchTooLarge = fixed_reply (-32600) ''batch_too_large''"
  "respRequestTooLarge = fixed_reply (-32600) ''request_too_large''"
  "respParseError = fixed_reply (-32700) ''parse_error_not_well_formed''"
proof -
  have i: "itoa (-32603) = ''-32603''" "itoa (-32600) = ''-32600''" "itoa (-32700) = ''-32700''"
    by (simp_all add: itoa_def nat_digits.simps digit_def)
  show "respInternal = fixed_reply (-32603) ''internal_error''"
  "respInvalidRequest = fixed_reply (-32600) ''invalid_request_not_conforming_to_spec''"
  "respBatchTooLarge = fixed_reply (-32600) ''batch_too_large''"
  "respRequestTooLarge = fixed_reply (-32600) ''request_too_large''"
  "respParseError = fixed_reply (-32700) ''parse_error_not_well_formed''"
    by (simp_all add: fixed_reply_def i member_def respInternal_def respInvalidRequest_def
        respBatchTooLarge_def respRequestTooLarge_def respParseError_def)
qed

lemma resp_valid: "Valid respInternal" "Valid respInvalidRequest" "Valid respBatchTooLarge"
  "Valid respRequestTooLarge" "Valid respParseError"
proof -
  have "plain_key ''internal_error''" "plain_key ''invalid_request_not_conforming_to_spec''"
    "plain_key ''batch_too_large''" "plain_key ''request_too_large''" "plain_key ''parse_error_not_well_formed''"
    by (simp_all add: plain_key_def byte_val_def)
  then show "Valid respInternal" "Valid respInvalidRequest" "Valid respBatchTooLarge"
    "Valid respRequestTooLarge" "Valid respParseError"
    unfolding resp_fixed by (simp_all only: fixed_reply_valid)
qed

lemma errorForMalformed_valid: "Valid (errorForMalformed data)"
  by (simp add: errorForMalformed_def resp_valid)

section \<open>Marshaling with fallback\<close>

lemma safe_failure: "response_failure (safeInternalResponse cfg v) = None"
  by (simp add: safeInternalResponse_def response_failure_def)

lemma null_embeddable: "d \<le> 10 \<Longrightarrow> embeddable d ''null''"
proof -
  have "Valid ''null''" "nesting ''null'' = 0" by (code_simp)+
  then show "d \<le> 10 \<Longrightarrow> embeddable d ''null''" by (simp add: embeddable_def maxNestingDepth_def)
qed

lemma data_text_nil: "data_text ANil = Inr ''null''"
  by (simp add: data_text_def codec_Marshal_def id_text_def)

lemma payload_ok_error:
  assumes "embeddable (d + 1) (id_text (toID v))" "d \<le> 8"
  shows "payload_ok d (newError msg code ANil v)"
  using assms null_embeddable[of "d + 2"] by (simp add: payload_ok_def data_text_nil)

lemma payload_ok_mono: "payload_ok 1 r \<Longrightarrow> payload_ok 0 r"
  by (auto simp: payload_ok_def embeddable_def split: option.splits sum.splits)

lemma marshal_single_cases:
  assumes "jwriter_ok jw quote view"
  shows "\<exists>log. marshal_single jw cfg v resp = Some \<lparr>mr_reply = Some (response_text quote
     (if response_failure resp = None then resp else safeInternalResponse cfg (AID v))), mr_log = log\<rparr>"
  by (auto simp: marshal_single_def response_marshal[OF assms] safe_failure reply_def logging_def split: option.splits)

definition repaired :: "('e, 'v) config \<Rightarrow> response \<Rightarrow> response" where
  "repaired cfg r = (if response_failure r = None then r else safeInternalResponse cfg (AID (rs_ID r)))"

lemma replace_broken_repaired:
  assumes "jwriter_ok jw quote view"
  shows "replace_broken jw cfg rs = map (repaired cfg) rs"
  by (auto simp: replace_broken_def repaired_def response_marshal[OF assms] split: option.splits)

lemma repaired_failure: "response_failure (repaired cfg r) = None"
  by (simp add: repaired_def safe_failure)

lemma repaired_id: "rs_ID (repaired cfg r) = rs_ID r"
  by (simp add: repaired_def safeInternalResponse_def)

lemma marshal_batch_cases:
  assumes "jwriter_ok jw quote view"
  shows "\<exists>log. marshal_batch jw cfg rs =
    Some \<lparr>mr_reply = Some (array_text (map (\<lambda>r. response_text quote (repaired cfg r)) rs)), mr_log = log\<rparr>"
proof (cases "\<forall>r \<in> set rs. response_failure r = None")
  case True
  then have m: "map (\<lambda>r. response_text quote (repaired cfg r)) rs = map (response_text quote) rs"
    by (auto simp: repaired_def)
  from batch_marshal[OF assms, of rs] True
  have "BatchFullResponse_MarshalJSON jw (Some rs) = Inr (array_text (map (response_text quote) rs))" by simp
  then show ?thesis unfolding m by (simp add: marshal_batch_def reply_def)
next
  case False
  then obtain e where "BatchFullResponse_MarshalJSON jw (Some rs) = Inl e"
    using batch_marshal[OF assms, of rs] by (simp only: if_False) blast
  moreover have "BatchFullResponse_MarshalJSON jw (Some (map (repaired cfg) rs)) =
      Inr (array_text (map (response_text quote) (map (repaired cfg) rs)))"
    using batch_marshal[OF assms, of "map (repaired cfg) rs"] by (simp add: repaired_failure)
  ultimately show ?thesis
    by (simp add: marshal_batch_def replace_broken_repaired[OF assms] reply_def logging_def comp_def)
qed

section \<open>The ids of responses\<close>

text \<open>
  What user code puts into a response, its result and the data of its error, is JSON that can be
  embedded. This says nothing of the id: that one the library answers for.
\<close>

definition supplied_ok :: "nat \<Rightarrow> response \<Rightarrow> bool" where
  "supplied_ok d r \<longleftrightarrow>
     (case rs_Result r of Some m \<Rightarrow> embeddable (d + 1) (id_text m) | None \<Rightarrow> True) \<and>
     (case rs_Error r of Some e \<Rightarrow> (case data_text (er_Data e) of Inr b \<Rightarrow> embeddable (d + 2) b | Inl _ \<Rightarrow> True) | None \<Rightarrow> True)"

lemma payload_ok_iff: "payload_ok d r \<longleftrightarrow> supplied_ok d r \<and> embeddable (d + 1) (id_text (rs_ID r))"
  by (auto simp: payload_ok_def supplied_ok_def)

lemma supplied_ok_error:
  assumes "d \<le> 8" "rs_Result r = None" "map_option er_Data (rs_Error r) = Some ANil"
  shows "supplied_ok d r"
  using assms null_embeddable[of "d + 2"] by (auto simp: supplied_ok_def data_text_nil)

lemma supplied_ok_mono: "supplied_ok 1 r \<Longrightarrow> supplied_ok 0 r"
  by (auto simp: supplied_ok_def embeddable_def split: option.splits sum.splits)

text \<open>A text that begins like a string, a number or null never opens an object or an array.\<close>

definition in_scalar :: "scanner \<Rightarrow> bool" where
  "in_scalar s \<longleftrightarrow> sc_stack s = [] \<and> \<not> fresh s"

lemma in_scalar_step: "in_scalar s \<Longrightarrow> in_scalar (step1 s c)"
  by (cases "sc_step s") (auto simp: in_scalar_def fresh_def scan_step_def state_fun_defs)

lemma in_scalar_depth: "in_scalar s \<Longrightarrow> max_depth s v = 0"
  by (induction v arbitrary: s) (simp_all add: in_scalar_step, simp_all add: in_scalar_def)

lemma scalar_nesting:
  assumes "v \<noteq> []" "hd v \<in> set (QUOTE # ''-n0123456789'')"
  shows "nesting v = 0"
proof -
  obtain c cs where v: "v = c # cs" "c \<in> set (QUOTE # ''-n0123456789'')" using assms by (cases v) auto
  have "in_scalar (step1 scanner_init c)"
    using v(2) by (auto simp: in_scalar_def fresh_def scanner_init_def scan_step_def stateBeginValue_def isSpace_def isDigit19_def)
  from in_scalar_depth[OF this] show ?thesis by (simp add: nesting_def v(1) scanner_init_def)
qed

lemma null_text: "Valid ''null''" "nesting ''null'' = 0"
  by (code_simp)+

lemma valid_request_id:
  assumes "validateRequest req = None"
  shows "Valid (id_text (rq_ID req)) \<and> nesting (id_text (rq_ID req)) = 0"
proof (cases "slice_len (rq_ID req) = 0")
  case True
  then show ?thesis using null_text by (simp add: id_text_def)
next
  case False
  then have h: "hd (slice_bytes (rq_ID req)) \<in> set (QUOTE # ''-n0123456789'')" "Valid (slice_bytes (rq_ID req))"
    using assms by (simp_all only: validateRequest_def split: if_splits) simp_all
  have "slice_bytes (rq_ID req) \<noteq> []" using False by (auto simp: slice_len_def)
  from scalar_nesting[OF this h(1)] h(2) False show ?thesis by (simp add: id_text_def)
qed

lemma dispatch_id:
  assumes "dispatch env ctx cfg data now = Some d"
  shows "rs_ID (dp_resp d) = rq_ID data"
proof -
  have call: "rs_ID resp = rq_ID data" if "rpc_call cfg e t c n x (AID (rq_ID data)) = Some (resp, evs, t')" for e t c n x resp evs t'
    using that
  proof (cases rule: rpc_call_cases)
    case (error err code)
    then have "resp = fst (errorResponse cfg err code (AID (rq_ID data)))" by simp
    then show ?thesis by simp
  qed simp
  show ?thesis
    using assms call unfolding dispatch_def Let_def
    by (auto simp: case_prod_unfold split: if_splits option.splits)
qed

text \<open>
  The id of a response is JSON whatever the lexer delivered as the id of the request: a valid
  request has a scalar for its id, and of an invalid one a broken id is not echoed. What is
  echoed of an invalid request may be nested.
\<close>

lemma response_id:
  assumes "handleRPC env ctx cfg req start = Some h" "hd_resp h = Some resp"
  shows "Valid (id_text (rs_ID resp)) \<and>
    (nesting (id_text (rs_ID resp)) = 0 \<or> rs_ID resp = rq_ID req \<and> Valid (slice_bytes (rq_ID req)))"
  using assms(1)
proof (cases rule: handleRPC_cases)
  case (invalid err)
  let ?v = "if slice_len (rq_ID req) > 0 \<and> \<not> Valid (slice_bytes (rq_ID req)) then None else rq_ID req"
  have v: "rs_ID resp = ?v" using invalid(2) assms(2) by simp
  then show ?thesis using null_text by (auto simp: id_text_def slice_len_def)
next
  case (valid d)
  then have "rs_ID resp = rq_ID req" using dispatch_id[OF valid(2)] assms(2) by (auto split: if_splits)
  then show ?thesis using valid_request_id[OF valid(1)] by simp
qed

text \<open>The response to an invalid request always marshals.\<close>

lemma plain_error_data: "er_Data (public_error cfg (Some (errors_New x)) c) = ANil"
  by (auto simp: public_error_def rpc_error_of_def errors_New_def Let_def split: option.splits)

lemma failing_response_valid:
  assumes "handleRPC env ctx cfg req start = Some h" "hd_resp h = Some resp" "response_failure resp \<noteq> None"
  shows "validateRequest req = None"
  using assms(1)
proof (cases rule: handleRPC_cases)
  case (invalid err)
  then obtain x where "err = errors_New x" by (auto simp: validateRequest_def split: if_splits)
  then have "response_failure resp = None"
    using invalid(2) assms(2) plain_error_data by (auto simp: response_failure_def)
  with assms(3) show ?thesis by simp
qed

section \<open>Batches\<close>

lemma decode_entries_lengths:
  "decode_entries lx es = Some (Some (rs, failed)) \<Longrightarrow>
     length rs = length es \<and> length failed = length es \<and>
     (\<forall>i < length es. \<exists>r err. Request_UnmarshalJSON lx zero_request (es ! i) = Some (r, err) \<and>
        failed ! i = (err \<noteq> None) \<and> (err = None \<longrightarrow> rs ! i = r))"
proof (induction es arbitrary: rs failed)
  case (Cons e es)
  from Cons.prems obtain r err rs' failed' where e: "Request_UnmarshalJSON lx zero_request e = Some (r, err)"
    and d: "decode_entries lx es = Some (Some (rs', failed'))"
    and eq: "rs = (if err = None then r else zero_request) # rs'" "failed = (err \<noteq> None) # failed'"
    by (auto split: option.splits if_splits prod.splits)
  from Cons.IH[OF d] e eq show ?case by (auto simp: nth_Cons split: nat.splits)
qed simp

lemma decode_entries_valid:
  assumes "\<forall>e \<in> set es. Valid e"
  shows "decode_entries lx es \<noteq> Some None"
  using assms by (induction es) (auto split: option.splits)

lemma batch_responses:
  assumes "handleBatchRPC sched ctx cfg data pf = Some rs" "r \<in> set rs"
  shows "\<exists>i h. i < length data \<and> batch_entry sched ctx cfg data pf i = Some h \<and> hd_resp h = Some r"
proof -
  let ?e = "batch_entry sched ctx cfg data pf"
  have none: "None \<notin> set (map ?e [0..<length data])"
    and rs: "rs = List.map_filter (\<lambda>h. hd_resp (the h)) (map ?e [0..<length data])"
    using assms(1) by (auto simp: handleBatchRPC_def Let_def split: if_splits)
  from assms(2) rs obtain i where i: "i < length data" "hd_resp (the (?e i)) = Some r"
    by (auto simp: List.map_filter_def)
  have "?e i \<in> set (map ?e [0..<length data])" using i by simp
  with none obtain h where "?e i = Some h" by (metis not_None_eq)
  with i show ?thesis by auto
qed

text \<open>The requests that the lexer delivers of a message.\<close>

definition requests_of :: "'l jlexer \<Rightarrow> bytes \<Rightarrow> request set" where
  "requests_of lx data =
     {req. \<exists>e \<in> set (TrimSpace data # (case splitBatchElements (TrimSpace data) of Some es \<Rightarrow> es | None \<Rightarrow> [])).
        Request_UnmarshalJSON lx zero_request e = Some (req, None)}"

text \<open>What user code answers them with can be embedded, in whatever run.\<close>

definition payloads_ok :: "'l jlexer \<Rightarrow> 'v ctx \<Rightarrow> ('e, 'v) config \<Rightarrow> bytes \<Rightarrow> bool" where
  "payloads_ok lx ctx cfg data \<longleftrightarrow>
     (\<forall>req \<in> requests_of lx data. \<forall>env start h resp. handleRPC env ctx cfg req start = Some h \<longrightarrow>
        hd_resp h = Some resp \<longrightarrow> supplied_ok 1 resp)"

text \<open>
  An id that is an object or an array makes its request invalid, but is echoed. It must leave
  room for the levels of the response around it; ids that are not JSON are not restricted.
\<close>

definition shallow_ids :: "'l jlexer \<Rightarrow> bytes \<Rightarrow> bool" where
  "shallow_ids lx data \<longleftrightarrow>
     (\<forall>req \<in> requests_of lx data. Valid (slice_bytes (rq_ID req)) \<longrightarrow> nesting (slice_bytes (rq_ID req)) + 2 \<le> maxNestingDepth)"

lemma response_payload:
  assumes "payloads_ok lx ctx cfg data" "shallow_ids lx data" "req \<in> requests_of lx data"
    "handleRPC env ctx cfg req start = Some h" "hd_resp h = Some resp"
  shows "payload_ok 1 (repaired cfg resp)"
proof -
  have s: "supplied_ok 1 resp" using assms(1,3-5) by (auto simp: payloads_ok_def)
  have f: "supplied_ok 1 (safeInternalResponse cfg (AID (rs_ID resp)))"
    by (rule supplied_ok_error) (simp_all add: safeInternalResponse_def newError_def)
  have "nesting (id_text (rs_ID resp)) + 2 \<le> maxNestingDepth"
    using response_id[OF assms(4,5)] assms(2,3)
    by (auto simp: shallow_ids_def id_text_def maxNestingDepth_def null_text split: if_splits)
  then have "embeddable 2 (id_text (rs_ID (repaired cfg resp)))"
    using response_id[OF assms(4,5)] by (simp add: repaired_id embeddable_def)
  with s f show ?thesis by (simp add: payload_ok_iff repaired_def numeral_2_eq_2)
qed

lemma batch_payloads:
  assumes "payloads_ok lx ctx cfg data" "shallow_ids lx data"
    "splitBatchElements (TrimSpace data) = Some es" "decode_entries lx es = Some (Some (reqs, failed))"
    "handleBatchRPC sched ctx cfg reqs (Some failed) = Some rs" "r \<in> set rs"
  shows "payload_ok 1 (repaired cfg r)"
proof -
  obtain i h where i: "i < length reqs" and e: "batch_entry sched ctx cfg reqs (Some failed) i = Some h"
    and h: "hd_resp h = Some r"
    using batch_responses[OF assms(5,6)] by blast
  note d = decode_entries_lengths[OF assms(4)]
  obtain req err where u: "Request_UnmarshalJSON lx zero_request (es ! i) = Some (req, err)"
      "failed ! i = (err \<noteq> None)" "err = None \<longrightarrow> reqs ! i = req"
    using d i by metis
  show ?thesis
  proof (cases "failed ! i")
    case True
    let ?er = "errorResponse cfg (Some (errors_New ''batch entry is not a valid request object'')) InvalidRequestErrorCode ANil"
    obtain resp evs where er: "?er = (resp, evs)" by (cases ?er)
    have "r = resp" using True e h er by (auto simp: batch_entry_def case_prod_unfold Let_def split: option.splits)
    moreover have "resp = fst ?er" using er by simp
    ultimately have r: "rs_Result r = None" "rs_ID r = None"
      "rs_Error r = Some (public_error cfg (Some (errors_New ''batch entry is not a valid request object'')) InvalidRequestErrorCode)"
      by (simp_all add: toID_def)
    then have "response_failure r = None" by (simp add: response_failure_def plain_error_data)
    moreover have "supplied_ok 1 r" by (rule supplied_ok_error) (simp_all add: r plain_error_data)
    ultimately show ?thesis using null_embeddable[of 2] r(2) by (simp add: repaired_def payload_ok_iff id_text_def numeral_2_eq_2)
  next
    case False
    then have "err = None" using u(2) by simp
    with u i d have "Request_UnmarshalJSON lx zero_request (es ! i) = Some (reqs ! i, None)" "es ! i \<in> set es" by simp_all
    then have "reqs ! i \<in> requests_of lx data" using assms(3) by (auto simp: requests_of_def)
    moreover have "handleRPC (fst (sched i)) ctx cfg (reqs ! i) (snd (sched i)) = Some h"
      using e False by (simp add: batch_entry_def case_prod_unfold Let_def)
    ultimately show ?thesis using response_payload[OF assms(1,2)] h by blast
  qed
qed

section \<open>Valid replies\<close>

lemma handle_array_valid:
  assumes "jwriter_ok jw quote view" "quote_ok quote" "payloads_ok lx ctx cfg data" "shallow_ids lx data"
    "handle_array jw lx sched ctx cfg (TrimSpace data) = Some m" "mr_reply m = Some b"
  shows "Valid b"
proof (cases "splitBatchElements (TrimSpace data)")
  case None
  then show ?thesis using assms(5,6) by (auto simp: handle_array_def errorForMalformed_valid)
next
  case (Some es)
  show ?thesis
  proof (cases "\<exists>reqs failed. es \<noteq> [] \<and> decode_entries lx es = Some (Some (reqs, failed))")
    case True
    then obtain reqs failed where d: "es \<noteq> []" "decode_entries lx es = Some (Some (reqs, failed))" by blast
    then obtain rs where rs: "handleBatchRPC sched ctx cfg reqs (Some failed) = Some rs"
      and m: "(if length rs = 0 then silent else marshal_batch jw cfg rs) = Some m"
      using Some assms(5) by (auto simp: handle_array_def split: option.splits)
    then have "marshal_batch jw cfg rs = Some m" using assms(6) by (auto split: if_splits)
    then have b: "b = array_text (map (response_text quote) (map (repaired cfg) rs))"
      using marshal_batch_cases[OF assms(1), of cfg rs] assms(6) by (auto simp: comp_def)
    have "payload_ok 1 (repaired cfg r) \<and> response_failure (repaired cfg r) = None" if "r \<in> set rs" for r
      using batch_payloads[OF assms(3,4) Some d(2) rs that] repaired_failure by blast
    then show ?thesis unfolding b by (intro batch_text_valid[OF assms(2)]) auto
  next
    case False
    then show ?thesis using Some assms(5,6)
      by (auto simp: handle_array_def resp_valid split: option.splits if_splits)
  qed
qed

lemma handle_object_valid:
  assumes "jwriter_ok jw quote view" "quote_ok quote" "payloads_ok lx ctx cfg data" "shallow_ids lx data"
    "handle_object jw lx sched ctx cfg (TrimSpace data) = Some m" "mr_reply m = Some b"
  shows "Valid b"
proof (cases "\<exists>req. Request_UnmarshalJSON lx zero_request (TrimSpace data) = Some (req, None)")
  case True
  then obtain req where r: "Request_UnmarshalJSON lx zero_request (TrimSpace data) = Some (req, None)" by blast
  then have dec: "req \<in> requests_of lx data" by (auto simp: requests_of_def)
  from r assms(5,6) obtain h resp where h: "handleRPC (fst (sched 0)) ctx cfg req (snd (sched 0)) = Some h"
    "hd_resp h = Some resp" "marshal_single jw cfg (rq_ID req) resp = Some m"
    by (auto simp: handle_object_def split: option.splits)
  have v: "rs_ID resp = rq_ID req" if "response_failure resp \<noteq> None"
    using h(1)
  proof (cases rule: handleRPC_cases)
    case (valid d)
    then show ?thesis using dispatch_id[OF valid(2)] h(2) by (auto split: if_splits)
  qed (use failing_response_valid[OF h(1,2) that] in simp)
  have b: "b = response_text quote (repaired cfg resp)"
    using marshal_single_cases[OF assms(1), of cfg "rq_ID req" resp] h(3) assms(6) v
    by (cases "response_failure resp") (auto simp: repaired_def)
  have "payload_ok 0 (repaired cfg resp)"
    by (rule payload_ok_mono[OF response_payload[OF assms(3,4) dec h(1,2)]])
  then show ?thesis unfolding b by (rule response_text_valid[OF assms(2)]) (rule repaired_failure)
next
  case False
  then show ?thesis using assms(5,6)
    by (auto simp: handle_object_def errorForMalformed_valid split: option.splits)
qed


section \<open>Properties of raw messages\<close>

lemma reply_valid:
  assumes "jwriter_ok jw quote view" "quote_ok quote" "payloads_ok lx ctx cfg data" "shallow_ids lx data"
    and "HandleRPCJSONRawMessage jw lx sched ctx cfg data = Some m" "mr_reply m = Some b"
  shows "Valid b"
proof -
  consider (array) m' where "handle_array jw lx sched ctx cfg (TrimSpace data) = Some m'" "mr_reply m' = Some b"
    | (object) m' where "handle_object jw lx sched ctx cfg (TrimSpace data) = Some m'" "mr_reply m' = Some b"
    | (fixed) "b \<in> {respRequestTooLarge, respParseError, respBatchTooLarge, errorForMalformed (TrimSpace data)}"
    using assms(5,6) unfolding HandleRPCJSONRawMessage_def Let_def
    by (auto split: if_splits dest!: logging_reply)
  then show ?thesis
  proof cases
    case array
    then show ?thesis using handle_array_valid[OF assms(1-4)] by blast
  next
    case object
    then show ?thesis using handle_object_valid[OF assms(1-4)] by blast
  next
    case fixed
    then show ?thesis using resp_valid errorForMalformed_valid by auto
  qed
qed

text \<open>A reply is never empty, which is what the transports take for silence.\<close>

lemma object_text_ne: "object_text ms \<noteq> []"
  by (cases ms) simp_all

lemma reply_nonempty:
  assumes "jwriter_ok jw quote view" "HandleRPCJSONRawMessage jw lx sched ctx cfg data = Some m" "mr_reply m = Some b"
  shows "b \<noteq> []"
proof -
  have single: "mr_reply m' \<noteq> Some []" if "marshal_single jw cfg v resp = Some m'" for v resp m'
    using marshal_single_cases[OF assms(1), of cfg v resp] that object_text_ne by (auto simp: response_text_def)
  have batch: "mr_reply m' \<noteq> Some []" if "marshal_batch jw cfg rs = Some m'" for rs m'
    using marshal_batch_cases[OF assms(1), of cfg rs] that by (auto simp: array_text_def)
  have "v \<noteq> []" if "Valid v" for v
    using that by (auto simp: Valid_srun scanner_init_def scan_eof_ok_def scan_step_def state_fun_defs isSpace_def)
  note fixed = resp_valid[THEN this] errorForMalformed_valid[THEN this]
  have array: "mr_reply m' \<noteq> Some []" if "handle_array jw lx sched ctx cfg d = Some m'" for d m'
    using that fixed by (auto simp: handle_array_def dest: batch split: option.splits if_splits)
  have object: "mr_reply m' \<noteq> Some []" if "handle_object jw lx sched ctx cfg d = Some m'" for d m'
    using that fixed by (auto simp: handle_object_def dest: single split: option.splits)
  have "mr_reply m \<noteq> Some []"
    using assms(2) fixed array object unfolding HandleRPCJSONRawMessage_def Let_def
    by (auto split: if_splits dest!: logging_reply)
  with assms(3) show ?thesis by auto
qed

text \<open>Why ids are bounded: inside an object the scanner fails on a value of the greatest depth.\<close>

lemma depth_step:
  assumes "alive (step1 t c)" "length (sc_stack t) < length (sc_stack (step1 t c))"
  shows "\<not> in_string t \<and> (c = LBRACK \<or> c = LBRACE) \<and> length (sc_stack (step1 t c)) = Suc (length (sc_stack t))"
  using assms
  by (cases "sc_step t"; cases "sc_stack t")
    (auto simp: alive_def in_string_def scan_step_def state_fun_defs Let_def split: if_splits pstate.splits)

lemma nested_too_deep:
  assumes "nested B t s" "alive (srun t v)" "B \<noteq> []" "length (sc_stack t) + length B \<le> maxNestingDepth"
    "maxNestingDepth < max_depth t v + length B"
  shows "\<not> alive (srun s v)"
  using assms
proof (induction v arbitrary: t s)
  case (Cons c cs)
  have a: "alive (step1 t c)" using Cons.prems(2) srun_dead by fastforce
  show ?case
  proof (cases "length (sc_stack (step1 t c)) + length B \<le> maxNestingDepth")
    case True
    from Cons.IH[OF nested_step[OF Cons.prems(1) a Cons.prems(3) True] _ Cons.prems(3) True] Cons.prems(2,4,5)
    show ?thesis by simp
  next
    case False
    then have "length (sc_stack t) < length (sc_stack (step1 t c))" using Cons.prems(4) by linarith
    note d = depth_step[OF a this]
    have s: "sc_stack s = sc_stack t @ B" "in_string s \<longleftrightarrow> in_string t"
      using Cons.prems(1) d by (auto simp: nested_def in_string_def split: if_splits)
    have "\<not> length (sc_stack s) < maxNestingDepth" using s(1) d False by simp
    then have "\<not> alive (step1 s c)" using step1_lbrack[of s] step1_lbrace[of s] d s(2) by blast
    then show ?thesis using srun_dead by fastforce
  qed
qed simp

lemma deep_member:
  assumes "\<forall>kv \<in> set (m # ms). plain_key (fst kv) \<and> fits 1 (snd kv)" "plain_key k"
    "Valid v" "nesting v = maxNestingDepth"
  shows "\<not> Valid (object_text (m # ms @ [(k, v)]))"
proof -
  let ?B = "[ParseObjectValue]"
  have "step1 scanner_init LBRACE = \<lparr>sc_step = BeginStringOrEmpty, sc_stack = [ParseObjectKey], sc_endTop = False\<rparr>"
    by (simp add: scanner_init_def scan_step_def state_fun_defs char_class_defs Let_def maxNestingDepth_def)
  then have "after_value ?B (srun scanner_init (LBRACE # member m))"
    using member_run[of m "[]" BeginStringOrEmpty] assms(1) by simp
  from members_run[OF this, of ms] assms(1)
  have "after_value ?B (srun scanner_init (LBRACE # member m @ concat (map (\<lambda>m. COMMA # member m) ms)))" by simp
  note s = after_value_step(1)[OF this refl]
  have "srun scanner_init (LBRACE # member m @ concat (map (\<lambda>m. COMMA # member m) ms) @ COMMA # (QUOTE # k @ [QUOTE, COLON])) = at_value ?B"
    using s key_run[OF assms(2), of BeginString "[]"] by simp
  moreover have "alive (srun scanner_init v)" using assms(3) eof_ok_alive by (simp add: Valid_srun)
  then have "\<not> alive (srun (at_value ?B) v)"
    by (rule nested_too_deep[OF nested_start]) (use assms(4) in \<open>simp_all add: scanner_init_def nesting_def maxNestingDepth_def\<close>)
  ultimately have "\<not> alive (srun scanner_init (object_text (m # ms @ [(k, v)])))"
    using step1_dead by (simp add: member_def srun_append)
  then show ?thesis using eof_ok_alive by (auto simp: Valid_srun)
qed

lemma deep_id_echoed:
  assumes "quote_ok quote" "validateRequest req \<noteq> None" "rq_ID req = Some v" "Valid v" "nesting v = maxNestingDepth"
    "handleRPC env ctx cfg req start = Some h"
  shows "\<exists>resp. hd_resp h = Some resp \<and> \<not> Valid (response_text quote resp)"
  using assms(6)
proof (cases rule: handleRPC_cases)
  case (invalid err)
  let ?e = "public_error cfg (Some err) InvalidRequestErrorCode"
  from invalid obtain x where "err = errors_New x" by (auto simp: validateRequest_def split: if_splits)
  then have d: "er_Data ?e = ANil" by (simp add: plain_error_data)
  have "v \<noteq> []" using assms(4) by (auto simp: Valid_srun scanner_init_def scan_eof_ok_def scan_step_def state_fun_defs isSpace_def)
  then have r: "hd_resp h = Some (NewResponse (AID (Some v)) None (Some ?e))"
    using invalid(2) assms(3,4) by (simp add: errorResponse_public)
  have q: "fits n (quote t)" "fits n (itoa i)" if "n \<le> 10" for n t i
    using assms(1) itoa_value value_fits that by (auto simp: quote_ok_def)
  have "fits 1 (object_text (error_members quote ?e))"
    by (rule fits_object) (use d q in \<open>simp_all add: error_members_def plain_keys maxNestingDepth_def\<close>)
  then have "\<not> Valid (object_text ((''jsonrpc'', quote Version) # [(''error'', object_text (error_members quote ?e))] @ [(''id'', v)]))"
    by (intro deep_member[OF _ _ assms(4,5)]) (use q in \<open>simp_all add: plain_keys\<close>)
  moreover have "response_text quote (NewResponse (AID (Some v)) None (Some ?e)) =
     object_text ((''jsonrpc'', quote Version) # [(''error'', object_text (error_members quote ?e))] @ [(''id'', v)])"
    using \<open>v \<noteq> []\<close> by (simp add: response_text_def response_members_def id_text_def toID_def slice_len_def)
  ultimately show ?thesis using r by simp
qed (use assms(2) in simp)

text \<open>
  C1: whatever bytes come in, a reply is valid JSON (by the standard library's scanner): parse
  errors, limits, single requests, batches and both marshaling fallbacks included. Nothing is
  assumed of the ids that the lexer delivers, which may be broken tokens such as \<open>1e\<close> or \<open>-\<close>: they
  do not reach the reply. Of user code it is assumed that the results and the error data it
  answers this message with are JSON. The one condition on the message is that an id that is
  a JSON value is not nested so deeply that echoing it inside a response would exceed the
  scanner's bound of 10000 levels; \<open>deep_id_echoed\<close> shows that it is needed.
\<close>

theorem HandleRPCJSONRawMessage_reply_valid:
  assumes "jwriter_ok jw quote view" "quote_ok quote" "payloads_ok lx ctx cfg data" "shallow_ids lx data"
    and "HandleRPCJSONRawMessage jw lx sched ctx cfg data = Some m" "mr_reply m = Some b"
  shows "Valid b"
  by (rule reply_valid[OF assms])

text \<open>
  C6: at message level the notification rule reads: a single request object that decodes is
  left unanswered exactly when it is a valid request without an id.
\<close>

theorem single_message_silent_iff:
  assumes "jwriter_ok jw quote view" "HandleRPCJSONRawMessage jw lx sched ctx cfg data = Some m"
    and "\<not> (cf_maxMessageSize cfg > 0 \<and> int (length data) > cf_maxMessageSize cfg)"
    and "2 \<le> length (TrimSpace data)" "hd (TrimSpace data) = LBRACE" "last (TrimSpace data) = RBRACE"
    and "Request_UnmarshalJSON lx zero_request (TrimSpace data) = Some (req, None)"
  shows "mr_reply m = None \<longleftrightarrow> validateRequest req = None \<and> slice_len (rq_ID req) = 0"
proof -
  have len: "length (TrimSpace data) \<noteq> 0" "\<not> length (TrimSpace data) < 2" using assms(4) by linarith+
  have "handle_object jw lx sched ctx cfg (TrimSpace data) = Some m"
    using assms(2) len unfolding HandleRPCJSONRawMessage_def Let_def if_not_P[OF assms(3)]
    by (simp add: assms(5,6))
  then obtain h where h: "handleRPC (fst (sched 0)) ctx cfg req (snd (sched 0)) = Some h"
    and m: "(case hd_resp h of None \<Rightarrow> silent | Some resp \<Rightarrow> marshal_single jw cfg (rq_ID req) resp) = Some m"
    using assms(7) by (auto simp: handle_object_def split: option.splits)
  have "mr_reply m = None \<longleftrightarrow> hd_resp h = None"
    using m marshal_single_cases[OF assms(1), of cfg "rq_ID req"]
    by (cases "hd_resp h") (auto, metis message_result.select_convs(1) option.distinct(1) option.inject)
  also have "\<dots> \<longleftrightarrow> validateRequest req = None \<and> slice_len (rq_ID req) = 0"
    using h by (cases rule: handleRPC_cases) auto
  finally show ?thesis .
qed

text \<open>
  C10: the batch limit is exact and applied before anything is decoded: a batch with at most the
  configured number of elements is always executed, a larger one never is, and is answered
  with \<open>batch_too_large\<close> unless the scan for ids proves that it holds notifications only.
\<close>

theorem batch_limit_exact:
  assumes "splitBatchElements (TrimSpace data) = Some es" "0 < cf_maxBatchSize cfg"
    and "\<not> (cf_maxMessageSize cfg > 0 \<and> int (length data) > cf_maxMessageSize cfg)"
    and "2 \<le> length (TrimSpace data)" "hd (TrimSpace data) = LBRACK" "last (TrimSpace data) = RBRACK"
  shows "if int (length es) \<le> cf_maxBatchSize cfg
    then HandleRPCJSONRawMessage jw lx sched ctx cfg data = handle_array jw lx sched ctx cfg (TrimSpace data)
    else \<exists>log. HandleRPCJSONRawMessage jw lx sched ctx cfg data =
      Some \<lparr>mr_reply = (if lacksResponseID (TrimSpace data) then None else Some respBatchTooLarge), mr_log = log\<rparr>"
proof -
  have b: "TrimSpace data = LBRACK # butlast (tl (TrimSpace data)) @ [RBRACK]"
    by (rule bracketed[OF assms(4-6)])
  have lim: "1 \<le> cf_maxBatchSize cfg" using assms(2) by linarith
  have n: "approxBatchLen (TrimSpace data) (cf_maxBatchSize cfg) = min (int (length es)) (cf_maxBatchSize cfg + 1)"
    using approx_counts[of "butlast (tl (TrimSpace data))" es, OF _ lim] assms(1) b by simp
  have len: "length (TrimSpace data) \<noteq> 0" "\<not> length (TrimSpace data) < 2" using assms(4) by linarith+
  show ?thesis
    using assms(2) len unfolding HandleRPCJSONRawMessage_def Let_def if_not_P[OF assms(3)] n
    by (simp add: assms(5,6) logging_def reply_def silent_def)
qed

text \<open>
  C5: one bad entry costs a valid batch only its own response. For a payload that is a
  non-empty JSON array there is never a blanket error: the entries that do not decode to a
  request get their own error with a null id, every other entry is executed, the reply lists
  the responses in request order with the ids of the entries that must be answered, a response
  that does not marshal is replaced by an internal error with the same id, and there is no
  reply at all if nothing must be answered.
\<close>

theorem valid_batch_entries_independent:
  assumes "jwriter_ok jw quote view" "cf_errors cfg InternalErrorCode \<noteq> None"
    and "Valid data" "2 \<le> length data" "hd data = LBRACK" "last data = RBRACK"
    and "splitBatchElements data = Some es" "es \<noteq> []"
    and "handle_array jw lx sched ctx cfg data = Some m"
  shows "\<exists>reqs failed rs. decode_entries lx es = Some (Some (reqs, failed)) \<and>
    handleBatchRPC sched ctx cfg reqs (Some failed) = Some rs \<and>
    map rs_ID rs = List.map_filter (entry_reply reqs (Some failed)) [0..<length es] \<and>
    mr_reply m = (if rs = [] then None else Some (array_text (map (\<lambda>r. response_text quote
      (if response_failure r = None then r else safeInternalResponse cfg (AID (rs_ID r)))) rs)))"
proof -
  have "\<forall>e \<in> set es. Valid e"
    using split_on_valid[of "butlast (tl data)"] bracketed[OF assms(4-6)] assms(3,7) by auto
  then have nn: "decode_entries lx es \<noteq> Some None" by (rule decode_entries_valid)
  have ne: "length es \<noteq> 0" using assms(8) by simp
  obtain reqs failed rs where d: "decode_entries lx es = Some (Some (reqs, failed))"
    and b: "handleBatchRPC sched ctx cfg reqs (Some failed) = Some rs"
    and m: "(if length rs = 0 then silent else marshal_batch jw cfg rs) = Some m"
    using assms(7,9) nn ne by (auto simp: handle_array_def split: option.splits)
  have ids: "map rs_ID rs = List.map_filter (entry_reply reqs (Some failed)) [0..<length es]"
    using batch_ids[OF b assms(2)] decode_entries_lengths[OF d] by simp
  have "mr_reply m = (if rs = [] then None else Some (array_text (map (\<lambda>r. response_text quote (repaired cfg r)) rs)))"
    using m marshal_batch_cases[OF assms(1), of cfg rs] by (auto split: if_splits)
  then show ?thesis using d b ids unfolding repaired_def by blast
qed


section \<open>The sample server on raw messages\<close>

text \<open>A lexer that delivers the same request for every text.\<close>

definition sample_members :: "bytes \<Rightarrow> lexval list \<Rightarrow> (bytes \<times> lexval) list" where
  "sample_members name ids =
     [(''jsonrpc'', LStr ''2.0'' ''\"2.0\"''), (''method'', LStr name (json_string name))] @ map (Pair ''id'') ids"

definition sample_decoded :: "bytes \<Rightarrow> slice \<Rightarrow> request" where
  "sample_decoded name v = \<lparr>rq_Version = ''2.0'', rq_Method = name, rq_Params = None, rq_ID = v\<rparr>"

lemma sample_decode:
  assumes "raw_of v \<noteq> []"
  shows "Request_UnmarshalJSON (token_lexer (sample_members name [v])) zero_request e =
      Some (sample_decoded name (Some (raw_of v)), None)"
    and "Request_UnmarshalJSON (token_lexer (sample_members name [])) zero_request e =
      Some (sample_decoded name None, None)"
proof -
  have ids: "Request_UnmarshalJSON (token_lexer (sample_members name ids)) zero_request e =
      Some (request_of_members zero_request (sample_members name ids), None)"
    if "\<forall>x \<in> set ids. raw_of x \<noteq> []" for ids
  proof -
    have "lx_members (token_lexer (sample_members name ids)) (TKeys (sample_members name ids)) (sample_members name ids) (TKeys [])"
      by (rule token_lexer_members) (use that in \<open>auto simp: sample_members_def json_string_def\<close>)
    moreover have "well_typed (sample_members name ids)" by (auto simp: well_typed_def sample_members_def)
    ultimately have "object_loop (token_lexer (sample_members name ids)) (Request_field (token_lexer (sample_members name ids)))
        zero_request (TKeys (sample_members name ids)) = Some (request_of_members zero_request (sample_members name ids), TKeys [])"
      by (rule object_loop_members)
    then show ?thesis
      by (simp add: Request_UnmarshalJSON_def Request_UnmarshalEasyJSON_def decode_struct_def token_lexer_def)
  qed
  show "Request_UnmarshalJSON (token_lexer (sample_members name [v])) zero_request e =
      Some (sample_decoded name (Some (raw_of v)), None)"
    using ids[of "[v]"] assms by (simp add: sample_decoded_def request_of_members_def sample_members_def zero_request_def)
  show "Request_UnmarshalJSON (token_lexer (sample_members name [])) zero_request e =
      Some (sample_decoded name None, None)"
    using ids[of "[]"] by (simp add: sample_decoded_def request_of_members_def sample_members_def zero_request_def)
qed

definition boom_lexer :: "tlex jlexer" where "boom_lexer = token_lexer (sample_members ''boom'' [LRaw ''7''])"
definition note_lexer :: "tlex jlexer" where "note_lexer = token_lexer (sample_members ''echo'' [])"

lemma boom_decode: "Request_UnmarshalJSON boom_lexer zero_request e = Some (sample_decoded ''boom'' (Some ''7''), None)"
  using sample_decode(1)[of "LRaw ''7''" "''boom''" e] by (simp add: boom_lexer_def)

lemma note_decode: "Request_UnmarshalJSON note_lexer zero_request e = Some (sample_decoded ''echo'' None, None)"
  using sample_decode(2)[of "LRaw ''7''" "''echo''" e] by (simp add: note_lexer_def)

lemma boom_valid: "validateRequest (sample_decoded ''boom'' (Some ''7'')) = None"
  "validateRequest (sample_decoded ''echo'' None) = None"
  by (code_simp)+

lemma boom_run:
  "\<exists>h. handleRPC env sample_ctx sample (sample_decoded ''boom'' (Some ''7'')) start = Some h \<and>
     hd_resp h = Some (newError ''internal_error'' InternalErrorCode ANil (AID (Some ''7'')))"
proof -
  have e: "errorResponse sample (Some (errors_New ''secret detail'')) InternalErrorCode (AID (Some ''7'')) =
    (newError ''internal_error'' InternalErrorCode ANil (AID (Some ''7'')),
     [EvLog LevelError ''jsonrpc: error response''
       [AttrInt ''code'' InternalErrorCode, AttrErr ''error'' (errors_New ''secret detail'')]])"
    by (simp add: errorResponse_def rpc_error_of_def errors_New_def sample_simps default_errors_def code_defs
        levelForCode_def)
  have t: "\<not> start + 30 * second \<le> start + 1" by (simp add: second_def)
  have mx: "max start (start + 30 * second) = start + 30 * second" by (simp add: second_def)
  show ?thesis
    using boom_valid(1) t
    by (simp add: handleRPC_def dispatch_def rpc_call_def callGlobalInterceptors_def WithTimeoutCtx_def
        method_timeout_def ctx_Err_def observe_def observeOutcome_def sample_ctx_def sample_decoded_def
        zero_methodinfo_def Let_def sample_simps e mx)
qed

lemma boom_requests: "req \<in> requests_of boom_lexer data \<Longrightarrow> req = sample_decoded ''boom'' (Some ''7'')"
  by (auto simp: requests_of_def boom_decode split: option.splits)

lemma sample_payloads: "payloads_ok boom_lexer sample_ctx sample data"
proof -
  have "supplied_ok 1 (newError ''internal_error'' InternalErrorCode ANil (AID (Some ''7'')))"
    by (rule supplied_ok_error) (simp_all add: newError_def)
  moreover have "resp = newError ''internal_error'' InternalErrorCode ANil (AID (Some ''7''))"
    if "handleRPC env sample_ctx sample (sample_decoded ''boom'' (Some ''7'')) start = Some h" "hd_resp h = Some resp"
    for env start h resp
    using boom_run[of env start] that by auto
  ultimately show ?thesis
    unfolding payloads_ok_def by (intro ballI allI impI) (drule boom_requests, simp)
qed

lemma sample_shallow: "shallow_ids boom_lexer data"
proof -
  have "nesting ''7'' = 0" by code_simp
  then show ?thesis by (auto simp: shallow_ids_def sample_decoded_def maxNestingDepth_def dest!: boom_requests)
qed

lemma boom_message:
  "\<exists>log. HandleRPCJSONRawMessage buffer_writer boom_lexer (\<lambda>_. (sample_env, 0)) sample_ctx sample ''{}'' =
     Some \<lparr>mr_reply = Some (response_text json_string (newError ''internal_error'' InternalErrorCode ANil (AID (Some ''7'')))), mr_log = log\<rparr>"
proof -
  let ?r = "newError ''internal_error'' InternalErrorCode ANil (AID (Some ''7''))"
  obtain h where h: "handleRPC sample_env sample_ctx sample (sample_decoded ''boom'' (Some ''7'')) 0 = Some h" "hd_resp h = Some ?r"
    using boom_run by blast
  have t: "TrimSpace ''{}'' = ''{}''" by code_simp
  have f: "response_failure ?r = None" by (simp add: response_failure_def)
  have c: "cf_maxMessageSize sample = 0" by (simp add: sample_defs)
  have "HandleRPCJSONRawMessage buffer_writer boom_lexer (\<lambda>_. (sample_env, 0)) sample_ctx sample ''{}'' =
     marshal_single buffer_writer sample (Some ''7'') ?r"
    using h by (simp add: HandleRPCJSONRawMessage_def t c handle_object_def boom_decode sample_decoded_def)
  then show ?thesis using marshal_single_cases[OF buffer_writer_ok, of sample "Some ''7''" ?r] f by simp
qed

theorem single_message_silent_iff_witness:
  "\<exists>m. HandleRPCJSONRawMessage buffer_writer boom_lexer (\<lambda>_. (sample_env, 0)) sample_ctx sample ''{}'' = Some m \<and>
     (mr_reply m = None \<longleftrightarrow> validateRequest (sample_decoded ''boom'' (Some ''7'')) = None \<and>
        slice_len (rq_ID (sample_decoded ''boom'' (Some ''7''))) = 0)"
proof -
  obtain m where m: "HandleRPCJSONRawMessage buffer_writer boom_lexer (\<lambda>_. (sample_env, 0)) sample_ctx sample ''{}'' = Some m"
    using boom_message by blast
  have t: "TrimSpace ''{}'' = ''{}''" by code_simp
  have c: "cf_maxMessageSize sample = 0" by (simp add: sample_defs)
  have "mr_reply m = None \<longleftrightarrow> validateRequest (sample_decoded ''boom'' (Some ''7'')) = None \<and>
        slice_len (rq_ID (sample_decoded ''boom'' (Some ''7''))) = 0"
    by (rule single_message_silent_iff[OF buffer_writer_ok m]) (simp_all add: t c boom_decode)
  then show ?thesis by (intro exI[of _ m] conjI m)
qed

theorem batch_limit_exact_witness:
  "\<exists>log. HandleRPCJSONRawMessage buffer_writer boom_lexer (\<lambda>_. (sample_env, 0)) sample_ctx
      (sample\<lparr>cf_maxBatchSize := 2\<rparr>) ''[1, {} ,3]'' =
    Some \<lparr>mr_reply = (if lacksResponseID (TrimSpace ''[1, {} ,3]'') then None else Some respBatchTooLarge), mr_log = log\<rparr>"
proof -
  have t: "TrimSpace ''[1, {} ,3]'' = ''[1, {} ,3]''" by code_simp
  have s: "splitBatchElements (TrimSpace ''[1, {} ,3]'') = Some [''1'', ''{} '', ''3'']" by code_simp
  have c: "cf_maxMessageSize sample = 0" by (simp add: sample_defs)
  show ?thesis
    using batch_limit_exact[OF s, of "sample\<lparr>cf_maxBatchSize := 2\<rparr>" buffer_writer boom_lexer "\<lambda>_. (sample_env, 0)" sample_ctx]
    by (simp add: t c)
qed

theorem valid_batch_entries_independent_witness:
  "\<exists>m reqs failed rs. handle_array buffer_writer boom_lexer (\<lambda>_. (sample_env, 0)) sample_ctx sample ''[1]'' = Some m \<and>
     decode_entries boom_lexer [''1''] = Some (Some (reqs, failed)) \<and>
     handleBatchRPC (\<lambda>_. (sample_env, 0)) sample_ctx sample reqs (Some failed) = Some rs \<and>
     mr_reply m = (if rs = [] then None else Some (array_text (map (\<lambda>r. response_text json_string
       (if response_failure r = None then r else safeInternalResponse sample (AID (rs_ID r)))) rs)))"
proof -
  have s: "splitBatchElements ''[1]'' = Some [''1'']" "Valid ''[1]''" by (code_simp)+
  let ?q = "sample_decoded ''boom'' (Some ''7'')" and ?s = "\<lambda>_. (sample_env, 0)"
  have d: "decode_entries boom_lexer [''1''] = Some (Some ([?q], [False]))" by (simp add: boom_decode)
  obtain h where "handleRPC sample_env sample_ctx sample ?q 0 = Some h" using boom_run by blast
  then have "batch_entry ?s sample_ctx sample [?q] (Some [False]) 0 = Some h" by (simp add: batch_entry_def)
  then obtain rs where b: "handleBatchRPC ?s sample_ctx sample [?q] (Some [False]) = Some rs"
    by (simp add: handleBatchRPC_def)
  obtain m where m: "handle_array buffer_writer boom_lexer ?s sample_ctx sample ''[1]'' = Some m"
    using s(1) d b marshal_batch_cases[OF buffer_writer_ok, of sample rs]
    by (cases "rs = []") (auto simp: handle_array_def simp del: decode_entries.simps)
  have "2 \<le> length ''[1]''" "hd ''[1]'' = LBRACK" "last ''[1]'' = RBRACK" "[''1''] \<noteq> []" by simp_all
  from valid_batch_entries_independent[OF buffer_writer_ok sample_internal s(2) this(1-3) s(1) this(4) m]
  show ?thesis using m by blast
qed

end
