(* ===== verification/ErrorTexts.thy ===== *)
theory ErrorTexts
  imports HandleProps
begin

text \<open>
  The texts of errors stay inside the server. Two servers whose methods and interceptors differ
  only in what their errors and panics say, and in where that is logged, give the same replies:
  a relational statement, in the way of non-interference, over whole messages.
\<close>

section \<open>Servers that differ in the texts of their errors\<close>

text \<open>
  What a client may learn of an error: whether there is one, and of the \<open>*RPCError\<close> in its tree the
  code and the data.
\<close>

definition public_part :: "goerr option \<Rightarrow> (int \<times> goany) option option" where
  "public_part err = (case err of None \<Rightarrow> None
     | Some e \<Rightarrow> Some (map_option (\<lambda>r. (re_Code r, re_Data r)) (rpc_error_of (Some e))))"

text \<open>
  Two outcomes of user code that agree in all but the text of an error or of a panic. The result
  does not count when there is an error, nor the code when there is none.
\<close>

fun alike :: "('x \<times> int \<times> goerr option) outcome \<Rightarrow> ('x \<times> int \<times> goerr option) outcome \<Rightarrow> bool" where
  "alike Hangs Hangs = True"
| "alike (Panics p) (Panics q) = True"
| "alike (Returns (x, code, err)) (Returns (y, code', err')) =
     (public_part err = public_part err' \<and> (if err = None then x = y else code = code'))"
| "alike _ _ = False"

definition alike_method :: "('e, 'v) rpc_method \<Rightarrow> ('e, 'v) rpc_method \<Rightarrow> bool" where
  "alike_method m m' \<longleftrightarrow> (\<forall>e t ctx data. alike (fst (m e t ctx data)) (fst (m' e t ctx data)) \<and>
     snd (m e t ctx data) = snd (m' e t ctx data))"

definition alike_interceptor :: "('e, 'v) interceptor \<Rightarrow> ('e, 'v) interceptor \<Rightarrow> bool" where
  "alike_interceptor i i' \<longleftrightarrow> (\<forall>e t ctx name data v. alike (fst (i e t ctx name data v)) (fst (i' e t ctx name data v)) \<and>
     snd (i e t ctx name data v) = snd (i' e t ctx name data v))"

definition alike_servers :: "('e, 'v) config \<Rightarrow> ('e, 'v) config \<Rightarrow> bool" where
  "alike_servers cfg cfg' \<longleftrightarrow>
     (\<exists>ms is logger. cfg' = cfg\<lparr>cf_composed := ms, cf_globalInterceptors := is, cf_logger := logger\<rparr>) \<and>
     (\<forall>name. rel_option alike_method (cf_composed cfg name) (cf_composed cfg' name)) \<and>
     list_all2 alike_interceptor (cf_globalInterceptors cfg) (cf_globalInterceptors cfg')"

lemma alike_serversD:
  assumes "alike_servers cfg cfg'"
  shows "cf_errors cfg' = cf_errors cfg" "cf_methodInfo cfg' = cf_methodInfo cfg" "cf_defaultTimeOut cfg' = cf_defaultTimeOut cfg"
    "cf_enforcedTimeout cfg' = cf_enforcedTimeout cfg" "cf_observe cfg' = cf_observe cfg" "cf_maxBatchSize cfg' = cf_maxBatchSize cfg"
    "cf_maxMessageSize cfg' = cf_maxMessageSize cfg"
    "rel_option alike_method (cf_composed cfg name) (cf_composed cfg' name)"
    "list_all2 alike_interceptor (cf_globalInterceptors cfg) (cf_globalInterceptors cfg')"
  using assms by (auto simp: alike_servers_def)

section \<open>One request\<close>

lemma public_part_response:
  assumes "cf_errors cfg' = cf_errors cfg" "public_part err = public_part err'"
  shows "fst (errorResponse cfg err code v) = fst (errorResponse cfg' err' code v)"
  using assms
  by (auto simp: errorResponse_public public_error_def public_part_def rpc_error_of_def Let_def split: option.splits)

lemma alike_cases:
  assumes "alike a b"
  obtains (hang) "a = Hangs" "b = Hangs" | (panic) p q where "a = Panics p" "b = Panics q"
  | (ok) x code code' where "a = Returns (x, code, None)" "b = Returns (x, code', None)"
  | (error) x y code err err' where "a = Returns (x, code, Some err)" "b = Returns (y, code, Some err')"
      "public_part (Some err) = public_part (Some err')"
  using assms by (cases "(a, b)" rule: alike.cases) (auto simp: public_part_def split: option.splits if_splits)

lemma alike_refl: "alike x x"
proof (cases x)
  case (Returns a)
  then show ?thesis by (cases a) simp
qed simp_all

lemma alike_interceptors:
  assumes "list_all2 alike_interceptor is is'"
  shows "alike (fst (run_interceptors is e now ctx name data v)) (fst (run_interceptors is' e now ctx name data v)) \<and>
    snd (run_interceptors is e now ctx name data v) = snd (run_interceptors is' e now ctx name data v)"
  using assms
proof (induction arbitrary: now ctx rule: list_all2_induct)
  case (Cons i "is" i' is')
  obtain a d where a: "i e now ctx name data v = (a, d)" by fastforce
  moreover obtain b d' where b: "i' e now ctx name data v = (b, d')" by fastforce
  moreover have "alike (fst (i e now ctx name data v)) (fst (i' e now ctx name data v))"
    "snd (i e now ctx name data v) = snd (i' e now ctx name data v)" using Cons.hyps(1) unfolding alike_interceptor_def by blast+
  ultimately have "alike a b" "d' = d" by simp_all
  then show ?case using a b Cons.IH by (cases rule: alike_cases) simp_all
qed (simp add: public_part_def)

text \<open>A call leaves the same response at the same time.\<close>

definition outcome_of_call :: "(response \<times> event list \<times> int) option \<Rightarrow> (response \<times> int) option" where
  "outcome_of_call = map_option (\<lambda>(resp, evs, t). (resp, t))"

lemma alike_call:
  assumes "alike_servers cfg cfg'"
  shows "outcome_of_call (rpc_call cfg e now ctx name data v) = outcome_of_call (rpc_call cfg' e now ctx name data v)"
proof -
  note c = alike_serversD[OF assms]
  have fail: "outcome_of_call (let (resp, evs) = errorResponse cfg err code v in Some (resp, evs, t)) =
      outcome_of_call (let (resp, evs) = errorResponse cfg' err' code v in Some (resp, evs, t))"
    if "public_part err = public_part err'" for err err' code t
    using public_part_response[OF c(1) that, of code v] by (simp add: outcome_of_call_def case_prod_unfold Let_def)
  have msg: "public_part (Some (errors_New p)) = public_part (Some (errors_New q))" for p q
    by (simp add: public_part_def rpc_error_of_def errors_New_def)
  have none: "outcome_of_call None = None" "outcome_of_call (Some (r, evs, t)) = Some (r, t)" for r evs t
    by (simp_all add: outcome_of_call_def)
  obtain a t where a: "callGlobalInterceptors cfg e now ctx name data v = (a, t)" by fastforce
  obtain b t' where b: "callGlobalInterceptors cfg' e now ctx name data v = (b, t')" by fastforce
  have ab: "alike a b" "t' = t"
    using alike_interceptors[OF c(9), of e now ctx name data v] a b by (simp_all add: callGlobalInterceptors_def)
  from ab(1) show ?thesis
  proof (cases rule: alike_cases)
    case (ok ctx' code code')
    show ?thesis
    proof (cases "cf_composed cfg name")
      case None
      with c(8)[of name] have n: "cf_composed cfg' name = None" by simp
      show ?thesis using fail[of None None MethodNotFoundErrorCode t] by (simp add: rpc_call_def a b ok ab(2) None n)
    next
      case (Some m)
      with c(8)[of name] obtain m' where m': "cf_composed cfg' name = Some m'" "alike_method m m'" by (auto simp: option_rel_Some1)
      obtain x d where x: "m e t ctx' data = (x, d)" by fastforce
      obtain y d' where y: "m' e t ctx' data = (y, d')" by fastforce
      have "alike (fst (m e t ctx' data)) (fst (m' e t ctx' data))" "snd (m e t ctx' data) = snd (m' e t ctx' data)"
        using m'(2) unfolding alike_method_def by blast+
      with x y have "alike x y" "d' = d" by simp_all
      from \<open>alike x y\<close> show ?thesis
      proof (cases rule: alike_cases)
        case (panic p q)
        with fail[OF msg] show ?thesis by (simp add: rpc_call_def a b ok ab(2) Some m'(1) x y \<open>d' = d\<close>)
      next
        case (error _ _ _ err err')
        with fail[OF error(3)] show ?thesis by (simp add: rpc_call_def a b ok ab(2) Some m'(1) x y \<open>d' = d\<close>)
      qed (simp_all add: rpc_call_def a b ok ab(2) Some m'(1) x y \<open>d' = d\<close> none)
    qed
  next
    case (panic p q)
    with fail[OF msg] show ?thesis by (simp add: rpc_call_def a b ab(2))
  next
    case (error _ _ _ err err')
    with fail[OF error(3)] show ?thesis by (simp add: rpc_call_def a b ab(2))
  qed (simp add: rpc_call_def a b)
qed

lemma alike_dispatch:
  assumes "alike_servers cfg cfg'"
  shows "map_option (\<lambda>d. (dp_resp d, dp_time d)) (dispatch env ctx cfg data now) =
    map_option (\<lambda>d. (dp_resp d, dp_time d)) (dispatch env ctx cfg' data now)"
proof -
  note c = alike_serversD[OF assms]
  let ?ctxt = "WithTimeoutCtx ctx now (method_timeout cfg (rq_Method data))"
  let ?call = "\<lambda>cfg. rpc_call cfg (ev_user env) now ?ctxt (rq_Method data) (rq_Params data) (AID (rq_ID data))"
  have tm: "method_timeout cfg' = method_timeout cfg" by (rule ext) (simp only: method_timeout_def c)
  have lim: "fst (errorResponse cfg' err code v) = fst (errorResponse cfg err code v)" for err code v
    by (rule public_part_response) (simp_all add: c)
  from alike_call[OF assms, of "ev_user env" now ?ctxt "rq_Method data" "rq_Params data" "AID (rq_ID data)"]
  consider (none) "?call cfg = None" "?call cfg' = None"
    | (some) r t evs evs' where "?call cfg = Some (r, evs, t)" "?call cfg' = Some (r, evs', t)"
    by (cases "?call cfg"; cases "?call cfg'") (auto simp: outcome_of_call_def)
  then show ?thesis
  proof cases
    case none
    then show ?thesis using lim
      by (auto simp: dispatch_def tm c Let_def case_prod_unfold split: option.split)
  next
    case some
    then show ?thesis using lim
      by (auto simp: dispatch_def tm c Let_def case_prod_unfold split: option.split)
  qed
qed

lemma alike_observe:
  assumes "alike_servers cfg cfg'"
  shows "map_option fst (observe env ctx cfg resp name notif start now) = map_option fst (observe env ctx cfg' resp name notif start now)"
  unfolding observe_def alike_serversD(5)[OF assms]
  by (auto simp: Let_def case_prod_unfold split: option.split outcome.split prod.split)

lemma alike_handleRPC:
  assumes "alike_servers cfg cfg'"
  shows "map_option (\<lambda>h. (hd_resp h, hd_time h)) (handleRPC env ctx cfg req start) =
    map_option (\<lambda>h. (hd_resp h, hd_time h)) (handleRPC env ctx cfg' req start)"
proof (cases "validateRequest req")
  case (Some err)
  have r: "fst (errorResponse cfg' e code v) = fst (errorResponse cfg e code v)" for e code v
    by (rule public_part_response) (simp_all add: alike_serversD[OF assms])
  let ?v = "AID (if slice_len (rq_ID req) > 0 \<and> \<not> Valid (slice_bytes (rq_ID req)) then None else rq_ID req)"
  let ?r = "fst (errorResponse cfg (Some err) InvalidRequestErrorCode ?v)"
  from alike_observe[OF assms, of env ctx "Some ?r" "rq_Method req" False start start] show ?thesis
    by (cases "observe env ctx cfg (Some ?r) (rq_Method req) False start start";
        cases "observe env ctx cfg' (Some ?r) (rq_Method req) False start start")
      (auto simp: handleRPC_def Some Let_def case_prod_unfold r)
next
  case None
  from alike_dispatch[OF assms, of env ctx req start]
  consider (none) "dispatch env ctx cfg req start = None" "dispatch env ctx cfg' req start = None"
    | (some) d d' where "dispatch env ctx cfg req start = Some d" "dispatch env ctx cfg' req start = Some d'"
        "dp_resp d' = dp_resp d" "dp_time d' = dp_time d"
    by (cases "dispatch env ctx cfg req start"; cases "dispatch env ctx cfg' req start") auto
  then show ?thesis
  proof cases
    case none
    then show ?thesis by (simp add: handleRPC_def None)
  next
    case some
    let ?o = "\<lambda>cfg. observe env ctx cfg (Some (dp_resp d)) (rq_Method req) (slice_len (rq_ID req) = 0) start (dp_time d)"
    from alike_observe[OF assms, of env ctx "Some (dp_resp d)" "rq_Method req" "slice_len (rq_ID req) = 0" start "dp_time d"]
    show ?thesis
      by (cases "?o cfg"; cases "?o cfg'") (auto simp: handleRPC_def None some)
  qed
qed

section \<open>Messages\<close>

lemma alike_batch_entry:
  assumes "alike_servers cfg cfg'"
  shows "map_option hd_resp (batch_entry sched ctx cfg data pf i) = map_option hd_resp (batch_entry sched ctx cfg' data pf i)"
proof (cases "case pf of Some l \<Rightarrow> l ! i | None \<Rightarrow> False")
  case True
  have r: "fst (errorResponse cfg' e code v) = fst (errorResponse cfg e code v)" for e code v
    by (rule public_part_response) (simp_all add: alike_serversD[OF assms])
  obtain env start where s: "sched i = (env, start)" by fastforce
  let ?r = "fst (errorResponse cfg (Some (errors_New ''batch entry is not a valid request object'')) InvalidRequestErrorCode ANil)"
  from alike_observe[OF assms, of env ctx "Some ?r" "[]" False start start] True s show ?thesis
    by (cases "observe env ctx cfg (Some ?r) [] False start start"; cases "observe env ctx cfg' (Some ?r) [] False start start")
      (auto simp: batch_entry_def Let_def case_prod_unfold r)
next
  case False
  obtain env start where s: "sched i = (env, start)" by fastforce
  from alike_handleRPC[OF assms, of env ctx "data ! i" start] False s show ?thesis
    by (cases "handleRPC env ctx cfg (data ! i) start"; cases "handleRPC env ctx cfg' (data ! i) start")
      (auto simp: batch_entry_def)
qed

lemma alike_batch:
  assumes "alike_servers cfg cfg'"
  shows "handleBatchRPC sched ctx cfg data pf = handleBatchRPC sched ctx cfg' data pf"
proof -
  let ?e = "\<lambda>cfg. map (batch_entry sched ctx cfg data pf) [0..<length data]"
  have m: "map (map_option hd_resp) (?e cfg) = map (map_option hd_resp) (?e cfg')"
    using alike_batch_entry[OF assms] by simp
  have none: "None \<in> set xs \<longleftrightarrow> None \<in> set (map (map_option hd_resp) xs)" for xs :: "handled option list" by force
  have filt: "List.map_filter (\<lambda>h. hd_resp (the h)) xs = List.map_filter the (map (map_option hd_resp) xs)" if "None \<notin> set xs" for xs
    using that
  proof (induction xs)
    case (Cons x xs)
    then show ?case by (cases x) (auto simp: List.map_filter_simps split: option.split)
  qed (simp add: List.map_filter_simps)
  show ?thesis
    using filt[of "?e cfg"] filt[of "?e cfg'"] none[of "?e cfg"] none[of "?e cfg'"] m
    unfolding handleBatchRPC_def Let_def by (metis (no_types, lifting))
qed

definition same_reply :: "message_result option \<Rightarrow> message_result option \<Rightarrow> bool" where
  "same_reply a b \<longleftrightarrow> map_option mr_reply a = map_option mr_reply b"

lemma same_reply_simps [simp]:
  "same_reply (logging evs a) b \<longleftrightarrow> same_reply a b" "same_reply a (logging evs b) \<longleftrightarrow> same_reply a b" "same_reply a a"
  by (auto simp: same_reply_def logging_def option.map_comp comp_def)

lemma alike_marshal:
  assumes "alike_servers cfg cfg'"
  shows "same_reply (marshal_single jw cfg v resp) (marshal_single jw cfg' v resp)"
    "same_reply (marshal_batch jw cfg rs) (marshal_batch jw cfg' rs)"
proof -
  have s: "safeInternalResponse cfg' = safeInternalResponse cfg"
    by (rule ext) (simp only: safeInternalResponse_def alike_serversD(1)[OF assms])
  then have "replace_broken jw cfg' = replace_broken jw cfg" by (intro ext) (simp only: replace_broken_def)
  with s show "same_reply (marshal_single jw cfg v resp) (marshal_single jw cfg' v resp)"
    "same_reply (marshal_batch jw cfg rs) (marshal_batch jw cfg' rs)"
    by (auto simp: marshal_single_def marshal_batch_def split: sum.split)
qed

lemma alike_object:
  assumes "alike_servers cfg cfg'"
  shows "same_reply (handle_object jw lx sched ctx cfg data) (handle_object jw lx sched ctx cfg' data)"
proof (cases "\<exists>req. Request_UnmarshalJSON lx zero_request data = Some (req, None)")
  case True
  then obtain req where r: "Request_UnmarshalJSON lx zero_request data = Some (req, None)" by blast
  let ?h = "\<lambda>cfg. handleRPC (fst (sched 0)) ctx cfg req (snd (sched 0))"
  from alike_handleRPC[OF assms, of "fst (sched 0)" ctx req "snd (sched 0)"]
  consider (none) "?h cfg = None" "?h cfg' = None"
    | (some) h h' where "?h cfg = Some h" "?h cfg' = Some h'" "hd_resp h' = hd_resp h"
    by (cases "?h cfg"; cases "?h cfg'") auto
  then show ?thesis
  proof cases
    case some
    with r alike_marshal(1)[OF assms] show ?thesis by (cases "hd_resp h") (simp_all add: handle_object_def)
  qed (simp add: handle_object_def r)
next
  case False
  then show ?thesis by (auto simp: handle_object_def split: option.split)
qed

lemma alike_array:
  assumes "alike_servers cfg cfg'"
  shows "same_reply (handle_array jw lx sched ctx cfg data) (handle_array jw lx sched ctx cfg' data)"
  by (auto simp: handle_array_def alike_batch[OF assms] alike_marshal[OF assms] split: option.split)

text \<open>
  C29: error texts do not leak. Let two servers differ in what the errors and the panic values of
  their methods and interceptors say (not in whether they fail, how long they take, and the code
  and the data of an \<open>*RPCError\<close>), and in their loggers. Then the reply to any message, batches
  and both fallbacks of marshaling included, is the same, byte for byte: the client can learn
  nothing of those texts.
\<close>

theorem error_texts_stay_inside:
  assumes "alike_servers cfg cfg'"
  shows "map_option mr_reply (HandleRPCJSONRawMessage jw lx sched ctx cfg data) =
    map_option mr_reply (HandleRPCJSONRawMessage jw lx sched ctx cfg' data)"
proof -
  have "same_reply (HandleRPCJSONRawMessage jw lx sched ctx cfg data) (HandleRPCJSONRawMessage jw lx sched ctx cfg' data)"
    using alike_object[OF assms, of jw lx sched ctx "TrimSpace data"] alike_array[OF assms, of jw lx sched ctx "TrimSpace data"]
    unfolding HandleRPCJSONRawMessage_def Let_def alike_serversD[OF assms] by auto
  then show ?thesis by (simp add: same_reply_def)
qed

text \<open>The sample server, and one whose method panics with another text and that logs elsewhere.\<close>

definition other_sample :: "(unit, unit) config" where
  "other_sample = sample\<lparr>cf_composed := (cf_composed sample)(''boom'' \<mapsto> \<lambda>e now ctx data. (Panics ''another secret'', 1)), cf_logger := None\<rparr>"

lemma sample_alike: "alike_servers sample other_sample"
proof -
  have "alike_method m m" for m :: "(unit, unit) rpc_method" by (simp add: alike_method_def alike_refl)
  then have "rel_option alike_method (cf_composed sample name) (cf_composed other_sample name)" for name
    by (cases "cf_composed sample name") (auto simp: other_sample_def sample_simps alike_method_def)
  moreover have "list_all2 alike_interceptor (cf_globalInterceptors sample) (cf_globalInterceptors other_sample)"
    by (simp add: other_sample_def sample_simps)
  moreover have "\<exists>ms is logger. other_sample = sample\<lparr>cf_composed := ms, cf_globalInterceptors := is, cf_logger := logger\<rparr>"
    by (intro exI[of _ "cf_composed other_sample"] exI[of _ "cf_globalInterceptors sample"] exI[of _ None])
      (simp add: other_sample_def)
  ultimately show ?thesis by (simp add: alike_servers_def)
qed

theorem error_texts_stay_inside_witness:
  "map_option mr_reply (HandleRPCJSONRawMessage buffer_writer boom_lexer (\<lambda>_. (sample_env, 0)) sample_ctx other_sample ''{}'') =
     Some (Some (response_text json_string (newError ''internal_error'' InternalErrorCode ANil (AID (Some ''7'')))))"
proof -
  obtain log where "HandleRPCJSONRawMessage buffer_writer boom_lexer (\<lambda>_. (sample_env, 0)) sample_ctx sample ''{}'' =
     Some \<lparr>mr_reply = Some (response_text json_string (newError ''internal_error'' InternalErrorCode ANil (AID (Some ''7'')))), mr_log = log\<rparr>"
    using boom_message by blast
  with error_texts_stay_inside[OF sample_alike, of buffer_writer boom_lexer "\<lambda>_. (sample_env, 0)" sample_ctx "''{}''"]
  show ?thesis by simp
qed

end
