(* ===== verification/ClientHelpers.thy ===== *)
theory ClientHelpers
  imports Codec Dispatch
begin

text \<open>
  What the transport clients share (\<open>client.go\<close>, \<open>batch.go\<close>, \<open>request.go\<close>): the parameters
  of a call as raw JSON, the frame of a batch with the ids of its entries, and the typed view
  of a result. The error of a call is an error response of the peer, an error with the
  wrapping text of the caller in front of it, the error of the context, or an error of the
  transport \<open>'t\<close>.
\<close>

datatype 't call_err =
    ErrResponse rpc_error
  | ErrWrap bytes bytes
  | ErrCtx ctx_err
  | ErrTransport 't

section \<open>Parameters and results\<close>

definition MarshalParams :: "goany \<Rightarrow> 't call_err + slice" where
  "MarshalParams params =
     (case params of
        ANil \<Rightarrow> Inr None
      | ARawMessage v \<Rightarrow> Inr v
      | v \<Rightarrow> (case codec_Marshal v of
          Inl e \<Rightarrow> Inl (ErrWrap ''marshal params: '' e)
        | Inr raw \<Rightarrow> Inr (Some raw)))"

text \<open>
  \<open>CallResult\<close> over any \<open>Caller\<close>; \<open>unmarshal\<close> is \<open>json.Unmarshal\<close> into the zero value of the
  result type: the value it leaves there and its error.
\<close>

definition CallResult :: "(bytes \<Rightarrow> goany \<Rightarrow> 's \<Rightarrow> ('t call_err + slice) \<times> 's) \<Rightarrow> 'r \<Rightarrow>
    (bytes \<Rightarrow> 'r \<times> bytes option) \<Rightarrow> bytes \<Rightarrow> goany \<Rightarrow> 's \<Rightarrow> ('r \<times> 't call_err option) \<times> 's" where
  "CallResult call zero unmarshal method params s =
     (case call method params s of
        (Inl e, s') \<Rightarrow> ((zero, Some e), s')
      | (Inr raw, s') \<Rightarrow>
          (if slice_len raw = 0 then (zero, None)
           else (case unmarshal (slice_bytes raw) of
               (r, Some e) \<Rightarrow> (r, Some (ErrWrap ''unmarshal result: '' e))
             | (r, None) \<Rightarrow> (r, None)), s'))"

section \<open>Batches\<close>

record spec =
  bs_Method :: bytes
  bs_Params :: goany
  bs_Notify :: bool

record batch_result =
  br_Result :: slice
  br_Error :: "rpc_error option"

definition zero_batch_result :: batch_result where
  "zero_batch_result = \<lparr>br_Result = None, br_Error = None\<rparr>"

definition BatchResultAs :: "'r \<Rightarrow> (bytes \<Rightarrow> 'r \<times> bytes option) \<Rightarrow> batch_result \<Rightarrow> 'r \<times> 't call_err option" where
  "BatchResultAs zero unmarshal br =
     (case br_Error br of
        Some e \<Rightarrow> (zero, Some (ErrResponse e))
      | None \<Rightarrow>
          if slice_len (br_Result br) = 0 then (zero, None)
          else (case unmarshal (slice_bytes (br_Result br)) of
              (r, Some e) \<Rightarrow> (r, Some (ErrWrap ''unmarshal batch result: '' e))
            | (r, None) \<Rightarrow> (r, None)))"

definition BatchResultFromResponse :: "response \<Rightarrow> batch_result" where
  "BatchResultFromResponse resp =
     (case rs_Error resp of
        Some e \<Rightarrow> \<lparr>br_Result = None, br_Error = Some e\<rparr>
      | None \<Rightarrow> (case rs_Result resp of
          Some m \<Rightarrow> \<lparr>br_Result = m, br_Error = None\<rparr>
        | None \<Rightarrow> zero_batch_result))"

text \<open>
  The loop of \<open>MarshalBatch\<close>; \<open>nextID\<close> is the transport's id source, with its state. An entry
  whose parameters do not marshal aborts the loop; the ids drawn before it are spent.
\<close>

fun batch_requests :: "('s \<Rightarrow> slice \<times> 's) \<Rightarrow> spec list \<Rightarrow> 's \<Rightarrow> ('t call_err + slice list \<times> request list) \<times> 's" where
  "batch_requests nextID [] s = (Inr ([], []), s)"
| "batch_requests nextID (x # xs) s =
     (case MarshalParams (bs_Params x) of
        Inl e \<Rightarrow> (Inl e, s)
      | Inr raw \<Rightarrow>
          (let (i, s1) = (if bs_Notify x then (None, s) else nextID s);
               req = \<lparr>rq_Version = Version, rq_Method = bs_Method x, rq_Params = raw, rq_ID = i\<rparr>
           in case batch_requests nextID xs s1 of
                (Inl e, s2) \<Rightarrow> (Inl e, s2)
              | (Inr (ids, reqs), s2) \<Rightarrow> (Inr (i # ids, req # reqs), s2)))"

definition MarshalBatch :: "'w jwriter \<Rightarrow> ('s \<Rightarrow> slice \<times> 's) \<Rightarrow> spec list \<Rightarrow> 's \<Rightarrow>
    ('t call_err + bytes \<times> slice list) \<times> 's" where
  "MarshalBatch jw nextID specs s =
     (case batch_requests nextID specs s of
        (Inl e, s') \<Rightarrow> (Inl e, s')
      | (Inr (ids, reqs), s') \<Rightarrow>
          (case Requests_MarshalJSON jw (Some reqs) of
             Inl e \<Rightarrow> Inl (ErrWrap ''marshal batch: '' e)
           | Inr frame \<Rightarrow> Inr (frame, ids), s'))"

section \<open>Requests with a random id\<close>

text \<open>
  \<open>NewRequest\<close>: \<open>params\<close> is the result of the argument's \<open>MarshalJSON\<close>, \<open>uuid\<close> the text that
  \<open>uuid.New().String()\<close> yields.
\<close>

definition NewRequest :: "bytes \<Rightarrow> bytes + slice \<Rightarrow> bytes \<Rightarrow> goerr + request" where
  "NewRequest methodName params uuid =
     (case params of
        Inl e \<Rightarrow> Inl (errors_New e)
      | Inr paramsBytes \<Rightarrow>
          (let req = \<lparr>rq_Version = Version, rq_Method = methodName, rq_Params = paramsBytes,
                      rq_ID = Some (QUOTE # uuid @ [QUOTE])\<rparr>
           in case validateRequest req of Some err \<Rightarrow> Inl err | None \<Rightarrow> Inr req))"

section \<open>The ids of a batch\<close>

text \<open>
  Where \<open>nextID\<close> counts in decimal, as in the transports, the ids of a batch are the numerals
  after the last one used.
\<close>

lemma batch_requests_shape:
  assumes "batch_requests nextID specs s = (Inr (ids, reqs) :: 't call_err + slice list \<times> request list, s')"
  shows "length ids = length specs" "map rq_ID reqs = ids" "map rq_Method reqs = map bs_Method specs"
    "list_all (\<lambda>r. rq_Version r = Version) reqs"
    "map (\<lambda>r. Inr (rq_Params r) :: 't call_err + slice) reqs = map (\<lambda>x. MarshalParams (bs_Params x)) specs"
proof -
  have "length ids = length specs \<and> map rq_ID reqs = ids \<and> map rq_Method reqs = map bs_Method specs \<and>
      list_all (\<lambda>r. rq_Version r = Version) reqs \<and>
      map (\<lambda>r. Inr (rq_Params r) :: 't call_err + slice) reqs = map (\<lambda>x. MarshalParams (bs_Params x)) specs"
    using assms
  proof (induction specs arbitrary: s ids reqs)
    case Nil
    then show ?case by simp
  next
    case (Cons x xs)
    obtain raw where raw: "MarshalParams (bs_Params x) = (Inr raw :: 't call_err + slice)"
      using Cons.prems by (auto split: sum.splits)
    obtain i s1 where i: "(if bs_Notify x then (None, s) else nextID s) = (i, s1)" by (cases "if bs_Notify x then (None, s) else nextID s")
    from Cons.prems raw i obtain ids' reqs' where rest: "batch_requests nextID xs s1 = (Inr (ids', reqs') :: 't call_err + slice list \<times> request list, s')"
      and eq: "ids = i # ids'" "reqs = \<lparr>rq_Version = Version, rq_Method = bs_Method x, rq_Params = raw, rq_ID = i\<rparr> # reqs'"
      by (auto split: sum.splits prod.splits)
    from Cons.IH[OF rest] raw eq show ?case by simp
  qed
  then show "length ids = length specs" "map rq_ID reqs = ids" "map rq_Method reqs = map bs_Method specs"
    "list_all (\<lambda>r. rq_Version r = Version) reqs"
    "map (\<lambda>r. Inr (rq_Params r) :: 't call_err + slice) reqs = map (\<lambda>x. MarshalParams (bs_Params x)) specs"
    by simp_all
qed

end
