(* ===== verification/Correlator.thy ===== *)
theory Correlator
  imports ClientHelpers
begin

text \<open>
  The part the stdio and the WebSocket client have in common: the table of the calls that wait
  for a response, and how a response finds its call (\<open>nextID\<close>, \<open>deliver\<close>, \<open>failPendingWith\<close>,
  \<open>failPending\<close> and \<open>unregister\<close> of \<open>jsonrpcstdio/client.go\<close> and \<open>jsonrpcws/client.go\<close>, which
  are the same text). Each of them runs under the client's mutex and is one operation here.

  A call is an entry of \<open>co_calls\<close>; its channel of capacity one is the list of the responses in
  it. The table maps an id to the position of the call whose channel is registered.
  \<open>co_seen\<close> is a history: the responses the read loop has decoded.
\<close>

record call =
  ca_id :: bytes
  ca_chan :: "response list"

record core =
  co_seq :: int
  co_pending :: "bytes \<rightharpoonup> nat"
  co_calls :: "call list"
  co_seen :: "response list"

definition core_init :: core where
  "core_init = \<lparr>co_seq = 0, co_pending = Map.empty, co_calls = [], co_seen = []\<rparr>"

definition nextID :: "core \<Rightarrow> slice \<times> core" where
  "nextID c = (Some (itoa (co_seq c + 1)), c\<lparr>co_seq := co_seq c + 1\<rparr>)"

definition register :: "bytes \<Rightarrow> core \<Rightarrow> core" where
  "register k c = c\<lparr>co_pending := (co_pending c)(k \<mapsto> length (co_calls c)),
     co_calls := co_calls c @ [\<lparr>ca_id = k, ca_chan = []\<rparr>]\<rparr>"

definition unregister :: "bytes \<Rightarrow> core \<Rightarrow> core" where
  "unregister k c = c\<lparr>co_pending := (co_pending c)(k := None)\<rparr>"

definition send_chan :: "nat \<Rightarrow> response \<Rightarrow> core \<Rightarrow> core" where
  "send_chan i r c = c\<lparr>co_calls := (co_calls c)[i := (co_calls c ! i)\<lparr>ca_chan := ca_chan (co_calls c ! i) @ [r]\<rparr>]\<rparr>"

text \<open>Taking the response out of the channel.\<close>

definition recv_chan :: "nat \<Rightarrow> core \<Rightarrow> core" where
  "recv_chan i c = c\<lparr>co_calls := (co_calls c)[i := (co_calls c ! i)\<lparr>ca_chan := tl (ca_chan (co_calls c ! i))\<rparr>]\<rparr>"

definition deliver :: "response \<Rightarrow> core \<Rightarrow> bool \<times> core" where
  "deliver resp c =
     (if slice_len (rs_ID resp) = 0 then (False, c)
      else case co_pending c (slice_bytes (rs_ID resp)) of
          None \<Rightarrow> (False, c)
        | Some i \<Rightarrow> (True, send_chan i resp (unregister (slice_bytes (rs_ID resp)) c)))"

definition rejection :: "rpc_error \<Rightarrow> response" where
  "rejection e = \<lparr>rs_Version = [], rs_Result = None, rs_Error = Some e, rs_ID = None\<rparr>"

definition failPendingWith :: "rpc_error \<Rightarrow> core \<Rightarrow> core" where
  "failPendingWith e c =
     c\<lparr>co_pending := Map.empty,
       co_calls := map (\<lambda>(i, ca). if i \<in> ran (co_pending c) then ca\<lparr>ca_chan := ca_chan ca @ [rejection e]\<rparr> else ca)
         (List.enumerate 0 (co_calls c))\<rparr>"

definition failPending :: "core \<Rightarrow> core" where
  "failPending c = c\<lparr>co_pending := Map.empty\<rparr>"

definition isNullID :: "slice \<Rightarrow> bool" where
  "isNullID v \<longleftrightarrow> slice_len v = 0 \<or> slice_bytes v = ''null''"

definition seen :: "response \<Rightarrow> core \<Rightarrow> core" where
  "seen r c = c\<lparr>co_seen := co_seen c @ [r]\<rparr>"

text \<open>What a call makes of the response it received.\<close>

definition response_outcome :: "response \<Rightarrow> 't call_err + slice" where
  "response_outcome resp =
     (case rs_Error resp of
        Some e \<Rightarrow> Inl (ErrResponse e)
      | None \<Rightarrow> (case rs_Result resp of None \<Rightarrow> Inr None | Some m \<Rightarrow> Inr m))"

text \<open>
  A call that is registered: sending its frame, waiting for its response, or returned with its
  outcome and the response it took, if it took one.
\<close>

datatype 't cphase =
    CSending bytes goany
  | CWaiting
  | CDone "'t call_err + slice" "response option"

text \<open>The read loop: reading, about to handle what it has read, or returned.\<close>

datatype rphase = RReading | RGot bytes | RStopped

text \<open>The part of the read loop that looks for the waiting call of a decoded frame.\<close>

definition route :: "response \<Rightarrow> core \<Rightarrow> core" where
  "route resp c =
     (case deliver resp c of (found, c1) \<Rightarrow>
        case rs_Error resp of
          Some e \<Rightarrow> if \<not> found \<and> isNullID (rs_ID resp) then failPendingWith e c1 else c1
        | None \<Rightarrow> c1)"

section \<open>The id source\<close>

text \<open>
  The contract \<open>MarshalBatch\<close> has with the transport: each id is the decimal of a counter that
  moves on.
\<close>

locale id_source =
  fixes next_id :: "'s \<Rightarrow> slice \<times> 's" and count :: "'s \<Rightarrow> int"
  assumes next_id: "fst (next_id s) = Some (itoa (count s + 1))" "count (snd (next_id s)) = count s + 1"
begin

lemma drawn_ids:
  assumes "batch_requests next_id specs s = (Inr (ids, reqs) :: 't call_err + slice list \<times> request list, s')"
  shows "\<exists>ns. ids = map (map_option itoa) ns \<and> map (\<lambda>n. n = None) ns = map bs_Notify specs \<and>
    List.map_filter (\<lambda>n. n) ns = [count s + 1..count s'] \<and> count s \<le> count s'"
  using assms
proof (induction specs arbitrary: s ids reqs)
  case Nil
  then show ?case by simp
next
  case (Cons x xs)
  obtain raw where raw: "MarshalParams (bs_Params x) = (Inr raw :: 't call_err + slice)"
    using Cons.prems by (auto split: sum.splits)
  obtain i s1 where i: "(if bs_Notify x then (None, s) else next_id s) = (i, s1)"
    by (cases "if bs_Notify x then (None, s) else next_id s")
  from Cons.prems raw i obtain ids' reqs'
    where rest: "batch_requests next_id xs s1 = (Inr (ids', reqs') :: 't call_err + slice list \<times> request list, s')"
      and ids: "ids = i # ids'"
    by (auto split: sum.splits prod.splits)
  from Cons.IH[OF rest] obtain ns where ns: "ids' = map (map_option itoa) ns"
    "map (\<lambda>n. n = None) ns = map bs_Notify xs" "List.map_filter (\<lambda>n. n) ns = [count s1 + 1..count s']" "count s1 \<le> count s'"
    by blast
  show ?case
  proof (cases "bs_Notify x")
    case True
    with i ids ns show ?thesis by (intro exI[of _ "None # ns"]) (simp add: List.map_filter_simps)
  next
    case False
    with i have i': "i = Some (itoa (count s + 1))" "count s1 = count s + 1" using next_id[of s] by (auto simp: prod_eq_iff)
    have "[count s + 1..count s'] = (count s + 1) # [count s1 + 1..count s']"
      using i'(2) ns(4) by (simp add: upto_rec1)
    with False ids ns i' show ?thesis
      by (intro exI[of _ "Some (count s + 1) # ns"]) (simp add: List.map_filter_simps)
  qed
qed

text \<open>The ids in the frame, without the absent ones of the notifications.\<close>

lemma drawn_keys:
  assumes "MarshalBatch jw next_id specs s = (Inr (frame, ids) :: 't call_err + bytes \<times> slice list, s')"
  shows "length ids = length specs" "map (\<lambda>v. v = None) ids = map bs_Notify specs"
    "List.map_filter (\<lambda>v. v) ids = map itoa [count s + 1..count s']"
proof -
  obtain reqs where req: "batch_requests next_id specs s = (Inr (ids, reqs) :: 't call_err + slice list \<times> request list, s')"
    using assms by (auto simp: MarshalBatch_def split: prod.splits sum.splits)
  then show "length ids = length specs" by (rule batch_requests_shape(1))
  obtain ns where ns: "ids = map (map_option itoa) ns" "map (\<lambda>n. n = None) ns = map bs_Notify specs"
    "List.map_filter (\<lambda>n. n) ns = [count s + 1..count s']"
    using drawn_ids[OF req] by blast
  then show "map (\<lambda>v. v = None) ids = map bs_Notify specs" by (simp add: comp_def)
  have "List.map_filter (\<lambda>v. v) (map (map_option itoa) ms) = map itoa (List.map_filter (\<lambda>n. n) ms)" for ms
    by (induction ms) (auto split: option.splits)
  then show "List.map_filter (\<lambda>v. v) ids = map itoa [count s + 1..count s']" using ns(1,3) by simp
qed

end

interpretation core_ids: id_source nextID co_seq
  by unfold_locales (simp_all add: nextID_def)

end
