(* ===== verification/Framing.thy ===== *)
theory Framing
  imports Config
begin

text \<open>
  The two wire framings of package \<open>jsonrpcstdio\<close> (\<open>framing.go\<close>): the LSP base protocol
  (\<open>Content-Length\<close> header blocks) and newline-delimited JSON.

  The reading side is a \<open>bufio.Reader\<close> over the peer's stream. Its state is the bytes that
  are still to come and how the stream ends; an ended stream keeps reporting the same
  error, after its last byte. What the reader has buffered is not observable, except that
  \<open>ReadSlice\<close> gives up on a line longer than the buffer.

  The writing side is an \<open>io.Writer\<close>, a parameter \<open>wr\<close> of the definitions: on a state and
  some bytes it returns the error, if any, and the next state.
\<close>

section \<open>Buffered reading\<close>

definition maxHeaderBytes :: nat where "maxHeaderBytes = 8192"

definition readerBufferSize :: nat where "readerBufferSize = 32768"

datatype stream_end = StreamEOF | StreamErr bytes

record reader =
  rd_rest :: bytes
  rd_end :: stream_end

datatype slice_err = ErrBufferFull | Ended stream_end

definition Peek :: "nat \<Rightarrow> reader \<Rightarrow> bytes \<times> stream_end option" where
  "Peek n r = (if n \<le> length (rd_rest r) then (take n (rd_rest r), None)
     else (rd_rest r, Some (rd_end r)))"

definition Discard :: "nat \<Rightarrow> reader \<Rightarrow> reader" where
  "Discard n r = r\<lparr>rd_rest := drop n (rd_rest r)\<rparr>"

text \<open>\<open>bytes.IndexByte\<close>: \<open>None\<close> for -1.\<close>

definition IndexByte :: "bytes \<Rightarrow> char \<Rightarrow> nat option" where
  "IndexByte bs c = (let n = length (takeWhile (\<lambda>b. b \<noteq> c) bs) in if n < length bs then Some n else None)"

definition ReadSlice :: "char \<Rightarrow> reader \<Rightarrow> bytes \<times> slice_err option \<times> reader" where
  "ReadSlice delim r =
     (let buf = take readerBufferSize (rd_rest r) in
      case IndexByte buf delim of
        Some i \<Rightarrow> (take (Suc i) buf, None, Discard (Suc i) r)
      | None \<Rightarrow>
          if length buf = readerBufferSize then (buf, Some ErrBufferFull, Discard readerBufferSize r)
          else (buf, Some (Ended (rd_end r)), Discard (length buf) r))"

text \<open>\<open>io.ReadFull\<close> of \<open>n\<close> bytes: the bytes, or the error and whether some bytes were read.\<close>

datatype full_err = FullEOF | FullUnexpectedEOF | FullErr bytes

definition ReadFull :: "nat \<Rightarrow> reader \<Rightarrow> (full_err + bytes) \<times> reader" where
  "ReadFull n r =
     (if n \<le> length (rd_rest r) then (Inr (take n (rd_rest r)), Discard n r)
      else (Inl (case rd_end r of
            StreamEOF \<Rightarrow> if rd_rest r = [] then FullEOF else FullUnexpectedEOF
          | StreamErr e \<Rightarrow> FullErr e), Discard n r))"

section \<open>Parsing helpers of the standard library\<close>

definition lower :: "char \<Rightarrow> char" where
  "lower c = (if 0x41 \<le> byte_val c \<and> byte_val c \<le> 0x5A then char_of (byte_val c + 0x20) else c)"

text \<open>
  \<open>bytes.EqualFold\<close> against a text whose letters have no case folding outside ASCII
  (no \<open>k\<close> and no \<open>s\<close>), as \<open>Content-Length\<close>.
\<close>

definition EqualFold :: "bytes \<Rightarrow> bytes \<Rightarrow> bool" where
  "EqualFold s t \<longleftrightarrow> map lower s = map lower t"

definition dec_val :: "bytes \<Rightarrow> nat" where
  "dec_val ds = foldl (\<lambda>n c. n * 10 + (byte_val c - 0x30)) 0 ds"

text \<open>\<open>strconv.ParseInt(s, 10, 64)\<close>; \<open>None\<close> for a syntax or range error.\<close>

definition ParseInt64 :: "bytes \<Rightarrow> int option" where
  "ParseInt64 s =
     (let neg = (s \<noteq> [] \<and> hd s = CHR ''-'');
          ds = (if s \<noteq> [] \<and> (hd s = CHR ''+'' \<or> hd s = CHR ''-'') then tl s else s)
      in if ds = [] \<or> \<not> list_all isDigit ds then None
         else let un = int (dec_val ds) in
           if \<not> neg \<and> un \<ge> 2 ^ 63 then None
           else if neg \<and> un > 2 ^ 63 then None
           else Some (if neg then - un else un))"

section \<open>Framers\<close>

text \<open>
  Errors: the bare \<open>io.EOF\<close>, an error that wraps \<open>io.ErrUnexpectedEOF\<close>, one that wraps the
  stream's error, \<open>errUnframeable\<close>, and other texts.
\<close>

datatype ferr =
    FEOF
  | FUnexpectedEOF bytes
  | FStream bytes bytes
  | FUnframeable bytes
  | FText bytes

record 'w framerBase =
  fb_r :: reader
  fb_w :: 'w
  fb_maxSize :: int
  fb_sizeOpt :: bytes
  fb_started :: bool

definition begin_stream :: "'w framerBase \<Rightarrow> 'w framerBase" where
  "begin_stream b =
     (if fb_started b then b
      else let b' = b\<lparr>fb_started := True\<rparr> in
        case Peek 3 (fb_r b) of
          (p, None) \<Rightarrow>
            if p ! 0 = CHR 0xEF \<and> p ! 1 = CHR 0xBB \<and> p ! 2 = CHR 0xBF
            then b'\<lparr>fb_r := Discard 3 (fb_r b)\<rparr> else b'
        | (p, Some e) \<Rightarrow> b')"

definition limitErr :: "'w framerBase \<Rightarrow> ferr" where
  "limitErr b = FText (''jsonrpcstdio: frame exceeds the '' @ itoa (fb_maxSize b) @
     ''-byte limit (raise with '' @ fb_sizeOpt b @ '')'')"

type_synonym 'w writer = "'w \<Rightarrow> bytes \<Rightarrow> bytes option \<times> 'w"

fun writeAll :: "'w writer \<Rightarrow> bytes list \<Rightarrow> 'w \<Rightarrow> ferr option \<times> 'w" where
  "writeAll wr [] w = (None, w)"
| "writeAll wr (p # ps) w =
     (case wr w p of
        (Some e, w') \<Rightarrow> (Some (FStream ''jsonrpcstdio: write: '' e), w')
      | (None, w') \<Rightarrow> writeAll wr ps w')"

definition quoteTrunc :: "bytes \<Rightarrow> bytes" where
  "quoteTrunc b = (if length b > 64 then quoted (take 64 b) @ ''...(truncated)'' else quoted b)"

definition trimEOL :: "bytes \<Rightarrow> bytes" where
  "trimEOL b =
     (let b1 = (if b \<noteq> [] \<and> last b = LF then butlast b else b)
      in if b1 \<noteq> [] \<and> last b1 = CR then butlast b1 else b1)"

section \<open>Content-Length framing\<close>

definition clHeaderName :: bytes where "clHeaderName = ''Content-Length''"

definition readHeaderLine :: "bool \<Rightarrow> reader \<Rightarrow> (ferr + bytes) \<times> reader" where
  "readHeaderLine atBlockStart r =
     (case ReadSlice LF r of
        (line, None, r') \<Rightarrow> (Inr line, r')
      | (line, Some ErrBufferFull, r') \<Rightarrow>
          (Inl (FText (''jsonrpcstdio: header line exceeds the '' @ itoa (int maxHeaderBytes) @
             ''-byte header limit'')), r')
      | (line, Some (Ended StreamEOF), r') \<Rightarrow>
          (Inl (if length line = 0 \<and> atBlockStart then FEOF
                else FUnexpectedEOF ''jsonrpcstdio: stream ended mid-header: ''), r')
      | (line, Some (Ended (StreamErr e)), r') \<Rightarrow> (Inl (FStream ''jsonrpcstdio: read: '' e), r'))"

lemma IndexByte_lt: "IndexByte bs c = Some i \<Longrightarrow> i < length bs"
  by (auto simp: IndexByte_def Let_def split: if_splits)

lemma ReadSlice_shorter:
  assumes "ReadSlice d r = (line, None, r')"
  shows "length (rd_rest r') < length (rd_rest r)"
  using assms IndexByte_lt[of "take readerBufferSize (rd_rest r)" d]
  by (auto simp: ReadSlice_def Discard_def Let_def split: option.splits if_splits)

lemma readHeaderLine_shorter:
  assumes "readHeaderLine a r = (Inr line, r')"
  shows "length (rd_rest r') < length (rd_rest r)"
proof -
  from assms have "ReadSlice LF r = (line, None, r')"
    by (auto simp: readHeaderLine_def split: prod.splits option.splits slice_err.splits stream_end.splits)
  then show ?thesis by (rule ReadSlice_shorter)
qed

text \<open>The header loop of \<open>ReadFrame\<close>, with its three variables; \<open>b\<close> is only read.\<close>

function cl_headers :: "'w framerBase \<Rightarrow> reader \<Rightarrow> int \<Rightarrow> nat \<Rightarrow> bool \<Rightarrow> (ferr + int) \<times> reader" where
  "cl_headers b r contentLen headerBytes first =
     (case readHeaderLine first r of
        (Inl e, r') \<Rightarrow> (Inl e, r')
      | (Inr line, r') \<Rightarrow>
          (let hb = headerBytes + length line; trimmed = trimEOL line in
           if hb > maxHeaderBytes
             then (Inl (FText (''jsonrpcstdio: header block exceeds '' @ itoa (int maxHeaderBytes) @ '' bytes'')), r')
           else if length trimmed = 0 then
             (if contentLen < 0 then Inl (FText ''jsonrpcstdio: missing Content-Length header'')
              else Inr contentLen, r')
           else case IndexByte trimmed COLON of
               None \<Rightarrow> (Inl (FText (''jsonrpcstdio: invalid header line '' @ quoteTrunc trimmed)), r')
             | Some idx \<Rightarrow>
                 if \<not> EqualFold (TrimSpace (take idx trimmed)) clHeaderName
                   then cl_headers b r' contentLen hb False
                 else if contentLen \<ge> 0
                   then (Inl (FText ''jsonrpcstdio: duplicate Content-Length header''), r')
                 else (let bad = (Inl (FText (''jsonrpcstdio: invalid Content-Length '' @
                               quoteTrunc (TrimSpace (drop (Suc idx) trimmed)))), r')
                   in case ParseInt64 (TrimSpace (drop (Suc idx) trimmed)) of
                     None \<Rightarrow> bad
                   | Some n \<Rightarrow>
                       if n < 0 then bad
                       else if n > fb_maxSize b then (Inl (limitErr b), r')
                       else cl_headers b r' n hb False)))"
  by pat_completeness auto
termination
  by (relation "measure (\<lambda>(b, r, _). length (rd_rest r))")
     (use readHeaderLine_shorter[OF sym] in auto)

declare cl_headers.simps [simp del]

definition cl_body :: "nat \<Rightarrow> reader \<Rightarrow> (ferr + bytes) \<times> reader" where
  "cl_body n r =
     (case ReadFull n r of
        (Inr buf, r') \<Rightarrow> (Inr buf, r')
      | (Inl (FullErr e), r') \<Rightarrow> (Inl (FStream ''jsonrpcstdio: read: '' e), r')
      | (Inl FullEOF, r') \<Rightarrow> (Inl (FUnexpectedEOF ''jsonrpcstdio: stream ended mid-body: ''), r')
      | (Inl FullUnexpectedEOF, r') \<Rightarrow> (Inl (FUnexpectedEOF ''jsonrpcstdio: stream ended mid-body: ''), r'))"

definition cl_ReadFrame :: "'w framerBase \<Rightarrow> (ferr + bytes) \<times> 'w framerBase" where
  "cl_ReadFrame b0 =
     (let b = begin_stream b0 in
      case Peek 1 (fb_r b) of
        (p, None) \<Rightarrow>
          if p ! 0 = LBRACE \<or> p ! 0 = LBRACK
          then (Inl (FText (''jsonrpcstdio: expected a Content-Length header but the stream starts with JSON; '' @
                 ''peer appears to use NDJSON framing (did you mean FramingNDJSON?)'')), b)
          else (case cl_headers b (fb_r b) (-1) 0 True of
              (Inl e, r') \<Rightarrow> (Inl e, b\<lparr>fb_r := r'\<rparr>)
            | (Inr n, r') \<Rightarrow> (case cl_body (nat n) r' of (res, r'') \<Rightarrow> (res, b\<lparr>fb_r := r''\<rparr>)))
      | (p, Some StreamEOF) \<Rightarrow> (Inl FEOF, b)
      | (p, Some (StreamErr e)) \<Rightarrow> (Inl (FStream ''jsonrpcstdio: read: '' e), b))"

definition cl_header :: "nat \<Rightarrow> bytes" where
  "cl_header n = ''Content-Length: '' @ itoa (int n) @ [CR, LF, CR, LF]"

definition cl_WriteFrame :: "'w writer \<Rightarrow> bytes \<Rightarrow> 'w framerBase \<Rightarrow> ferr option \<times> 'w framerBase" where
  "cl_WriteFrame wr data b =
     (case writeAll wr [cl_header (length data), data] (fb_w b) of (e, w') \<Rightarrow> (e, b\<lparr>fb_w := w'\<rparr>))"

section \<open>Newline-delimited framing\<close>

definition contentLengthPrefix :: bytes where "contentLengthPrefix = ''Content-Length:''"

text \<open>The inner loop: one line, accumulated over buffer fills.\<close>

lemma ReadSlice_full_shorter:
  assumes "ReadSlice d r = (line, Some ErrBufferFull, r')"
  shows "length (rd_rest r') < length (rd_rest r)"
proof -
  from assms have "readerBufferSize \<le> length (rd_rest r)" "r' = Discard readerBufferSize r"
    by (auto simp: ReadSlice_def Let_def split: option.splits if_splits)
  then show ?thesis by (simp add: Discard_def readerBufferSize_def)
qed

function nd_line :: "'w framerBase \<Rightarrow> reader \<Rightarrow> bytes \<Rightarrow> (ferr + bytes) \<times> reader" where
  "nd_line b r acc =
     (case ReadSlice LF r of (chunk, err, r') \<Rightarrow>
        if int (length acc + length chunk) - 2 > fb_maxSize b then (Inl (limitErr b), r')
        else (let acc' = acc @ chunk in
          case err of
            None \<Rightarrow> (Inr acc', r')
          | Some ErrBufferFull \<Rightarrow> nd_line b r' acc'
          | Some (Ended StreamEOF) \<Rightarrow> (if length acc' = 0 then Inl FEOF else Inr acc', r')
          | Some (Ended (StreamErr e)) \<Rightarrow> (Inl (FStream ''jsonrpcstdio: read: '' e), r')))"
  by pat_completeness auto
termination
  by (relation "measure (\<lambda>(b, r, _). length (rd_rest r))")
     (use ReadSlice_full_shorter[OF sym] in auto)

declare nd_line.simps [simp del]

lemma ReadSlice_le:
  assumes "ReadSlice d r = (line, e, r')"
  shows "length (rd_rest r') + length line = length (rd_rest r)" "rd_end r' = rd_end r"
  using assms by (auto simp: ReadSlice_def Discard_def Let_def split: option.splits if_splits
      dest!: IndexByte_lt)

lemma nd_line_shorter:
  assumes "nd_line b r acc = (Inr line, r')"
  shows "length (rd_rest r') + length line = length (rd_rest r) + length acc" "line \<noteq> []" "rd_end r' = rd_end r"
proof -
  have "length (rd_rest r') + length line = length (rd_rest r) + length acc \<and> line \<noteq> [] \<and> rd_end r' = rd_end r"
    using assms
  proof (induction b r acc arbitrary: line r' rule: nd_line.induct)
    case (1 b r acc)
    obtain chunk err r1 where rs: "ReadSlice LF r = (chunk, err, r1)" by (cases "ReadSlice LF r") auto
    note le = ReadSlice_le[OF rs]
    show ?case
    proof (cases "err = Some ErrBufferFull")
      case True
      with "1.prems" rs have "nd_line b r1 (acc @ chunk) = (Inr line, r')"
        by (simp add: nd_line.simps[of b r acc] split: if_splits)
      moreover have "\<not> fb_maxSize b < int (length acc + length chunk) - 2"
        using "1.prems" rs by (auto simp: nd_line.simps[of b r acc])
      ultimately have "length (rd_rest r') + length line = length (rd_rest r1) + length (acc @ chunk) \<and>
          line \<noteq> [] \<and> rd_end r' = rd_end r1"
        using "1.IH"[OF rs[symmetric] refl _ refl True refl] by blast
      with le show ?thesis by simp
    next
      case False
      have ne: "err = None \<Longrightarrow> chunk \<noteq> []"
        using rs by (auto simp: ReadSlice_def Let_def split: option.splits if_splits dest!: IndexByte_lt)
      from False "1.prems" rs le ne show ?thesis
        by (cases err) (auto simp: nd_line.simps[of b r acc] Let_def split: if_splits slice_err.splits stream_end.splits)
    qed
  qed
  then show "length (rd_rest r') + length line = length (rd_rest r) + length acc" "line \<noteq> []" "rd_end r' = rd_end r"
    by simp_all
qed

text \<open>The outer loop of \<open>ReadFrame\<close>: blank lines are skipped.\<close>

function nd_frames :: "'w framerBase \<Rightarrow> reader \<Rightarrow> (ferr + bytes) \<times> reader" where
  "nd_frames b r =
     (case nd_line b r [] of
        (Inl e, r') \<Rightarrow> (Inl e, r')
      | (Inr acc, r') \<Rightarrow>
          (let line = trimEOL acc in
           if length line = 0 then nd_frames b r'
           else if int (length line) > fb_maxSize b then (Inl (limitErr b), r')
           else if length line \<ge> length contentLengthPrefix \<and>
                EqualFold (take (length contentLengthPrefix) line) contentLengthPrefix
             then (Inl (FText (''jsonrpcstdio: read a Content-Length header inside NDJSON framing ('' @
                     quoteTrunc line @ ''); peer appears to use Content-Length framing '' @
                     ''(did you mean FramingContentLength?)'')), r')
           else (Inr line, r')))"
  by pat_completeness auto
termination
proof -
  have dec: "length (rd_rest r') < length (rd_rest r)" if "(Inr acc, r') = nd_line b r []"
    for b :: "'x framerBase" and r acc r'
    using nd_line_shorter(1,2)[OF that[symmetric]] by (cases acc) simp_all
  show ?thesis
    by (relation "measure (\<lambda>(b, r). length (rd_rest r))") (use dec in auto)
qed

declare nd_frames.simps [simp del]

definition nd_ReadFrame :: "'w framerBase \<Rightarrow> (ferr + bytes) \<times> 'w framerBase" where
  "nd_ReadFrame b0 =
     (let b = begin_stream b0 in case nd_frames b (fb_r b) of (res, r') \<Rightarrow> (res, b\<lparr>fb_r := r'\<rparr>))"

text \<open>What is put on the wire for a message, before the final newline.\<close>

definition nd_payload :: "bytes \<Rightarrow> ferr + bytes" where
  "nd_payload data =
     (if IndexByte data LF \<noteq> None then
        (case Compact data of
           Some buf \<Rightarrow>
             if IndexByte buf LF \<noteq> None
             then Inl (FUnframeable ''message contains a raw newline and is not valid JSON'')
             else Inr buf
         | None \<Rightarrow> Inl (FUnframeable ''message contains a raw newline and is not valid JSON''))
      else Inr data)"

definition nd_WriteFrame :: "'w writer \<Rightarrow> bytes \<Rightarrow> 'w framerBase \<Rightarrow> ferr option \<times> 'w framerBase" where
  "nd_WriteFrame wr data b =
     (case nd_payload data of
        Inl e \<Rightarrow> (Some e, b)
      | Inr data' \<Rightarrow> (case writeAll wr [data', [LF]] (fb_w b) of (e, w') \<Rightarrow> (e, b\<lparr>fb_w := w'\<rparr>)))"

section \<open>The framing of a connection\<close>

text \<open>\<open>type Framing uint8\<close>: the zero value is invalid.\<close>

type_synonym framing_id = "8 word"

definition FramingContentLength :: framing_id where "FramingContentLength = 1"
definition FramingNDJSON :: framing_id where "FramingNDJSON = 2"

definition Framing_String :: "framing_id \<Rightarrow> bytes" where
  "Framing_String f =
     (if f = FramingContentLength then ''FramingContentLength''
      else if f = FramingNDJSON then ''FramingNDJSON''
      else ''Framing('' @ itoa (uint f) @ '')'')"

definition Framing_valid :: "framing_id \<Rightarrow> bool" where
  "Framing_valid f \<longleftrightarrow> f = FramingContentLength \<or> f = FramingNDJSON"

definition errInvalidFraming :: "framing_id \<Rightarrow> ferr" where
  "errInvalidFraming f = FText (''jsonrpcstdio: invalid framing '' @ Framing_String f @
     '': must be FramingContentLength or FramingNDJSON'')"

datatype 'w framer = ContentLengthFramer "'w framerBase" | NdjsonFramer "'w framerBase"

text \<open>\<open>None\<close> is the panic on an invalid framing.\<close>

definition newFramer :: "framing_id \<Rightarrow> reader \<Rightarrow> 'w \<Rightarrow> int \<Rightarrow> bytes \<Rightarrow> 'w framer option" where
  "newFramer f r w maxSize sizeOpt =
     (let base = \<lparr>fb_r = r, fb_w = w, fb_maxSize = maxSize, fb_sizeOpt = sizeOpt, fb_started = False\<rparr> in
      if f = FramingContentLength then Some (ContentLengthFramer base)
      else if f = FramingNDJSON then Some (NdjsonFramer base)
      else None)"

fun ReadFrame :: "'w framer \<Rightarrow> (ferr + bytes) \<times> 'w framer" where
  "ReadFrame (ContentLengthFramer b) = (case cl_ReadFrame b of (res, b') \<Rightarrow> (res, ContentLengthFramer b'))"
| "ReadFrame (NdjsonFramer b) = (case nd_ReadFrame b of (res, b') \<Rightarrow> (res, NdjsonFramer b'))"

fun WriteFrame :: "'w writer \<Rightarrow> bytes \<Rightarrow> 'w framer \<Rightarrow> ferr option \<times> 'w framer" where
  "WriteFrame wr data (ContentLengthFramer b) =
     (case cl_WriteFrame wr data b of (e, b') \<Rightarrow> (e, ContentLengthFramer b'))"
| "WriteFrame wr data (NdjsonFramer b) =
     (case nd_WriteFrame wr data b of (e, b') \<Rightarrow> (e, NdjsonFramer b'))"

end
