(* ===== verification/Serve.thy ===== *)
theory Serve
  imports Framing ClientHelpers "HOL-Library.Multiset"
begin

text \<open>
  The stdio server: the serialized writer of a connection and the pusher (\<open>push.go\<close>), the
  options and the loop of \<open>Serve\<close> (\<open>serve.go\<close>).

  \<open>Serve\<close> is a step machine. A state holds the framer, which the read loop and the writer
  share, the phase of the loop, the frames being dispatched (each holds one slot) and the
  variables the deferred exit looks at. One step is one action of one goroutine between two
  points where they can interleave; writing a response is one step since it happens under the
  writer's mutex. \<open>sv_read\<close>, \<open>sv_dropped\<close> and \<open>sv_sent\<close> are histories: the frames the loop
  has read, the one it gave up on when the connection ended while it waited for a slot, and
  the messages whose write returned nil, each with whether it is a response.
\<close>

section \<open>The writer of a connection\<close>

record 'w conn =
  cn_fr :: "'w framer"
  cn_closed :: bool

definition errWriterClosed :: ferr where
  "errWriterClosed = FText ''jsonrpcstdio: connection closed''"

text \<open>\<open>connWriter.write\<close>: the error, the error handed to \<open>fail\<close> (if it is called), the state.\<close>

definition conn_write :: "'w writer \<Rightarrow> bytes \<Rightarrow> 'w conn \<Rightarrow> (ferr option \<times> ferr option) \<times> 'w conn" where
  "conn_write wr frame c =
     (if cn_closed c then ((Some errWriterClosed, None), c)
      else case WriteFrame wr frame (cn_fr c) of
          (None, f) \<Rightarrow> ((None, None), c\<lparr>cn_fr := f\<rparr>)
        | (Some (FUnframeable t), f) \<Rightarrow> ((Some (FUnframeable t), None), c\<lparr>cn_fr := f\<rparr>)
        | (Some e, f) \<Rightarrow> ((Some e, Some e), c\<lparr>cn_fr := f, cn_closed := True\<rparr>))"

definition conn_close :: "'w conn \<Rightarrow> 'w conn" where
  "conn_close c = c\<lparr>cn_closed := True\<rparr>"

fun conn_writes :: "'w writer \<Rightarrow> bytes list \<Rightarrow> 'w conn \<Rightarrow> ferr option list \<times> 'w conn" where
  "conn_writes wr [] c = ([], c)"
| "conn_writes wr (m # ms) c =
     (case conn_write wr m c of ((e, _), c1) \<Rightarrow>
        case conn_writes wr ms c1 of (es, c2) \<Rightarrow> (e # es, c2))"

text \<open>
  The frame of a request or notification, as \<open>stdioPusher.Notify\<close> and \<open>Client.send\<close> build it;
  \<open>what\<close> names it in the error text.
\<close>

definition request_frame :: "'j jwriter \<Rightarrow> bytes \<Rightarrow> bytes \<Rightarrow> goany \<Rightarrow> slice \<Rightarrow> 't call_err + bytes" where
  "request_frame jw what method params v =
     (case MarshalParams params of
        Inl e \<Rightarrow> Inl (ErrWrap ''jsonrpcstdio: marshal params: ''
            (case e :: ferr call_err of ErrWrap p t \<Rightarrow> p @ t | _ \<Rightarrow> []))
      | Inr rawParams \<Rightarrow>
          (case Request_MarshalJSON jw \<lparr>rq_Version = Version, rq_Method = method,
                  rq_Params = rawParams, rq_ID = v\<rparr> of
             Inl e \<Rightarrow> Inl (ErrWrap (''jsonrpcstdio: marshal '' @ what @ '': '') e)
           | Inr frame \<Rightarrow> Inr frame))"

section \<open>Options\<close>

definition DefaultMaxMessageSize :: int where "DefaultMaxMessageSize = 8 * 2 ^ 20"
definition DefaultMaxConcurrentCalls :: int where "DefaultMaxConcurrentCalls = 1"

record server =
  sr_maxMessageSize :: int
  sr_maxCalls :: int

definition WithMaxMessageSize :: "int \<Rightarrow> server \<Rightarrow> server" where
  "WithMaxMessageSize n s = (if n > 0 then s\<lparr>sr_maxMessageSize := n\<rparr> else s)"

definition WithMaxConcurrentCalls :: "int \<Rightarrow> server \<Rightarrow> server" where
  "WithMaxConcurrentCalls n s = (if n > 0 then s\<lparr>sr_maxCalls := n\<rparr> else s)"

section \<open>The loop\<close>

datatype serve_err = ServeFrame ferr | ServeCtx ctx_err

datatype phase =
    AtCheck
  | Reading
  | Got bytes
  | Exiting
  | Draining
  | Returned "serve_err option"

record 'w serve =
  sv_conn :: "'w conn"
  sv_phase :: phase
  sv_ctx :: "ctx_err option"
  sv_canceled :: bool
  sv_connErr :: "ferr option"
  sv_readErr :: "ferr option"
  sv_eofClean :: bool
  sv_running :: "bytes list"
  sv_read :: "bytes list"
  sv_dropped :: "bytes list"
  sv_sent :: "(bool \<times> bytes) list"

text \<open>\<open>connCtx.Err() != nil\<close>.\<close>

definition conn_done :: "'w serve \<Rightarrow> bool" where
  "conn_done s \<longleftrightarrow> sv_canceled s \<or> sv_ctx s \<noteq> None"

text \<open>\<open>fail\<close>, through its \<open>sync.Once\<close>.\<close>

definition serve_fail :: "ferr \<Rightarrow> 'w serve \<Rightarrow> 'w serve" where
  "serve_fail e s =
     (case sv_connErr s of
        Some _ \<Rightarrow> s
      | None \<Rightarrow> s\<lparr>sv_connErr := Some e, sv_canceled := True\<rparr>)"

text \<open>A write through the connection's writer, by a dispatch or a pusher.\<close>

definition serve_write :: "'w writer \<Rightarrow> bool \<Rightarrow> bytes \<Rightarrow> 'w serve \<Rightarrow> 'w serve" where
  "serve_write wr response frame s =
     (case conn_write wr frame (sv_conn s) of ((e, failed), c) \<Rightarrow>
        let s1 = s\<lparr>sv_conn := c,
                  sv_sent := (if e = None then sv_sent s @ [(response, frame)] else sv_sent s)\<rparr>
        in case failed of None \<Rightarrow> s1 | Some x \<Rightarrow> serve_fail x s1)"

text \<open>The end of \<open>dispatch\<close>: an empty reply writes nothing.\<close>

definition serve_reply :: "'w writer \<Rightarrow> slice \<Rightarrow> 'w serve \<Rightarrow> 'w serve" where
  "serve_reply wr resp s = (if slice_len resp = 0 then s else serve_write wr True (slice_bytes resp) s)"

text \<open>What \<open>ReadFrame\<close> returned, in the loop.\<close>

definition after_read :: "(ferr + bytes) \<times> 'w framer \<Rightarrow> 'w serve \<Rightarrow> 'w serve" where
  "after_read r s =
     (case r of (res, f) \<Rightarrow>
        let s1 = s\<lparr>sv_conn := (sv_conn s)\<lparr>cn_fr := f\<rparr>\<rparr> in
        case res of
          Inl e \<Rightarrow>
            (if e \<noteq> FEOF then s1\<lparr>sv_readErr := Some e, sv_phase := Exiting\<rparr>
             else if sv_ctx s = None then s1\<lparr>sv_eofClean := True, sv_phase := Exiting\<rparr>
             else s1\<lparr>sv_phase := Exiting\<rparr>)
        | Inr frame \<Rightarrow> s1\<lparr>sv_phase := Got frame, sv_read := sv_read s @ [frame]\<rparr>)"

text \<open>The result the deferred exit picks.\<close>

definition serve_result :: "'w serve \<Rightarrow> serve_err option" where
  "serve_result s =
     (case sv_connErr s of
        Some e \<Rightarrow> Some (ServeFrame e)
      | None \<Rightarrow>
          if sv_eofClean s then None
          else (case sv_ctx s of
              Some e \<Rightarrow> Some (ServeCtx e)
            | None \<Rightarrow> map_option ServeFrame (sv_readErr s)))"

definition panic_err :: "bytes \<Rightarrow> ferr" where
  "panic_err v = FText (''jsonrpcstdio: internal panic: '' @ v)"

text \<open>
  \<open>replies frame resp\<close> says that \<open>HandleRPCJSONRawMessage\<close> may answer \<open>frame\<close> with \<open>resp\<close>.
\<close>

inductive serve_step :: "'w writer \<Rightarrow> int \<Rightarrow> (bytes \<Rightarrow> slice \<Rightarrow> bool) \<Rightarrow> 'w serve \<Rightarrow> 'w serve \<Rightarrow> bool"
  for wr maxCalls replies where
  ctx_ends: "sv_ctx s = None \<Longrightarrow> serve_step wr maxCalls replies s (s\<lparr>sv_ctx := Some e\<rparr>)"
| stop: "sv_phase s = AtCheck \<Longrightarrow> conn_done s \<Longrightarrow>
    serve_step wr maxCalls replies s (s\<lparr>sv_phase := Exiting\<rparr>)"
| go_on: "sv_phase s = AtCheck \<Longrightarrow> \<not> conn_done s \<Longrightarrow>
    serve_step wr maxCalls replies s (s\<lparr>sv_phase := Reading\<rparr>)"
| reading: "sv_phase s = Reading \<Longrightarrow>
    serve_step wr maxCalls replies s (after_read (ReadFrame (cn_fr (sv_conn s))) s)"
| inline: "maxCalls = 1 \<Longrightarrow> sv_phase s = Got frame \<Longrightarrow> replies frame resp \<Longrightarrow>
    serve_step wr maxCalls replies s ((serve_reply wr resp s)\<lparr>sv_phase := AtCheck\<rparr>)"
| inline_panic: "maxCalls = 1 \<Longrightarrow> sv_phase s = Got frame \<Longrightarrow>
    serve_step wr maxCalls replies s ((serve_fail (panic_err v) s)\<lparr>sv_phase := Exiting\<rparr>)"
| spawn: "maxCalls \<noteq> 1 \<Longrightarrow> sv_phase s = Got frame \<Longrightarrow> int (length (sv_running s)) < maxCalls \<Longrightarrow>
    serve_step wr maxCalls replies s (s\<lparr>sv_phase := AtCheck, sv_running := sv_running s @ [frame]\<rparr>)"
| give_up: "maxCalls \<noteq> 1 \<Longrightarrow> sv_phase s = Got frame \<Longrightarrow> conn_done s \<Longrightarrow>
    serve_step wr maxCalls replies s (s\<lparr>sv_phase := Exiting, sv_dropped := sv_dropped s @ [frame]\<rparr>)"
| finish: "sv_running s = xs @ frame # ys \<Longrightarrow> replies frame resp \<Longrightarrow>
    serve_step wr maxCalls replies s ((serve_reply wr resp s)\<lparr>sv_running := xs @ ys\<rparr>)"
| task_panic: "sv_running s = xs @ frame # ys \<Longrightarrow>
    serve_step wr maxCalls replies s ((serve_fail (panic_err v) s)\<lparr>sv_running := xs @ ys\<rparr>)"
| push: "serve_step wr maxCalls replies s (serve_write wr False frame s)"
| drain: "sv_phase s = Exiting \<Longrightarrow>
    serve_step wr maxCalls replies s
      (s\<lparr>sv_phase := Draining, sv_canceled := (sv_canceled s \<or> \<not> sv_eofClean s)\<rparr>)"
| return: "sv_phase s = Draining \<Longrightarrow> sv_running s = [] \<Longrightarrow>
    serve_step wr maxCalls replies s
      (s\<lparr>sv_conn := conn_close (sv_conn s), sv_phase := Returned (serve_result s)\<rparr>)"

text \<open>
  \<open>Serve\<close> up to its loop: \<open>ctxErr\<close> is \<open>ctx.Err()\<close> on entry, \<open>None\<close> a nil argument.
\<close>

definition Serve_start :: "bool \<Rightarrow> framing_id \<Rightarrow> reader option \<Rightarrow> 'w option \<Rightarrow> (server \<Rightarrow> server) list \<Rightarrow>
    ctx_err option \<Rightarrow> ferr + server \<times> 'w serve" where
  "Serve_start rpcNil framing r w opts ctxErr =
     (if rpcNil then Inl (FText ''jsonrpcstdio: rpc must not be nil'')
      else if \<not> Framing_valid framing then Inl (errInvalidFraming framing)
      else case (r, w) of
          (Some r', Some w') \<Rightarrow>
            (let s = fold (\<lambda>opt s. opt s) opts
                   \<lparr>sr_maxMessageSize = DefaultMaxMessageSize, sr_maxCalls = DefaultMaxConcurrentCalls\<rparr>
             in Inr (s, \<lparr>sv_conn = \<lparr>cn_fr = the (newFramer framing r' w' (sr_maxMessageSize s) ''WithMaxMessageSize''),
                          cn_closed = False\<rparr>,
                        sv_phase = AtCheck, sv_ctx = ctxErr, sv_canceled = False, sv_connErr = None,
                        sv_readErr = None, sv_eofClean = False, sv_running = [], sv_read = [],
                        sv_dropped = [], sv_sent = []\<rparr>))
        | _ \<Rightarrow> Inl (FText ''jsonrpcstdio: reader and writer must not be nil''))"

end
