(* ===== verification/StdioClient.thy ===== *)
theory StdioClient
  imports Correlator Serve
begin

text \<open>
  The stdio client (\<open>jsonrpcstdio/client.go\<close>): calls from any number of goroutines over one
  stream, the read loop that routes the responses, and the shutdown.

  The client is a step machine. A goroutine inside \<open>Call\<close> or \<open>Notify\<close> that has passed the
  closed check is in \<open>cl_entering\<close>; a registered call has a phase. \<open>cl_closers\<close> are the
  \<open>shutdown\<close> calls that \<open>Close\<close> and the read loop make after they have latched the writer.
  \<open>cl_notified\<close> is a history of what was handed to the notification handler.
\<close>

datatype client_err = ClosedErr "ferr option" | WriteErr ferr

record 'w client =
  cl_conn :: "'w conn"
  cl_core :: core
  cl_phases :: "client_err cphase list"
  cl_entering :: "(bool \<times> bytes \<times> goany) list"
  cl_onNotify :: bool
  cl_cause :: "ferr option"
  cl_closed :: bool
  cl_closers :: "ferr option list"
  cl_reader :: rphase
  cl_notified :: "(bytes \<times> slice) list"

section \<open>Construction\<close>

definition DefaultClientMaxMessageSize :: int where "DefaultClientMaxMessageSize = 16 * 2 ^ 20"

record client_config =
  cc_maxMessageSize :: int
  cc_onNotify :: bool

definition WithNotificationHandler :: "bool \<Rightarrow> client_config \<Rightarrow> client_config" where
  "WithNotificationHandler h c = c\<lparr>cc_onNotify := h\<rparr>"

definition WithClientMaxMessageSize :: "int \<Rightarrow> client_config \<Rightarrow> client_config" where
  "WithClientMaxMessageSize n c = (if n > 0 then c\<lparr>cc_maxMessageSize := n\<rparr> else c)"

definition NewClient :: "framing_id \<Rightarrow> reader option \<Rightarrow> 'w option \<Rightarrow> (client_config \<Rightarrow> client_config) list \<Rightarrow>
    ferr + 'w client" where
  "NewClient framing r w opts =
     (if \<not> Framing_valid framing then Inl (errInvalidFraming framing)
      else case (r, w) of
          (Some r', Some w') \<Rightarrow>
            (let cfg = fold (\<lambda>opt c. opt c) opts \<lparr>cc_maxMessageSize = DefaultClientMaxMessageSize, cc_onNotify = False\<rparr>
             in Inr \<lparr>cl_conn = \<lparr>cn_fr = the (newFramer framing r' w' (cc_maxMessageSize cfg) ''WithClientMaxMessageSize''),
                       cn_closed = False\<rparr>,
                     cl_core = core_init, cl_phases = [], cl_entering = [], cl_onNotify = cc_onNotify cfg,
                     cl_cause = None, cl_closed = False, cl_closers = [], cl_reader = RReading, cl_notified = []\<rparr>)
        | _ \<Rightarrow> Inl (FText ''jsonrpcstdio: reader and writer must not be nil''))"

section \<open>Closing\<close>

text \<open>\<open>shutdown\<close>, through its \<open>sync.Once\<close>; \<open>closedErr\<close> is \<open>ErrClientClosed\<close> with the cause.\<close>

definition shutdown :: "ferr option \<Rightarrow> 'w client \<Rightarrow> 'w client" where
  "shutdown cause c =
     (if cl_closed c then c
      else c\<lparr>cl_cause := cause, cl_closed := True, cl_core := failPending (cl_core c)\<rparr>)"

definition closedErr :: "'w client \<Rightarrow> client_err call_err" where
  "closedErr c = ErrTransport (ClosedErr (cl_cause c))"

section \<open>Sending\<close>

definition client_write :: "'w writer \<Rightarrow> bytes \<Rightarrow> 'w client \<Rightarrow> ferr option \<times> 'w client" where
  "client_write wr frame c =
     (case conn_write wr frame (cl_conn c) of ((e, failed), n) \<Rightarrow>
        let c1 = c\<lparr>cl_conn := n\<rparr> in
        (e, case failed of None \<Rightarrow> c1 | Some x \<Rightarrow> shutdown (Some x) c1))"

definition client_send :: "'j jwriter \<Rightarrow> 'w writer \<Rightarrow> bytes \<Rightarrow> goany \<Rightarrow> slice \<Rightarrow> 'w client \<Rightarrow>
    client_err call_err option \<times> 'w client" where
  "client_send jw wr method params v c =
     (case request_frame jw ''request'' method params v of
        Inl e \<Rightarrow> (Some e, c)
      | Inr frame \<Rightarrow>
          (case client_write wr frame c of
             (None, c1) \<Rightarrow> (None, c1)
           | (Some e, c1) \<Rightarrow>
               (Some (if e = errWriterClosed then closedErr c1 else ErrTransport (WriteErr e)), c1)))"

section \<open>Receiving\<close>

definition isRequestFrame :: "'l jlexer \<Rightarrow> bytes \<Rightarrow> bool option" where
  "isRequestFrame lx data =
     map_option (\<lambda>(req, err). err = None \<and> rq_Method req \<noteq> []) (Request_UnmarshalJSON lx zero_request data)"

definition handlePush :: "'l jlexer \<Rightarrow> bytes \<Rightarrow> 'w client \<Rightarrow> 'w client option" where
  "handlePush lx data c =
     (if \<not> cl_onNotify c then Some c
      else map_option (\<lambda>(req, err). if err \<noteq> None \<or> rq_Method req = [] then c
             else c\<lparr>cl_notified := cl_notified c @ [(rq_Method req, rq_Params req)]\<rparr>)
           (Request_UnmarshalJSON lx zero_request data))"

text \<open>The body of the read loop after the closed check; \<open>None\<close> if a decoder never returns.\<close>

definition handle_frame :: "'l jlexer \<Rightarrow> bytes \<Rightarrow> 'w client \<Rightarrow> 'w client option" where
  "handle_frame lx data0 c =
     (let data = TrimSpace data0 in
      if length data = 0 then Some c
      else if data ! 0 = LBRACK then Some c
      else case Response_UnmarshalJSON lx zero_response data of
          None \<Rightarrow> None
        | Some (resp, Some err) \<Rightarrow> Some c
        | Some (resp, None) \<Rightarrow>
            (let c = c\<lparr>cl_core := seen resp (cl_core c)\<rparr> in
             if slice_len (rs_ID resp) = 0 \<and> rs_Error resp = None then handlePush lx data c
             else (let probe = (if rs_Error resp = None \<and> rs_Result resp = None \<and> slice_len (rs_ID resp) \<noteq> 0
                                then isRequestFrame lx data else Some False)
               in case probe of
                    None \<Rightarrow> None
                  | Some True \<Rightarrow> Some c
                  | Some False \<Rightarrow> Some (c\<lparr>cl_core := route resp (cl_core c)\<rparr>))))"

section \<open>The client\<close>

definition call_id :: "nat \<Rightarrow> 'w client \<Rightarrow> bytes" where
  "call_id i c = ca_id (co_calls (cl_core c) ! i)"

definition finish_call :: "nat \<Rightarrow> client_err call_err + slice \<Rightarrow> response option \<Rightarrow> 'w client \<Rightarrow> 'w client" where
  "finish_call i r got c = c\<lparr>cl_phases := (cl_phases c)[i := CDone r got]\<rparr>"

definition begin_call :: "bytes \<Rightarrow> goany \<Rightarrow> 'w client \<Rightarrow> 'w client" where
  "begin_call method params c =
     (case nextID (cl_core c) of (v, core) \<Rightarrow>
        c\<lparr>cl_core := register (slice_bytes v) core, cl_phases := cl_phases c @ [CSending method params]\<rparr>)"

definition send_call :: "'j jwriter \<Rightarrow> 'w writer \<Rightarrow> nat \<Rightarrow> bytes \<Rightarrow> goany \<Rightarrow> 'w client \<Rightarrow> 'w client" where
  "send_call jw wr i method params c =
     (case client_send jw wr method params (Some (call_id i c)) c of
        (None, c1) \<Rightarrow> c1\<lparr>cl_phases := (cl_phases c1)[i := CWaiting]\<rparr>
      | (Some e, c1) \<Rightarrow>
          finish_call i (Inl e) None (c1\<lparr>cl_core := unregister (call_id i c1) (cl_core c1)\<rparr>))"

text \<open>\<open>ReadFrame\<close> and the closed check that follows it.\<close>

definition client_read :: "'w client \<Rightarrow> 'w client" where
  "client_read c =
     (case ReadFrame (cn_fr (cl_conn c)) of (res, f) \<Rightarrow>
        let c1 = c\<lparr>cl_conn := (cl_conn c)\<lparr>cn_fr := f\<rparr>\<rparr> in
        case res of
          Inl e \<Rightarrow> c1\<lparr>cl_conn := conn_close (cl_conn c1), cl_reader := RStopped,
                     cl_closers := cl_closers c @ [if e = FEOF then None else Some e]\<rparr>
        | Inr data \<Rightarrow> c1\<lparr>cl_reader := (if cl_closed c then RStopped else RGot data)\<rparr>)"

inductive client_step :: "'j jwriter \<Rightarrow> 'l jlexer \<Rightarrow> 'w writer \<Rightarrow> 'w client \<Rightarrow> 'w client \<Rightarrow> bool"
  for jw lx wr where
  enter: "\<not> cl_closed c \<Longrightarrow>
    client_step jw lx wr c (c\<lparr>cl_entering := cl_entering c @ [(is_call, method, params)]\<rparr>)"
| call_begin: "cl_entering c = xs @ (True, method, params) # ys \<Longrightarrow>
    client_step jw lx wr c (begin_call method params (c\<lparr>cl_entering := xs @ ys\<rparr>))"
| notify: "cl_entering c = xs @ (False, method, params) # ys \<Longrightarrow>
    client_step jw lx wr c (snd (client_send jw wr method params None (c\<lparr>cl_entering := xs @ ys\<rparr>)))"
| call_send: "i < length (cl_phases c) \<Longrightarrow> cl_phases c ! i = CSending method params \<Longrightarrow>
    client_step jw lx wr c (send_call jw wr i method params c)"
| call_recv: "i < length (cl_phases c) \<Longrightarrow> cl_phases c ! i = CWaiting \<Longrightarrow> ca_chan (co_calls (cl_core c) ! i) = r # rs \<Longrightarrow>
    client_step jw lx wr c (finish_call i (response_outcome r) (Some r) (c\<lparr>cl_core := recv_chan i (cl_core c)\<rparr>))"
| call_cancel: "i < length (cl_phases c) \<Longrightarrow> cl_phases c ! i = CWaiting \<Longrightarrow>
    client_step jw lx wr c (finish_call i (Inl (ErrCtx e)) None (c\<lparr>cl_core := unregister (call_id i c) (cl_core c)\<rparr>))"
| call_closed: "i < length (cl_phases c) \<Longrightarrow> cl_phases c ! i = CWaiting \<Longrightarrow> cl_closed c \<Longrightarrow>
    client_step jw lx wr c (finish_call i (Inl (closedErr c)) None c)"
| read: "cl_reader c = RReading \<Longrightarrow> client_step jw lx wr c (client_read c)"
| handle: "cl_reader c = RGot data \<Longrightarrow> handle_frame lx data c = Some c' \<Longrightarrow>
    client_step jw lx wr c (c'\<lparr>cl_reader := RReading\<rparr>)"
| close_begin: "client_step jw lx wr c (c\<lparr>cl_conn := conn_close (cl_conn c), cl_closers := cl_closers c @ [None]\<rparr>)"
| close_end: "cl_closers c = xs @ e # ys \<Longrightarrow>
    client_step jw lx wr c (shutdown e (c\<lparr>cl_closers := xs @ ys\<rparr>))"

end
