(* ===== verification/FramingProps.thy ===== *)
theory FramingProps
  imports Framing ConfigProps CodecProps
begin

text \<open>
  The contract of a framing, as the locale \<open>framing\<close>, and its interpretation on both
  framings of the package: a frame that was written is read back as the same message, the
  stream is left at the next frame boundary, an unframeable message writes nothing, and a
  failed write leaves a prefix of the frame. The properties of reading: what was written
  comes back in order and then a clean end, no frame exceeds the limit, and a clean end
  is never reported with message bytes outstanding.
\<close>

section \<open>Numbers in headers\<close>

lemma digit_val: "n < 10 \<Longrightarrow> byte_val (digit n) = 0x30 + n"
  by (auto simp: byte_val_def digit_def numeral_eq_Suc less_Suc_eq)

lemma digit_plain: "n < 10 \<Longrightarrow> digit n \<notin> {CHR ''+'', CHR ''-'', LF, CR, SPACE, COLON, CHR 0xEF}"
  by (auto simp: digit_def numeral_eq_Suc less_Suc_eq)

lemma dec_val_digits: "dec_val (nat_digits n) = n"
proof (induction n rule: nat_digits.induct)
  case (1 n)
  show ?case
  proof (cases "n < 10")
    case True
    then show ?thesis by (simp add: nat_digits.simps[of n] dec_val_def digit_val)
  next
    case False
    with 1 have "dec_val (nat_digits (n div 10)) = n div 10" by simp
    then have "dec_val (nat_digits n) = n div 10 * 10 + n mod 10"
      using False by (simp add: nat_digits.simps[of n] dec_val_def digit_val)
    then show ?thesis by simp
  qed
qed

lemma nat_digits_all: "(\<And>d. d < 10 \<Longrightarrow> P (digit d)) \<Longrightarrow> list_all P (nat_digits n)"
proof (induction n rule: nat_digits.induct)
  case (1 n)
  then show ?case by (cases "n < 10") (simp_all add: nat_digits.simps[of n])
qed

lemma nat_digits_ne [simp]: "nat_digits n \<noteq> []"
  by (subst nat_digits.simps) simp

lemma nat_digits_hd: "\<exists>d < 10. hd (nat_digits n) = digit d"
proof (induction n rule: nat_digits.induct)
  case (1 n)
  then show ?case by (cases "n < 10") (auto simp: nat_digits.simps[of n])
qed

lemma nat_digits_last: "\<exists>d < 10. last (nat_digits n) = digit d"
  by (subst nat_digits.simps) (auto intro: exI[of _ "n mod 10"])

lemma nat_digits_length: "n < 10 ^ Suc k \<Longrightarrow> length (nat_digits n) \<le> Suc k"
proof (induction k arbitrary: n)
  case 0
  then show ?case by (simp add: nat_digits.simps[of n])
next
  case (Suc k)
  then have "n div 10 < 10 ^ Suc k" by (simp add: less_mult_imp_div_less)
  from Suc.IH[OF this] show ?case by (simp add: nat_digits.simps[of n])
qed

lemma ParseInt64_itoa:
  assumes "n < 2 ^ 63"
  shows "ParseInt64 (itoa (int n)) = Some (int n)"
proof -
  obtain d where "d < 10" "hd (nat_digits n) = digit d" using nat_digits_hd by blast
  with digit_plain have "hd (nat_digits n) \<notin> {CHR ''+'', CHR ''-''}" by auto
  moreover have "list_all isDigit (nat_digits n)" by (rule nat_digits_all) (rule digit_isDigit)
  moreover have "\<not> (2 ^ 63 :: int) \<le> int n" using assms by simp
  ultimately show ?thesis by (simp add: ParseInt64_def itoa_def dec_val_digits)
qed

section \<open>Lines\<close>

lemma IndexByte_append: "c \<notin> set xs \<Longrightarrow> IndexByte (xs @ c # ys) c = Some (length xs)"
proof -
  assume "c \<notin> set xs"
  then have "takeWhile (\<lambda>b. b \<noteq> c) (xs @ c # ys) = xs"
    by (subst takeWhile_append2) auto
  then show ?thesis by (simp add: IndexByte_def)
qed

lemma IndexByte_None_iff: "IndexByte xs c = None \<longleftrightarrow> c \<notin> set xs"
proof
  assume "c \<notin> set xs"
  then have "takeWhile (\<lambda>b. b \<noteq> c) xs = xs" by (simp add: takeWhile_eq_all_conv) blast
  then show "IndexByte xs c = None" by (simp only: IndexByte_def Let_def) simp
next
  show "IndexByte xs c = None \<Longrightarrow> c \<notin> set xs"
    using IndexByte_append by (metis option.distinct(1) split_list_first)
qed

lemma ReadSlice_line:
  assumes "LF \<notin> set l" "length l < readerBufferSize" "rd_rest r = l @ LF # rest"
  shows "ReadSlice LF r = (l @ [LF], None, r\<lparr>rd_rest := rest\<rparr>)"
proof -
  define k where "k = readerBufferSize - length l - 1"
  have t: "take readerBufferSize (rd_rest r) = l @ LF # take k rest"
    using assms by (simp add: k_def take_Cons')
  have i: "IndexByte (l @ LF # take k rest) LF = Some (length l)"
    using assms(1) by (rule IndexByte_append)
  show ?thesis
    unfolding ReadSlice_def Let_def t i using assms(3) by (simp add: Discard_def)
qed

lemma ReadSlice_full:
  assumes "LF \<notin> set (take readerBufferSize l)" "readerBufferSize \<le> length l" "rd_rest r = l @ rest"
  shows "ReadSlice LF r = (take readerBufferSize l, Some ErrBufferFull, r\<lparr>rd_rest := drop readerBufferSize l @ rest\<rparr>)"
  using assms by (simp add: ReadSlice_def Let_def IndexByte_None_iff[THEN iffD2] Discard_def)

lemma trimEOL_crlf: "trimEOL (l @ [CR, LF]) = l"
  by (simp add: trimEOL_def butlast_append)

lemma trimEOL_lf: "(l = [] \<or> last l \<noteq> CR) \<Longrightarrow> trimEOL (l @ [LF]) = l"
  by (auto simp: trimEOL_def)

lemma begin_stream_plain:
  assumes "rd_rest (fb_r b) = [] \<or> hd (rd_rest (fb_r b)) \<noteq> CHR 0xEF"
  shows "begin_stream b = b\<lparr>fb_started := True\<rparr>"
  using assms by (cases "rd_rest (fb_r b)") (auto simp: begin_stream_def Peek_def split: prod.splits option.splits)

lemma begin_stream_fields [simp]:
  "fb_w (begin_stream b) = fb_w b" "fb_maxSize (begin_stream b) = fb_maxSize b"
  "fb_sizeOpt (begin_stream b) = fb_sizeOpt b" "rd_end (fb_r (begin_stream b)) = rd_end (fb_r b)"
  by (auto simp: begin_stream_def Discard_def Let_def split: prod.splits option.splits)

section \<open>Reading a Content-Length frame\<close>

lemma space_runes_outside:
  "w \<in> set space_runes \<Longrightarrow> \<not> (0x21 \<le> byte_val (hd w) \<and> byte_val (hd w) < 0x80) \<and>
     \<not> (0x21 \<le> byte_val (last w) \<and> byte_val (last w) < 0x80)"
  by (auto simp: space_runes_def byte_val_def)

lemma no_first_space:
  assumes "bs \<noteq> []" "0x21 \<le> byte_val (hd bs)" "byte_val (hd bs) < 0x80"
  shows "first_space bs = None"
proof -
  have "\<not> has_prefix bs w" if "w \<in> set space_runes" for w
    using space_runes_outside[OF that] space_runes_nonempty[OF that] assms
    by (cases bs; cases w) auto
  then show ?thesis by (simp add: first_space_def find_None_iff)
qed

lemma no_last_space:
  assumes "bs \<noteq> []" "0x21 \<le> byte_val (last bs)" "byte_val (last bs) < 0x80"
  shows "last_space bs = None"
proof -
  have "\<not> has_prefix (rev bs) (rev w)" if "w \<in> set space_runes" for w
    using space_runes_outside[OF that] space_runes_nonempty[OF that] assms
    by (cases bs rule: rev_cases; cases w rule: rev_cases) auto
  then show ?thesis by (simp add: last_space_def find_None_iff)
qed

lemma TrimSpace_plain:
  assumes "bs \<noteq> []" "0x21 \<le> byte_val (hd bs)" "byte_val (hd bs) < 0x80"
    "0x21 \<le> byte_val (last bs)" "byte_val (last bs) < 0x80"
  shows "TrimSpace bs = bs" "TrimSpace (SPACE # bs) = bs"
proof -
  have "first_space (SPACE # bs) = Some [SPACE]"
    by (simp add: first_space_def space_runes_def)
  then have t: "trim_left bs = bs" "trim_left (SPACE # bs) = bs"
    using no_first_space[OF assms(1-3)] by (simp_all add: trim_left.simps)
  show "TrimSpace bs = bs" "TrimSpace (SPACE # bs) = bs"
    using no_last_space[OF assms(1,4,5)] by (simp_all add: TrimSpace_def t trim_right.simps)
qed

lemma TrimSpace_digits: "TrimSpace (SPACE # nat_digits n) = nat_digits n"
proof -
  obtain d where "d < 10" "hd (nat_digits n) = digit d" using nat_digits_hd by blast
  moreover obtain e where "e < 10" "last (nat_digits n) = digit e" using nat_digits_last by blast
  ultimately show ?thesis by (intro TrimSpace_plain) (simp_all add: digit_val)
qed

lemma header_line_split:
  "IndexByte (''Content-Length: '' @ ds) COLON = Some 14"
  "take 14 (''Content-Length: '' @ ds) = ''Content-Length''"
  "drop (Suc 14) (''Content-Length: '' @ ds) = SPACE # ds"
  using IndexByte_append[of COLON "''Content-Length''" "SPACE # ds"] by simp_all

lemma clHeaderName_trimmed [simp]: "EqualFold (TrimSpace ''Content-Length'') clHeaderName"
proof -
  have "TrimSpace ''Content-Length'' = ''Content-Length''"
    by (rule TrimSpace_plain) (simp_all add: byte_val_def)
  then show ?thesis by (simp add: EqualFold_def clHeaderName_def)
qed

lemma readHeaderLine_line:
  assumes "LF \<notin> set l" "length l < readerBufferSize" "rd_rest r = l @ LF # rest"
  shows "readHeaderLine a r = (Inr (l @ [LF]), r\<lparr>rd_rest := rest\<rparr>)"
  using ReadSlice_line[OF assms] by (simp add: readHeaderLine_def)

lemma cl_headers_written:
  assumes "n < 2 ^ 63" "int n \<le> fb_maxSize b" "rd_rest r = cl_header n @ rest"
  shows "cl_headers b r (-1) 0 True = (Inr (int n), r\<lparr>rd_rest := rest\<rparr>)"
proof -
  let ?l = "''Content-Length: '' @ nat_digits n"
  have it: "itoa (int n) = nat_digits n" by (simp add: itoa_def)
  have len: "length (nat_digits n) \<le> 19"
    using nat_digits_length[of n 18] assms(1) by simp
  have "LF \<notin> set (nat_digits n)"
    using nat_digits_all[of "\<lambda>c. c \<noteq> LF" n] digit_plain by (auto simp: list_all_iff)
  then have rl: "readHeaderLine True r = (Inr (?l @ [CR, LF]), r\<lparr>rd_rest := [CR, LF] @ rest\<rparr>)"
    using readHeaderLine_line[of "?l @ [CR]" r "[CR, LF] @ rest" True] assms(3) len
    by (simp add: cl_header_def it readerBufferSize_def)
  have bl: "readHeaderLine False (r\<lparr>rd_rest := [CR, LF] @ rest\<rparr>) = (Inr [CR, LF], r\<lparr>rd_rest := rest\<rparr>)"
    using readHeaderLine_line[of "[CR]" "r\<lparr>rd_rest := [CR, LF] @ rest\<rparr>" rest False]
    by (simp add: readerBufferSize_def)
  have blank: "cl_headers b (r\<lparr>rd_rest := [CR, LF] @ rest\<rparr>) (int n) (length ?l + 2) False
      = (Inr (int n), r\<lparr>rd_rest := rest\<rparr>)"
    using len trimEOL_crlf[of "[]"]
    by (subst cl_headers.simps, subst bl) (simp add: maxHeaderBytes_def)
  have ts: "TrimSpace ('' '' @ nat_digits n) = nat_digits n" using TrimSpace_digits by simp
  show ?thesis
    using len blank ParseInt64_itoa[OF assms(1)] assms(2) trimEOL_crlf[of ?l]
    by (subst cl_headers.simps, subst rl)
      (simp add: maxHeaderBytes_def header_line_split ts it Let_def del: append_Cons)
qed

lemma cl_ReadFrame_written:
  assumes "length m < 2 ^ 63" "int (length m) \<le> fb_maxSize b" "rd_rest (fb_r b) = cl_header (length m) @ m @ rest"
  shows "cl_ReadFrame b = (Inr m, b\<lparr>fb_started := True, fb_r := (fb_r b)\<lparr>rd_rest := rest\<rparr>\<rparr>)"
proof -
  have c: "rd_rest (fb_r b) = CHR ''C'' # drop 1 (rd_rest (fb_r b))"
    using assms(3) by (simp add: cl_header_def)
  have bg: "begin_stream b = b\<lparr>fb_started := True\<rparr>" by (rule begin_stream_plain) (subst c, simp)
  have pk: "Peek (Suc 0) (fb_r b) = (''C'', None)" by (simp add: Peek_def assms(3) cl_header_def)
  have hd: "cl_headers (b\<lparr>fb_started := True\<rparr>) (fb_r b) (-1) 0 True =
      (Inr (int (length m)), (fb_r b)\<lparr>rd_rest := m @ rest\<rparr>)"
    by (rule cl_headers_written) (use assms in simp_all)
  show ?thesis
    by (simp add: cl_ReadFrame_def Let_def bg pk hd cl_body_def ReadFull_def Discard_def)
qed

section \<open>Reading a line\<close>

lemma nd_line_written:
  assumes "LF \<notin> set l" "int (length acc + length l) - 1 \<le> fb_maxSize b" "rd_rest r = l @ LF # rest"
  shows "nd_line b r acc = (Inr (acc @ l @ [LF]), r\<lparr>rd_rest := rest\<rparr>)"
  using assms
proof (induction "length l" arbitrary: l acc r rule: less_induct)
  case less
  show ?case
  proof (cases "length l < readerBufferSize")
    case True
    from ReadSlice_line[OF less.prems(1) True less.prems(3)] less.prems(2) show ?thesis
      by (subst nd_line.simps) simp
  next
    case False
    let ?c = "take readerBufferSize l" and ?l = "drop readerBufferSize l"
    have nl: "LF \<notin> set ?c" "LF \<notin> set ?l" using less.prems(1) by (meson in_set_takeD in_set_dropD)+
    from False nl(1) less.prems(3)
    have rs: "ReadSlice LF r = (?c, Some ErrBufferFull, r\<lparr>rd_rest := ?l @ LF # rest\<rparr>)"
      by (intro ReadSlice_full) simp_all
    have len: "length ?c + length ?l = length l" "length ?l < length l"
      using False by (simp_all add: readerBufferSize_def)
    have "nd_line b (r\<lparr>rd_rest := ?l @ LF # rest\<rparr>) (acc @ ?c) =
        (Inr ((acc @ ?c) @ ?l @ [LF]), (r\<lparr>rd_rest := ?l @ LF # rest\<rparr>)\<lparr>rd_rest := rest\<rparr>)"
      by (rule less.hyps) (use len nl less.prems(2) in simp_all)
    moreover have "\<not> fb_maxSize b < int (length acc + length ?c) - 2"
      using len less.prems(2) by simp
    ultimately show ?thesis
      by (subst nd_line.simps, subst rs) (simp add: Let_def)
  qed
qed

lemma nd_ReadFrame_written:
  assumes "LF \<notin> set l" "l \<noteq> []" "last l \<noteq> CR" "hd l \<noteq> CHR 0xEF" "int (length l) \<le> fb_maxSize b"
    and "\<not> EqualFold (take (length contentLengthPrefix) l) contentLengthPrefix"
    and "rd_rest (fb_r b) = l @ LF # rest"
  shows "nd_ReadFrame b = (Inr l, b\<lparr>fb_started := True, fb_r := (fb_r b)\<lparr>rd_rest := rest\<rparr>\<rparr>)"
proof -
  have bg: "begin_stream b = b\<lparr>fb_started := True\<rparr>"
    by (rule begin_stream_plain) (use assms(2,4,7) in simp)
  have "nd_line (b\<lparr>fb_started := True\<rparr>) (fb_r b) [] = (Inr (l @ [LF]), (fb_r b)\<lparr>rd_rest := rest\<rparr>)"
    using nd_line_written[of l "[]" "b\<lparr>fb_started := True\<rparr>" "fb_r b" rest] assms(1,5,7) by simp
  moreover have "trimEOL (l @ [LF]) = l" using assms(3) by (simp add: trimEOL_lf)
  ultimately have "nd_frames (b\<lparr>fb_started := True\<rparr>) (fb_r b) = (Inr l, (fb_r b)\<lparr>rd_rest := rest\<rparr>)"
    using assms(2,5,6) by (subst nd_frames.simps) simp
  then show ?thesis by (simp add: nd_ReadFrame_def bg)
qed

section \<open>Compacting\<close>

lemma scan_step_space_op:
  assumes "scan_step s c = (s', op)"
  shows "op = ScanSkipSpace \<Longrightarrow> isSpace c" "op = ScanEnd \<Longrightarrow> \<not> isSpace c \<Longrightarrow> \<not> alive s'"
    "c = LF \<Longrightarrow> op \<in> {ScanError, ScanSkipSpace, ScanEnd}"
  using assms
  by (cases "sc_step s"; force simp: scan_step_def state_fun_defs alive_def byte_val_def char_class_defs Let_def
      split: if_splits list.splits pstate.splits prod.splits)+

lemma compact_no_LF: "compact_loop s cs = Some out \<Longrightarrow> LF \<notin> set out"
proof (induction cs arbitrary: s out)
  case Nil
  then show ?case by (simp split: if_splits)
next
  case (Cons c cs)
  obtain s' op where st: "scan_step s c = (s', op)" by (cases "scan_step s c")
  from Cons.prems st obtain out' where "compact_loop s' cs = Some out'"
    "out = out' \<or> (out = c # out' \<and> op \<notin> {ScanError, ScanSkipSpace, ScanEnd})"
    by (auto split: if_splits)
  with Cons.IH scan_step_space_op(3)[OF st] show ?case by auto
qed

lemma compact_last:
  assumes "compact_loop s (cs @ [c]) = Some out" "\<not> isSpace c"
  shows "out \<noteq> [] \<and> last out = c"
  using assms(1)
proof (induction cs arbitrary: s out)
  case Nil
  obtain s' op where st: "scan_step s c = (s', op)" by (cases "scan_step s c")
  have "op = ScanEnd \<Longrightarrow> compact_loop s' [] = None"
    using scan_step_space_op(2)[OF st] assms(2) compact_loop_dead by blast
  with Nil st assms(2) scan_step_space_op(1)[OF st] show ?case by (auto split: if_splits)
next
  case (Cons d cs)
  obtain s' op where st: "scan_step s d = (s', op)" by (cases "scan_step s d")
  from Cons.prems st obtain out' where "compact_loop s' (cs @ [c]) = Some out'" "out = out' \<or> out = d # out'"
    by (auto split: if_splits)
  with Cons.IH show ?case by auto
qed

lemma compact_shorter: "compact_loop s cs = Some out \<Longrightarrow> length out \<le> length cs"
proof (induction cs arbitrary: s out)
  case (Cons d cs)
  obtain s' op where st: "scan_step s d = (s', op)" by (cases "scan_step s d")
  from Cons.prems st obtain out' where "compact_loop s' cs = Some out'" "out = out' \<or> out = d # out'"
    by (auto split: if_splits)
  with Cons.IH show ?case by force
qed (simp split: if_splits)

lemma compact_defined: "compact_loop s cs \<noteq> None \<longleftrightarrow> checkValid s cs"
  by (induction cs arbitrary: s) (auto split: prod.splits)

lemma compact_hd:
  assumes "Compact (c # cs) = Some out" "c = LBRACE \<or> c = LBRACK"
  shows "out \<noteq> [] \<and> hd out = c"
proof -
  obtain s' op where st: "scan_step scanner_init c = (s', op)" by (cases "scan_step scanner_init c")
  have "snd (scan_step scanner_init LBRACE) = ScanBeginObject" "snd (scan_step scanner_init LBRACK) = ScanBeginArray"
    by (simp_all add: scan_step_def scanner_init_def stateBeginValue_def pushParseState_def
        isSpace_def maxNestingDepth_def)
  then have "op \<notin> {ScanError, ScanSkipSpace, ScanEnd}"
    using assms(2) st by (metis insertE opcode.distinct snd_conv singletonD)
  with assms(1) st obtain out' where "out = c # out'" by (auto simp: Compact_def)
  then show ?thesis by simp
qed

section \<open>The contract of a framing\<close>

text \<open>
  An \<open>io.Writer\<close>: \<open>out\<close> is everything that reached the wire. A write that reports no error
  wrote all its bytes, one that reports an error wrote a prefix of them.
\<close>

definition io_writer :: "'w writer \<Rightarrow> ('w \<Rightarrow> bytes) \<Rightarrow> bool" where
  "io_writer wr out \<longleftrightarrow> (\<forall>w p. case wr w p of (e, w') \<Rightarrow>
     \<exists>q. prefix q p \<and> out w' = out w @ q \<and> (e = None \<longrightarrow> q = p))"

lemma io_writerE:
  assumes "io_writer wr out" "wr w p = (e, w')"
  obtains q where "prefix q p" "out w' = out w @ q" "e = None \<longrightarrow> q = p"
proof -
  have "case wr w p of (e, w') \<Rightarrow> \<exists>q. prefix q p \<and> out w' = out w @ q \<and> (e = None \<longrightarrow> q = p)"
    using assms(1) by (simp add: io_writer_def)
  with assms(2) that show ?thesis by auto
qed

lemma writeAll_prefix:
  assumes "io_writer wr out" "writeAll wr ps w = (e, w')"
  shows "\<exists>q. prefix q (concat ps) \<and> out w' = out w @ q \<and> (e = None \<longrightarrow> q = concat ps) \<and>
    (\<forall>t. e \<noteq> Some (FUnframeable t))"
  using assms(2)
proof (induction ps arbitrary: w)
  case Nil
  then show ?case by simp
next
  case (Cons p ps)
  obtain e1 w1 where w1: "wr w p = (e1, w1)" by (cases "wr w p")
  obtain q where q: "prefix q p" "out w1 = out w @ q" "e1 = None \<longrightarrow> q = p"
    by (rule io_writerE[OF assms(1) w1])
  show ?case
  proof (cases e1)
    case None
    with Cons.prems w1 have "writeAll wr ps w1 = (e, w')" by simp
    from Cons.IH[OF this] q None show ?thesis by auto
  next
    case (Some x)
    with Cons.prems w1 q show ?thesis by (auto intro: exI[of _ q] prefix_prefix)
  qed
qed

text \<open>
  \<open>wire f m\<close> is the frame of the message \<open>m\<close> (\<open>None\<close>: it cannot be framed), \<open>received f m\<close>
  the message a reader gets for it, \<open>sendable f m\<close> that a reader with the settings of \<open>f\<close>
  accepts it, \<open>limit_ok\<close> that its size limit is not negative; \<open>rd\<close> and \<open>wst\<close> are the two ends of the stream.
\<close>

locale framing =
  fixes rd :: "'f \<Rightarrow> reader" and wst :: "'f \<Rightarrow> 'w"
    and wire :: "'f \<Rightarrow> bytes \<Rightarrow> bytes option" and received :: "'f \<Rightarrow> bytes \<Rightarrow> bytes"
    and sendable :: "'f \<Rightarrow> bytes \<Rightarrow> bool" and limit_ok :: "'f \<Rightarrow> bool"
    and read_frame :: "'f \<Rightarrow> (ferr + bytes) \<times> 'f"
    and write_frame :: "'w writer \<Rightarrow> bytes \<Rightarrow> 'f \<Rightarrow> ferr option \<times> 'f"
  assumes read_wire: "sendable f m \<Longrightarrow> wire f m = Some ws \<Longrightarrow> rd_rest (rd f) = ws @ rest \<Longrightarrow>
      \<exists>f'. read_frame f = (Inr (received f m), f') \<and> rd f' = (rd f)\<lparr>rd_rest := rest\<rparr>"
    and read_same: "read_frame f = (res, f') \<Longrightarrow>
      wst f' = wst f \<and> wire f' = wire f \<and> received f' = received f \<and> sendable f' = sendable f \<and>
      limit_ok f' = limit_ok f"
    and read_end: "limit_ok f \<Longrightarrow> rd_rest (rd f) = [] \<Longrightarrow> rd_end (rd f) = StreamEOF \<Longrightarrow> fst (read_frame f) = Inl FEOF"
    and sendable_wire: "sendable f m \<Longrightarrow> wire f m \<noteq> None"
    and write_unframeable: "wire f m = None \<Longrightarrow> \<exists>t. write_frame wr m f = (Some (FUnframeable t), f)"
    and write_prefix: "io_writer wr out \<Longrightarrow> wire f m = Some ws \<Longrightarrow> write_frame wr m f = (e, f') \<Longrightarrow>
      \<exists>q. prefix q ws \<and> out (wst f') = out (wst f) @ q \<and> (e = None \<longrightarrow> q = ws) \<and>
        (\<forall>t. e \<noteq> Some (FUnframeable t))"
    and write_same: "write_frame wr m f = (e, f') \<Longrightarrow>
      rd f' = rd f \<and> wire f' = wire f \<and> received f' = received f \<and> sendable f' = sendable f \<and>
      limit_ok f' = limit_ok f"
begin

end

text \<open>The results of successive reads.\<close>

fun read_frames :: "('f \<Rightarrow> (ferr + bytes) \<times> 'f) \<Rightarrow> nat \<Rightarrow> 'f \<Rightarrow> (ferr + bytes) list" where
  "read_frames rf 0 f = []"
| "read_frames rf (Suc n) f = (case rf f of (res, f') \<Rightarrow> res # read_frames rf n f')"

context framing
begin

lemma read_stream:
  assumes "list_all (sendable f) ms" "rd_rest (rd f) = concat (map (the \<circ> wire f) ms)"
    and "rd_end (rd f) = StreamEOF" "limit_ok f"
  shows "read_frames read_frame (Suc (length ms)) f = map (Inr \<circ> received f) ms @ [Inl FEOF]"
  using assms
proof (induction ms arbitrary: f)
  case Nil
  then show ?case using read_end[of f] by (cases "read_frame f") simp
next
  case (Cons m ms)
  obtain ws where ws: "wire f m = Some ws" using sendable_wire Cons.prems(1) by fastforce
  obtain f' where f': "read_frame f = (Inr (received f m), f')"
    "rd f' = (rd f)\<lparr>rd_rest := concat (map (the \<circ> wire f) ms)\<rparr>"
    using read_wire[OF _ ws, of "concat (map (the \<circ> wire f) ms)"] Cons.prems(1,2) ws by (auto simp: comp_def)
  note same = read_same[OF f'(1)]
  have "read_frames read_frame (Suc (length ms)) f' = map (Inr \<circ> received f') ms @ [Inl FEOF]"
    by (rule Cons.IH) (use Cons.prems same f' in \<open>simp_all add: comp_def\<close>)
  with f' same show ?case by simp
qed

end

section \<open>Both framings satisfy the contract\<close>

fun framer_base :: "'w framer \<Rightarrow> 'w framerBase" where
  "framer_base (ContentLengthFramer b) = b"
| "framer_base (NdjsonFramer b) = b"

definition framer_rd :: "'w framer \<Rightarrow> reader" where "framer_rd f = fb_r (framer_base f)"
definition framer_wst :: "'w framer \<Rightarrow> 'w" where "framer_wst f = fb_w (framer_base f)"

text \<open>The bytes of one frame, the message read back for it, and the messages a reader accepts.\<close>

fun frame_wire :: "'w framer \<Rightarrow> bytes \<Rightarrow> bytes option" where
  "frame_wire (ContentLengthFramer b) m = Some (cl_header (length m) @ m)"
| "frame_wire (NdjsonFramer b) m = (case nd_payload m of Inl _ \<Rightarrow> None | Inr p \<Rightarrow> Some (p @ [LF]))"

fun frame_received :: "'w framer \<Rightarrow> bytes \<Rightarrow> bytes" where
  "frame_received (ContentLengthFramer b) m = m"
| "frame_received (NdjsonFramer b) m = (case nd_payload m of Inl _ \<Rightarrow> m | Inr p \<Rightarrow> p)"

fun frame_sendable :: "'w framer \<Rightarrow> bytes \<Rightarrow> bool" where
  "frame_sendable (ContentLengthFramer b) m \<longleftrightarrow> length m < 2 ^ 63 \<and> int (length m) \<le> fb_maxSize b"
| "frame_sendable (NdjsonFramer b) m \<longleftrightarrow> (case nd_payload m of Inl _ \<Rightarrow> False | Inr p \<Rightarrow>
     p \<noteq> [] \<and> last p \<noteq> CR \<and> hd p \<noteq> CHR 0xEF \<and> int (length p) \<le> fb_maxSize b \<and>
     \<not> EqualFold (take (length contentLengthPrefix) p) contentLengthPrefix)"

lemma nd_payload_no_LF: "nd_payload m = Inr p \<Longrightarrow> LF \<notin> set p"
  by (auto simp: nd_payload_def IndexByte_None_iff Compact_def dest: compact_no_LF
      split: if_splits option.splits)

lemma nd_payload_unframeable: "nd_payload m = Inl e \<Longrightarrow> \<exists>t. e = FUnframeable t"
  by (auto simp: nd_payload_def split: if_splits option.splits)

lemma cl_ReadFrame_base:
  assumes "cl_ReadFrame b = (res, b')"
  shows "fb_w b' = fb_w b \<and> fb_maxSize b' = fb_maxSize b"
  using assms by (auto simp: cl_ReadFrame_def Let_def split: prod.splits option.splits stream_end.splits
      sum.splits if_splits)

lemma nd_ReadFrame_base:
  assumes "nd_ReadFrame b = (res, b')"
  shows "fb_w b' = fb_w b \<and> fb_maxSize b' = fb_maxSize b"
  using assms by (auto simp: nd_ReadFrame_def Let_def split: prod.splits)

lemma nd_ReadFrame_end: "rd_rest (fb_r b) = [] \<Longrightarrow> rd_end (fb_r b) = StreamEOF \<Longrightarrow>
    0 \<le> fb_maxSize b + 2 \<Longrightarrow> fst (nd_ReadFrame b) = Inl FEOF"
  by (simp add: nd_ReadFrame_def begin_stream_plain nd_frames.simps nd_line.simps ReadSlice_def IndexByte_def
      readerBufferSize_def)

text \<open>A frame limit below -2 would make the end of the stream an oversized frame.\<close>

definition frame_limit_ok :: "'w framer \<Rightarrow> bool" where
  "frame_limit_ok f \<longleftrightarrow> 0 \<le> fb_maxSize (framer_base f)"

lemma frame_same_base:
  "fb_maxSize b' = fb_maxSize b \<Longrightarrow> frame_wire (ContentLengthFramer b') = frame_wire (ContentLengthFramer b)"
  "fb_maxSize b' = fb_maxSize b \<Longrightarrow> frame_wire (NdjsonFramer b') = frame_wire (NdjsonFramer b)"
  "fb_maxSize b' = fb_maxSize b \<Longrightarrow> frame_received (ContentLengthFramer b') = frame_received (ContentLengthFramer b)"
  "fb_maxSize b' = fb_maxSize b \<Longrightarrow> frame_received (NdjsonFramer b') = frame_received (NdjsonFramer b)"
  "fb_maxSize b' = fb_maxSize b \<Longrightarrow> frame_sendable (ContentLengthFramer b') = frame_sendable (ContentLengthFramer b)"
  "fb_maxSize b' = fb_maxSize b \<Longrightarrow> frame_sendable (NdjsonFramer b') = frame_sendable (NdjsonFramer b)"
  by (simp_all add: fun_eq_iff cong: sum.case_cong)

lemma ReadFrame_written:
  assumes "frame_sendable f m" "frame_wire f m = Some ws" "rd_rest (framer_rd f) = ws @ rest"
  shows "\<exists>f'. ReadFrame f = (Inr (frame_received f m), f') \<and> framer_rd f' = (framer_rd f)\<lparr>rd_rest := rest\<rparr>"
proof (cases f)
  case (ContentLengthFramer b)
  with assms have "cl_ReadFrame b = (Inr m, b\<lparr>fb_started := True, fb_r := (fb_r b)\<lparr>rd_rest := rest\<rparr>\<rparr>)"
    by (intro cl_ReadFrame_written) (auto simp: framer_rd_def)
  with ContentLengthFramer show ?thesis by (simp add: framer_rd_def)
next
  case (NdjsonFramer b)
  with assms obtain p where p: "nd_payload m = Inr p" "ws = p @ [LF]"
    by (cases "nd_payload m") auto
  with assms NdjsonFramer nd_payload_no_LF[OF p(1)]
  have "nd_ReadFrame b = (Inr p, b\<lparr>fb_started := True, fb_r := (fb_r b)\<lparr>rd_rest := rest\<rparr>\<rparr>)"
    by (intro nd_ReadFrame_written) (simp_all add: framer_rd_def)
  with NdjsonFramer p show ?thesis by (simp add: framer_rd_def)
qed

lemma ReadFrame_same:
  assumes "ReadFrame f = (res, f')"
  shows "framer_wst f' = framer_wst f \<and> frame_wire f' = frame_wire f \<and>
    frame_received f' = frame_received f \<and> frame_sendable f' = frame_sendable f \<and>
    frame_limit_ok f' = frame_limit_ok f"
proof (cases f)
  case (ContentLengthFramer b)
  with assms obtain b' where b': "cl_ReadFrame b = (res, b')" "f' = ContentLengthFramer b'"
    by (auto split: prod.splits)
  from cl_ReadFrame_base[OF b'(1)] have "fb_w b' = fb_w b" "fb_maxSize b' = fb_maxSize b" by simp_all
  with ContentLengthFramer b'(2) frame_same_base[of b' b] show ?thesis
    by (simp add: framer_wst_def frame_limit_ok_def)
next
  case (NdjsonFramer b)
  with assms obtain b' where b': "nd_ReadFrame b = (res, b')" "f' = NdjsonFramer b'"
    by (auto split: prod.splits)
  from nd_ReadFrame_base[OF b'(1)] have "fb_w b' = fb_w b" "fb_maxSize b' = fb_maxSize b" by simp_all
  with NdjsonFramer b'(2) frame_same_base[of b' b] show ?thesis
    by (simp add: framer_wst_def frame_limit_ok_def)
qed

lemma WriteFrame_base:
  assumes "WriteFrame wr m f = (e, f')"
  shows "\<exists>w. (\<exists>b. f = ContentLengthFramer b \<and> f' = ContentLengthFramer (b\<lparr>fb_w := w\<rparr>)) \<or>
    (\<exists>b. f = NdjsonFramer b \<and> f' = NdjsonFramer (b\<lparr>fb_w := w\<rparr>))"
proof (cases f)
  case (ContentLengthFramer b)
  with assms show ?thesis by (auto simp: cl_WriteFrame_def split: prod.splits)
next
  case (NdjsonFramer b)
  moreover have "\<exists>w. b = b\<lparr>fb_w := w\<rparr>" by (rule exI[of _ "fb_w b"]) simp
  ultimately show ?thesis using assms
    by (auto simp: nd_WriteFrame_def split: prod.splits sum.splits)
qed

lemma WriteFrame_same:
  assumes "WriteFrame wr m f = (e, f')"
  shows "framer_rd f' = framer_rd f \<and> frame_wire f' = frame_wire f \<and>
    frame_received f' = frame_received f \<and> frame_sendable f' = frame_sendable f \<and>
    frame_limit_ok f' = frame_limit_ok f"
  using WriteFrame_base[OF assms]
  by (auto simp: framer_rd_def frame_limit_ok_def intro!: frame_same_base)

lemma WriteFrame_prefix:
  assumes "io_writer wr out" "frame_wire f m = Some ws" "WriteFrame wr m f = (e, f')"
  shows "\<exists>q. prefix q ws \<and> out (framer_wst f') = out (framer_wst f) @ q \<and> (e = None \<longrightarrow> q = ws) \<and>
    (\<forall>t. e \<noteq> Some (FUnframeable t))"
proof (cases f)
  case (ContentLengthFramer b)
  then obtain w' where w': "writeAll wr [cl_header (length m), m] (fb_w b) = (e, w')"
    "f' = ContentLengthFramer (b\<lparr>fb_w := w'\<rparr>)" "ws = cl_header (length m) @ m"
    using assms(2,3) by (auto simp: cl_WriteFrame_def split: prod.splits)
  with writeAll_prefix[OF assms(1) w'(1)] ContentLengthFramer show ?thesis
    by (simp add: framer_wst_def)
next
  case (NdjsonFramer b)
  with assms(2) obtain p where p: "nd_payload m = Inr p" "ws = p @ [LF]"
    by (cases "nd_payload m") auto
  with NdjsonFramer assms(3) obtain w' where w': "writeAll wr [p, [LF]] (fb_w b) = (e, w')"
    "f' = NdjsonFramer (b\<lparr>fb_w := w'\<rparr>)"
    by (auto simp: nd_WriteFrame_def split: prod.splits)
  with writeAll_prefix[OF assms(1) w'(1)] NdjsonFramer p show ?thesis
    by (simp add: framer_wst_def)
qed

lemma frame_wire_unframeable:
  assumes "frame_wire f m = None"
  shows "\<exists>t. WriteFrame wr m f = (Some (FUnframeable t), f)"
proof (cases f)
  case (NdjsonFramer b)
  with assms obtain e where "nd_payload m = Inl e" by (cases "nd_payload m") auto
  with nd_payload_unframeable NdjsonFramer show ?thesis by (auto simp: nd_WriteFrame_def)
qed (use assms in simp)

lemma ReadFrame_end:
  assumes "frame_limit_ok f" "rd_rest (framer_rd f) = []" "rd_end (framer_rd f) = StreamEOF"
  shows "fst (ReadFrame f) = Inl FEOF"
proof (cases f)
  case (ContentLengthFramer b)
  with assms show ?thesis
    by (simp add: cl_ReadFrame_def begin_stream_plain Peek_def framer_rd_def Let_def)
next
  case (NdjsonFramer b)
  with assms nd_ReadFrame_end[of b] show ?thesis
    by (cases "nd_ReadFrame b") (simp add: framer_rd_def frame_limit_ok_def)
qed

lemma frame_sendable_wire: "frame_sendable f m \<Longrightarrow> frame_wire f m \<noteq> None"
  by (cases f) (auto split: sum.splits)

interpretation fr: framing framer_rd framer_wst frame_wire frame_received frame_sendable frame_limit_ok
    ReadFrame WriteFrame
proof (unfold_locales, goal_cases)
  case (1 f m ws rest)
  then show ?case by (rule ReadFrame_written)
next
  case (2 f res f')
  then show ?case by (rule ReadFrame_same)
next
  case (3 f)
  then show ?case by (rule ReadFrame_end)
next
  case (4 f m)
  then show ?case by (rule frame_sendable_wire)
next
  case (5 f m wr)
  then show ?case by (rule frame_wire_unframeable)
next
  case (6 wr out f m ws e f')
  then show ?case by (rule WriteFrame_prefix)
next
  case (7 wr m f e f')
  then show ?case by (rule WriteFrame_same)
qed

section \<open>Messages of the library fit both framings\<close>

text \<open>
  What \<open>HandleRPCJSONRawMessage\<close> and the clients write: a JSON object or array, without
  blanks around it.
\<close>

definition json_message :: "bytes \<Rightarrow> bool" where
  "json_message m \<longleftrightarrow> Valid m \<and> hd m \<in> {LBRACE, LBRACK} \<and> last m \<in> {RBRACE, RBRACK}"

lemma json_message_ne: "json_message m \<Longrightarrow> m \<noteq> []"
  by (auto simp: json_message_def Valid_def scan_eof_ok_def scanner_init_def scan_step_def stateBeginValue_def
      isSpace_def)

lemma json_message_payload:
  assumes "json_message m"
  shows "\<exists>p. nd_payload m = Inr p \<and> p \<noteq> [] \<and> hd p = hd m \<and> last p = last m \<and> length p \<le> length m"
proof (cases "LF \<in> set m")
  case False
  then have "nd_payload m = Inr m" by (simp add: nd_payload_def IndexByte_None_iff[THEN iffD2])
  with json_message_ne[OF assms] show ?thesis by simp
next
  case True
  obtain c cs where m: "m = c # cs" using json_message_ne[OF assms] by (cases m) auto
  obtain p where p: "Compact m = Some p"
    using assms compact_defined[of scanner_init m] by (auto simp: json_message_def Valid_def Compact_def)
  have "LF \<notin> set p" using p compact_no_LF by (auto simp: Compact_def)
  with p True have pl: "nd_payload m = Inr p"
    by (simp add: nd_payload_def IndexByte_None_iff)
  have "p \<noteq> [] \<and> hd p = hd m"
    using compact_hd[of c cs p] p assms m by (auto simp: json_message_def)
  moreover have "\<not> isSpace (last m)" using assms by (auto simp: json_message_def isSpace_def)
  then have "last p = last m"
    using compact_last[of scanner_init "butlast m" "last m" p] p json_message_ne[OF assms] by (simp add: Compact_def)
  moreover have "length p \<le> length m" using compact_shorter p by (auto simp: Compact_def)
  ultimately show ?thesis using pl by blast
qed

lemma not_header_prefix:
  assumes "p \<noteq> []" "hd p \<in> {LBRACE, LBRACK}"
  shows "\<not> EqualFold (take (length contentLengthPrefix) p) contentLengthPrefix"
proof
  assume "EqualFold (take (length contentLengthPrefix) p) contentLengthPrefix"
  then have "hd (map lower (take (length contentLengthPrefix) p)) = hd (map lower contentLengthPrefix)"
    by (simp add: EqualFold_def)
  moreover have "hd (map lower (take (length contentLengthPrefix) p)) = lower (hd p)"
    using assms(1) by (cases p) (simp_all add: contentLengthPrefix_def)
  moreover have "lower LBRACE = LBRACE" "lower LBRACK = LBRACK" by (simp_all add: lower_def byte_val_def)
  moreover have "hd (map lower contentLengthPrefix) = CHR ''c''" by code_simp
  ultimately show False using assms(2) by auto
qed

lemma json_message_sendable:
  assumes "json_message m" "int (length m) \<le> fb_maxSize (framer_base f)" "length m < 2 ^ 63"
  shows "frame_sendable f m"
proof (cases f)
  case (NdjsonFramer b)
  from json_message_payload[OF assms(1)] obtain p
    where p: "nd_payload m = Inr p" "p \<noteq> []" "hd p = hd m" "last p = last m" "length p \<le> length m" by blast
  have "hd m \<in> {LBRACE, LBRACK}" "last m \<in> {RBRACE, RBRACK}" using assms(1) by (simp_all add: json_message_def)
  moreover have "\<not> EqualFold (take (length contentLengthPrefix) p) contentLengthPrefix"
    using not_header_prefix[of p] p(2,3) \<open>hd m \<in> _\<close> by simp
  ultimately show ?thesis using p assms(2) NdjsonFramer by auto
qed (use assms in simp)

section \<open>What the readers guarantee on any stream\<close>

lemma ReadSlice_content:
  assumes "ReadSlice d r = (line, e, r')"
  shows "rd_rest r = line @ rd_rest r'" "rd_end r' = rd_end r"
  using assms by (auto simp: ReadSlice_def Discard_def Let_def take_take min_def
      split: option.splits if_splits dest!: IndexByte_lt)

lemma readHeaderLine_EOF:
  assumes "readHeaderLine a r = (Inl FEOF, r')"
  shows "a \<and> rd_rest r = []"
proof -
  obtain line where "ReadSlice LF r = (line, Some (Ended StreamEOF), r')" "length line = 0" a
    using assms by (auto simp: readHeaderLine_def split: prod.splits option.splits slice_err.splits
        stream_end.splits if_splits)
  then show ?thesis
    by (auto simp: ReadSlice_def Let_def readerBufferSize_def split: option.splits if_splits)
qed

lemma cl_headers_line:
  assumes "readHeaderLine first r = (Inr line, r1)"
  shows "(\<exists>t. cl_headers b r k hb first = (Inl (FText t), r1)) \<or>
    0 \<le> k \<and> cl_headers b r k hb first = (Inr k, r1) \<or>
    (\<exists>k'. cl_headers b r k hb first = cl_headers b r1 k' (hb + length line) False \<and>
       (k' = k \<or> 0 \<le> k' \<and> k' \<le> fb_maxSize b))"
proof (cases "maxHeaderBytes < hb + length line \<or> length (trimEOL line) = 0")
  case True
  then show ?thesis using assms by (auto simp: cl_headers.simps[of b r k hb first] Let_def)
next
  case False
  show ?thesis
  proof (cases "IndexByte (trimEOL line) COLON")
    case None
    with False show ?thesis using assms by (simp add: cl_headers.simps[of b r k hb first])
  next
    case (Some i)
    show ?thesis
    proof (cases "EqualFold (TrimSpace (take i (trimEOL line))) clHeaderName \<and> \<not> 0 \<le> k")
      case True
      with False Some assms show ?thesis
        by (cases "ParseInt64 (TrimSpace (drop (Suc i) (trimEOL line)))")
          (auto simp: cl_headers.simps[of b r k hb first] limitErr_def Let_def)
    next
      case not: False
      with False Some assms show ?thesis
        by (auto simp: cl_headers.simps[of b r k hb first] Let_def)
    qed
  qed
qed

lemma cl_headers_EOF: "cl_headers b r k hb first = (Inl FEOF, r') \<Longrightarrow> first \<and> rd_rest r = []"
proof (induction "length (rd_rest r)" arbitrary: r k hb first rule: less_induct)
  case less
  obtain x r1 where rl: "readHeaderLine first r = (x, r1)" by (cases "readHeaderLine first r")
  show ?case
  proof (cases x)
    case (Inl e)
    with rl less.prems have "e = FEOF" by (simp add: cl_headers.simps[of b r])
    with Inl rl readHeaderLine_EOF show ?thesis by blast
  next
    case (Inr line)
    note eq = rl[unfolded Inr]
    have "cl_headers b r1 k' hb' False \<noteq> (Inl FEOF, r')" for k' hb'
      using less.hyps[OF readHeaderLine_shorter[OF eq]] by blast
    then show ?thesis
      using cl_headers_line[OF eq, of b k hb] less.prems by (metis ferr.distinct(7) fst_conv sum.inject(1) sum.distinct(1))
  qed
qed

lemma cl_headers_range:
  "cl_headers b r k hb first = (Inr n, r') \<Longrightarrow> k \<le> fb_maxSize b \<Longrightarrow>
     0 \<le> n \<and> n \<le> fb_maxSize b \<and> length (rd_rest r') < length (rd_rest r)"
proof (induction "length (rd_rest r)" arbitrary: r k hb first rule: less_induct)
  case less
  obtain x r1 where rl: "readHeaderLine first r = (x, r1)" by (cases "readHeaderLine first r")
  with less.prems obtain line where x: "x = Inr line" by (cases x) (auto simp: cl_headers.simps[of b r])
  note eq = rl[unfolded x]
  note sh = readHeaderLine_shorter[OF eq]
  show ?case
    using cl_headers_line[OF eq, of b k hb] less.prems less.hyps[OF sh] sh by fastforce
qed

lemma begin_stream_shorter: "length (rd_rest (fb_r (begin_stream b))) \<le> length (rd_rest (fb_r b))"
  by (auto simp: begin_stream_def Discard_def Let_def split: prod.splits option.splits)

lemma cl_ReadFrame_read:
  assumes "cl_ReadFrame b = (Inr m, b')" "0 \<le> fb_maxSize b"
  shows "int (length m) \<le> fb_maxSize b \<and> length (rd_rest (fb_r b')) < length (rd_rest (fb_r b))"
proof -
  let ?b = "begin_stream b"
  obtain n r1 r2 where h: "cl_headers ?b (fb_r ?b) (-1) 0 True = (Inr n, r1)"
    and f: "cl_body (nat n) r1 = (Inr m, r2)" and b': "b' = ?b\<lparr>fb_r := r2\<rparr>"
    using assms(1) by (auto simp: cl_ReadFrame_def Let_def split: prod.splits option.splits stream_end.splits
        sum.splits if_splits)
  have "m = take (nat n) (rd_rest r1)" "r2 = Discard (nat n) r1" "nat n \<le> length (rd_rest r1)"
    using f by (auto simp: cl_body_def ReadFull_def split: prod.splits sum.splits full_err.splits
        stream_end.splits if_splits)
  with cl_headers_range[OF h] assms(2) b' begin_stream_shorter[of b] show ?thesis
    by (auto simp: Discard_def)
qed

lemma nd_line_content:
  "nd_line b r acc = (Inr line, r') \<Longrightarrow> acc @ rd_rest r = line @ rd_rest r'"
proof (induction b r acc arbitrary: line r' rule: nd_line.induct)
  case (1 b r acc)
  obtain chunk err r1 where rs: "ReadSlice LF r = (chunk, err, r1)" by (cases "ReadSlice LF r") auto
  note c = ReadSlice_content[OF rs]
  have lim: "\<not> fb_maxSize b < int (length acc + length chunk) - 2"
    using "1.prems" rs by (auto simp: nd_line.simps[of b r acc])
  show ?case
  proof (cases "err = Some ErrBufferFull")
    case True
    with "1.prems" rs lim have "nd_line b r1 (acc @ chunk) = (Inr line, r')"
      by (simp add: nd_line.simps[of b r acc])
    from "1.IH"[OF rs[symmetric] refl lim refl True refl this] c show ?thesis by simp
  next
    case False
    with "1.prems" rs lim c show ?thesis
      by (cases err) (auto simp: nd_line.simps[of b r acc] Let_def split: if_splits slice_err.splits stream_end.splits)
  qed
qed

lemma nd_line_EOF:
  "nd_line b r acc = (Inl FEOF, r') \<Longrightarrow> acc = [] \<and> rd_rest r = []"
proof (induction b r acc arbitrary: r' rule: nd_line.induct)
  case (1 b r acc)
  obtain chunk err r1 where rs: "ReadSlice LF r = (chunk, err, r1)" by (cases "ReadSlice LF r") auto
  have lim: "\<not> fb_maxSize b < int (length acc + length chunk) - 2"
    using "1.prems" rs by (auto simp: nd_line.simps[of b r acc] limitErr_def split: if_splits)
  show ?case
  proof (cases "err = Some ErrBufferFull")
    case True
    with "1.prems" rs lim have "nd_line b r1 (acc @ chunk) = (Inl FEOF, r')"
      by (simp add: nd_line.simps[of b r acc])
    from "1.IH"[OF rs[symmetric] refl lim refl True refl this] rs True show ?thesis
      by (auto simp: ReadSlice_def Let_def readerBufferSize_def split: option.splits if_splits)
  next
    case False
    with "1.prems" rs lim have "acc = []" "chunk = []" "err \<noteq> None"
      by (auto simp: nd_line.simps[of b r acc] Let_def split: option.splits if_splits slice_err.splits stream_end.splits)
    with rs False show ?thesis
      by (auto simp: ReadSlice_def Let_def readerBufferSize_def split: option.splits if_splits)
  qed
qed

lemma trimEOL_empty: "trimEOL l = [] \<Longrightarrow> set l \<subseteq> {CR, LF}"
proof -
  assume "trimEOL l = []"
  then have "l = [] \<or> l = [LF] \<or> l = [CR] \<or> l = [CR, LF]"
    by (cases l rule: rev_cases; cases "butlast l" rule: rev_cases)
      (auto simp: trimEOL_def Let_def butlast_append split: if_splits)
  then show ?thesis by auto
qed

lemma trimEOL_length: "length (trimEOL l) \<le> length l"
  by (auto simp: trimEOL_def Let_def)

lemma nd_frames_read:
  "nd_frames b r = (Inr m, r') \<Longrightarrow> int (length m) \<le> fb_maxSize b \<and> length (rd_rest r') < length (rd_rest r)"
proof (induction b r arbitrary: r' rule: nd_frames.induct)
  case (1 b r)
  then obtain acc r1 where l: "nd_line b r [] = (Inr acc, r1)"
    by (cases "nd_line b r []") (auto simp: nd_frames.simps[of b r] split: sum.splits)
  from nd_line_shorter(1,2)[OF l] have sh: "length (rd_rest r1) < length (rd_rest r)" by (cases acc) auto
  show ?case
  proof (cases "length (trimEOL acc) = 0")
    case True
    with "1.prems" l have "nd_frames b r1 = (Inr m, r')" by (simp add: nd_frames.simps[of b r])
    from "1.IH"[OF l[symmetric] refl refl True this] sh show ?thesis by simp
  next
    case False
    with "1.prems" l sh show ?thesis
      by (auto simp: nd_frames.simps[of b r] Let_def split: if_splits)
  qed
qed

lemma nd_frames_EOF: "nd_frames b r = (Inl FEOF, r') \<Longrightarrow> set (rd_rest r) \<subseteq> {CR, LF}"
proof (induction b r arbitrary: r' rule: nd_frames.induct)
  case (1 b r)
  obtain x r1 where l: "nd_line b r [] = (x, r1)" by (cases "nd_line b r []")
  show ?case
  proof (cases x)
    case (Inl e)
    with l "1.prems" have "nd_line b r [] = (Inl FEOF, r1)" by (simp add: nd_frames.simps[of b r])
    from nd_line_EOF[OF this] show ?thesis by simp
  next
    case (Inr acc)
    note l = l[unfolded Inr]
    have t: "length (trimEOL acc) = 0"
      using "1.prems" l by (auto simp: nd_frames.simps[of b r] Let_def limitErr_def split: if_splits)
    with "1.prems" l have "nd_frames b r1 = (Inl FEOF, r')" by (simp add: nd_frames.simps[of b r])
    from "1.IH"[OF l[symmetric] refl refl t this] nd_line_content[OF l] trimEOL_empty[of acc] t
    show ?thesis by simp
  qed
qed

lemma nd_line_at_end:
  assumes "rd_rest r = []"
  shows "snd (nd_line b r []) = r" "fst (nd_line b r []) = Inr x \<Longrightarrow> False"
  using assms
  by (simp_all add: nd_line.simps ReadSlice_def IndexByte_def readerBufferSize_def Discard_def split: stream_end.splits if_splits)

lemma ReadFrame_eof_same:
  assumes "ReadFrame f = (res, f')" "rd_rest (framer_rd f) = []"
  shows "framer_rd f' = framer_rd f"
proof (cases f)
  case (ContentLengthFramer b)
  with assms show ?thesis
    by (auto simp: cl_ReadFrame_def begin_stream_plain Peek_def framer_rd_def Let_def split: stream_end.splits)
next
  case (NdjsonFramer b)
  then have e: "rd_rest (fb_r b) = []" using assms(2) by (simp add: framer_rd_def)
  obtain x r' where l: "nd_line (b\<lparr>fb_started := True\<rparr>) (fb_r b) [] = (x, r')"
    by (cases "nd_line (b\<lparr>fb_started := True\<rparr>) (fb_r b) []")
  with nd_line_at_end[OF e, of "b\<lparr>fb_started := True\<rparr>"] obtain y where "x = Inl y" "r' = fb_r b"
    by (cases x) auto
  with l have "nd_ReadFrame b = (Inl y, b\<lparr>fb_started := True\<rparr>)"
    by (simp add: nd_ReadFrame_def begin_stream_plain e nd_frames.simps)
  with assms(1) NdjsonFramer show ?thesis by (auto simp: framer_rd_def)
qed

text \<open>
  C37: No frame exceeds the size limit, whatever bytes the peer sends, and every frame that
  is returned consumed input, so a finite stream yields finitely many frames.
\<close>

theorem ReadFrame_bounded:
  assumes "ReadFrame f = (Inr m, f')" "0 \<le> fb_maxSize (framer_base f)"
  shows "int (length m) \<le> fb_maxSize (framer_base f) \<and>
    length (rd_rest (framer_rd f')) < length (rd_rest (framer_rd f))"
proof (cases f)
  case (ContentLengthFramer b)
  with assms obtain b' where "cl_ReadFrame b = (Inr m, b')" "f' = ContentLengthFramer b'"
    by (auto split: prod.splits)
  with cl_ReadFrame_read[of b m b'] assms(2) ContentLengthFramer show ?thesis
    by (simp add: framer_rd_def)
next
  case (NdjsonFramer b)
  with assms obtain r' where r': "nd_frames (begin_stream b) (fb_r (begin_stream b)) = (Inr m, r')"
    "f' = NdjsonFramer ((begin_stream b)\<lparr>fb_r := r'\<rparr>)"
    by (auto simp: nd_ReadFrame_def Let_def split: prod.splits)
  with nd_frames_read[OF r'(1)] begin_stream_shorter[of b] NdjsonFramer show ?thesis
    by (simp add: framer_rd_def)
qed

text \<open>
  A clean end of the stream is never reported while bytes of a message are
  outstanding: after an optional byte order mark nothing but line ends was left.
\<close>

theorem ReadFrame_clean_eof:
  assumes "fst (ReadFrame f) = Inl FEOF"
  shows "set (rd_rest (fb_r (begin_stream (framer_base f)))) \<subseteq> {CR, LF}"
proof (cases f)
  case (ContentLengthFramer b)
  with assms have "fst (cl_ReadFrame b) = Inl FEOF" by (auto split: prod.splits)
  then have "rd_rest (fb_r (begin_stream b)) = []"
    by (auto simp: cl_ReadFrame_def Let_def Peek_def cl_body_def split: prod.splits option.splits
        stream_end.splits sum.splits full_err.splits if_splits dest: cl_headers_EOF simp: not_le less_Suc0)
  with ContentLengthFramer show ?thesis by simp
next
  case (NdjsonFramer b)
  with assms have "fst (nd_ReadFrame b) = Inl FEOF" by (auto split: prod.splits)
  then show ?thesis using NdjsonFramer
    by (auto simp: nd_ReadFrame_def Let_def split: prod.splits dest: nd_frames_EOF)
qed

end
