(* ===== verification/CorrelatorProps.thy ===== *)
theory CorrelatorProps
  imports Correlator FramingProps
begin

text \<open>
  The invariant of the table of waiting calls and that every operation keeps it: ids are never
  reused, a registered channel is empty (so that a delivery never blocks), and a channel only
  ever holds a response that carries the id of its call, or a rejection that carries none.
\<close>

lemma itoa_nonneg: "0 \<le> n \<Longrightarrow> itoa n = nat_digits (nat n)"
  by (simp add: itoa_def)

lemma itoa_inj: "0 \<le> m \<Longrightarrow> 0 \<le> n \<Longrightarrow> itoa m = itoa n \<Longrightarrow> m = n"
  by (metis dec_val_digits itoa_nonneg int_nat_eq)

lemma itoa_ne [simp]: "itoa n \<noteq> []"
  by (simp add: itoa_def)

lemma itoa_distinct: "0 \<le> m \<Longrightarrow> distinct (map itoa [m + 1..n])"
  by (auto simp: distinct_map inj_on_def intro: itoa_inj)

text \<open>
  \<open>r\<close> may be handed to the call with the id \<open>k\<close>: the peer sent it with that id, or sent an
  error without a usable id.
\<close>

definition addressed :: "bytes \<Rightarrow> response list \<Rightarrow> response \<Rightarrow> bool" where
  "addressed k rs r \<longleftrightarrow> (r \<in> set rs \<and> rs_ID r = Some k) \<or>
     (\<exists>q e. q \<in> set rs \<and> isNullID (rs_ID q) \<and> rs_Error q = Some e \<and> r = rejection e)"

definition call_ok :: "int \<Rightarrow> response list \<Rightarrow> call \<Rightarrow> bool" where
  "call_ok seq rs ca \<longleftrightarrow> (\<exists>n. 1 \<le> n \<and> n \<le> seq \<and> ca_id ca = itoa n) \<and> length (ca_chan ca) \<le> 1 \<and>
     (\<forall>r \<in> set (ca_chan ca). addressed (ca_id ca) rs r)"

definition core_ok :: "core \<Rightarrow> bool" where
  "core_ok c \<longleftrightarrow> 0 \<le> co_seq c \<and> list_all (call_ok (co_seq c) (co_seen c)) (co_calls c) \<and>
     distinct (map ca_id (co_calls c)) \<and>
     (\<forall>k i. co_pending c k = Some i \<longrightarrow> i < length (co_calls c) \<and> ca_id (co_calls c ! i) = k \<and> ca_chan (co_calls c ! i) = [])"

lemma addressed_more: "addressed k rs r \<Longrightarrow> addressed k (rs @ qs) r"
  by (auto simp: addressed_def)

lemma call_ok_more: "call_ok seq rs ca \<Longrightarrow> seq \<le> seq' \<Longrightarrow> call_ok seq' (rs @ qs) ca"
  unfolding call_ok_def by (meson addressed_more order_trans)

lemma core_ok_init: "core_ok core_init"
  by (simp add: core_ok_def core_init_def)

lemma core_ok_seen: "core_ok c \<Longrightarrow> core_ok (seen r c)"
  by (auto simp: core_ok_def seen_def list_all_iff intro: call_ok_more)

lemma core_ok_unregister: "core_ok c \<Longrightarrow> core_ok (unregister k c)"
  by (simp add: core_ok_def unregister_def)

lemma core_ok_failPending: "core_ok c \<Longrightarrow> core_ok (failPending c)"
  by (simp add: core_ok_def failPending_def)

lemma core_ok_pending: "core_ok c \<Longrightarrow> co_pending c k = Some i \<Longrightarrow>
    i < length (co_calls c) \<and> ca_id (co_calls c ! i) = k \<and> ca_chan (co_calls c ! i) = []"
  by (simp add: core_ok_def)

lemma core_ok_call: "core_ok c \<Longrightarrow> i < length (co_calls c) \<Longrightarrow> call_ok (co_seq c) (co_seen c) (co_calls c ! i)"
  by (simp add: core_ok_def list_all_length)

lemma map_id_update [simp]:
  "i < length calls \<Longrightarrow> map ca_id (calls[i := (calls ! i)\<lparr>ca_chan := x\<rparr>]) = map ca_id calls"
  by (simp add: map_update list_update_same_conv)

lemma nth_chan_update:
  "i < length calls \<Longrightarrow> j < length calls \<Longrightarrow>
     calls[i := (calls ! i)\<lparr>ca_chan := x\<rparr>] ! j = (if j = i then (calls ! i)\<lparr>ca_chan := x\<rparr> else calls ! j)"
  by auto

lemma core_ok_register:
  assumes "core_ok c" "nextID c = (v, c1)"
  shows "core_ok (register (slice_bytes v) c1)"
proof -
  from assms(2) have v: "slice_bytes v = itoa (co_seq c + 1)" and c1: "c1 = c\<lparr>co_seq := co_seq c + 1\<rparr>"
    by (auto simp: nextID_def)
  have fresh: "ca_id ca \<noteq> itoa (co_seq c + 1)" if "ca \<in> set (co_calls c)" for ca
  proof
    assume eq: "ca_id ca = itoa (co_seq c + 1)"
    from that assms(1) obtain n where "1 \<le> n" "n \<le> co_seq c" "ca_id ca = itoa n"
      by (auto simp: core_ok_def list_all_iff call_ok_def)
    with eq itoa_inj[of n "co_seq c + 1"] show False by simp
  qed
  have "0 \<le> co_seq c" using assms(1) by (simp add: core_ok_def)
  then have "call_ok (co_seq c + 1) (co_seen c) \<lparr>ca_id = itoa (co_seq c + 1), ca_chan = []\<rparr>"
    by (auto simp: call_ok_def intro!: exI[of _ "co_seq c + 1"])
  moreover have "list_all (call_ok (co_seq c + 1) (co_seen c)) (co_calls c)"
    using assms(1) call_ok_more[of "co_seq c" "co_seen c" _ "co_seq c + 1" "[]"] by (auto simp: core_ok_def list_all_iff)
  moreover have "itoa (co_seq c + 1) \<notin> set (map ca_id (co_calls c))" using fresh by (metis (no_types, lifting) in_set_conv_nth length_map nth_map nth_mem)
  moreover have "i < Suc (length (co_calls c)) \<and> ca_id ((co_calls c @ [new]) ! i) = k \<and> ca_chan ((co_calls c @ [new]) ! i) = []"
    if "co_pending c k = Some i" for k i new
    using core_ok_pending[OF assms(1) that] by (simp add: nth_append)
  ultimately show ?thesis
    using assms(1) by (simp add: core_ok_def register_def v c1)
qed

lemma core_ok_recv: "core_ok c \<Longrightarrow> i < length (co_calls c) \<Longrightarrow> core_ok (recv_chan i c)"
proof -
  assume c: "core_ok c" and i: "i < length (co_calls c)"
  let ?calls = "co_calls (recv_chan i c)"
  have "call_ok (co_seq c) (co_seen c) (?calls ! j)" if "j < length ?calls" for j
  proof -
    have j: "j < length (co_calls c)" using that by (simp add: recv_chan_def)
    show ?thesis using core_ok_call[OF c j] core_ok_call[OF c i] i j
      by (cases "ca_chan (co_calls c ! i)") (auto simp: recv_chan_def nth_chan_update call_ok_def)
  qed
  moreover have "distinct (map ca_id ?calls)" using c i by (simp add: recv_chan_def core_ok_def)
  moreover have "k < length ?calls \<and> ca_id (?calls ! k) = x \<and> ca_chan (?calls ! k) = []"
    if "co_pending c x = Some k" for x k
    using core_ok_pending[OF c that] i by (cases "k = i") (auto simp: recv_chan_def nth_chan_update)
  ultimately show ?thesis using c by (simp add: core_ok_def list_all_length recv_chan_def)
qed

text \<open>A delivery puts one response into one empty channel, and the call is no longer registered.\<close>

lemma core_ok_deliver:
  assumes "core_ok c" "r \<in> set (co_seen c)"
  shows "core_ok (snd (deliver r c))"
proof (cases "slice_len (rs_ID r) = 0 \<or> co_pending c (slice_bytes (rs_ID r)) = None")
  case True
  then show ?thesis using assms(1) by (auto simp: deliver_def)
next
  case False
  let ?k = "slice_bytes (rs_ID r)"
  from False obtain i where i: "co_pending c ?k = Some i" "slice_len (rs_ID r) \<noteq> 0" by blast
  note p = core_ok_pending[OF assms(1) i(1)]
  let ?c = "snd (deliver r c)"
  have d: "?c = send_chan i r (unregister ?k c)" using i by (simp add: deliver_def)
  have id: "rs_ID r = Some ?k" using i(2) by (cases "rs_ID r") simp_all
  have calls: "co_calls ?c = (co_calls c)[i := (co_calls c ! i)\<lparr>ca_chan := [r]\<rparr>]"
    and pend: "co_pending ?c = (co_pending c)(?k := None)" and same: "co_seq ?c = co_seq c" "co_seen ?c = co_seen c"
    using p by (simp_all add: d send_chan_def unregister_def)
  have "addressed ?k (co_seen c) r" using assms(2) id by (simp add: addressed_def)
  then have "call_ok (co_seq c) (co_seen c) (co_calls ?c ! j)" if "j < length (co_calls c)" for j
    using core_ok_call[OF assms(1) that] p that calls by (auto simp: nth_chan_update call_ok_def)
  moreover have "distinct (map ca_id (co_calls ?c))" using assms(1) p by (simp add: calls core_ok_def)
  moreover have "j < length (co_calls ?c) \<and> ca_id (co_calls ?c ! j) = x \<and> ca_chan (co_calls ?c ! j) = []"
    if "co_pending ?c x = Some j" for x j
  proof -
    have x: "x \<noteq> ?k" "co_pending c x = Some j" using that pend by (auto split: if_splits)
    with core_ok_pending[OF assms(1) x(2)] p have "j \<noteq> i" by auto
    with core_ok_pending[OF assms(1) x(2)] p calls show ?thesis by simp
  qed
  ultimately show ?thesis using assms(1) same calls by (simp add: core_ok_def list_all_length)
qed

text \<open>A rejection without an id goes to every registered call.\<close>

lemma failPendingWith_calls:
  "length (co_calls (failPendingWith e c)) = length (co_calls c)"
  "i < length (co_calls c) \<Longrightarrow> co_calls (failPendingWith e c) ! i =
     (if i \<in> ran (co_pending c) then (co_calls c ! i)\<lparr>ca_chan := ca_chan (co_calls c ! i) @ [rejection e]\<rparr>
      else co_calls c ! i)"
  by (simp_all add: failPendingWith_def nth_enumerate_eq)

lemma core_ok_failPendingWith:
  assumes "core_ok c" "q \<in> set (co_seen c)" "isNullID (rs_ID q)" "rs_Error q = Some e"
  shows "core_ok (failPendingWith e c)"
proof -
  let ?c = "failPendingWith e c"
  have "call_ok (co_seq c) (co_seen c) (co_calls ?c ! i)" if i: "i < length (co_calls c)" for i
  proof (cases "i \<in> ran (co_pending c)")
    case True
    then obtain k where "co_pending c k = Some i" by (auto simp: ran_def)
    from core_ok_pending[OF assms(1) this] core_ok_call[OF assms(1) i] True i assms(2-4) show ?thesis
      by (auto simp: failPendingWith_calls call_ok_def addressed_def)
  qed (use core_ok_call[OF assms(1) i] i in \<open>simp add: failPendingWith_calls\<close>)
  moreover have "map ca_id (co_calls ?c) = map ca_id (co_calls c)"
    by (rule nth_equalityI) (simp_all add: failPendingWith_calls)
  ultimately show ?thesis using assms(1)
    by (simp add: core_ok_def list_all_length failPendingWith_calls(1)) (simp add: failPendingWith_def)
qed

text \<open>What no operation of the read loop changes.\<close>

lemma core_frames:
  "length (co_calls (snd (deliver r c))) = length (co_calls c)"
  "length (co_calls (failPendingWith e c)) = length (co_calls c)"
  "length (co_calls (recv_chan i c)) = length (co_calls c)" "length (co_calls (seen r c)) = length (co_calls c)"
  "co_calls (unregister k c) = co_calls c" "co_calls (failPending c) = co_calls c" "co_calls (seen r c) = co_calls c"
  "co_seen (snd (deliver r c)) = co_seen c" "co_seen (failPendingWith e c) = co_seen c"
  "co_seen (recv_chan i c) = co_seen c" "co_seen (unregister k c) = co_seen c" "co_seen (failPending c) = co_seen c"
  "co_seen (register k c) = co_seen c" "co_seen (snd (nextID c)) = co_seen c" "co_calls (snd (nextID c)) = co_calls c"
  by (auto simp: deliver_def send_chan_def unregister_def failPendingWith_def recv_chan_def seen_def
      failPending_def register_def nextID_def split: option.splits)

lemma same_ids:
  "i < length (co_calls c) \<Longrightarrow> ca_id (co_calls (snd (deliver r c)) ! i) = ca_id (co_calls c ! i)"
  "i < length (co_calls c) \<Longrightarrow> ca_id (co_calls (failPendingWith e c) ! i) = ca_id (co_calls c ! i)"
  "i < length (co_calls c) \<Longrightarrow> j < length (co_calls c) \<Longrightarrow> ca_id (co_calls (recv_chan j c) ! i) = ca_id (co_calls c ! i)"
proof -
  have upd: "ca_id (calls[j := (calls ! j)\<lparr>ca_chan := x\<rparr>] ! i) = ca_id (calls ! i)" for calls j i x
    by (cases "j < length calls"; cases "i = j") (simp_all add: list_update_beyond)
  show "i < length (co_calls c) \<Longrightarrow> ca_id (co_calls (snd (deliver r c)) ! i) = ca_id (co_calls c ! i)"
    by (simp add: deliver_def send_chan_def unregister_def upd split: option.split)
  show "i < length (co_calls c) \<Longrightarrow> ca_id (co_calls (failPendingWith e c) ! i) = ca_id (co_calls c ! i)"
    by (simp add: failPendingWith_calls)
  show "i < length (co_calls c) \<Longrightarrow> j < length (co_calls c) \<Longrightarrow> ca_id (co_calls (recv_chan j c) ! i) = ca_id (co_calls c ! i)"
    by (simp add: recv_chan_def upd)
qed

section \<open>What the steps leave alone\<close>

text \<open>Calls keep their position and id, and the history only grows.\<close>

definition core_ext :: "core \<Rightarrow> core \<Rightarrow> bool" where
  "core_ext c c' \<longleftrightarrow> length (co_calls c) \<le> length (co_calls c') \<and>
     (\<forall>i < length (co_calls c). ca_id (co_calls c' ! i) = ca_id (co_calls c ! i)) \<and>
     set (co_seen c) \<subseteq> set (co_seen c')"

lemma core_ext_refl [simp]: "core_ext c c"
  by (simp add: core_ext_def)

lemma core_ext_trans: "core_ext a b \<Longrightarrow> core_ext b c \<Longrightarrow> core_ext a c"
  by (auto simp: core_ext_def)

lemma addressed_mono: "set rs \<subseteq> set qs \<Longrightarrow> addressed k rs r \<Longrightarrow> addressed k qs r"
  by (auto simp: addressed_def)

lemma core_ext_ops:
  "core_ext c (seen r c)" "core_ext c (unregister k c)" "core_ext c (failPending c)"
  "core_ext c (snd (deliver r c))" "core_ext c (failPendingWith e c)"
  "i < length (co_calls c) \<Longrightarrow> core_ext c (recv_chan i c)"
  "core_ext c (register k (snd (nextID c)))"
  by (auto simp: core_ext_def core_frames same_ids)
    (auto simp: seen_def register_def nextID_def nth_append)

lemma core_ok_route:
  assumes "core_ok c" "r \<in> set (co_seen c)"
  shows "core_ok (route r c) \<and> core_ext c (route r c)"
proof -
  obtain f c1 where d: "deliver r c = (f, c1)" by (cases "deliver r c")
  have c1: "core_ok c1" "core_ext c c1" "co_seen c1 = co_seen c"
    using core_ok_deliver[OF assms] core_ext_ops(4)[of c r] core_frames(8)[of r c] d by simp_all
  show ?thesis
  proof (cases "rs_Error r")
    case (Some e)
    show ?thesis
    proof (cases "\<not> f \<and> isNullID (rs_ID r)")
      case True
      then show ?thesis
        using Some d c1 core_ok_failPendingWith[OF c1(1), of r e] assms(2) core_ext_trans[OF c1(2) core_ext_ops(5)]
        by (simp add: route_def)
    qed (use Some d c1 in \<open>auto simp: route_def\<close>)
  qed (use d c1 in \<open>simp add: route_def\<close>)
qed

lemma route_length [simp]: "length (co_calls (route r c)) = length (co_calls c)"
  using core_frames(1)[of r c]
  by (cases "deliver r c"; cases "rs_Error r") (simp_all add: route_def core_frames(2))

section \<open>Outcomes\<close>

text \<open>
  What a finished call returned: the response it took was addressed to it, and without a
  response the error is not one of the peer.
\<close>

fun outcome_ok :: "core \<Rightarrow> nat \<Rightarrow> 't cphase \<Rightarrow> bool" where
  "outcome_ok c i (CDone r None) = (\<exists>e. r = Inl e \<and> (\<forall>x. e \<noteq> ErrResponse x))"
| "outcome_ok c i (CDone r (Some resp)) = (r = response_outcome resp \<and> addressed (ca_id (co_calls c ! i)) (co_seen c) resp)"
| "outcome_ok c i _ = True"

lemma outcome_ok_ext: "outcome_ok c i p \<Longrightarrow> core_ext c c' \<Longrightarrow> i < length (co_calls c) \<Longrightarrow> outcome_ok c' i p"
  by (cases "(c, i, p)" rule: outcome_ok.cases) (auto simp: core_ext_def intro: addressed_mono)

definition calls_ok :: "core \<Rightarrow> 't cphase list \<Rightarrow> bool" where
  "calls_ok c ps \<longleftrightarrow> core_ok c \<and> length ps = length (co_calls c) \<and> (\<forall>i < length ps. outcome_ok c i (ps ! i))"

lemma calls_ok_ext:
  assumes "calls_ok c ps" "core_ok c'" "core_ext c c'" "length (co_calls c') = length (co_calls c)"
  shows "calls_ok c' ps"
  using assms by (auto simp: calls_ok_def intro: outcome_ok_ext)

lemma calls_ok_update:
  assumes "calls_ok c ps" "outcome_ok c i p"
  shows "calls_ok c (ps[i := p])"
  using assms unfolding calls_ok_def by (metis length_list_update nth_list_update_eq nth_list_update_neq)

lemma calls_ok_unregister: "calls_ok c ps \<Longrightarrow> calls_ok (unregister k c) ps"
  by (rule calls_ok_ext) (auto simp: calls_ok_def core_ok_unregister core_ext_ops core_frames)

lemma calls_ok_begin:
  assumes "calls_ok c ps" "nextID c = (v, c1)"
  shows "calls_ok (register (slice_bytes v) c1) (ps @ [CSending m p])"
proof -
  let ?c = "register (slice_bytes v) c1"
  from assms(2) have "core_ext c ?c" using core_ext_ops(7)[of c "slice_bytes v"] by simp
  moreover from assms have "length (co_calls ?c) = Suc (length (co_calls c))"
    by (auto simp: register_def nextID_def)
  moreover have "core_ok ?c" using assms core_ok_register by (auto simp: calls_ok_def)
  ultimately show ?thesis using assms(1)
    by (auto simp: calls_ok_def nth_append less_Suc_eq intro: outcome_ok_ext)
qed

text \<open>An answer reaches the registered call.\<close>

lemma pending_key: "core_ok c \<Longrightarrow> co_pending c k = Some i \<Longrightarrow> \<exists>n. 1 \<le> n \<and> k = itoa n"
  using core_ok_pending[of c k i] core_ok_call[of c i] unfolding call_ok_def by metis

lemma pending_key_ne: "core_ok c \<Longrightarrow> co_pending c k = Some i \<Longrightarrow> k \<noteq> []"
  using pending_key itoa_ne by metis

lemma route_found:
  assumes "core_ok c" "co_pending c k = Some i" "rs_ID resp = Some k"
  shows "route resp (seen resp c) = send_chan i resp (unregister k (seen resp c))"
  using assms(2,3) pending_key_ne[OF assms(1,2)]
  by (simp add: route_def deliver_def seen_def slice_len_def split: option.split)

lemma route_registered:
  assumes "core_ok c" "co_pending c k = Some i" "rs_ID resp = Some k"
  shows "co_calls (route resp (seen resp c)) ! i = (co_calls c ! i)\<lparr>ca_chan := [resp]\<rparr>"
  using core_ok_pending[OF assms(1,2)]
  unfolding route_found[OF assms] by (simp add: send_chan_def unregister_def seen_def)

lemma chan_ids: "ca_id (co_calls (send_chan i r c) ! j) = ca_id (co_calls c ! j)" "ca_id (co_calls (recv_chan i c) ! j) = ca_id (co_calls c ! j)"
proof -
  have "ca_id (calls[i := (calls ! i)\<lparr>ca_chan := x\<rparr>] ! j) = ca_id (calls ! j)" for calls x
    by (cases "i < length calls"; cases "i = j") (simp_all add: list_update_beyond)
  then show "ca_id (co_calls (send_chan i r c) ! j) = ca_id (co_calls c ! j)" "ca_id (co_calls (recv_chan i c) ! j) = ca_id (co_calls c ! j)"
    by (simp_all add: send_chan_def recv_chan_def)
qed

lemma itoa_not_null: "1 \<le> n \<Longrightarrow> itoa n \<noteq> ''null''"
proof -
  assume "1 \<le> n"
  then have "itoa n = nat_digits (nat n)" by (simp add: itoa_nonneg)
  moreover obtain d where "d < 10" "hd (nat_digits (nat n)) = digit d" using nat_digits_hd by blast
  ultimately show ?thesis by (auto simp: digit_def numeral_eq_Suc less_Suc_eq)
qed

end
