(* ===== verification/ServeProps.thy ===== *)
theory ServeProps
  imports Serve FramingProps
begin

text \<open>
  The stdio server. The writer of a connection keeps the stream whole; what it accepts is read
  back by the peer. For the loop: which invariants every interleaving keeps, what the result
  of \<open>Serve\<close> means, and that an orderly shutdown leaves no frame unanswered.
\<close>

section \<open>The writer of a connection\<close>

abbreviation conn_out :: "('w \<Rightarrow> bytes) \<Rightarrow> 'w conn \<Rightarrow> bytes" where
  "conn_out out c \<equiv> out (framer_wst (cn_fr c))"

definition same_framing :: "'w conn \<Rightarrow> 'w conn \<Rightarrow> bool" where
  "same_framing c c' \<longleftrightarrow> framer_rd (cn_fr c') = framer_rd (cn_fr c) \<and> frame_wire (cn_fr c') = frame_wire (cn_fr c) \<and>
     frame_received (cn_fr c') = frame_received (cn_fr c) \<and> frame_sendable (cn_fr c') = frame_sendable (cn_fr c) \<and>
     frame_limit_ok (cn_fr c') = frame_limit_ok (cn_fr c)"

lemma same_framing_refl [simp]: "same_framing c c"
  by (simp add: same_framing_def)

text \<open>The three ways a write on an open connection ends.\<close>

lemma conn_write_cases:
  assumes "io_writer wr out" "\<not> cn_closed c" "conn_write wr m c = ((e, fl), c')"
  obtains (sent) ws where "e = None" "fl = None" "\<not> cn_closed c'" "frame_wire (cn_fr c) m = Some ws"
      "conn_out out c' = conn_out out c @ ws" "same_framing c c'"
  | (unframeable) t where "e = Some (FUnframeable t)" "fl = None" "c' = c" "frame_wire (cn_fr c) m = None"
  | (failed) x q ws where "e = Some x" "fl = Some x" "cn_closed c'" "frame_wire (cn_fr c) m = Some ws"
      "prefix q ws" "conn_out out c' = conn_out out c @ q" "same_framing c c'"
proof -
  obtain e1 f where w: "WriteFrame wr m (cn_fr c) = (e1, f)" by (cases "WriteFrame wr m (cn_fr c)")
  from fr.write_same[OF w] have same: "same_framing c (c\<lparr>cn_fr := f, cn_closed := b\<rparr>)" "same_framing c (c\<lparr>cn_fr := f\<rparr>)" for b
    by (simp_all add: same_framing_def)
  show thesis
  proof (cases "frame_wire (cn_fr c) m")
    case None
    from fr.write_unframeable[OF this, of wr] w obtain t where "e1 = Some (FUnframeable t)" "f = cn_fr c" by auto
    with None assms(2,3) w show thesis by (intro unframeable) (auto simp: conn_write_def)
  next
    case (Some ws)
    from fr.write_prefix[OF assms(1) Some w] obtain q where q: "prefix q ws"
      "out (framer_wst f) = out (framer_wst (cn_fr c)) @ q" "e1 = None \<longrightarrow> q = ws" "\<forall>t. e1 \<noteq> Some (FUnframeable t)"
      by blast
    show thesis
    proof (cases e1)
      case None
      with Some q w assms(2,3) same show thesis by (intro sent) (auto simp: conn_write_def)
    next
      case (Some x)
      with q(4) w assms(2,3) have "e = Some x" "fl = Some x" "c' = c\<lparr>cn_fr := f, cn_closed := True\<rparr>"
        by (auto simp: conn_write_def split: ferr.splits)
      with \<open>frame_wire (cn_fr c) m = Some ws\<close> q same show thesis by (intro failed) auto
    qed
  qed
qed

lemma conn_write_closed: "cn_closed c \<Longrightarrow> conn_write wr m c = ((Some errWriterClosed, None), c)"
  by (simp add: conn_write_def)

text \<open>The messages whose write returned nil.\<close>

definition accepted :: "bytes list \<Rightarrow> ferr option list \<Rightarrow> bytes list" where
  "accepted ms es = map fst (filter (\<lambda>(m, e). e = None) (zip ms es))"

lemma conn_writes_closed: "cn_closed c \<Longrightarrow> conn_writes wr ms c = (map (\<lambda>_. Some errWriterClosed) ms, c)"
  by (induction ms) (simp_all add: conn_write_closed)

lemma accepted_rejected: "accepted ms (map (\<lambda>_. Some e) ms) = []"
  by (induction ms) (simp_all add: accepted_def)

text \<open>
  C36: Whatever the writer underneath does, the output of a connection is the concatenation of
  complete frames, those of the writes that returned nil, in order; bytes of an incomplete
  frame can only be the last ones, and then the connection is closed to further writes.
\<close>

theorem conn_writer_stream_integrity:
  assumes "io_writer wr out" "\<not> cn_closed c" "conn_writes wr ms c = (es, c')"
  shows "\<exists>part. conn_out out c' = conn_out out c @ concat (map (the \<circ> frame_wire (cn_fr c)) (accepted ms es)) @ part \<and>
    (part = [] \<or> cn_closed c')"
  using assms(2,3)
proof (induction ms arbitrary: c es)
  case Nil
  then show ?case by (simp add: accepted_def)
next
  case (Cons m ms)
  obtain e fl c1 where w: "conn_write wr m c = ((e, fl), c1)" by (metis surj_pair)
  obtain es1 where ws: "conn_writes wr ms c1 = (es1, c')" and es: "es = e # es1"
    using Cons.prems(2) w by (auto split: prod.splits)
  from assms(1) Cons.prems(1) w show ?case
  proof (cases rule: conn_write_cases)
    case (sent b)
    with Cons.IH[OF sent(3) ws] es show ?thesis by (auto simp: accepted_def same_framing_def comp_def)
  next
    case (unframeable t)
    with Cons.IH[OF _ ws] Cons.prems(1) es show ?thesis by (simp add: accepted_def)
  next
    case (failed x q b)
    from ws conn_writes_closed[OF failed(3)] have "es1 = map (\<lambda>_. Some errWriterClosed) ms" "c' = c1" by simp_all
    with failed es accepted_rejected[of ms errWriterClosed] show ?thesis by (simp add: accepted_def)
  qed
qed

text \<open>The frames of a framing do not depend on the other settings.\<close>

lemma newFramer_wire:
  assumes "newFramer fid r w k opt = Some f" "newFramer fid r' w' k' opt' = Some f'"
  shows "frame_wire f = frame_wire f'"
  using assms by (auto simp: newFramer_def Let_def fun_eq_iff split: if_splits)

lemma newFramer_fields:
  assumes "newFramer fid r w k opt = Some f"
  shows "framer_rd f = r" "framer_wst f = w" "fb_maxSize (framer_base f) = k"
  using assms by (auto simp: newFramer_def Let_def framer_rd_def framer_wst_def split: if_splits)

lemma json_message_wire: "json_message m \<Longrightarrow> frame_wire f m \<noteq> None"
  using json_message_payload[of m] by (cases f) auto

lemma conn_writes_all:
  assumes "io_writer wr out" "conn_writes wr ms c = (es, c')" "\<not> cn_closed c'" "list_all json_message ms"
  shows "conn_out out c' = conn_out out c @ concat (map (the \<circ> frame_wire (cn_fr c)) ms)"
  using assms(2,4)
proof (induction ms arbitrary: c es)
  case Nil
  then show ?case by simp
next
  case (Cons m ms)
  obtain e fl c1 where w: "conn_write wr m c = ((e, fl), c1)" by (metis surj_pair)
  obtain es1 where ws: "conn_writes wr ms c1 = (es1, c')" using Cons.prems(1) w by (auto split: prod.splits)
  have open1: "\<not> cn_closed c1" using conn_writes_closed ws assms(3) by fastforce
  then have "\<not> cn_closed c" using w conn_write_closed by fastforce
  from assms(1) this w show ?case
  proof (cases rule: conn_write_cases)
    case (sent b)
    with Cons.IH[OF ws] Cons.prems(2) show ?thesis by (simp add: same_framing_def comp_def)
  next
    case unframeable
    with Cons.prems(2) json_message_wire[of m "cn_fr c"] show ?thesis by simp
  next
    case failed
    with open1 show ?thesis by simp
  qed
qed

text \<open>
  C33: What one side writes through a connection the other side reads: for messages of the
  library (JSON objects and arrays within the reader's limit) that were written without a
  failure, the peer's reader returns exactly these messages, in order and unbroken, and then
  the clean end of the stream. Under newline-delimited framing a message with raw newlines
  arrives compacted.
\<close>

theorem frame_stream_roundtrip:
  assumes "io_writer wr out" "newFramer fid r0 w k0 opt0 = Some fw" "out w = []"
    and "conn_writes wr ms \<lparr>cn_fr = fw, cn_closed = False\<rparr> = (es, c')" "\<not> cn_closed c'"
    and "list_all json_message ms" "list_all (\<lambda>m. int (length m) \<le> k) ms" "0 \<le> k" "k < 2 ^ 63"
    and "newFramer fid \<lparr>rd_rest = conn_out out c', rd_end = StreamEOF\<rparr> w' k opt = Some fr"
  shows "read_frames ReadFrame (Suc (length ms)) fr = map (Inr \<circ> frame_received fr) ms @ [Inl FEOF]"
proof (rule fr.read_stream)
  have "length m < 2 ^ 63" if "int (length m) \<le> k" for m :: bytes using that assms(9) by simp
  then show "list_all (frame_sendable fr) ms"
    using assms(6,7) newFramer_fields[OF assms(10)] by (auto simp: list_all_iff intro!: json_message_sendable)
  show "rd_rest (framer_rd fr) = concat (map (the \<circ> frame_wire fr) ms)"
    using conn_writes_all[OF assms(1,4,5,6)] newFramer_fields[OF assms(10)] newFramer_fields(2)[OF assms(2)]
      newFramer_wire[OF assms(2,10)] assms(3) by (simp add: comp_def)
  show "rd_end (framer_rd fr) = StreamEOF" using newFramer_fields[OF assms(10)] by simp
  show "frame_limit_ok fr" using newFramer_fields[OF assms(10)] assms(8) by (simp add: frame_limit_ok_def)
qed

section \<open>Invariants of the loop\<close>

text \<open>The four ways a write leaves the server.\<close>

lemma serve_write_cases:
  assumes "io_writer wr out"
  obtains (unchanged) "cn_closed (sv_conn s) \<or> frame_wire (cn_fr (sv_conn s)) m = None" "serve_write wr r m s = s"
  | (sent) c' ws where "\<not> cn_closed (sv_conn s)" "\<not> cn_closed c'" "frame_wire (cn_fr (sv_conn s)) m = Some ws"
      "conn_out out c' = conn_out out (sv_conn s) @ ws" "same_framing (sv_conn s) c'"
      "serve_write wr r m s = s\<lparr>sv_conn := c', sv_sent := sv_sent s @ [(r, m)]\<rparr>"
  | (failed) c' x where "\<not> cn_closed (sv_conn s)" "cn_closed c'" "same_framing (sv_conn s) c'"
      "serve_write wr r m s = serve_fail x (s\<lparr>sv_conn := c'\<rparr>)"
proof (cases "cn_closed (sv_conn s)")
  case True
  then show thesis by (intro unchanged) (simp_all add: serve_write_def conn_write_closed)
next
  case False
  obtain e fl c' where w: "conn_write wr m (sv_conn s) = ((e, fl), c')" by (metis surj_pair)
  from assms False w show thesis
  proof (cases rule: conn_write_cases)
    case (sent ws)
    with False w show thesis by (intro that(2)[of c' ws]) (simp_all add: serve_write_def)
  next
    case (unframeable t)
    with w show thesis by (intro unchanged) (simp_all add: serve_write_def)
  next
    case (failed x q ws)
    with False w show thesis by (intro that(3)[of c' x]) (simp_all add: serve_write_def)
  qed
qed

lemma serve_fail_fields [simp]:
  "sv_conn (serve_fail e s) = sv_conn s" "sv_phase (serve_fail e s) = sv_phase s" "sv_ctx (serve_fail e s) = sv_ctx s"
  "sv_readErr (serve_fail e s) = sv_readErr s" "sv_eofClean (serve_fail e s) = sv_eofClean s"
  "sv_running (serve_fail e s) = sv_running s" "sv_read (serve_fail e s) = sv_read s"
  "sv_dropped (serve_fail e s) = sv_dropped s" "sv_sent (serve_fail e s) = sv_sent s"
  "sv_connErr (serve_fail e s) \<noteq> None" "sv_canceled (serve_fail e s) = (sv_connErr s = None \<or> sv_canceled s)"
  by (auto simp: serve_fail_def split: option.splits)

lemma serve_write_fields [simp]:
  "sv_phase (serve_write wr r m s) = sv_phase s" "sv_ctx (serve_write wr r m s) = sv_ctx s"
  "sv_readErr (serve_write wr r m s) = sv_readErr s" "sv_eofClean (serve_write wr r m s) = sv_eofClean s"
  "sv_running (serve_write wr r m s) = sv_running s" "sv_read (serve_write wr r m s) = sv_read s"
  "sv_dropped (serve_write wr r m s) = sv_dropped s"
  by (auto simp: serve_write_def Let_def split: prod.splits option.splits)

lemma serve_reply_fields [simp]:
  "sv_phase (serve_reply wr r s) = sv_phase s" "sv_ctx (serve_reply wr r s) = sv_ctx s"
  "sv_readErr (serve_reply wr r s) = sv_readErr s" "sv_eofClean (serve_reply wr r s) = sv_eofClean s"
  "sv_running (serve_reply wr r s) = sv_running s" "sv_read (serve_reply wr r s) = sv_read s"
  "sv_dropped (serve_reply wr r s) = sv_dropped s"
  by (simp_all add: serve_reply_def)

text \<open>
  The writer and the flags: a write changes \<open>connErr\<close> only by failing, and then it also closes
  the writer and cancels the connection.
\<close>

definition flags_ok :: "'w serve \<Rightarrow> bool" where
  "flags_ok s \<longleftrightarrow>
     (sv_connErr s \<noteq> None \<longrightarrow> sv_canceled s) \<and>
     (cn_closed (sv_conn s) \<longrightarrow> sv_connErr s \<noteq> None \<or> (\<exists>r. sv_phase s = Returned r))"

lemma flags_write:
  assumes "io_writer wr out" "flags_ok s"
  shows "flags_ok (serve_write wr r m s)"
    "sv_canceled (serve_write wr r m s) \<longleftrightarrow> sv_canceled s \<or> sv_connErr (serve_write wr r m s) \<noteq> None"
    "sv_connErr (serve_write wr r m s) = None \<Longrightarrow> sv_connErr s = None"
    "cn_closed (sv_conn s) \<Longrightarrow> serve_write wr r m s = s"
proof -
  have "flags_ok (serve_write wr r m s) \<and>
    (sv_canceled (serve_write wr r m s) \<longleftrightarrow> sv_canceled s \<or> sv_connErr (serve_write wr r m s) \<noteq> None) \<and>
    (sv_connErr (serve_write wr r m s) = None \<longrightarrow> sv_connErr s = None)"
    using assms(1)
    by (rule serve_write_cases[of wr out s m r]) (use assms(2) in \<open>auto simp: flags_ok_def\<close>)
  then show "flags_ok (serve_write wr r m s)"
    "sv_canceled (serve_write wr r m s) \<longleftrightarrow> sv_canceled s \<or> sv_connErr (serve_write wr r m s) \<noteq> None"
    "sv_connErr (serve_write wr r m s) = None \<Longrightarrow> sv_connErr s = None" by simp_all
  show "cn_closed (sv_conn s) \<Longrightarrow> serve_write wr r m s = s"
    by (simp add: serve_write_def conn_write_closed)
qed

lemma flags_reply:
  assumes "io_writer wr out" "flags_ok s"
  shows "flags_ok (serve_reply wr r s)"
    "sv_canceled (serve_reply wr r s) \<longleftrightarrow> sv_canceled s \<or> sv_connErr (serve_reply wr r s) \<noteq> None"
    "sv_connErr (serve_reply wr r s) = None \<Longrightarrow> sv_connErr s = None"
  using flags_write[OF assms, of True "slice_bytes r"] assms(2)
  by (cases "slice_len r = 0"; simp add: serve_reply_def; auto simp: flags_ok_def)+

text \<open>
  The control invariant: the slots bound the dispatches; in the loop the connection is only
  canceled by a failure and nothing has ended it; outside the loop something has; a returned
  \<open>Serve\<close> has drained and closed the writer, and its result is nil exactly after a clean end
  without a failure.
\<close>

definition in_loop_ok :: "'w serve \<Rightarrow> bool" where
  "in_loop_ok s \<longleftrightarrow> (sv_canceled s \<longleftrightarrow> sv_connErr s \<noteq> None) \<and> \<not> sv_eofClean s \<and>
     sv_readErr s = None \<and> sv_dropped s = []"

definition exit_reason :: "'w serve \<Rightarrow> bool" where
  "exit_reason s \<longleftrightarrow> sv_connErr s \<noteq> None \<or> sv_eofClean s \<or> sv_ctx s \<noteq> None \<or> sv_readErr s \<noteq> None"

definition returned_ok :: "serve_err option \<Rightarrow> 'w serve \<Rightarrow> bool" where
  "returned_ok r s \<longleftrightarrow> sv_running s = [] \<and> cn_closed (sv_conn s) \<and>
     (r = None \<longleftrightarrow> sv_eofClean s \<and> sv_connErr s = None)"

definition phase_ok :: "'w serve \<Rightarrow> bool" where
  "phase_ok s \<longleftrightarrow> (case sv_phase s of
      AtCheck \<Rightarrow> in_loop_ok s | Reading \<Rightarrow> in_loop_ok s | Got d \<Rightarrow> in_loop_ok s
    | Exiting \<Rightarrow> exit_reason s | Draining \<Rightarrow> exit_reason s
    | Returned r \<Rightarrow> returned_ok r s)"

definition control_ok :: "int \<Rightarrow> 'w serve \<Rightarrow> bool" where
  "control_ok maxCalls s \<longleftrightarrow>
     flags_ok s \<and> int (length (sv_running s)) \<le> maxCalls \<and> (maxCalls = 1 \<longrightarrow> sv_running s = []) \<and>
     (sv_eofClean s \<longrightarrow> sv_dropped s = []) \<and> phase_ok s"

lemmas phase_defs = phase_ok_def in_loop_ok_def exit_reason_def returned_ok_def

lemma phase_ok_write:
  assumes "io_writer wr out" "flags_ok s" "phase_ok s"
  shows "phase_ok (serve_write wr r m s)"
  using flags_write(2-4)[OF assms(1,2), of r m] assms(3)
  by (cases "sv_phase s"; cases "sv_connErr (serve_write wr r m s)") (auto simp: phase_defs)

lemma phase_ok_reply:
  assumes "io_writer wr out" "flags_ok s" "phase_ok s"
  shows "phase_ok (serve_reply wr r s)"
  using phase_ok_write[OF assms] assms(3) by (simp add: serve_reply_def)

lemma after_read_fields [simp]:
  "sv_ctx (after_read r s) = sv_ctx s" "sv_canceled (after_read r s) = sv_canceled s"
  "sv_connErr (after_read r s) = sv_connErr s" "sv_running (after_read r s) = sv_running s"
  "sv_dropped (after_read r s) = sv_dropped s" "sv_sent (after_read r s) = sv_sent s"
  "cn_closed (sv_conn (after_read r s)) = cn_closed (sv_conn s)"
  by (auto simp: after_read_def Let_def split: prod.splits sum.splits)

lemma phase_ok_read:
  assumes "sv_phase s = Reading" "phase_ok s"
  shows "phase_ok (after_read r s)"
  using assms by (cases r; cases "fst r") (auto simp: after_read_def phase_defs Let_def)

lemma flags_ok_read: "flags_ok s \<Longrightarrow> sv_phase s = Reading \<Longrightarrow> flags_ok (after_read r s)"
  by (auto simp: flags_ok_def)

lemma eof_read: "phase_ok s \<Longrightarrow> sv_phase s = Reading \<Longrightarrow> sv_dropped (after_read r s) = []"
  by (simp add: phase_defs)

lemma phase_ok_fail: "phase_ok s \<Longrightarrow> sv_phase s \<noteq> Returned None \<Longrightarrow> phase_ok (serve_fail e s)"
  by (cases "sv_phase s") (auto simp: phase_defs)

lemma control_step:
  assumes "serve_step wr maxCalls replies s s'" "io_writer wr out" "control_ok maxCalls s"
  shows "control_ok maxCalls s'"
proof -
  have fl: "flags_ok s" and ph: "phase_ok s" and sl: "int (length (sv_running s)) \<le> maxCalls"
    and one: "maxCalls = 1 \<longrightarrow> sv_running s = []" and eo: "sv_eofClean s \<longrightarrow> sv_dropped s = []"
    using assms(3) by (simp_all add: control_ok_def)
  from assms(1) show ?thesis
  proof cases
    case (ctx_ends e)
    with fl ph sl one eo show ?thesis
      by (cases "sv_phase s") (simp_all add: control_ok_def flags_ok_def phase_defs)
  next
    case stop
    with fl ph sl one eo show ?thesis by (auto simp: control_ok_def flags_ok_def phase_defs conn_done_def)
  next
    case go_on
    with fl ph sl one eo show ?thesis by (simp add: control_ok_def flags_ok_def phase_defs)
  next
    case reading
    with fl sl one phase_ok_read[OF _ ph] flags_ok_read[OF fl] eof_read[OF ph] show ?thesis
      by (simp add: control_ok_def)
  next
    case (inline frame resp)
    with fl sl one eo phase_ok_reply[OF assms(2) fl ph, of resp] flags_reply[OF assms(2) fl, of resp] show ?thesis
      by (auto simp: control_ok_def flags_ok_def phase_defs)
  next
    case (inline_panic frame v)
    with fl ph sl one eo show ?thesis by (auto simp: control_ok_def flags_ok_def phase_defs)
  next
    case (spawn frame)
    with fl ph sl one eo show ?thesis by (simp add: control_ok_def flags_ok_def phase_defs)
  next
    case (give_up frame)
    with fl ph sl one eo show ?thesis by (auto simp: control_ok_def flags_ok_def phase_defs conn_done_def)
  next
    case (finish xs frame ys resp)
    moreover have "sv_phase s \<noteq> Returned r" for r using ph finish by (auto simp: phase_defs)
    moreover have "phase_ok ((serve_reply wr resp s)\<lparr>sv_running := xs @ ys\<rparr>)"
      using phase_ok_reply[OF assms(2) fl ph, of resp] calculation(4)
      by (cases "sv_phase s") (auto simp: phase_defs)
    ultimately show ?thesis using fl sl one eo flags_reply(1)[OF assms(2) fl, of resp]
      by (auto simp: control_ok_def flags_ok_def)
  next
    case (task_panic xs frame ys v)
    moreover have "sv_phase s \<noteq> Returned r" for r using ph task_panic by (auto simp: phase_defs)
    moreover have "phase_ok ((serve_fail (panic_err v) s)\<lparr>sv_running := xs @ ys\<rparr>)"
      using phase_ok_fail[OF ph, of "panic_err v"] calculation(3)
      by (cases "sv_phase s") (auto simp: phase_defs)
    ultimately show ?thesis using fl sl one eo by (auto simp: control_ok_def flags_ok_def)
  next
    case (push frame)
    with sl one eo phase_ok_write[OF assms(2) fl ph] flags_write(1)[OF assms(2) fl] show ?thesis
      by (simp add: control_ok_def)
  next
    case drain
    with fl ph sl one eo show ?thesis by (auto simp: control_ok_def flags_ok_def phase_defs)
  next
    case return
    with fl ph sl one eo show ?thesis
      by (auto simp: control_ok_def flags_ok_def phase_defs conn_close_def serve_result_def split: option.splits)
  qed
qed

section \<open>Frames and replies\<close>

text \<open>
  The messages due for a list of frames: their non-empty replies, as far as the framing can
  carry them. \<open>responses\<close> are the replies that were written, pushes left out; \<open>in_hand\<close> is the
  frame the loop is holding.
\<close>

definition answers :: "(bytes \<Rightarrow> bytes option) \<Rightarrow> (bytes \<Rightarrow> slice) \<Rightarrow> bytes list \<Rightarrow> bytes list" where
  "answers W handle ds = filter (\<lambda>m. m \<noteq> [] \<and> W m \<noteq> None) (map (slice_bytes \<circ> handle) ds)"

definition responses :: "'w serve \<Rightarrow> bytes list" where
  "responses s = map snd (filter fst (sv_sent s))"

definition in_hand :: "'w serve \<Rightarrow> bytes list" where
  "in_hand s = (case sv_phase s of Got d \<Rightarrow> [d] | _ \<Rightarrow> [])"

definition reply_to :: "(bytes \<Rightarrow> slice) \<Rightarrow> bytes \<Rightarrow> slice \<Rightarrow> bool" where
  "reply_to handle d r \<longleftrightarrow> r = handle d"

lemma answers_append [simp]: "answers W h (xs @ ys) = answers W h xs @ answers W h ys"
  by (simp add: answers_def)

lemma answers_Nil [simp]: "answers W h [] = []"
  by (simp add: answers_def)

definition wire_content :: "('w \<Rightarrow> bytes) \<Rightarrow> (bytes \<Rightarrow> bytes option) \<Rightarrow> bytes \<Rightarrow> 'w serve \<Rightarrow> bool" where
  "wire_content out W out0 s \<longleftrightarrow> conn_out out (sv_conn s) = out0 @ concat (map (the \<circ> W \<circ> snd) (sv_sent s))"

lemma content_updates [simp]:
  "responses (s\<lparr>sv_phase := p\<rparr>) = responses s" "responses (s\<lparr>sv_running := ds\<rparr>) = responses s"
  "wire_content out W out0 (s\<lparr>sv_phase := p\<rparr>) = wire_content out W out0 s"
  "wire_content out W out0 (s\<lparr>sv_running := ds\<rparr>) = wire_content out W out0 s"
  by (simp_all add: responses_def wire_content_def)

text \<open>Without a failure a write is either unframeable or complete.\<close>

lemma write_effect:
  assumes "io_writer wr out" "flags_ok s" "\<forall>r. sv_phase s \<noteq> Returned r" "frame_wire (cn_fr (sv_conn s)) = W"
    and "sv_connErr (serve_write wr r m s) = None" "wire_content out W out0 s"
  shows "wire_content out W out0 (serve_write wr r m s)"
    "sv_sent (serve_write wr r m s) = sv_sent s @ (if W m = None then [] else [(r, m)])"
proof -
  have op: "\<not> cn_closed (sv_conn s)"
    using assms(2,3) flags_write(3)[OF assms(1,2,5)] by (auto simp: flags_ok_def)
  have "wire_content out W out0 (serve_write wr r m s) \<and>
      sv_sent (serve_write wr r m s) = sv_sent s @ (if W m = None then [] else [(r, m)])"
    using assms(1)
  proof (cases rule: serve_write_cases[where s = s and m = m and r = r])
    case unchanged
    with op assms(4,6) show ?thesis by simp
  next
    case (sent c' ws)
    with assms(4,6) show ?thesis by (simp add: wire_content_def)
  next
    case (failed c' x)
    with assms(5) show ?thesis by simp
  qed
  then show "wire_content out W out0 (serve_write wr r m s)"
    "sv_sent (serve_write wr r m s) = sv_sent s @ (if W m = None then [] else [(r, m)])" by simp_all
qed

lemma write_same:
  assumes "io_writer wr out"
  shows "same_framing (sv_conn s) (sv_conn (serve_write wr r m s))"
  using assms by (rule serve_write_cases[of wr out s m r]) simp_all

lemma reply_same:
  assumes "io_writer wr out"
  shows "same_framing (sv_conn s) (sv_conn (serve_reply wr r s))"
  using write_same[OF assms] by (simp add: serve_reply_def)

lemma reply_effect:
  assumes "io_writer wr out" "flags_ok s" "\<forall>r. sv_phase s \<noteq> Returned r" "frame_wire (cn_fr (sv_conn s)) = W"
    and "sv_connErr (serve_reply wr (h d) s) = None" "wire_content out W out0 s"
  shows "wire_content out W out0 (serve_reply wr (h d) s)"
    "responses (serve_reply wr (h d) s) = responses s @ answers W h [d]"
proof -
  have "wire_content out W out0 (serve_reply wr (h d) s) \<and>
      responses (serve_reply wr (h d) s) = responses s @ answers W h [d]"
  proof (cases "slice_len (h d) = 0")
    case True
    with assms(6) show ?thesis by (simp add: serve_reply_def answers_def slice_len_def)
  next
    case False
    with assms(5) have "sv_connErr (serve_write wr True (slice_bytes (h d)) s) = None" by (simp add: serve_reply_def)
    from write_effect[OF assms(1-4) this assms(6)] False show ?thesis
      by (simp add: serve_reply_def answers_def responses_def slice_len_def)
  qed
  then show "wire_content out W out0 (serve_reply wr (h d) s)"
    "responses (serve_reply wr (h d) s) = responses s @ answers W h [d]" by simp_all
qed

text \<open>
  The accounting invariant: as long as nothing has failed, the wire carries exactly the
  messages written, and every frame read is answered, being dispatched, in the loop's hand or
  given up; with sequential dispatch the replies are in the order of the frames.
\<close>

definition accounts :: "int \<Rightarrow> (bytes \<Rightarrow> bytes option) \<Rightarrow> (bytes \<Rightarrow> slice) \<Rightarrow> 'w serve \<Rightarrow> bool" where
  "accounts maxCalls W h s \<longleftrightarrow>
     mset (answers W h (sv_read s)) = mset (responses s) + mset (answers W h (sv_running s)) +
       mset (answers W h (in_hand s)) + mset (answers W h (sv_dropped s)) \<and>
     (maxCalls = 1 \<longrightarrow> answers W h (sv_read s) = responses s @ answers W h (in_hand s))"

definition content_ok :: "('w \<Rightarrow> bytes) \<Rightarrow> int \<Rightarrow> (bytes \<Rightarrow> bytes option) \<Rightarrow> bytes \<Rightarrow> (bytes \<Rightarrow> slice) \<Rightarrow> 'w serve \<Rightarrow> bool" where
  "content_ok out maxCalls W out0 h s \<longleftrightarrow> frame_wire (cn_fr (sv_conn s)) = W \<and>
     (sv_connErr s = None \<longrightarrow> wire_content out W out0 s \<and> accounts maxCalls W h s)"

lemma returned_closed: "control_ok k s \<Longrightarrow> sv_phase s = Returned r \<Longrightarrow> cn_closed (sv_conn s)"
  by (simp add: control_ok_def phase_defs)

lemma content_step:
  assumes "serve_step wr maxCalls (reply_to h) s s'" "io_writer wr out" "control_ok maxCalls s"
    and "content_ok out maxCalls W out0 h s"
  shows "content_ok out maxCalls W out0 h s'"
proof -
  have fl: "flags_ok s" and W: "frame_wire (cn_fr (sv_conn s)) = W"
    and one: "maxCalls = 1 \<longrightarrow> sv_running s = []"
    using assms(3,4) by (simp_all add: control_ok_def content_ok_def)
  have ok: "sv_connErr s = None \<Longrightarrow> wire_content out W out0 s" "sv_connErr s = None \<Longrightarrow> accounts maxCalls W h s"
    using assms(4) by (simp_all add: content_ok_def)
  note defs = content_ok_def wire_content_def accounts_def responses_def in_hand_def
  from assms(1) show ?thesis
  proof cases
    case (ctx_ends e)
    with assms(4) show ?thesis by (simp add: defs)
  next
    case stop
    with assms(4) show ?thesis by (simp add: defs)
  next
    case go_on
    with assms(4) show ?thesis by (simp add: defs)
  next
    case reading
    obtain res f where r: "ReadFrame (cn_fr (sv_conn s)) = (res, f)" by (cases "ReadFrame (cn_fr (sv_conn s))")
    from fr.read_same[OF r] W ok one reading r show ?thesis
      by (cases res) (auto simp: defs after_read_def Let_def)
  next
    case (inline frame resp)
    then have resp: "resp = h frame" and ph: "\<forall>r. sv_phase s \<noteq> Returned r" by (simp_all add: reply_to_def)
    have dr: "sv_dropped s = []" using assms(3) inline(3) by (simp add: control_ok_def phase_defs)
    have W': "frame_wire (cn_fr (sv_conn (serve_reply wr resp s))) = W"
      using reply_same[OF assms(2), of s resp] W by (simp add: same_framing_def)
    show ?thesis
    proof (cases "sv_connErr (serve_reply wr resp s)")
      case None
      from reply_effect[where h = h and d = frame, OF assms(2) fl ph W None[unfolded resp] ok(1)[OF flags_reply(3)[OF assms(2) fl None]]]
        ok(2)[OF flags_reply(3)[OF assms(2) fl None]] W' inline(1-3) one resp dr
      show ?thesis by (simp add: content_ok_def accounts_def in_hand_def)
    qed (use W' inline in \<open>simp add: content_ok_def\<close>)
  next
    case (inline_panic frame v)
    with W show ?thesis by (simp add: content_ok_def)
  next
    case (spawn frame)
    with assms(4) show ?thesis by (simp add: defs)
  next
    case (give_up frame)
    with assms(4) show ?thesis by (simp add: defs)
  next
    case (finish xs frame ys resp)
    then have resp: "resp = h frame" by (simp add: reply_to_def)
    have run: "answers W h (sv_running s) = answers W h xs @ answers W h [frame] @ answers W h ys"
      "sv_running s \<noteq> []"
      by (simp_all add: finish(2) answers_def)
    have ph: "\<forall>r. sv_phase s \<noteq> Returned r"
      using assms(3) finish(2) by (auto simp: control_ok_def phase_defs)
    have W': "frame_wire (cn_fr (sv_conn (serve_reply wr resp s))) = W"
      using reply_same[OF assms(2), of s resp] W by (simp add: same_framing_def)
    show ?thesis
    proof (cases "sv_connErr (serve_reply wr resp s)")
      case None
      from reply_effect[where h = h and d = frame, OF assms(2) fl ph W None[unfolded resp] ok(1)[OF flags_reply(3)[OF assms(2) fl None]]]
        ok(2)[OF flags_reply(3)[OF assms(2) fl None]] W' finish(1) one resp run
      show ?thesis by (simp add: content_ok_def accounts_def in_hand_def)
    qed (use W' finish in \<open>simp add: content_ok_def\<close>)
  next
    case (task_panic xs frame ys v)
    with W show ?thesis by (simp add: content_ok_def)
  next
    case (push frame)
    have W': "frame_wire (cn_fr (sv_conn (serve_write wr False frame s))) = W"
      using write_same[OF assms(2), of s False frame] W by (simp add: same_framing_def)
    show ?thesis
    proof (cases "\<exists>r. sv_phase s = Returned r")
      case True
      with returned_closed[OF assms(3)] flags_write(4)[OF assms(2) fl] push assms(4) show ?thesis by metis
    next
      case False
      show ?thesis
      proof (cases "sv_connErr (serve_write wr False frame s)")
        case None
        from write_effect[OF assms(2) fl _ W None ok(1)[OF flags_write(3)[OF assms(2) fl None]]] False
          ok(2)[OF flags_write(3)[OF assms(2) fl None]] W' push
        show ?thesis by (simp add: content_ok_def accounts_def in_hand_def responses_def)
      qed (use W' push in \<open>simp add: content_ok_def\<close>)
    qed
  next
    case drain
    with assms(4) show ?thesis by (simp add: defs)
  next
    case return
    with assms(4) show ?thesis by (simp add: defs conn_close_def)
  qed
qed

text \<open>
  The input invariant, for a peer that sends the frames of \<open>ms\<close> and then closes: the loop has
  read a prefix of them, the rest is still on the stream, and a clean end comes after the last.
\<close>

definition reader_ok :: "'w framer \<Rightarrow> 'w conn \<Rightarrow> bool" where
  "reader_ok f0 c \<longleftrightarrow> frame_wire (cn_fr c) = frame_wire f0 \<and> frame_received (cn_fr c) = frame_received f0 \<and>
     frame_sendable (cn_fr c) = frame_sendable f0 \<and> frame_limit_ok (cn_fr c)"

definition input_at :: "'w framer \<Rightarrow> bytes list \<Rightarrow> nat \<Rightarrow> 'w serve \<Rightarrow> bool" where
  "input_at f0 ms k s \<longleftrightarrow> k \<le> length ms \<and> reader_ok f0 (sv_conn s) \<and>
     sv_read s = map (frame_received f0) (take k ms) \<and>
     framer_rd (cn_fr (sv_conn s)) = \<lparr>rd_rest = concat (map (the \<circ> frame_wire f0) (drop k ms)), rd_end = StreamEOF\<rparr> \<and>
     (sv_eofClean s \<longrightarrow> k = length ms)"

lemma input_at_same:
  assumes "input_at f0 ms k s" "same_framing (sv_conn s) (sv_conn s')" "sv_read s' = sv_read s"
    "sv_eofClean s' = sv_eofClean s"
  shows "input_at f0 ms k s'"
  using assms by (simp add: input_at_def reader_ok_def same_framing_def)

lemma input_reading_more:
  assumes "list_all (frame_sendable f0) ms" "input_at f0 ms k s" "\<not> sv_eofClean s" "k < length ms"
  shows "input_at f0 ms (Suc k) (after_read (ReadFrame (cn_fr (sv_conn s))) s)"
    "sv_phase (after_read (ReadFrame (cn_fr (sv_conn s))) s) = Got (frame_received f0 (ms ! k))"
    "sv_eofClean (after_read (ReadFrame (cn_fr (sv_conn s))) s) = sv_eofClean s"
proof -
  let ?f = "cn_fr (sv_conn s)" and ?m = "ms ! k"
  obtain res f where r: "ReadFrame ?f = (res, f)" by (cases "ReadFrame ?f")
  note same = fr.read_same[OF r]
  have d: "drop k ms = ?m # drop (Suc k) ms" using assms(4) by (rule Cons_nth_drop_Suc[symmetric])
  have sd: "frame_sendable ?f ?m" using assms(1,2,4) by (simp add: input_at_def reader_ok_def list_all_length)
  then obtain ws where ws: "frame_wire ?f ?m = Some ws" using frame_sendable_wire by fastforce
  have "rd_rest (framer_rd ?f) = ws @ concat (map (the \<circ> frame_wire f0) (drop (Suc k) ms))"
    using assms(2) ws d by (simp add: input_at_def reader_ok_def)
  from fr.read_wire[OF sd ws this] r have res: "res = Inr (frame_received f0 ?m)"
    "framer_rd f = (framer_rd ?f)\<lparr>rd_rest := concat (map (the \<circ> frame_wire f0) (drop (Suc k) ms))\<rparr>"
    using assms(2) by (auto simp: input_at_def reader_ok_def)
  with same r assms(2-4) show "input_at f0 ms (Suc k) (after_read (ReadFrame ?f) s)"
    by (simp add: input_at_def reader_ok_def after_read_def Let_def take_Suc_conv_app_nth)
  show "sv_phase (after_read (ReadFrame ?f) s) = Got (frame_received f0 ?m)"
    "sv_eofClean (after_read (ReadFrame ?f) s) = sv_eofClean s"
    by (simp_all add: r res after_read_def Let_def)
qed

lemma input_reading_end:
  assumes "input_at f0 ms k s" "\<not> k < length ms"
  shows "input_at f0 ms k (after_read (ReadFrame (cn_fr (sv_conn s))) s)"
    "sv_phase (after_read (ReadFrame (cn_fr (sv_conn s))) s) = Exiting"
    "sv_ctx s = None \<Longrightarrow> sv_eofClean (after_read (ReadFrame (cn_fr (sv_conn s))) s)"
proof -
  let ?f = "cn_fr (sv_conn s)"
  obtain res f where r: "ReadFrame ?f = (res, f)" by (cases "ReadFrame ?f")
  note same = fr.read_same[OF r]
  from assms have k: "k = length ms" "rd_rest (framer_rd ?f) = []" "rd_end (framer_rd ?f) = StreamEOF"
    "frame_limit_ok ?f" by (auto simp: input_at_def reader_ok_def)
  from fr.read_end[OF k(4,2,3)] r have res: "res = Inl FEOF" by simp
  have "framer_rd f = framer_rd ?f" using ReadFrame_eof_same[OF r[unfolded res] k(2)] k by simp
  with res same r assms(1) k show "input_at f0 ms k (after_read (ReadFrame ?f) s)"
    by (simp add: input_at_def reader_ok_def after_read_def Let_def)
  show "sv_phase (after_read (ReadFrame ?f) s) = Exiting"
    "sv_ctx s = None \<Longrightarrow> sv_eofClean (after_read (ReadFrame ?f) s)"
    by (simp_all add: r res after_read_def Let_def)
qed

lemma input_step:
  assumes "serve_step wr maxCalls replies s s'" "io_writer wr out" "control_ok maxCalls s"
    and "list_all (frame_sendable f0) ms" "input_at f0 ms k s"
  shows "\<exists>k'. input_at f0 ms k' s'"
  using assms(1)
proof cases
  case reading
  have "\<not> sv_eofClean s" using assms(3) reading(2) by (simp add: control_ok_def phase_defs)
  with input_reading_more(1)[OF assms(4,5)] input_reading_end(1)[OF assms(5)] reading show ?thesis
    by (cases "k < length ms") blast+
next
  case (inline frame resp)
  have "input_at f0 ms k s'"
    by (rule input_at_same[OF assms(5)]) (use inline(1) reply_same[OF assms(2), of s resp] in simp_all)
  then show ?thesis ..
next
  case (finish xs frame ys resp)
  have "input_at f0 ms k s'"
    by (rule input_at_same[OF assms(5)]) (use finish(1) reply_same[OF assms(2), of s resp] in simp_all)
  then show ?thesis ..
next
  case (push frame)
  have "input_at f0 ms k s'"
    by (rule input_at_same[OF assms(5)]) (use push write_same[OF assms(2), of s False frame] in simp_all)
  then show ?thesis ..
next
  case return
  have "input_at f0 ms k s'"
    by (rule input_at_same[OF assms(5)]) (simp_all add: return(1) same_framing_def conn_close_def)
  then show ?thesis ..
qed (use assms(5) in \<open>auto intro!: exI[of _ k] simp: input_at_def\<close>)

section \<open>Runs of Serve\<close>

text \<open>The options that exist.\<close>

definition serve_option :: "(server \<Rightarrow> server) \<Rightarrow> bool" where
  "serve_option opt \<longleftrightarrow> (\<exists>n. opt = WithMaxMessageSize n) \<or> (\<exists>n. opt = WithMaxConcurrentCalls n)"

lemma serve_options_positive:
  assumes "list_all serve_option opts" "0 < sr_maxMessageSize s" "0 < sr_maxCalls s"
  shows "0 < sr_maxMessageSize (fold (\<lambda>opt s. opt s) opts s) \<and> 0 < sr_maxCalls (fold (\<lambda>opt s. opt s) opts s)"
  using assms
proof (induction opts arbitrary: s)
  case Nil
  then show ?case by simp
next
  case (Cons opt opts)
  then have "0 < sr_maxMessageSize (opt s) \<and> 0 < sr_maxCalls (opt s)"
    by (auto simp: serve_option_def WithMaxMessageSize_def WithMaxConcurrentCalls_def)
  with Cons show ?case by simp
qed

lemma Serve_start_ok:
  assumes "Serve_start rpcNil fid (Some r) (Some w) opts ctxErr = Inr (srv, s)" "list_all serve_option opts"
  shows "control_ok (sr_maxCalls srv) s" "sv_phase s = AtCheck" "sv_running s = []" "sv_read s = []" "sv_sent s = []"
    "sv_dropped s = []" "\<not> sv_eofClean s" "sv_connErr s = None" "framer_wst (cn_fr (sv_conn s)) = w"
    "framer_rd (cn_fr (sv_conn s)) = r" "frame_limit_ok (cn_fr (sv_conn s))"
    "fb_maxSize (framer_base (cn_fr (sv_conn s))) = sr_maxMessageSize srv"
proof -
  let ?srv = "fold (\<lambda>opt s. opt s) opts
    \<lparr>sr_maxMessageSize = DefaultMaxMessageSize, sr_maxCalls = DefaultMaxConcurrentCalls\<rparr>"
  have pos: "0 < sr_maxMessageSize ?srv \<and> 0 < sr_maxCalls ?srv"
    by (rule serve_options_positive[OF assms(2)])
      (simp_all add: DefaultMaxMessageSize_def DefaultMaxConcurrentCalls_def)
  from assms(1) have valid: "Framing_valid fid" and srv: "srv = ?srv"
    by (auto simp: Serve_start_def Let_def split: if_splits)
  then have "newFramer fid r w (sr_maxMessageSize ?srv) ''WithMaxMessageSize'' \<noteq> None"
    by (auto simp: newFramer_def Framing_valid_def Let_def)
  then obtain f where f: "newFramer fid r w (sr_maxMessageSize ?srv) ''WithMaxMessageSize'' = Some f" by blast
  have s: "s = \<lparr>sv_conn = \<lparr>cn_fr = f, cn_closed = False\<rparr>,
      sv_phase = AtCheck, sv_ctx = ctxErr, sv_canceled = False, sv_connErr = None,
      sv_readErr = None, sv_eofClean = False, sv_running = [], sv_read = [], sv_dropped = [], sv_sent = []\<rparr>"
    using assms(1) f by (auto simp: Serve_start_def Let_def split: if_splits)
  show "control_ok (sr_maxCalls srv) s" using pos srv
    by (simp add: s control_ok_def flags_ok_def phase_defs)
  show "frame_limit_ok (cn_fr (sv_conn s))" using pos newFramer_fields(3)[OF f] by (simp add: s frame_limit_ok_def)
  show "sv_phase s = AtCheck" "sv_running s = []" "sv_read s = []" "sv_sent s = []"
    "sv_dropped s = []" "\<not> sv_eofClean s" "sv_connErr s = None" "framer_wst (cn_fr (sv_conn s)) = w"
    "framer_rd (cn_fr (sv_conn s)) = r" "fb_maxSize (framer_base (cn_fr (sv_conn s))) = sr_maxMessageSize srv"
    using newFramer_fields[OF f] srv by (simp_all add: s)
qed

lemma run_control:
  assumes "(serve_step wr k replies)\<^sup>*\<^sup>* s0 s" "io_writer wr out" "control_ok k s0"
  shows "control_ok k s"
  using assms by (induction rule: rtranclp_induct) (auto intro: control_step)

lemma run_content:
  assumes "(serve_step wr k (reply_to h))\<^sup>*\<^sup>* s0 s" "io_writer wr out" "control_ok k s0" "content_ok out k W out0 h s0"
  shows "content_ok out k W out0 h s"
  using assms by (induction rule: rtranclp_induct) (auto intro: content_step run_control)

lemma run_input:
  assumes "(serve_step wr k replies)\<^sup>*\<^sup>* s0 s" "io_writer wr out" "control_ok k s0"
    and "list_all (frame_sendable f0) ms" "\<exists>i. input_at f0 ms i s0"
  shows "\<exists>i. input_at f0 ms i s"
  using assms
proof (induction rule: rtranclp_induct)
  case (step y z)
  then obtain i where "input_at f0 ms i y" by blast
  from input_step[OF step.hyps(2) step.prems(1) run_control[OF step.hyps(1) step.prems(1,2)] step.prems(3) this]
  show ?case .
qed

lemma start_content:
  assumes "Serve_start rpcNil fid (Some r) (Some w) opts ctxErr = Inr (srv, s)" "list_all serve_option opts"
  shows "content_ok out (sr_maxCalls srv) (frame_wire (cn_fr (sv_conn s))) (out w) h s"
  using Serve_start_ok[OF assms]
  by (simp add: content_ok_def wire_content_def accounts_def responses_def in_hand_def)

text \<open>
  The result of \<open>Serve\<close>: at most the configured number of messages is in dispatch at any
  moment; and when it returns nothing is left running, the writer is closed to late pushes, and
  it returns nil exactly when the peer closed the stream before any cancellation and no write
  failed and nothing panicked. In particular the last branch of the deferred switch, nil for
  want of any reason, is unreachable.
\<close>

theorem serve_result_nil_iff:
  assumes "io_writer wr out" "Serve_start rpcNil fid (Some r) (Some w) opts ctxErr = Inr (srv, s0)"
    and "list_all serve_option opts" "(serve_step wr (sr_maxCalls srv) replies)\<^sup>*\<^sup>* s0 s"
  shows "int (length (sv_running s)) \<le> sr_maxCalls srv \<and>
    (case sv_phase s of
       Returned res \<Rightarrow> sv_running s = [] \<and> cn_closed (sv_conn s) \<and>
         (res = None \<longleftrightarrow> sv_eofClean s \<and> sv_connErr s = None)
     | _ \<Rightarrow> True)"
proof -
  have "control_ok (sr_maxCalls srv) s"
    by (rule run_control[OF assms(4,1)]) (rule Serve_start_ok(1)[OF assms(2,3)])
  then show ?thesis by (auto simp: control_ok_def phase_defs split: phase.splits)
qed

text \<open>A session that ended with nil: what it read, what it answered, what it wrote.\<close>

lemma clean_session:
  assumes "io_writer wr out" "Serve_start rpcNil fid (Some \<lparr>rd_rest = input, rd_end = StreamEOF\<rparr>) (Some w) opts ctxErr = Inr (srv, s0)"
    and "list_all serve_option opts" "f0 = cn_fr (sv_conn s0)"
    and "list_all (frame_sendable f0) ms" "input = concat (map (the \<circ> frame_wire f0) ms)"
    and "(serve_step wr (sr_maxCalls srv) (reply_to handle))\<^sup>*\<^sup>* s0 s" "sv_phase s = Returned None"
  shows "sv_read s = map (frame_received f0) ms"
    "mset (responses s) = mset (answers (frame_wire f0) handle (map (frame_received f0) ms))"
    "sr_maxCalls srv = 1 \<Longrightarrow> responses s = answers (frame_wire f0) handle (map (frame_received f0) ms)"
    "conn_out out (sv_conn s) = out w @ concat (map (the \<circ> frame_wire f0 \<circ> snd) (sv_sent s))"
proof -
  note start = Serve_start_ok[OF assms(2,3)]
  have ctl: "control_ok (sr_maxCalls srv) s" by (rule run_control[OF assms(7,1) start(1)])
  then have fin: "sv_running s = []" "sv_eofClean s" "sv_connErr s = None" "sv_dropped s = []" "in_hand s = []"
    using assms(8) by (simp_all add: control_ok_def phase_defs in_hand_def)
  have "input_at f0 ms 0 s0" using start assms(4,6) by (simp add: input_at_def reader_ok_def)
  then obtain i where i: "input_at f0 ms i s" using run_input[OF assms(7,1) start(1) assms(5)] by blast
  then show "sv_read s = map (frame_received f0) ms" using fin(2) by (simp add: input_at_def)
  with run_content[OF assms(7,1) start(1) start_content[OF assms(2,3)]] fin assms(4)
  show "mset (responses s) = mset (answers (frame_wire f0) handle (map (frame_received f0) ms))"
    "sr_maxCalls srv = 1 \<Longrightarrow> responses s = answers (frame_wire f0) handle (map (frame_received f0) ms)"
    "conn_out out (sv_conn s) = out w @ concat (map (the \<circ> frame_wire f0 \<circ> snd) (sv_sent s))"
    by (simp_all add: content_ok_def accounts_def wire_content_def)
qed

text \<open>
  C34: An orderly shutdown answers everything: if the peer sends the frames of the messages \<open>ms\<close>
  and closes the stream, and \<open>Serve\<close> returns nil, then every message was handed to the dispatcher
  and the replies written are, each exactly once, the non-empty replies to \<open>ms\<close>; the output
  is the frames of these replies and of the pushed notifications, complete and unmixed.
\<close>

theorem serve_clean_shutdown:
  assumes "io_writer wr out" "Serve_start rpcNil fid (Some \<lparr>rd_rest = input, rd_end = StreamEOF\<rparr>) (Some w) opts ctxErr = Inr (srv, s0)"
    and "list_all serve_option opts" "f0 = cn_fr (sv_conn s0)"
    and "list_all (frame_sendable f0) ms" "input = concat (map (the \<circ> frame_wire f0) ms)"
    and "(serve_step wr (sr_maxCalls srv) (reply_to handle))\<^sup>*\<^sup>* s0 s" "sv_phase s = Returned None"
  shows "sv_read s = map (frame_received f0) ms \<and>
    mset (responses s) = mset (answers (frame_wire f0) handle (map (frame_received f0) ms)) \<and>
    conn_out out (sv_conn s) = out w @ concat (map (the \<circ> frame_wire f0 \<circ> snd) (sv_sent s))"
  using clean_session[OF assms] by blast

text \<open>
  With the default of one concurrent call the order is kept end to end: as long as nothing
  has failed, the replies written so far are the non-empty replies to the frames read so far,
  in the order they were read, without the frame that is being dispatched.
\<close>

theorem serve_sequential_order:
  assumes "io_writer wr out" "Serve_start rpcNil fid (Some r) (Some w) opts ctxErr = Inr (srv, s0)"
    and "list_all serve_option opts" "sr_maxCalls srv = 1"
    and "(serve_step wr 1 (reply_to handle))\<^sup>*\<^sup>* s0 s" "sv_connErr s = None"
  shows "responses s @ answers (frame_wire (cn_fr (sv_conn s0))) handle (in_hand s) =
    answers (frame_wire (cn_fr (sv_conn s0))) handle (sv_read s)"
proof -
  note start = Serve_start_ok[OF assms(2,3), unfolded assms(4)]
  from run_content[OF assms(5,1) start(1) start_content[OF assms(2,3), unfolded assms(4)]] assms(6)
  show ?thesis by (simp add: content_ok_def accounts_def)
qed

section \<open>Complete sessions exist\<close>

text \<open>
  Over a stream that takes every write, sequential dispatch can always run an idle connection to
  the nil result.
\<close>

definition idle :: "'w serve \<Rightarrow> bool" where
  "idle s \<longleftrightarrow> sv_phase s = AtCheck \<and> \<not> conn_done s \<and> sv_connErr s = None \<and> \<not> sv_eofClean s \<and>
     \<not> cn_closed (sv_conn s) \<and> sv_running s = [] \<and> list_all fst (sv_sent s)"

lemma writeAll_total: "\<forall>w p. fst (wr w p) = None \<Longrightarrow> fst (writeAll wr ps w) = None"
proof (induction ps arbitrary: w)
  case (Cons p ps)
  then have "fst (wr w p) = None" by blast
  with Cons show ?case by (cases "wr w p") auto
qed simp

lemma WriteFrame_total:
  assumes "\<forall>w p. fst (wr w p) = None" "WriteFrame wr m f = (Some e, f')"
  shows "\<exists>t. e = FUnframeable t"
proof (cases f)
  case (ContentLengthFramer b)
  with assms writeAll_total[OF assms(1), of "[cl_header (length m), m]" "fb_w b"] show ?thesis
    by (cases "writeAll wr [cl_header (length m), m] (fb_w b)") (simp add: cl_WriteFrame_def)
next
  case (NdjsonFramer b)
  show ?thesis
  proof (cases "nd_payload m")
    case (Inl x)
    with assms(2) NdjsonFramer nd_payload_unframeable[OF Inl] show ?thesis by (simp add: nd_WriteFrame_def)
  next
    case (Inr p)
    with assms NdjsonFramer writeAll_total[OF assms(1), of "[p, [LF]]" "fb_w b"] show ?thesis
      by (cases "writeAll wr [p, [LF]] (fb_w b)") (simp add: nd_WriteFrame_def)
  qed
qed

lemma conn_write_total:
  assumes "\<forall>w p. fst (wr w p) = None" "\<not> cn_closed c"
  shows "snd (fst (conn_write wr m c)) = None" "\<not> cn_closed (snd (conn_write wr m c))"
proof -
  obtain e f where w: "WriteFrame wr m (cn_fr c) = (e, f)" by (cases "WriteFrame wr m (cn_fr c)")
  then consider "e = None" | t where "e = Some (FUnframeable t)"
    using WriteFrame_total[OF assms(1)] by (cases e) blast+
  then show "snd (fst (conn_write wr m c)) = None" "\<not> cn_closed (snd (conn_write wr m c))"
    using w assms(2) by (cases; simp add: conn_write_def)+
qed

lemma idle_reply:
  assumes "\<forall>w p. fst (wr w p) = None" "sv_phase s = Got d" "idle (s\<lparr>sv_phase := AtCheck\<rparr>)"
  shows "idle ((serve_reply wr r s)\<lparr>sv_phase := AtCheck\<rparr>)"
proof -
  obtain e fl c where w: "conn_write wr (slice_bytes r) (sv_conn s) = ((e, fl), c)" by (metis surj_pair)
  with conn_write_total[OF assms(1), of "sv_conn s" "slice_bytes r"] assms(3)
  have "fl = None" "\<not> cn_closed c" by (simp_all add: idle_def)
  with w assms(3) show ?thesis
    by (simp add: serve_reply_def serve_write_def idle_def conn_done_def)
qed

lemma serve_run_exists:
  assumes "\<forall>w p. fst (wr w p) = None" "io_writer wr out" "list_all (frame_sendable f0) ms"
    and "input_at f0 ms k s" "idle s"
  shows "\<exists>s'. (serve_step wr 1 (reply_to h))\<^sup>*\<^sup>* s s' \<and> sv_phase s' = Returned None \<and> list_all fst (sv_sent s')"
  using assms(4,5)
proof (induction "length ms - k" arbitrary: k s)
  case run: 0
  let ?st = "serve_step wr 1 (reply_to h)"
  let ?s1 = "s\<lparr>sv_phase := Reading\<rparr>"
  let ?s2 = "after_read (ReadFrame (cn_fr (sv_conn ?s1))) ?s1"
  let ?s3 = "?s2\<lparr>sv_phase := Draining, sv_canceled := (sv_canceled ?s2 \<or> \<not> sv_eofClean ?s2)\<rparr>"
  let ?s4 = "?s3\<lparr>sv_conn := conn_close (sv_conn ?s3), sv_phase := Returned (serve_result ?s3)\<rparr>"
  have s2: "sv_phase ?s2 = Exiting" "sv_eofClean ?s2"
    using input_reading_end(2,3)[of f0 ms k ?s1] run by (simp_all add: input_at_def idle_def conn_done_def)
  have "?st\<^sup>*\<^sup>* s ?s1" using run(3) by (intro r_into_rtranclp serve_step.go_on) (auto simp: idle_def)
  also have "?st ?s1 ?s2" by (rule serve_step.reading) simp
  also have "?st ?s2 ?s3" using s2(1) by (rule serve_step.drain)
  also have "?st ?s3 ?s4" using run(3) by (intro serve_step.return) (auto simp: idle_def)
  finally have "?st\<^sup>*\<^sup>* s ?s4" .
  moreover have "sv_phase ?s4 = Returned None" "list_all fst (sv_sent ?s4)" using s2 run(3) by (simp_all add: serve_result_def idle_def)
  ultimately show ?case by blast
next
  case run: (Suc n)
  let ?st = "serve_step wr 1 (reply_to h)"
  let ?s1 = "s\<lparr>sv_phase := Reading\<rparr>"
  let ?s2 = "after_read (ReadFrame (cn_fr (sv_conn ?s1))) ?s1"
  let ?d = "frame_received f0 (ms ! k)"
  let ?s3 = "(serve_reply wr (h ?d) ?s2)\<lparr>sv_phase := AtCheck\<rparr>"
  have s2: "input_at f0 ms (Suc k) ?s2" "sv_phase ?s2 = Got ?d" "\<not> sv_eofClean ?s2"
    using input_reading_more[OF assms(3), of k ?s1] run(2-4) by (simp_all add: input_at_def idle_def)
  have "?st\<^sup>*\<^sup>* s ?s1" using run(4) by (intro r_into_rtranclp serve_step.go_on) (auto simp: idle_def)
  also have "?st ?s1 ?s2" by (rule serve_step.reading) simp
  also have "?st ?s2 ?s3" using s2(2) by (intro serve_step.inline) (simp_all add: reply_to_def)
  finally have st: "?st\<^sup>*\<^sup>* s ?s3" .
  have "idle ?s3"
    using s2(3) run(4) by (intro idle_reply[OF assms(1) s2(2)]) (simp add: idle_def conn_done_def)
  moreover have "input_at f0 ms (Suc k) ?s3"
    by (rule input_at_same[OF s2(1)]) (use reply_same[OF assms(2)] in simp_all)
  moreover have "n = length ms - Suc k" using run(2) by arith
  ultimately obtain s' where "?st\<^sup>*\<^sup>* ?s3 s'" "sv_phase s' = Returned None" "list_all fst (sv_sent s')"
    using run(1)[of "Suc k" ?s3] by auto
  with st show ?case by (meson rtranclp_trans)
qed

text \<open>
  A conforming session can always be served to the end: over a stream that takes every
  write, a sequential server whose peer sends acceptable frames and closes reaches the nil
  return, whatever the handler replies, with nothing but replies written.
\<close>

theorem serve_session_completes:
  assumes "\<forall>w p. fst (wr w p) = None" "io_writer wr out"
    and "Serve_start rpcNil fid (Some \<lparr>rd_rest = input, rd_end = StreamEOF\<rparr>) (Some w) opts None = Inr (srv, s0)"
    and "list_all serve_option opts" "sr_maxCalls srv = 1" "f0 = cn_fr (sv_conn s0)"
    and "list_all (frame_sendable f0) ms" "input = concat (map (the \<circ> frame_wire f0) ms)"
  shows "\<exists>s. (serve_step wr 1 (reply_to handle))\<^sup>*\<^sup>* s0 s \<and> sv_phase s = Returned None \<and> list_all fst (sv_sent s)"
proof (rule serve_run_exists[OF assms(1,2,7)])
  note start = Serve_start_ok[OF assms(3,4)]
  show "input_at f0 ms 0 s0" using start assms(6,8) by (simp add: input_at_def reader_ok_def)
  have "sv_ctx s0 = None" "\<not> sv_canceled s0" "\<not> cn_closed (sv_conn s0)"
    using assms(3) by (auto simp: Serve_start_def Let_def split: if_splits)
  then show "idle s0" using start by (simp add: idle_def conn_done_def)
qed

section \<open>Witnesses\<close>

text \<open>An unbounded pipe, and one that fails when more than \<open>n\<close> bytes are in it.\<close>

definition pipe :: "bytes writer" where
  "pipe w p = (None, w @ p)"

definition full_pipe :: "nat \<Rightarrow> bytes writer" where
  "full_pipe n w p = (if length w + length p \<le> n then (None, w @ p)
     else (Some ''no space left'', w @ take (n - length w) p))"

lemma pipe_writer: "io_writer pipe id" "\<forall>w p. fst (pipe w p) = None"
  by (simp_all add: io_writer_def pipe_def)

lemma full_pipe_writer: "io_writer (full_pipe n) id"
  by (auto simp: io_writer_def full_pipe_def take_is_prefix)

definition sample_base :: "bytes \<Rightarrow> bytes framerBase" where
  "sample_base input = \<lparr>fb_r = \<lparr>rd_rest = input, rd_end = StreamEOF\<rparr>, fb_w = [], fb_maxSize = 100,
     fb_sizeOpt = ''WithMaxMessageSize'', fb_started = False\<rparr>"

lemma no_LF_payload: "LF \<notin> set m \<Longrightarrow> nd_payload m = Inr m"
  by (simp add: nd_payload_def IndexByte_None_iff[THEN iffD2])

theorem ReadFrame_bounded_witness:
  "\<exists>f'. ReadFrame (NdjsonFramer (sample_base (''{}'' @ [LF]))) = (Inr ''{}'', f') \<and>
     int (length ''{}'') \<le> 100 \<and> length (rd_rest (framer_rd f')) < 3"
proof -
  let ?f = "NdjsonFramer (sample_base (''{}'' @ [LF]))"
  have "nd_ReadFrame (sample_base (''{}'' @ [LF])) =
      (Inr ''{}'', (sample_base (''{}'' @ [LF]))\<lparr>fb_started := True, fb_r := (fb_r (sample_base (''{}'' @ [LF])))\<lparr>rd_rest := []\<rparr>\<rparr>)"
    by (rule nd_ReadFrame_written) (simp_all add: sample_base_def not_header_prefix)
  then obtain f' where f': "ReadFrame ?f = (Inr ''{}'', f')" by simp
  from ReadFrame_bounded[OF f'] have "length (rd_rest (framer_rd f')) < 3"
    by (simp add: sample_base_def framer_rd_def)
  with f' show ?thesis by simp
qed

theorem ReadFrame_clean_eof_witness:
  "set (rd_rest (fb_r (begin_stream (framer_base (ContentLengthFramer (sample_base [CHR 0xEF, CHR 0xBB, CHR 0xBF])))))) \<subseteq> {CR, LF}"
  by (rule ReadFrame_clean_eof)
    (simp add: cl_ReadFrame_def begin_stream_def Peek_def Discard_def sample_base_def)

theorem conn_writer_stream_integrity_witness:
  "\<exists>es c' part. conn_writes (full_pipe 5) [''{}'', ''[1]'', ''[]''] \<lparr>cn_fr = NdjsonFramer (sample_base []), cn_closed = False\<rparr> = (es, c') \<and>
     conn_out id c' = ''{}'' @ [LF] @ part \<and> part = ''[1'' \<and> cn_closed c'"
proof -
  let ?c = "\<lparr>cn_fr = NdjsonFramer (sample_base []), cn_closed = False\<rparr>"
  let ?b = "sample_base []\<lparr>fb_w := ''{}'' @ [LF] @ ''[1''\<rparr>"
  let ?e = "FStream ''jsonrpcstdio: write: '' ''no space left''"
  have w: "conn_writes (full_pipe 5) [''{}'', ''[1]'', ''[]''] ?c =
      ([None, Some ?e, Some errWriterClosed], \<lparr>cn_fr = NdjsonFramer ?b, cn_closed = True\<rparr>)"
    by (simp add: conn_write_def nd_WriteFrame_def no_LF_payload full_pipe_def sample_base_def)
  from conn_writer_stream_integrity[OF full_pipe_writer _ w]
  obtain part where "id (fb_w ?b) = ''{}'' @ [LF] @ part"
    by (auto simp: accepted_def no_LF_payload framer_wst_def sample_base_def)
  then have "part = ''[1''" by simp
  with w show ?thesis by (simp add: framer_wst_def)
qed

lemma sample_json: "json_message ''{}''" "json_message ''[]''"
  by (code_simp, code_simp)

theorem frame_stream_roundtrip_witness:
  "\<exists>fr. newFramer FramingContentLength \<lparr>rd_rest = ''Content-Length: 2'' @ [CR, LF, CR, LF] @ ''{}'' @
       ''Content-Length: 2'' @ [CR, LF, CR, LF] @ ''[]'', rd_end = StreamEOF\<rparr> ([] :: bytes) 2 ''WithMaxMessageSize'' = Some fr \<and>
     read_frames ReadFrame (Suc 2) fr = [Inr ''{}'', Inr ''[]'', Inl FEOF]"
proof -
  let ?n = "\<lambda>r. newFramer FramingContentLength r ([]::bytes) 2 ''WithMaxMessageSize''"
  let ?f = "\<lambda>r. ContentLengthFramer \<lparr>fb_r = r, fb_w = ([]::bytes), fb_maxSize = 2, fb_sizeOpt = ''WithMaxMessageSize'', fb_started = False\<rparr>"
  let ?out = "''Content-Length: 2'' @ [CR, LF, CR, LF] @ ''{}'' @ ''Content-Length: 2'' @ [CR, LF, CR, LF] @ ''[]''"
  let ?r0 = "\<lparr>rd_rest = [], rd_end = StreamEOF\<rparr>" and ?r1 = "\<lparr>rd_rest = ?out, rd_end = StreamEOF\<rparr>"
  let ?fw = "ContentLengthFramer \<lparr>fb_r = ?r0, fb_w = ?out, fb_maxSize = 2, fb_sizeOpt = ''WithMaxMessageSize'', fb_started = False\<rparr>"
  have n: "?n r = Some (?f r)" for r by (simp add: newFramer_def)
  have w: "conn_writes pipe [''{}'', ''[]''] \<lparr>cn_fr = ?f ?r0, cn_closed = False\<rparr> = ([None, None], \<lparr>cn_fr = ?fw, cn_closed = False\<rparr>)"
    by (simp add: conn_write_def cl_WriteFrame_def pipe_def cl_header_def itoa_def nat_digits.simps digit_def)
  have n1: "newFramer FramingContentLength \<lparr>rd_rest = conn_out id \<lparr>cn_fr = ?fw, cn_closed = False\<rparr>,
      rd_end = StreamEOF\<rparr> [] 2 ''WithMaxMessageSize'' = Some (?f ?r1)"
    by (simp add: newFramer_def framer_wst_def)
  have "read_frames ReadFrame (Suc (length [''{}'', ''[]''])) (?f ?r1) =
      map (Inr \<circ> frame_received (?f ?r1)) [''{}'', ''[]''] @ [Inl FEOF]"
    by (rule frame_stream_roundtrip[OF pipe_writer(1) n[of ?r0] _ w _ _ _ _ _ n1]) (simp_all add: sample_json)
  then have "read_frames ReadFrame (Suc 2) (?f ?r1) = [Inr ''{}'', Inr ''[]'', Inl FEOF]"
    by (simp add: numeral_2_eq_2 del: read_frames.simps)
  with n[of ?r1] show ?thesis by blast
qed

text \<open>A session of one message under newline-delimited framing.\<close>

definition sample_serve :: "bytes serve" where
  "sample_serve = \<lparr>sv_conn = \<lparr>cn_fr = NdjsonFramer \<lparr>fb_r = \<lparr>rd_rest = ''{}'' @ [LF], rd_end = StreamEOF\<rparr>,
       fb_w = [], fb_maxSize = DefaultMaxMessageSize, fb_sizeOpt = ''WithMaxMessageSize'', fb_started = False\<rparr>,
       cn_closed = False\<rparr>,
     sv_phase = AtCheck, sv_ctx = None, sv_canceled = False, sv_connErr = None, sv_readErr = None,
     sv_eofClean = False, sv_running = [], sv_read = [], sv_dropped = [], sv_sent = []\<rparr>"

definition sample_server :: server where
  "sample_server = \<lparr>sr_maxMessageSize = DefaultMaxMessageSize, sr_maxCalls = 1\<rparr>"

lemma sample_start:
  "Serve_start False FramingNDJSON (Some \<lparr>rd_rest = ''{}'' @ [LF], rd_end = StreamEOF\<rparr>) (Some []) [] None =
     Inr (sample_server, sample_serve)"
  by (simp add: Serve_start_def Framing_valid_def newFramer_def sample_server_def sample_serve_def
      DefaultMaxConcurrentCalls_def FramingContentLength_def FramingNDJSON_def)

lemma sample_sendable:
  "list_all (frame_sendable (cn_fr (sv_conn sample_serve))) [''{}'']"
  "''{}'' @ [LF] = concat (map (the \<circ> frame_wire (cn_fr (sv_conn sample_serve))) [''{}''])"
  by (simp_all add: sample_serve_def no_LF_payload not_header_prefix DefaultMaxMessageSize_def)

lemma sample_calls: "sr_maxCalls sample_server = 1"
  by (simp add: sample_server_def)

lemma sample_session:
  "\<exists>s. (serve_step pipe 1 (reply_to (\<lambda>_. Some ''[]'')))\<^sup>*\<^sup>* sample_serve s \<and> sv_phase s = Returned None \<and> list_all fst (sv_sent s)"
proof (rule serve_run_exists[OF pipe_writer(2,1) sample_sendable(1)])
  show "input_at (cn_fr (sv_conn sample_serve)) [''{}''] 0 sample_serve"
    by (simp add: input_at_def reader_ok_def sample_serve_def framer_rd_def no_LF_payload frame_limit_ok_def
        DefaultMaxMessageSize_def)
  show "idle sample_serve" by (simp add: idle_def conn_done_def sample_serve_def)
qed

theorem serve_session_completes_witness:
  "\<exists>s. (serve_step pipe 1 (reply_to (\<lambda>_. Some ''[]'')))\<^sup>*\<^sup>* sample_serve s \<and> sv_phase s = Returned None \<and> list_all fst (sv_sent s)"
  by (rule serve_session_completes[OF pipe_writer(2,1) sample_start _ sample_calls refl sample_sendable]) simp

theorem serve_result_nil_iff_witness:
  "\<exists>s. (serve_step pipe 1 (reply_to (\<lambda>_. Some ''[]'')))\<^sup>*\<^sup>* sample_serve s \<and> sv_phase s = Returned None \<and>
     sv_eofClean s \<and> sv_connErr s = None \<and> cn_closed (sv_conn s)"
proof -
  obtain s where s: "(serve_step pipe 1 (reply_to (\<lambda>_. Some ''[]'')))\<^sup>*\<^sup>* sample_serve s" "sv_phase s = Returned None"
    using sample_session by blast
  from serve_result_nil_iff[OF pipe_writer(1) sample_start _ s(1)[folded sample_calls]] s show ?thesis by auto
qed

theorem serve_clean_shutdown_witness:
  "\<exists>s. (serve_step pipe 1 (reply_to (\<lambda>_. Some ''[]'')))\<^sup>*\<^sup>* sample_serve s \<and> sv_phase s = Returned None \<and>
     sv_read s = [''{}''] \<and> mset (responses s) = {# ''[]'' #}"
proof -
  obtain s where s: "(serve_step pipe 1 (reply_to (\<lambda>_. Some ''[]'')))\<^sup>*\<^sup>* sample_serve s" "sv_phase s = Returned None"
    using sample_session by blast
  from serve_clean_shutdown[OF pipe_writer(1) sample_start _ refl sample_sendable s(1)[folded sample_calls] s(2)] s
  show ?thesis by (auto simp: answers_def sample_serve_def no_LF_payload)
qed

theorem serve_sequential_order_witness:
  "\<exists>s. (serve_step pipe 1 (reply_to (\<lambda>_. Some ''[]'')))\<^sup>*\<^sup>* sample_serve s \<and> sv_phase s = Returned None \<and>
     responses s = answers (frame_wire (cn_fr (sv_conn sample_serve))) (\<lambda>_. Some ''[]'') (sv_read s)"
proof -
  obtain s where s: "(serve_step pipe 1 (reply_to (\<lambda>_. Some ''[]'')))\<^sup>*\<^sup>* sample_serve s" "sv_phase s = Returned None"
    using sample_session by blast
  have "control_ok 1 s"
    by (rule run_control[OF s(1) pipe_writer(1)]) (use Serve_start_ok(1)[OF sample_start] sample_calls in simp)
  then have "sv_connErr s = None" using s(2) by (simp add: control_ok_def phase_defs)
  from serve_sequential_order[OF pipe_writer(1) sample_start _ sample_calls s(1) this] s
  show ?thesis by (auto simp: in_hand_def)
qed

end
