(* ===== verification/StdioClientProps.thy ===== *)
theory StdioClientProps
  imports StdioClient CorrelatorProps ServeProps
begin

text \<open>
  The stdio client: the invariant of its step machine, and from it that a call is answered only
  by what the peer sent for it, that an answer the peer sends reaches its call, that a rejection
  of a whole frame reaches every waiting call, and that a closed client writes nothing.
\<close>

section \<open>The writer\<close>

fun writer_of :: "'w framer \<Rightarrow> 'w" where
  "writer_of (ContentLengthFramer b) = fb_w b"
| "writer_of (NdjsonFramer b) = fb_w b"

lemma cl_ReadFrame_writer: "cl_ReadFrame b = (r, b') \<Longrightarrow> fb_w b' = fb_w b"
  by (auto simp: cl_ReadFrame_def Let_def split: prod.splits option.splits sum.splits stream_end.splits if_splits)

lemma nd_ReadFrame_writer: "nd_ReadFrame b = (r, b') \<Longrightarrow> fb_w b' = fb_w b"
  by (auto simp: nd_ReadFrame_def Let_def split: prod.splits)

lemma ReadFrame_writer: "ReadFrame f = (r, f') \<Longrightarrow> writer_of f' = writer_of f"
  by (cases f) (auto simp: cl_ReadFrame_writer nd_ReadFrame_writer split: prod.splits)

lemma conn_write_flag:
  assumes "conn_write wr m c = ((e, fl), c')"
  shows "(cn_closed c \<longrightarrow> c' = c \<and> fl = None) \<and> (fl \<noteq> None \<longrightarrow> cn_closed c')"
proof -
  obtain we f where w: "WriteFrame wr m (cn_fr c) = (we, f)" by (cases "WriteFrame wr m (cn_fr c)")
  show ?thesis
  proof (cases we)
    case (Some x)
    then show ?thesis using assms w by (cases x) (auto simp: conn_write_def split: if_splits)
  qed (use assms w in \<open>auto simp: conn_write_def split: if_splits\<close>)
qed

text \<open>Sending either leaves the client open, or shuts it down with the writer closed.\<close>

definition sent_from :: "'w client \<Rightarrow> 'w client \<Rightarrow> bool" where
  "sent_from c c' \<longleftrightarrow> (\<exists>n. (cn_closed (cl_conn c) \<longrightarrow> n = cl_conn c) \<and>
     (c' = c\<lparr>cl_conn := n\<rparr> \<or> (\<exists>x. cn_closed n \<and> c' = shutdown (Some x) (c\<lparr>cl_conn := n\<rparr>))))"

lemma client_write_sent: "client_write wr m c = (e, c') \<Longrightarrow> sent_from c c'"
proof -
  assume w: "client_write wr m c = (e, c')"
  obtain e1 fl n where n: "conn_write wr m (cl_conn c) = ((e1, fl), n)" by (metis prod.collapse)
  have "c' = (case fl of None \<Rightarrow> c\<lparr>cl_conn := n\<rparr> | Some x \<Rightarrow> shutdown (Some x) (c\<lparr>cl_conn := n\<rparr>))"
    using w n by (simp add: client_write_def Let_def)
  with conn_write_flag[OF n] show ?thesis
    unfolding sent_from_def by (intro exI[of _ n]) (cases fl; auto)
qed

lemma client_send_sent:
  assumes "client_send jw wr m p v c = (e, c')"
  shows "sent_from c c'" "e \<noteq> Some (ErrResponse x)"
proof -
  have "sent_from c c" unfolding sent_from_def by (intro exI[of _ "cl_conn c"]) auto
  then show "sent_from c c'" using assms client_write_sent
    by (fastforce simp: client_send_def split: sum.splits prod.splits option.splits)
  show "e \<noteq> Some (ErrResponse x)" using assms
    by (auto simp: client_send_def request_frame_def closedErr_def split: sum.splits prod.splits option.splits if_splits)
qed

lemma shutdown_fields [simp]:
  "cl_conn (shutdown x c) = cl_conn c" "cl_closers (shutdown x c) = cl_closers c" "cl_closed (shutdown x c)"
  "cl_phases (shutdown x c) = cl_phases c" "cl_onNotify (shutdown x c) = cl_onNotify c"
  "co_calls (cl_core (shutdown x c)) = co_calls (cl_core c)"
  by (simp_all add: shutdown_def core_frames)

lemma shutdown_core: "core_ok (cl_core c) \<Longrightarrow> core_ok (cl_core (shutdown x c))" "core_ext (cl_core c) (cl_core (shutdown x c))"
  by (simp_all add: shutdown_def core_ok_failPending core_ext_ops)

section \<open>The invariant\<close>

definition latched :: "'w client \<Rightarrow> bool" where
  "latched c \<longleftrightarrow> (cl_closed c \<or> cl_closers c \<noteq> [] \<longrightarrow> cn_closed (cl_conn c))"

definition client_ok :: "'w client \<Rightarrow> bool" where
  "client_ok c \<longleftrightarrow> calls_ok (cl_core c) (cl_phases c) \<and> latched c"

lemma client_ok_sent: "client_ok c \<Longrightarrow> sent_from c c' \<Longrightarrow> client_ok c'"
proof -
  assume c: "client_ok c" and "sent_from c c'"
  then obtain n where n: "cn_closed (cl_conn c) \<longrightarrow> n = cl_conn c"
    "c' = c\<lparr>cl_conn := n\<rparr> \<or> (\<exists>x. cn_closed n \<and> c' = shutdown (Some x) (c\<lparr>cl_conn := n\<rparr>))"
    by (auto simp: sent_from_def)
  from n(2) show ?thesis
  proof
    assume "c' = c\<lparr>cl_conn := n\<rparr>"
    with c n(1) show ?thesis by (auto simp: client_ok_def latched_def)
  next
    assume "\<exists>x. cn_closed n \<and> c' = shutdown (Some x) (c\<lparr>cl_conn := n\<rparr>)"
    then obtain x where x: "cn_closed n" "c' = shutdown (Some x) (c\<lparr>cl_conn := n\<rparr>)" by blast
    have "core_ok (cl_core c)" using c by (simp add: client_ok_def calls_ok_def)
    then have "calls_ok (cl_core c') (cl_phases c')"
      using c shutdown_core[of "c\<lparr>cl_conn := n\<rparr>" "Some x"]
      by - (rule calls_ok_ext[of "cl_core c"], simp_all add: client_ok_def x(2))
    with x show ?thesis by (simp add: client_ok_def latched_def)
  qed
qed

lemma sent_phases: "sent_from c c' \<Longrightarrow> cl_phases c' = cl_phases c \<and> call_id i c' = call_id i c \<and>
    cl_onNotify c' = cl_onNotify c"
  by (auto simp: sent_from_def call_id_def)

lemma client_ok_updates [simp]:
  "client_ok (c\<lparr>cl_entering := x\<rparr>) = client_ok c" "client_ok (c\<lparr>cl_reader := y\<rparr>) = client_ok c"
  "client_ok (c\<lparr>cl_notified := z\<rparr>) = client_ok c"
  by (simp_all add: client_ok_def latched_def)

text \<open>What the read loop does with a frame it decoded.\<close>

definition request_probe :: "'l jlexer \<Rightarrow> bytes \<Rightarrow> response \<Rightarrow> bool option" where
  "request_probe lx data resp =
     (if rs_Error resp = None \<and> rs_Result resp = None \<and> slice_len (rs_ID resp) \<noteq> 0
      then isRequestFrame lx data else Some False)"

lemma handle_frame_decoded:
  assumes "TrimSpace data = d" "length d \<noteq> 0" "d ! 0 \<noteq> LBRACK" "Response_UnmarshalJSON lx zero_response d = Some (resp, None)"
    "c1 = c\<lparr>cl_core := seen resp (cl_core c)\<rparr>"
  shows "handle_frame lx data c =
     (if slice_len (rs_ID resp) = 0 \<and> rs_Error resp = None then handlePush lx d c1
      else case request_probe lx d resp of
          None \<Rightarrow> None
        | Some b \<Rightarrow> Some (if b then c1 else c1\<lparr>cl_core := route resp (cl_core c1)\<rparr>))"
proof -
  have probe: "(case x of None \<Rightarrow> None | Some True \<Rightarrow> Some p | Some False \<Rightarrow> Some q) =
      (case x of None \<Rightarrow> None | Some b \<Rightarrow> Some (if b then p else q))" for x and p q :: "'w client"
    by (cases x) (auto split: bool.split)
  show ?thesis
    unfolding handle_frame_def Let_def probe assms(1,4,5) option.case prod.case request_probe_def[symmetric]
    using assms(2,3) by simp
qed

lemma client_ok_handle:
  assumes "client_ok c" "handle_frame lx data c = Some c'"
  shows "client_ok c'"
proof (cases "c' = c")
  case False
  let ?data = "TrimSpace data"
  from False assms(2) obtain resp where "length ?data \<noteq> 0" "?data ! 0 \<noteq> LBRACK"
    "Response_UnmarshalJSON lx zero_response ?data = Some (resp, None)"
    by (auto simp: handle_frame_def Let_def split: if_splits option.splits)
  note simps = this
  let ?c = "c\<lparr>cl_core := seen resp (cl_core c)\<rparr>"
  have ok: "core_ok (cl_core ?c)" using assms(1) core_ok_seen by (simp add: client_ok_def calls_ok_def)
  have in_seen: "resp \<in> set (co_seen (cl_core ?c))" by (simp add: seen_def)
  have seen_ok: "calls_ok (cl_core ?c) (cl_phases c)"
    using assms(1) ok by - (rule calls_ok_ext[of "cl_core c"], auto simp: client_ok_def core_ext_ops core_frames)
  then have client: "client_ok ?c" using assms(1) by (simp add: client_ok_def latched_def)
  consider "c' = ?c" | "handlePush lx ?data ?c = Some c'" | "c' = ?c\<lparr>cl_core := route resp (cl_core ?c)\<rparr>"
    using assms(2) unfolding handle_frame_decoded[OF refl simps refl]
    by (cases "request_probe lx ?data resp") (auto split: if_splits)
  then show ?thesis
  proof cases
    case 2
    then show ?thesis using client
      by (auto simp: handlePush_def split: if_splits)
  next
    case 3
    from core_ok_route[OF ok in_seen] seen_ok
    have "calls_ok (route resp (cl_core ?c)) (cl_phases c)"
      by - (rule calls_ok_ext[of "cl_core ?c"], simp_all)
    then show ?thesis using client 3 by (simp add: client_ok_def latched_def)
  qed (use client in simp)
qed (use assms in simp)


lemma client_ok_finish:
  assumes "client_ok c" "outcome_ok (cl_core c) i (CDone r got)"
  shows "client_ok (finish_call i r got c)"
  using assms calls_ok_update by (auto simp: client_ok_def finish_call_def latched_def)

lemma client_ok_unregister: "client_ok c \<Longrightarrow> client_ok (c\<lparr>cl_core := unregister k (cl_core c)\<rparr>)"
  by (simp add: client_ok_def latched_def calls_ok_unregister)

lemma client_ok_send_call:
  assumes "client_ok c"
  shows "client_ok (send_call jw wr i m p c)"
proof -
  obtain e c1 where s: "client_send jw wr m p (Some (call_id i c)) c = (e, c1)" by (cases "client_send jw wr m p (Some (call_id i c)) c")
  have c1: "client_ok c1" using client_ok_sent[OF assms client_send_sent(1)[OF s]] .
  show ?thesis
  proof (cases e)
    case None
    with s c1 show ?thesis
      using calls_ok_update[of "cl_core c1" "cl_phases c1" i CWaiting] by (simp add: send_call_def client_ok_def latched_def)
  next
    case (Some x)
    with client_send_sent(2)[OF s] have "outcome_ok (cl_core (c1\<lparr>cl_core := unregister (call_id i c1) (cl_core c1)\<rparr>)) i (CDone (Inl x) None)"
      by simp
    from client_ok_finish[OF client_ok_unregister[OF c1] this] s Some show ?thesis by (simp add: send_call_def)
  qed
qed

lemma client_ok_recv:
  assumes "client_ok c" "i < length (cl_phases c)" "ca_chan (co_calls (cl_core c) ! i) = r # rs"
  shows "client_ok (finish_call i (response_outcome r) (Some r) (c\<lparr>cl_core := recv_chan i (cl_core c)\<rparr>))"
proof -
  let ?c = "c\<lparr>cl_core := recv_chan i (cl_core c)\<rparr>"
  from assms(1,2) have i: "i < length (co_calls (cl_core c))" and ok: "core_ok (cl_core c)"
    by (auto simp: client_ok_def calls_ok_def)
  have "calls_ok (cl_core ?c) (cl_phases c)"
    using assms(1) i ok core_ok_recv core_ext_ops(6)
    by - (rule calls_ok_ext[of "cl_core c"], simp_all add: client_ok_def core_frames)
  then have c: "client_ok ?c" using assms(1) by (simp add: client_ok_def latched_def)
  have "addressed (call_id i c) (co_seen (cl_core c)) r"
    using core_ok_call[OF ok i] assms(3) by (simp add: call_ok_def call_id_def)
  then have "outcome_ok (cl_core ?c) i (CDone (response_outcome r) (Some r))"
    using same_ids(3)[OF i i] by (simp add: core_frames call_id_def)
  from client_ok_finish[OF c this] show ?thesis .
qed

lemma client_ok_begin: "client_ok c \<Longrightarrow> client_ok (begin_call m p c)"
proof -
  assume c: "client_ok c"
  obtain v core where n: "nextID (cl_core c) = (v, core)" by (cases "nextID (cl_core c)")
  from c calls_ok_begin[OF _ n, of "cl_phases c" m p] n show ?thesis
    by (simp add: begin_call_def client_ok_def latched_def)
qed

lemma client_ok_read: "client_ok c \<Longrightarrow> client_ok (client_read c)"
  by (auto simp: client_read_def client_ok_def latched_def conn_close_def Let_def split: prod.splits sum.splits)

lemma client_ok_shutdown:
  assumes "client_ok c" "cn_closed (cl_conn c)"
  shows "client_ok (shutdown x c)"
proof -
  have "sent_from c (shutdown x c) \<or> cl_closed c \<or> x = None"
    using assms(2) unfolding sent_from_def by (cases x) auto
  have "core_ok (cl_core c)" using assms(1) by (simp add: client_ok_def calls_ok_def)
  then have "calls_ok (cl_core (shutdown x c)) (cl_phases c)"
    using assms(1) shutdown_core[of c x]
    by - (rule calls_ok_ext[of "cl_core c"], simp_all add: client_ok_def)
  then show ?thesis using assms(2) by (simp add: client_ok_def latched_def)
qed

theorem client_step_ok: "client_step jw lx wr c c' \<Longrightarrow> client_ok c \<Longrightarrow> client_ok c'"
proof (induction rule: client_step.induct)
  case (notify c xs m p ys)
  obtain e c1 where s: "client_send jw wr m p None (c\<lparr>cl_entering := xs @ ys\<rparr>) = (e, c1)" by fastforce
  have "client_ok (c\<lparr>cl_entering := xs @ ys\<rparr>)" using notify.prems by simp
  from client_ok_sent[OF this client_send_sent(1)[OF s]] s show ?case by simp
next
  case (call_cancel i c e)
  from client_ok_finish[OF client_ok_unregister[OF call_cancel.prems]] show ?case by simp
next
  case (call_closed i c)
  then show ?case by (intro client_ok_finish) (auto simp: closedErr_def)
next
  case (close_begin c)
  then show ?case by (simp add: client_ok_def latched_def conn_close_def)
next
  case (close_end c xs e ys)
  then have "cn_closed (cl_conn c)" "client_ok (c\<lparr>cl_closers := xs @ ys\<rparr>)"
    by (auto simp: client_ok_def latched_def)
  then show ?case by (intro client_ok_shutdown) simp_all
qed (simp_all add: client_ok_begin client_ok_send_call client_ok_recv client_ok_read client_ok_handle)


section \<open>Runs\<close>

lemma NewClient_fields:
  assumes "NewClient fid r w opts = Inr c0"
  shows "client_ok c0" "cl_phases c0 = []"
  using assms by (auto simp: NewClient_def client_ok_def calls_ok_def core_ok_init latched_def core_init_def
      core_ok_init[unfolded core_init_def] Let_def split: if_splits option.splits)

lemma client_run_ok: "(client_step jw lx wr)\<^sup>*\<^sup>* c0 c \<Longrightarrow> client_ok c0 \<Longrightarrow> client_ok c"
  by (induction rule: rtranclp_induct) (auto intro: client_step_ok)

text \<open>
  C38: a finished call of the stdio client returned what the peer sent for it. A result is the
  result of a response that carried the id of the call, and error responses come from a response
  with the id of the call or from a rejection that carried no usable id; no two calls share an
  id, and no channel ever holds more than one response, so that the read loop never blocks.
\<close>

theorem client_correlates:
  assumes "NewClient fid r w opts = Inr c0" "(client_step jw lx wr)\<^sup>*\<^sup>* c0 c"
    and "i < length (cl_phases c)" "cl_phases c ! i = CDone res got"
  shows "(case res of
       Inr v \<Rightarrow> \<exists>q \<in> set (co_seen (cl_core c)). rs_ID q = Some (call_id i c) \<and> rs_Error q = None \<and>
         v = (case rs_Result q of None \<Rightarrow> None | Some m \<Rightarrow> m)
     | Inl (ErrResponse e) \<Rightarrow> \<exists>q \<in> set (co_seen (cl_core c)). rs_Error q = Some e \<and>
         (rs_ID q = Some (call_id i c) \<or> isNullID (rs_ID q))
     | Inl _ \<Rightarrow> True) \<and>
    distinct (map ca_id (co_calls (cl_core c))) \<and> list_all (\<lambda>ca. length (ca_chan ca) \<le> 1) (co_calls (cl_core c))"
proof -
  from client_run_ok[OF assms(2) NewClient_fields(1)[OF assms(1)]] assms(3,4)
  have ok: "core_ok (cl_core c)" and o: "outcome_ok (cl_core c) i (CDone res got)"
    by (auto simp: client_ok_def calls_ok_def)
  have *: "distinct (map ca_id (co_calls (cl_core c)))" "list_all (\<lambda>ca. length (ca_chan ca) \<le> 1) (co_calls (cl_core c))"
    using ok by (auto simp: core_ok_def call_ok_def list_all_iff)
  show ?thesis
  proof (cases got)
    case None
    with o obtain e where "res = Inl e" "\<forall>x. e \<noteq> ErrResponse x" by auto
    with * show ?thesis by (cases e) simp_all
  next
    case (Some q)
    with o have q: "res = response_outcome q" "addressed (call_id i c) (co_seen (cl_core c)) q"
      by (simp_all add: call_id_def)
    show ?thesis
    proof (cases "rs_Error q")
      case None
      with q(2) have "q \<in> set (co_seen (cl_core c)) \<and> rs_ID q = Some (call_id i c)"
        by (auto simp: addressed_def rejection_def)
      with None q(1) * show ?thesis by (auto simp: response_outcome_def split: option.split)
    next
      case (Some e)
      with q(2) have "\<exists>p \<in> set (co_seen (cl_core c)). rs_Error p = Some e \<and> (rs_ID p = Some (call_id i c) \<or> isNullID (rs_ID p))"
        by (auto simp: addressed_def rejection_def)
      with Some q(1) * show ?thesis by (simp add: response_outcome_def)
    qed
  qed
qed

lemma reply_run:
  assumes c: "client_ok c" and wait: "cl_phases c ! i = CWaiting" "co_pending (cl_core c) (call_id i c) = Some i"
    and data: "cl_reader c = RGot data" "TrimSpace data \<noteq> []" "TrimSpace data ! 0 \<noteq> LBRACK"
      "Response_UnmarshalJSON lx zero_response (TrimSpace data) = Some (resp, None)"
    and resp: "rs_ID resp = Some (call_id i c)" "request_probe lx (TrimSpace data) resp = Some False"
  obtains c' where "(client_step jw lx wr)\<^sup>*\<^sup>* c c'" "cl_phases c' = (cl_phases c)[i := CDone (response_outcome resp) (Some resp)]"
    "cl_conn c' = cl_conn c" "cl_reader c' = RReading" "cl_closed c' = cl_closed c"
    "co_pending (cl_core c') = (co_pending (cl_core c))(call_id i c := None)" "\<And>j. call_id j c' = call_id j c"
proof -
  have ok: "core_ok (cl_core c)" "length (cl_phases c) = length (co_calls (cl_core c))"
    using c by (simp_all add: client_ok_def calls_ok_def)
  note p = core_ok_pending[OF ok(1) wait(2)]
  have ne: "call_id i c \<noteq> []" by (rule pending_key_ne[OF ok(1) wait(2)])
  let ?c1 = "c\<lparr>cl_core := route resp (seen resp (cl_core c)), cl_reader := RReading\<rparr>"
  let ?c2 = "finish_call i (response_outcome resp) (Some resp) (?c1\<lparr>cl_core := recv_chan i (cl_core ?c1)\<rparr>)"
  have "handle_frame lx data c = Some (c\<lparr>cl_core := route resp (seen resp (cl_core c))\<rparr>)"
    using data resp ne by (subst handle_frame_decoded[OF refl _ data(3,4) refl]) simp_all
  then have "client_step jw lx wr c ((c\<lparr>cl_core := route resp (seen resp (cl_core c))\<rparr>)\<lparr>cl_reader := RReading\<rparr>)"
    by (rule client_step.handle[OF data(1)])
  then have "(client_step jw lx wr)\<^sup>*\<^sup>* c ?c1" by simp
  also have "client_step jw lx wr ?c1 ?c2"
    using p ok(2) wait(1) route_registered[OF ok(1) wait(2) resp(1)]
    by (intro client_step.call_recv[where rs = "[]"]) simp_all
  finally have run: "(client_step jw lx wr)\<^sup>*\<^sup>* c ?c2" .
  note routed = route_found[OF ok(1) wait(2) resp(1)]
  have pend: "co_pending (cl_core ?c2) = (co_pending (cl_core c))(call_id i c := None)"
    by (simp add: finish_call_def routed recv_chan_def send_chan_def unregister_def) (simp add: seen_def)
  have "call_id j ?c2 = call_id j c" for j
    by (simp add: finish_call_def routed call_id_def chan_ids core_frames)
  with run pend show thesis by (intro that[of ?c2]) (simp_all add: finish_call_def)
qed

lemma reply_answers:
  assumes "client_ok c" "cl_phases c ! i = CWaiting" "co_pending (cl_core c) (call_id i c) = Some i"
    and "cl_reader c = RGot data" "TrimSpace data \<noteq> []" "TrimSpace data ! 0 \<noteq> LBRACK"
    and "Response_UnmarshalJSON lx zero_response (TrimSpace data) = Some (resp, None)"
    and "rs_ID resp = Some (call_id i c)" "rs_Error resp \<noteq> None \<or> rs_Result resp \<noteq> None"
  shows "\<exists>c'. (client_step jw lx wr)\<^sup>*\<^sup>* c c' \<and> cl_phases c' = (cl_phases c)[i := CDone (response_outcome resp) (Some resp)]"
proof -
  have "request_probe lx (TrimSpace data) resp = Some False" using assms(9) by (auto simp: request_probe_def)
  from reply_run[OF assms(1-8) this] show ?thesis by blast
qed

text \<open>
  An answer the peer sends for a waiting call reaches it. Whatever else is in flight, once
  the read loop has read a response with the id of a call that is registered, the loop and the
  call can take their next steps and the call returns that response.
\<close>

theorem reply_completes_call:
  assumes "NewClient fid r w opts = Inr c0" "(client_step jw lx wr)\<^sup>*\<^sup>* c0 c"
    and "cl_phases c ! i = CWaiting" "co_pending (cl_core c) (call_id i c) = Some i"
    and "cl_reader c = RGot data" "TrimSpace data \<noteq> []" "TrimSpace data ! 0 \<noteq> LBRACK"
    and "Response_UnmarshalJSON lx zero_response (TrimSpace data) = Some (resp, None)"
    and "rs_ID resp = Some (call_id i c)" "rs_Error resp \<noteq> None \<or> rs_Result resp \<noteq> None"
  shows "\<exists>c'. (client_step jw lx wr)\<^sup>*\<^sup>* c c' \<and> cl_phases c' = (cl_phases c)[i := CDone (response_outcome resp) (Some resp)]"
  by (rule reply_answers[OF client_run_ok[OF assms(2) NewClient_fields(1)[OF assms(1)]] assms(3-10)])

text \<open>
  A rejection of a whole frame, an error without a usable id, fails every waiting call of
  the client with that error, and leaves none registered.
\<close>

theorem null_id_error_fails_all:
  assumes "NewClient fid r w opts = Inr c0" "(client_step jw lx wr)\<^sup>*\<^sup>* c0 c"
    and "TrimSpace data \<noteq> []" "TrimSpace data ! 0 \<noteq> LBRACK"
    and "Response_UnmarshalJSON lx zero_response (TrimSpace data) = Some (resp, None)"
    and "rs_Error resp = Some e" "isNullID (rs_ID resp)"
  shows "\<exists>c'. handle_frame lx data c = Some c' \<and> co_pending (cl_core c') = Map.empty \<and>
     (\<forall>i \<in> ran (co_pending (cl_core c)). ca_chan (co_calls (cl_core c') ! i) = [rejection e])"
proof -
  have ok: "core_ok (cl_core c)"
    using client_run_ok[OF assms(2) NewClient_fields(1)[OF assms(1)]] by (simp add: client_ok_def calls_ok_def)
  have "co_pending (cl_core c) ''null'' = None"
    using pending_key[OF ok] itoa_not_null by (metis not_None_eq)
  then have "deliver resp (seen resp (cl_core c)) = (False, seen resp (cl_core c))"
    using assms(7) by (auto simp: deliver_def isNullID_def seen_def)
  then have "route resp (seen resp (cl_core c)) = failPendingWith e (seen resp (cl_core c))"
    using assms(6,7) by (simp add: route_def)
  moreover have "request_probe lx (TrimSpace data) resp = Some False" using assms(6) by (simp add: request_probe_def)
  ultimately have h: "handle_frame lx data c = Some (c\<lparr>cl_core := failPendingWith e (seen resp (cl_core c))\<rparr>)"
    using assms(3,6) by (subst handle_frame_decoded[OF refl _ assms(4,5) refl]) simp_all
  have "ca_chan (co_calls (failPendingWith e (seen resp (cl_core c))) ! i) = [rejection e]"
    if "i \<in> ran (co_pending (cl_core c))" for i
  proof -
    from that obtain k where "co_pending (cl_core c) k = Some i" by (auto simp: ran_def)
    from core_ok_pending[OF ok this] that show ?thesis
      by (simp add: failPendingWith_calls core_frames) (simp add: seen_def)
  qed
  with h show ?thesis by (intro exI[of _ "c\<lparr>cl_core := failPendingWith e (seen resp (cl_core c))\<rparr>"])
    (simp add: failPendingWith_def)
qed

text \<open>Once the writer is closed, no step writes, and it stays closed.\<close>

lemma sent_closed:
  "sent_from c c' \<Longrightarrow> cn_closed (cl_conn c) \<Longrightarrow> cl_conn c' = cl_conn c"
  by (auto simp: sent_from_def)

lemma step_closed:
  assumes "client_step jw lx wr c c'" "cn_closed (cl_conn c)"
  shows "cn_closed (cl_conn c') \<and> writer_of (cn_fr (cl_conn c')) = writer_of (cn_fr (cl_conn c))"
  using assms
proof (induction rule: client_step.induct)
  case (notify c xs m p ys)
  obtain e c1 where s: "client_send jw wr m p None (c\<lparr>cl_entering := xs @ ys\<rparr>) = (e, c1)" by fastforce
  with sent_closed[OF client_send_sent(1)[OF s]] notify.prems show ?case by simp
next
  case (call_send i c m p)
  obtain e c1 where s: "client_send jw wr m p (Some (call_id i c)) c = (e, c1)" by fastforce
  with sent_closed[OF client_send_sent(1)[OF s]] call_send.prems show ?case
    by (cases e) (simp_all add: send_call_def finish_call_def)
next
  case (read c)
  obtain res f where "ReadFrame (cn_fr (cl_conn c)) = (res, f)" by fastforce
  with ReadFrame_writer[OF this] read.prems show ?case
    by (cases res) (simp_all add: client_read_def conn_close_def)
next
  case (handle c data c')
  from handle.hyps(2) have "cl_conn c' = cl_conn c"
    by (auto simp: handle_frame_def handlePush_def Let_def split: if_splits option.splits bool.splits)
  with handle.prems show ?case by simp
qed (simp_all add: begin_call_def finish_call_def conn_close_def case_prod_unfold)

text \<open>
  A closed client writes nothing. From the moment it is closed (by \<open>Close\<close>, by the end of
  the stream or by a failed write) no call, notification or late step puts a byte on the stream,
  not even for a call that had passed the closed check before.
\<close>

theorem client_closed_is_silent:
  assumes "NewClient fid r w opts = Inr c0" "(client_step jw lx wr)\<^sup>*\<^sup>* c0 c"
    and "cl_closed c" "(client_step jw lx wr)\<^sup>*\<^sup>* c c'"
  shows "writer_of (cn_fr (cl_conn c')) = writer_of (cn_fr (cl_conn c))"
proof -
  have "cn_closed (cl_conn c)"
    using client_run_ok[OF assms(2) NewClient_fields(1)[OF assms(1)]] assms(3) by (simp add: client_ok_def latched_def)
  with assms(4) have "cn_closed (cl_conn c') \<and> writer_of (cn_fr (cl_conn c')) = writer_of (cn_fr (cl_conn c))"
    by (induction rule: rtranclp_induct) (auto dest: step_closed)
  then show ?thesis ..
qed


section \<open>A session\<close>

text \<open>One call \<open>m\<close> on an open stream, up to the point where a frame has been read for it.\<close>

definition sample_client :: "bytes client" where
  "sample_client = \<lparr>cl_conn = \<lparr>cn_fr = NdjsonFramer \<lparr>fb_r = \<lparr>rd_rest = ''{}'' @ [LF], rd_end = StreamEOF\<rparr>,
       fb_w = [], fb_maxSize = DefaultClientMaxMessageSize, fb_sizeOpt = ''WithClientMaxMessageSize'', fb_started = False\<rparr>,
       cn_closed = False\<rparr>,
     cl_core = core_init, cl_phases = [], cl_entering = [], cl_onNotify = False, cl_cause = None,
     cl_closed = False, cl_closers = [], cl_reader = RReading, cl_notified = []\<rparr>"

definition sample_frame :: bytes where
  "sample_frame = ''{\"jsonrpc\":\"2.0\",\"method\":\"m\",\"id\":1}''"

definition sample_waiting :: "bytes client" where
  "sample_waiting = sample_client\<lparr>cl_conn := \<lparr>cn_fr = NdjsonFramer \<lparr>fb_r = \<lparr>rd_rest = [], rd_end = StreamEOF\<rparr>,
       fb_w = sample_frame @ [LF], fb_maxSize = DefaultClientMaxMessageSize, fb_sizeOpt = ''WithClientMaxMessageSize'',
       fb_started = True\<rparr>, cn_closed = False\<rparr>,
     cl_core := \<lparr>co_seq = 1, co_pending = [''1'' \<mapsto> 0], co_calls = [\<lparr>ca_id = ''1'', ca_chan = []\<rparr>], co_seen = []\<rparr>,
     cl_phases := [CWaiting], cl_reader := RGot ''{}''\<rparr>"

lemma sample_new: "NewClient FramingNDJSON (Some \<lparr>rd_rest = ''{}'' @ [LF], rd_end = StreamEOF\<rparr>) (Some []) [] = Inr sample_client"
  by (simp add: NewClient_def Framing_valid_def newFramer_def sample_client_def FramingContentLength_def FramingNDJSON_def)

lemma itoa_1: "itoa 1 = ''1''"
  by code_simp

lemma sample_request: "request_frame buffer_writer ''request'' ''m'' ANil (Some ''1'') = Inr sample_frame"
proof -
  have "Request_MarshalJSON buffer_writer \<lparr>rq_Version = Version, rq_Method = ''m'', rq_Params = None, rq_ID = Some ''1''\<rparr> = Inr sample_frame"
    by code_simp
  then show ?thesis by (simp add: request_frame_def MarshalParams_def)
qed

lemma sample_send:
  "client_send buffer_writer pipe ''m'' ANil (Some ''1'') (c\<lparr>cl_conn := cl_conn sample_client\<rparr>) =
     (None, c\<lparr>cl_conn := \<lparr>cn_fr = NdjsonFramer \<lparr>fb_r = \<lparr>rd_rest = ''{}'' @ [LF], rd_end = StreamEOF\<rparr>,
       fb_w = sample_frame @ [LF], fb_maxSize = DefaultClientMaxMessageSize, fb_sizeOpt = ''WithClientMaxMessageSize'', fb_started = False\<rparr>,
       cn_closed = False\<rparr>\<rparr>)"
proof -
  have "LF \<notin> set sample_frame" by (simp add: sample_frame_def)
  from no_LF_payload[OF this] show ?thesis
    by (simp add: client_send_def sample_request client_write_def conn_write_def nd_WriteFrame_def sample_client_def pipe_def)
qed

lemma sample_call_run: "(client_step buffer_writer lx pipe)\<^sup>*\<^sup>* sample_client sample_waiting"
proof -
  let ?step = "client_step buffer_writer lx pipe"
  let ?core = "\<lparr>co_seq = 1, co_pending = [''1'' \<mapsto> 0], co_calls = [\<lparr>ca_id = ''1'', ca_chan = []\<rparr>], co_seen = []\<rparr>"
  let ?base = "\<lparr>fb_r = \<lparr>rd_rest = ''{}'' @ [LF], rd_end = StreamEOF\<rparr>, fb_w = sample_frame @ [LF],
       fb_maxSize = DefaultClientMaxMessageSize, fb_sizeOpt = ''WithClientMaxMessageSize'', fb_started = False\<rparr>"
  define c1 where "c1 = sample_client\<lparr>cl_entering := [(True, ''m'', ANil)]\<rparr>"
  define c2 where "c2 = sample_client\<lparr>cl_core := ?core, cl_phases := [CSending ''m'' ANil]\<rparr>"
  define c3 where "c3 = sample_client\<lparr>cl_conn := \<lparr>cn_fr = NdjsonFramer ?base, cn_closed = False\<rparr>,
    cl_core := ?core, cl_phases := [CWaiting]\<rparr>"
  have "?step sample_client (sample_client\<lparr>cl_entering := cl_entering sample_client @ [(True, ''m'', ANil)]\<rparr>)"
    by (rule client_step.enter) (simp add: sample_client_def)
  then have s1: "?step sample_client c1" by (simp add: c1_def sample_client_def)
  have "begin_call ''m'' ANil (c1\<lparr>cl_entering := [] @ []\<rparr>) = c2"
    by (simp add: c1_def c2_def begin_call_def nextID_def register_def sample_client_def core_init_def itoa_1)
  moreover have "?step c1 (begin_call ''m'' ANil (c1\<lparr>cl_entering := [] @ []\<rparr>))"
    by (rule client_step.call_begin) (simp add: c1_def)
  ultimately have s2: "?step c1 c2" by metis
  have "send_call buffer_writer pipe 0 ''m'' ANil c2 = c3"
    using sample_send[of c2] by (simp add: c2_def c3_def send_call_def call_id_def sample_client_def)
  moreover have "?step c2 (send_call buffer_writer pipe 0 ''m'' ANil c2)"
    by (rule client_step.call_send) (simp_all add: c2_def)
  ultimately have s3: "?step c2 c3" by metis
  have "nd_ReadFrame ?base = (Inr ''{}'', ?base\<lparr>fb_started := True, fb_r := (fb_r ?base)\<lparr>rd_rest := []\<rparr>\<rparr>)"
    by (rule nd_ReadFrame_written) (simp_all add: not_header_prefix DefaultClientMaxMessageSize_def)
  then have "client_read c3 = sample_waiting"
    by (simp add: c3_def client_read_def sample_waiting_def sample_client_def)
  moreover have "?step c3 (client_read c3)" by (rule client_step.read) (simp add: c3_def sample_client_def)
  ultimately have s4: "?step c3 sample_waiting" by metis
  from s1 s2 s3 s4 show ?thesis by (meson converse_rtranclp_into_rtranclp r_into_rtranclp)
qed

text \<open>A lexer over a list of tokens, which also has nested objects.\<close>

datatype tok = TD char | TK bytes | TV lexval

definition stream_lexer :: "tok list \<Rightarrow> tok list jlexer" where
  "stream_lexer ts0 = \<lparr>lx_new = \<lambda>_. ts0, lx_IsStart = \<lambda>ts. ts = ts0,
     lx_IsNull = \<lambda>ts. (case ts of TV v # _ \<Rightarrow> v = LNull | _ \<Rightarrow> False, ts),
     lx_Skip = tl, lx_SkipRecursive = tl, lx_Delim = \<lambda>ts c. tl ts,
     lx_IsDelim = \<lambda>ts c. (case ts of TD d # _ \<Rightarrow> d = c | _ \<Rightarrow> ts = [], ts),
     lx_UnsafeFieldName = \<lambda>ts. (case ts of TK k # _ \<Rightarrow> k | _ \<Rightarrow> [], tl ts),
     lx_WantColon = id, lx_WantComma = id,
     lx_String = \<lambda>ts. (case ts of TV (LStr s _) # _ \<Rightarrow> s | _ \<Rightarrow> [], tl ts),
     lx_Int = \<lambda>ts. (case ts of TV (LRaw r) # _ \<Rightarrow> (case ParseInt64 r of Some n \<Rightarrow> n | None \<Rightarrow> 0) | _ \<Rightarrow> 0, tl ts),
     lx_Raw = \<lambda>ts. (case ts of TV v # _ \<Rightarrow> Some (raw_of v) | _ \<Rightarrow> None, tl ts),
     lx_Ok = \<lambda>_. True, lx_Consumed = id, lx_Error = \<lambda>_. None\<rparr>"

lemma stream_ops:
  "lx_new (stream_lexer t) data = t" "lx_IsStart (stream_lexer t) ts = (ts = t)"
  "lx_IsNull (stream_lexer t) (TV v # ts) = (v = LNull, TV v # ts)"
  "lx_IsNull (stream_lexer t) (TD c # ts) = (False, TD c # ts)"
  "lx_Skip (stream_lexer t) (x # ts) = ts" "lx_SkipRecursive (stream_lexer t) (x # ts) = ts"
  "lx_Delim (stream_lexer t) (x # ts) c = ts"
  "lx_IsDelim (stream_lexer t) (TD d # ts) c = (d = c, TD d # ts)"
  "lx_IsDelim (stream_lexer t) (TK k # ts) c = (False, TK k # ts)"
  "lx_IsDelim (stream_lexer t) (TV v # ts) c = (False, TV v # ts)"
  "lx_UnsafeFieldName (stream_lexer t) (TK k # ts) = (k, ts)"
  "lx_WantColon (stream_lexer t) ts = ts" "lx_WantComma (stream_lexer t) ts = ts"
  "lx_String (stream_lexer t) (TV (LStr s r) # ts) = (s, ts)"
  "lx_Int (stream_lexer t) (TV (LRaw r) # ts) = (case ParseInt64 r of Some n \<Rightarrow> n | None \<Rightarrow> 0, ts)"
  "lx_Raw (stream_lexer t) (TV v # ts) = (Some (raw_of v), ts)"
  "lx_Ok (stream_lexer t) ts" "lx_Consumed (stream_lexer t) ts = ts" "lx_Error (stream_lexer t) ts = None"
  by (simp_all add: stream_lexer_def)

definition answer_lexer :: "tok list jlexer" where
  "answer_lexer = stream_lexer [TD LBRACE, TK ''result'', TV (LRaw ''7''), TK ''id'', TV (LRaw ''1''), TD RBRACE]"

definition sample_answer :: response where
  "sample_answer = \<lparr>rs_Version = [], rs_Result = Some (Some ''7''), rs_Error = None, rs_ID = Some ''1''\<rparr>"

definition rejection_lexer :: "tok list jlexer" where
  "rejection_lexer = stream_lexer [TD LBRACE, TK ''error'', TD LBRACE, TD RBRACE, TK ''id'', TV LNull, TD RBRACE]"

definition sample_rejection :: response where
  "sample_rejection = \<lparr>rs_Version = [], rs_Result = None,
     rs_Error = Some zero_error, rs_ID = None\<rparr>"

lemma stream_loop:
  "object_loop (stream_lexer t) field v (TD RBRACE # ts) = Some (v, TD RBRACE # ts)"
  "field k v ts = Some (v', ts') \<Longrightarrow>
     object_loop (stream_lexer t) field v (TK k # ts) = object_loop (stream_lexer t) field v' ts'"
  by (subst object_loop.simps, simp add: stream_ops)+

lemmas run_decoder = Response_UnmarshalJSON_def Response_UnmarshalEasyJSON_def decode_struct_def
  stream_loop Response_field_def stream_ops zero_response_def rawmessage_set_def

lemma sample_decoded: "Response_UnmarshalJSON answer_lexer zero_response d = Some (sample_answer, None)"
  by (simp add: run_decoder answer_lexer_def sample_answer_def)

lemma sample_rejected: "Response_UnmarshalJSON rejection_lexer zero_response d = Some (sample_rejection, None)"
proof -
  have "Error_UnmarshalEasyJSON rejection_lexer zero_error [TD LBRACE, TD RBRACE, TK ''id'', TV LNull, TD RBRACE] =
      Some (zero_error, [TK ''id'', TV LNull, TD RBRACE])"
    by (simp add: Error_UnmarshalEasyJSON_def decode_struct_def rejection_lexer_def stream_ops stream_loop(1))
  then have error: "Response_field rejection_lexer ''error'' zero_response [TD LBRACE, TD RBRACE, TK ''id'', TV LNull, TD RBRACE] =
      Some (sample_rejection, [TK ''id'', TV LNull, TD RBRACE])"
    by (simp add: Response_field_def zero_response_def sample_rejection_def) (simp add: rejection_lexer_def stream_ops)
  have id: "Response_field rejection_lexer ''id'' sample_rejection [TV LNull, TD RBRACE] = Some (sample_rejection, [TD RBRACE])"
    by (simp add: Response_field_def) (simp add: rejection_lexer_def stream_ops)
  have "object_loop rejection_lexer (Response_field rejection_lexer) zero_response
      (TK ''error'' # [TD LBRACE, TD RBRACE, TK ''id'', TV LNull, TD RBRACE]) = Some (sample_rejection, [TD RBRACE])"
    using stream_loop(2)[where field = "Response_field rejection_lexer", OF error]
      stream_loop(2)[where field = "Response_field rejection_lexer", OF id]
    unfolding rejection_lexer_def by (simp add: stream_loop(1))
  then show ?thesis
    by (simp add: Response_UnmarshalJSON_def Response_UnmarshalEasyJSON_def decode_struct_def)
      (simp add: rejection_lexer_def stream_ops)
qed

lemma TrimSpace_sample: "TrimSpace ''{}'' = ''{}''"
  by code_simp

theorem reply_completes_call_witness:
  "\<exists>c'. (client_step buffer_writer answer_lexer pipe)\<^sup>*\<^sup>* sample_waiting c' \<and>
     cl_phases c' = [CDone (response_outcome sample_answer) (Some sample_answer)]"
proof -
  have "\<exists>c'. (client_step buffer_writer answer_lexer pipe)\<^sup>*\<^sup>* sample_waiting c' \<and>
     cl_phases c' = (cl_phases sample_waiting)[0 := CDone (response_outcome sample_answer) (Some sample_answer)]"
    by (rule reply_completes_call[OF sample_new sample_call_run, where data = "''{}''" and resp = sample_answer])
      (simp_all add: sample_waiting_def call_id_def TrimSpace_sample sample_decoded, simp_all add: sample_answer_def)
  then show ?thesis by (simp add: sample_waiting_def)
qed

theorem client_correlates_witness:
  "\<exists>c. (client_step buffer_writer answer_lexer pipe)\<^sup>*\<^sup>* sample_client c \<and>
     cl_phases c = [CDone (Inr (Some ''7'')) (Some sample_answer)] \<and>
     (\<exists>q \<in> set (co_seen (cl_core c)). rs_ID q = Some (call_id 0 c) \<and> rs_Error q = None \<and>
         Some ''7'' = (case rs_Result q of None \<Rightarrow> None | Some m \<Rightarrow> m))"
proof -
  have "client_ok sample_waiting" using client_run_ok[OF sample_call_run NewClient_fields(1)[OF sample_new]] .
  then have "\<exists>c. (client_step buffer_writer answer_lexer pipe)\<^sup>*\<^sup>* sample_waiting c \<and>
     cl_phases c = (cl_phases sample_waiting)[0 := CDone (response_outcome sample_answer) (Some sample_answer)]"
    by (rule reply_answers[where data = "''{}''"])
      (simp_all add: sample_waiting_def call_id_def TrimSpace_sample sample_decoded, simp_all add: sample_answer_def)
  then obtain c where c: "(client_step buffer_writer answer_lexer pipe)\<^sup>*\<^sup>* sample_waiting c"
    "cl_phases c = [CDone (Inr (Some ''7'')) (Some sample_answer)]"
    by (auto simp: sample_waiting_def response_outcome_def sample_answer_def)
  have run: "(client_step buffer_writer answer_lexer pipe)\<^sup>*\<^sup>* sample_client c"
    by (rule rtranclp_trans[OF sample_call_run c(1)])
  from client_correlates[OF sample_new run, of 0] c(2)
  have "\<exists>q \<in> set (co_seen (cl_core c)). rs_ID q = Some (call_id 0 c) \<and> rs_Error q = None \<and>
         Some ''7'' = (case rs_Result q of None \<Rightarrow> None | Some m \<Rightarrow> m)" by simp
  with run c(2) show ?thesis by blast
qed

theorem null_id_error_fails_all_witness:
  "\<exists>c'. handle_frame rejection_lexer ''{}'' sample_waiting = Some c' \<and>
     ca_chan (co_calls (cl_core c') ! 0) = [rejection zero_error]"
proof -
  have "\<exists>c'. handle_frame rejection_lexer ''{}'' sample_waiting = Some c' \<and> co_pending (cl_core c') = Map.empty \<and>
     (\<forall>i \<in> ran (co_pending (cl_core sample_waiting)).
        ca_chan (co_calls (cl_core c') ! i) = [rejection zero_error])"
    by (rule null_id_error_fails_all[OF sample_new sample_call_run, where resp = sample_rejection])
      (simp_all add: TrimSpace_sample sample_rejected, simp_all add: sample_rejection_def isNullID_def)
  then show ?thesis by (auto simp: sample_waiting_def)
qed

theorem client_closed_is_silent_witness:
  "\<exists>c'. (client_step buffer_writer answer_lexer pipe)\<^sup>*\<^sup>* (shutdown None (sample_client\<lparr>cl_conn := conn_close (cl_conn sample_client)\<rparr>)) c' \<and>
     cl_closers c' = [None] \<and> writer_of (cn_fr (cl_conn c')) = []"
proof -
  let ?step = "client_step buffer_writer answer_lexer pipe"
  let ?c = "sample_client\<lparr>cl_conn := conn_close (cl_conn sample_client)\<rparr>"
  let ?c1 = "?c\<lparr>cl_closers := [None]\<rparr>"
  have "?step sample_client (sample_client\<lparr>cl_conn := conn_close (cl_conn sample_client), cl_closers := cl_closers sample_client @ [None]\<rparr>)"
    by (rule client_step.close_begin)
  then have 1: "?step sample_client ?c1" by (simp add: sample_client_def)
  have "?step ?c1 (shutdown None (?c1\<lparr>cl_closers := [] @ []\<rparr>))" by (rule client_step.close_end) simp
  then have 2: "?step ?c1 (shutdown None ?c)" by (simp add: sample_client_def)
  define d where "d = (shutdown None ?c)\<lparr>cl_conn := conn_close (cl_conn (shutdown None ?c)), cl_closers := cl_closers (shutdown None ?c) @ [None]\<rparr>"
  have 3: "?step (shutdown None ?c) d" unfolding d_def by (rule client_step.close_begin)
  have "writer_of (cn_fr (cl_conn d)) = writer_of (cn_fr (cl_conn (shutdown None ?c)))"
  proof (rule client_closed_is_silent[OF sample_new])
    from 1 2 show "?step\<^sup>*\<^sup>* sample_client (shutdown None ?c)" by (meson converse_rtranclp_into_rtranclp r_into_rtranclp)
    from 3 show "?step\<^sup>*\<^sup>* (shutdown None ?c) d" by (rule r_into_rtranclp)
  qed simp
  with 3 show ?thesis by (intro exI[of _ d]) (auto simp: d_def sample_client_def conn_close_def)
qed

end
