(* ===== verification/JsonStream.thy ===== *)
theory JsonStream
  imports JsonScan
begin

text \<open>
  The token stream of the standard library's \<open>json.Decoder\<close> over a text in memory, as far as
  the clients use it on the array of a batch response: \<open>Token\<close> for the opening bracket, \<open>More\<close>
  and \<open>Decode\<close>. \<open>Decode\<close> takes one value off the stream with a scanner of its own and hands
  the text to the value's \<open>UnmarshalJSON\<close>; here it returns the text.
\<close>

text \<open>\<open>dc_comma\<close>: a comma is due before the next element.\<close>

record decoder =
  dc_rest :: bytes
  dc_comma :: bool

text \<open>The first token, if it is an opening bracket; \<open>None\<close> is any other token or an error.\<close>

definition dec_open :: "bytes \<Rightarrow> decoder option" where
  "dec_open data =
     (case dropWhile isSpace data of
        c # r \<Rightarrow> if c = LBRACK then Some \<lparr>dc_rest = r, dc_comma = False\<rparr> else None
      | [] \<Rightarrow> None)"

definition dec_More :: "decoder \<Rightarrow> bool" where
  "dec_More d =
     (case dropWhile isSpace (dc_rest d) of
        c # _ \<Rightarrow> c \<noteq> RBRACK \<and> c \<noteq> RBRACE
      | [] \<Rightarrow> False)"

text \<open>
  \<open>readValue\<close>: the text up to the end of a value and what follows it. A literal ends before the
  byte that cannot continue it, an object or array with its closing bracket.
\<close>

fun read_value :: "scanner \<Rightarrow> bytes \<Rightarrow> bytes \<Rightarrow> (bytes \<times> bytes) option" where
  "read_value s [] acc = (if scan_eof_ok s then Some (acc, []) else None)"
| "read_value s (c # cs) acc =
     (case scan_step s c of (s', op) \<Rightarrow>
        if op = ScanEnd then Some (acc, c # cs)
        else if (op = ScanEndObject \<or> op = ScanEndArray) \<and> sc_stack s' = [] then Some (acc @ [c], cs)
        else if op = ScanError then None
        else read_value s' cs (acc @ [c]))"

text \<open>
  The first \<open>Token\<close> fails: the text has none, or one that cannot open a value, or the value at its
  start does not scan. A number out of the range of a float fails in the code too; here it does not.
\<close>

definition token_fails :: "bytes \<Rightarrow> bool" where
  "token_fails data =
     (case dropWhile isSpace data of
        [] \<Rightarrow> True
      | c # _ \<Rightarrow> c \<noteq> LBRACK \<and> c \<noteq> LBRACE \<and>
          (c = RBRACK \<or> c = RBRACE \<or> c = COLON \<or> c = COMMA \<or> read_value scanner_init data [] = None))"

definition dec_Decode :: "decoder \<Rightarrow> (bytes \<times> decoder) option" where
  "dec_Decode d =
     (let start = (if dc_comma d
          then (case dropWhile isSpace (dc_rest d) of c # r \<Rightarrow> if c = COMMA then Some r else None | [] \<Rightarrow> None)
          else Some (dc_rest d))
      in case start of
          None \<Rightarrow> None
        | Some r \<Rightarrow> (case read_value scanner_init r [] of
            None \<Rightarrow> None
          | Some (v, rest) \<Rightarrow> Some (dropWhile isSpace v, \<lparr>dc_rest = rest, dc_comma = True\<rparr>)))"

end
