(* ===== verification/WsClient.thy ===== *)
theory WsClient
  imports Correlator Framing JsonStream
begin

text \<open>
  The WebSocket client (\<open>jsonrpcws/client.go\<close>): calls, notifications and batches over one
  connection, the read loop that routes the responses, and the shutdown. The table of waiting
  calls is that of theory \<open>Correlator\<close>, and a batch registers one entry in it per call.

  The connection is \<open>websocket.Conn\<close>, which is not part of the repository: \<open>wr\<close> is its
  \<open>Write\<close>, \<open>shut\<close> its \<open>Close\<close>, and a message its \<open>Read\<close> returns is the argument of a step.
  The client is a step machine, one step per action of one goroutine. \<open>MarshalBatch\<close> and the registration
  of its ids are one step: a call of another goroutine in between only moves the counter.
\<close>

datatype ws_err = WsClosed | WsBatchTooLarge | WsWrite bytes

section \<open>Construction\<close>

definition ws_DefaultClientMaxMessageSize :: int where "ws_DefaultClientMaxMessageSize = 16 * 2 ^ 20"

record dial_config =
  di_maxMessageSize :: int
  di_maxBatchSize :: int
  di_header :: "bytes \<rightharpoonup> bytes list"
  di_onNotify :: bool

definition ws_WithNotificationHandler :: "bool \<Rightarrow> dial_config \<Rightarrow> dial_config" where
  "ws_WithNotificationHandler h c = c\<lparr>di_onNotify := h\<rparr>"

definition ws_WithClientMaxBatchSize :: "int \<Rightarrow> dial_config \<Rightarrow> dial_config" where
  "ws_WithClientMaxBatchSize n c = c\<lparr>di_maxBatchSize := n\<rparr>"

definition ws_WithClientMaxMessageSize :: "int \<Rightarrow> dial_config \<Rightarrow> dial_config" where
  "ws_WithClientMaxMessageSize n c = (if n > 0 then c\<lparr>di_maxMessageSize := n\<rparr> else c)"

definition WithDialHeader :: "bytes \<Rightarrow> bytes list \<Rightarrow> dial_config \<Rightarrow> dial_config" where
  "WithDialHeader key values c =
     c\<lparr>di_header := (di_header c)(key \<mapsto> (case di_header c key of None \<Rightarrow> [] | Some vs \<Rightarrow> vs) @ values)\<rparr>"

datatype ws_entry = WCall bytes goany | WNotify bytes goany | WBatch "spec list"

text \<open>
  A \<open>CallBatch\<close> past its checks: sending its frame, waiting for the response of the entry at an
  index, or returned.
\<close>

datatype bphase =
    BSending bytes
  | BAwait nat
  | BDone "ws_err call_err + batch_result list option"

record batch =
  ba_specs :: "spec list"
  ba_ids :: "slice list"
  ba_chans :: "bytes \<rightharpoonup> nat"
  ba_results :: "batch_result list"
  ba_phase :: bphase

text \<open>A call in \<open>wc_calls\<close> has the position of its channel in the table and its phase.\<close>

record 'w wsclient =
  wc_conn :: 'w
  wc_readLimit :: int
  wc_onNotify :: bool
  wc_maxBatchSize :: int
  wc_core :: core
  wc_calls :: "(nat \<times> ws_err cphase) list"
  wc_batches :: "batch list"
  wc_entering :: "ws_entry list"
  wc_closed :: bool
  wc_closing :: bool
  wc_reader :: rphase
  wc_notified :: "(bytes \<times> slice) list"

text \<open>\<open>dial\<close> is \<open>websocket.Dial\<close> to the URL with the headers it is given.\<close>

definition DialClient :: "((bytes \<rightharpoonup> bytes list) \<Rightarrow> bytes + 'w) \<Rightarrow> (dial_config \<Rightarrow> dial_config) list \<Rightarrow>
    bytes + 'w wsclient" where
  "DialClient dial opts =
     (let cfg = fold (\<lambda>opt c. opt c) opts \<lparr>di_maxMessageSize = ws_DefaultClientMaxMessageSize,
          di_maxBatchSize = DefaultMaxBatchSize, di_header = Map.empty, di_onNotify = False\<rparr>
      in case dial (di_header cfg) of
          Inl e \<Rightarrow> Inl (''jsonrpcws: dial: '' @ e)
        | Inr w \<Rightarrow> Inr \<lparr>wc_conn = w, wc_readLimit = di_maxMessageSize cfg, wc_onNotify = di_onNotify cfg,
            wc_maxBatchSize = di_maxBatchSize cfg, wc_core = core_init, wc_calls = [], wc_batches = [],
            wc_entering = [], wc_closed = False, wc_closing = False, wc_reader = RReading, wc_notified = []\<rparr>)"

section \<open>Closing\<close>

text \<open>\<open>Close\<close> through its \<open>sync.Once\<close>: the channel is closed, then the connection and the table.\<close>

definition ws_close_begin :: "'w wsclient \<Rightarrow> 'w wsclient" where
  "ws_close_begin c = (if wc_closed c then c else c\<lparr>wc_closed := True, wc_closing := True\<rparr>)"

definition ws_close_end :: "('w \<Rightarrow> 'w) \<Rightarrow> 'w wsclient \<Rightarrow> 'w wsclient" where
  "ws_close_end shut c = c\<lparr>wc_conn := shut (wc_conn c), wc_core := failPending (wc_core c), wc_closing := False\<rparr>"

section \<open>Sending\<close>

definition ws_sendFrame :: "'w writer \<Rightarrow> bytes \<Rightarrow> 'w wsclient \<Rightarrow> ws_err call_err option \<times> 'w wsclient" where
  "ws_sendFrame wr frame c =
     (case wr (wc_conn c) frame of (e, w) \<Rightarrow>
        (map_option (\<lambda>t. ErrTransport (WsWrite (''jsonrpcws: write: '' @ t))) e, c\<lparr>wc_conn := w\<rparr>))"

definition ws_send :: "'j jwriter \<Rightarrow> 'w writer \<Rightarrow> bytes \<Rightarrow> goany \<Rightarrow> slice \<Rightarrow> 'w wsclient \<Rightarrow>
    ws_err call_err option \<times> 'w wsclient" where
  "ws_send jw wr meth params v c =
     (case MarshalParams params of
        Inl e \<Rightarrow> (Some e, c)
      | Inr rawParams \<Rightarrow>
          (case Request_MarshalJSON jw \<lparr>rq_Version = Version, rq_Method = meth,
                  rq_Params = rawParams, rq_ID = v\<rparr> of
             Inl e \<Rightarrow> (Some (ErrWrap ''jsonrpcws: marshal request: '' e), c)
           | Inr frame \<Rightarrow> ws_sendFrame wr frame c))"

section \<open>Receiving\<close>

definition ws_handlePush :: "'l jlexer \<Rightarrow> bytes \<Rightarrow> 'w wsclient \<Rightarrow> 'w wsclient option" where
  "ws_handlePush lx data c =
     (if \<not> wc_onNotify c then Some c
      else map_option (\<lambda>(req, err). if err \<noteq> None \<or> rq_Method req = [] then c
             else c\<lparr>wc_notified := wc_notified c @ [(rq_Method req, rq_Params req)]\<rparr>)
           (Request_UnmarshalJSON lx zero_request data))"

text \<open>The loop of \<open>deliverBatch\<close>, with the entries it may still take.\<close>

fun deliver_entries :: "'l jlexer \<Rightarrow> nat \<Rightarrow> decoder \<Rightarrow> core \<Rightarrow> core option" where
  "deliver_entries lx 0 d c = Some c"
| "deliver_entries lx (Suc n) d c =
     (if \<not> dec_More d then Some c
      else case dec_Decode d of
          None \<Rightarrow> Some c
        | Some (text, d') \<Rightarrow>
            (case Response_UnmarshalJSON lx zero_response text of
               None \<Rightarrow> None
             | Some (resp, Some err) \<Rightarrow> Some c
             | Some (resp, None) \<Rightarrow> deliver_entries lx n d' (snd (deliver resp (seen resp c)))))"

definition deliverBatch :: "'l jlexer \<Rightarrow> bytes \<Rightarrow> core \<Rightarrow> core option" where
  "deliverBatch lx data c =
     (case dec_open data of
        None \<Rightarrow> Some c
      | Some d \<Rightarrow> deliver_entries lx (card (dom (co_pending c))) d c)"

text \<open>The body of the read loop; \<open>None\<close> if a decoder never returns.\<close>

definition ws_handle_frame :: "'l jlexer \<Rightarrow> bytes \<Rightarrow> 'w wsclient \<Rightarrow> 'w wsclient option" where
  "ws_handle_frame lx data0 c =
     (let data = TrimSpace data0 in
      if length data = 0 then Some c
      else if data ! 0 = LBRACK then map_option (\<lambda>core. c\<lparr>wc_core := core\<rparr>) (deliverBatch lx data (wc_core c))
      else case Response_UnmarshalJSON lx zero_response data of
          None \<Rightarrow> None
        | Some (resp, Some err) \<Rightarrow> Some c
        | Some (resp, None) \<Rightarrow>
            (let c = c\<lparr>wc_core := seen resp (wc_core c)\<rparr> in
             if slice_len (rs_ID resp) = 0 \<and> rs_Error resp = None then ws_handlePush lx data c
             else Some (c\<lparr>wc_core := route resp (wc_core c)\<rparr>)))"

section \<open>Calls\<close>

definition ws_finish :: "nat \<Rightarrow> nat \<Rightarrow> ws_err call_err + slice \<Rightarrow> response option \<Rightarrow> 'w wsclient \<Rightarrow> 'w wsclient" where
  "ws_finish i p r got c = c\<lparr>wc_calls := (wc_calls c)[i := (p, CDone r got)]\<rparr>"

definition ws_begin_call :: "bytes \<Rightarrow> goany \<Rightarrow> 'w wsclient \<Rightarrow> 'w wsclient" where
  "ws_begin_call meth params c =
     (case nextID (wc_core c) of (v, core) \<Rightarrow>
        c\<lparr>wc_core := register (slice_bytes v) core,
          wc_calls := wc_calls c @ [(length (co_calls core), CSending meth params)]\<rparr>)"

definition ws_call_id :: "nat \<Rightarrow> 'w wsclient \<Rightarrow> bytes" where
  "ws_call_id p c = ca_id (co_calls (wc_core c) ! p)"

definition ws_send_call :: "'j jwriter \<Rightarrow> 'w writer \<Rightarrow> nat \<Rightarrow> nat \<Rightarrow> bytes \<Rightarrow> goany \<Rightarrow> 'w wsclient \<Rightarrow> 'w wsclient" where
  "ws_send_call jw wr i p meth params c =
     (case ws_send jw wr meth params (Some (ws_call_id p c)) c of
        (None, c1) \<Rightarrow> c1\<lparr>wc_calls := (wc_calls c1)[i := (p, CWaiting)]\<rparr>
      | (Some e, c1) \<Rightarrow>
          ws_finish i p (Inl e) None (c1\<lparr>wc_core := unregister (ws_call_id p c1) (wc_core c1)\<rparr>))"

section \<open>Batches\<close>

text \<open>The checks of \<open>CallBatch\<close>; \<open>None\<close> if it goes on.\<close>

definition batch_checks :: "spec list \<Rightarrow> 'w wsclient \<Rightarrow> (ws_err call_err + batch_result list option) option" where
  "batch_checks specs c =
     (if length specs = 0 then Some (Inr None)
      else if wc_maxBatchSize c > 0 \<and> int (length specs) > wc_maxBatchSize c
        then Some (Inl (ErrTransport WsBatchTooLarge))
      else if wc_closed c then Some (Inl (ErrTransport WsClosed))
      else None)"

text \<open>The registration of the ids of a batch, with the map \<open>chans\<close>.\<close>

fun register_ids :: "slice list \<Rightarrow> (bytes \<rightharpoonup> nat) \<Rightarrow> core \<Rightarrow> (bytes \<rightharpoonup> nat) \<times> core" where
  "register_ids [] chans c = (chans, c)"
| "register_ids (None # ids) chans c = register_ids ids chans c"
| "register_ids (Some k # ids) chans c =
     register_ids ids (chans(k \<mapsto> length (co_calls c))) (register k c)"

definition unregister_all :: "(bytes \<rightharpoonup> nat) \<Rightarrow> core \<Rightarrow> core" where
  "unregister_all chans c = c\<lparr>co_pending := (\<lambda>k. if chans k = None then co_pending c k else None)\<rparr>"

definition begin_batch :: "'j jwriter \<Rightarrow> spec list \<Rightarrow> 'w wsclient \<Rightarrow> 'w wsclient" where
  "begin_batch jw specs c =
     (case MarshalBatch jw nextID specs (wc_core c) of
        (Inl e, core) \<Rightarrow>
          c\<lparr>wc_core := core, wc_batches := wc_batches c @
            [\<lparr>ba_specs = specs, ba_ids = [], ba_chans = Map.empty, ba_results = [], ba_phase = BDone (Inl e)\<rparr>]\<rparr>
      | (Inr (frame, ids), core) \<Rightarrow>
          (case register_ids ids Map.empty core of (chans, core1) \<Rightarrow>
             c\<lparr>wc_core := core1, wc_batches := wc_batches c @
               [\<lparr>ba_specs = specs, ba_ids = ids, ba_chans = chans,
                 ba_results = replicate (length specs) zero_batch_result, ba_phase = BSending frame\<rparr>]\<rparr>))"

definition set_batch :: "nat \<Rightarrow> batch \<Rightarrow> 'w wsclient \<Rightarrow> 'w wsclient" where
  "set_batch i b c = c\<lparr>wc_batches := (wc_batches c)[i := b]\<rparr>"

definition send_batch :: "'w writer \<Rightarrow> nat \<Rightarrow> batch \<Rightarrow> bytes \<Rightarrow> 'w wsclient \<Rightarrow> 'w wsclient" where
  "send_batch wr i b frame c =
     (case ws_sendFrame wr frame c of
        (None, c1) \<Rightarrow> set_batch i (b\<lparr>ba_phase := BAwait 0\<rparr>) c1
      | (Some e, c1) \<Rightarrow>
          set_batch i (b\<lparr>ba_phase := BDone (Inl e)\<rparr>) (c1\<lparr>wc_core := unregister_all (ba_chans b) (wc_core c1)\<rparr>))"

text \<open>The response of the entry at index \<open>k\<close>, whose channel is at position \<open>p\<close>.\<close>

definition recv_batch :: "nat \<Rightarrow> batch \<Rightarrow> nat \<Rightarrow> nat \<Rightarrow> response \<Rightarrow> 'w wsclient \<Rightarrow> 'w wsclient" where
  "recv_batch i b k p r c =
     set_batch i (b\<lparr>ba_results := (ba_results b)[k := BatchResultFromResponse r], ba_phase := BAwait (Suc k)\<rparr>)
       (c\<lparr>wc_core := recv_chan p (wc_core c)\<rparr>)"

section \<open>The client\<close>

inductive ws_step :: "'j jwriter \<Rightarrow> 'l jlexer \<Rightarrow> 'w writer \<Rightarrow> ('w \<Rightarrow> 'w) \<Rightarrow> 'w wsclient \<Rightarrow> 'w wsclient \<Rightarrow> bool"
  for jw lx wr shut where
  enter: "\<not> wc_closed c \<Longrightarrow> (\<forall>specs. x \<noteq> WBatch specs) \<Longrightarrow>
    ws_step jw lx wr shut c (c\<lparr>wc_entering := wc_entering c @ [x]\<rparr>)"
| enter_batch: "batch_checks specs c = None \<Longrightarrow>
    ws_step jw lx wr shut c (c\<lparr>wc_entering := wc_entering c @ [WBatch specs]\<rparr>)"
| call_begin: "wc_entering c = xs @ WCall meth params # ys \<Longrightarrow>
    ws_step jw lx wr shut c (ws_begin_call meth params (c\<lparr>wc_entering := xs @ ys\<rparr>))"
| batch_begin: "wc_entering c = xs @ WBatch specs # ys \<Longrightarrow>
    ws_step jw lx wr shut c (begin_batch jw specs (c\<lparr>wc_entering := xs @ ys\<rparr>))"
| notify: "wc_entering c = xs @ WNotify meth params # ys \<Longrightarrow>
    ws_step jw lx wr shut c (snd (ws_send jw wr meth params None (c\<lparr>wc_entering := xs @ ys\<rparr>)))"
| call_send: "i < length (wc_calls c) \<Longrightarrow> wc_calls c ! i = (p, CSending meth params) \<Longrightarrow>
    ws_step jw lx wr shut c (ws_send_call jw wr i p meth params c)"
| call_recv: "i < length (wc_calls c) \<Longrightarrow> wc_calls c ! i = (p, CWaiting) \<Longrightarrow> ca_chan (co_calls (wc_core c) ! p) = r # rs \<Longrightarrow>
    ws_step jw lx wr shut c (ws_finish i p (response_outcome r) (Some r) (c\<lparr>wc_core := recv_chan p (wc_core c)\<rparr>))"
| call_cancel: "i < length (wc_calls c) \<Longrightarrow> wc_calls c ! i = (p, CWaiting) \<Longrightarrow>
    ws_step jw lx wr shut c (ws_finish i p (Inl (ErrCtx e)) None (c\<lparr>wc_core := unregister (ws_call_id p c) (wc_core c)\<rparr>))"
| call_closed: "i < length (wc_calls c) \<Longrightarrow> wc_calls c ! i = (p, CWaiting) \<Longrightarrow> wc_closed c \<Longrightarrow>
    ws_step jw lx wr shut c (ws_finish i p (Inl (ErrTransport WsClosed)) None c)"
| batch_send: "i < length (wc_batches c) \<Longrightarrow> wc_batches c ! i = b \<Longrightarrow> ba_phase b = BSending frame \<Longrightarrow>
    ws_step jw lx wr shut c (send_batch wr i b frame c)"
| batch_skip: "i < length (wc_batches c) \<Longrightarrow> wc_batches c ! i = b \<Longrightarrow> ba_phase b = BAwait k \<Longrightarrow>
    k < length (ba_ids b) \<Longrightarrow> ba_ids b ! k = None \<Longrightarrow>
    ws_step jw lx wr shut c (set_batch i (b\<lparr>ba_phase := BAwait (Suc k)\<rparr>) c)"
| batch_recv: "i < length (wc_batches c) \<Longrightarrow> wc_batches c ! i = b \<Longrightarrow> ba_phase b = BAwait k \<Longrightarrow>
    k < length (ba_ids b) \<Longrightarrow> ba_ids b ! k = Some key \<Longrightarrow> ba_chans b key = Some p \<Longrightarrow>
    ca_chan (co_calls (wc_core c) ! p) = r # rs \<Longrightarrow>
    ws_step jw lx wr shut c (recv_batch i b k p r c)"
| batch_cancel: "i < length (wc_batches c) \<Longrightarrow> wc_batches c ! i = b \<Longrightarrow> ba_phase b = BAwait k \<Longrightarrow>
    k < length (ba_ids b) \<Longrightarrow> ba_ids b ! k \<noteq> None \<Longrightarrow>
    ws_step jw lx wr shut c (set_batch i (b\<lparr>ba_phase := BDone (Inl (ErrCtx e))\<rparr>)
      (c\<lparr>wc_core := unregister_all (ba_chans b) (wc_core c)\<rparr>))"
| batch_closed: "i < length (wc_batches c) \<Longrightarrow> wc_batches c ! i = b \<Longrightarrow> ba_phase b = BAwait k \<Longrightarrow>
    k < length (ba_ids b) \<Longrightarrow> ba_ids b ! k \<noteq> None \<Longrightarrow> wc_closed c \<Longrightarrow>
    ws_step jw lx wr shut c (set_batch i (b\<lparr>ba_phase := BDone (Inl (ErrTransport WsClosed))\<rparr>) c)"
| batch_done: "i < length (wc_batches c) \<Longrightarrow> wc_batches c ! i = b \<Longrightarrow> ba_phase b = BAwait (length (ba_ids b)) \<Longrightarrow>
    ws_step jw lx wr shut c (set_batch i (b\<lparr>ba_phase := BDone (Inr (Some (ba_results b)))\<rparr>) c)"
| read: "wc_reader c = RReading \<Longrightarrow> ws_step jw lx wr shut c (c\<lparr>wc_reader := RGot data\<rparr>)"
| read_fail: "wc_reader c = RReading \<Longrightarrow> ws_step jw lx wr shut c (ws_close_begin (c\<lparr>wc_reader := RStopped\<rparr>))"
| handle: "wc_reader c = RGot data \<Longrightarrow> ws_handle_frame lx data c = Some c' \<Longrightarrow>
    ws_step jw lx wr shut c (c'\<lparr>wc_reader := RReading\<rparr>)"
| close_begin: "ws_step jw lx wr shut c (ws_close_begin c)"
| close_end: "wc_closing c \<Longrightarrow> ws_step jw lx wr shut c (ws_close_end shut c)"

end
