(* ===== verification/JsonStreamProps.thy ===== *)
theory JsonStreamProps
  imports JsonStream CodecProps ScanProps
begin

text \<open>
  The streaming decoder on an array of objects: it yields the elements one by one, as they were
  put into the array.
\<close>

definition object_elem :: "bytes \<Rightarrow> bool" where
  "object_elem v \<longleftrightarrow> Valid v \<and> (\<exists>y. v = LBRACE # y @ [RBRACE])"

text \<open>A byte inside an open value: it ends the value only by closing its outermost bracket.\<close>

lemma open_not_ended:
  assumes "sc_stack s \<noteq> []" "sc_step s \<noteq> EndTop"
  shows "snd (scan_step s c) \<noteq> ScanEnd"
  using assms
  by (cases "sc_step s")
     (simp_all add: scan_step_def state_fun_defs Let_def split: if_split list.splits pstate.splits)

lemma open_closed:
  assumes "sc_stack s \<noteq> []" "alive (step1 s c)" "sc_stack (step1 s c) = []"
  shows "snd (scan_step s c) = ScanEndObject \<or> snd (scan_step s c) = ScanEndArray"
  using assms
  by (cases "sc_step s")
     (auto simp add: alive_def scan_step_def state_fun_defs Let_def split: if_splits list.splits pstate.splits)

lemma popParseState_open: "sc_stack (popParseState s) \<noteq> [] \<Longrightarrow>
    sc_endTop (popParseState s) = sc_endTop s \<and> sc_step (popParseState s) = EndValue"
  by (simp add: popParseState_def Let_def split: if_splits)

lemma open_stays:
  assumes "sc_stack s \<noteq> []" "\<not> sc_endTop s" "sc_step s \<noteq> EndTop" "alive (step1 s c)" "sc_stack (step1 s c) \<noteq> []"
  shows "\<not> sc_endTop (step1 s c) \<and> sc_step (step1 s c) \<noteq> EndTop"
proof (cases "in_string s")
  case True
  from step1_in_string[OF True assms(4)] assms(2) show ?thesis
    by (auto simp: in_string_def split: if_splits)
next
  case False
  consider "c = QUOTE" | "c = LBRACK" | "c = LBRACE" | "c = RBRACK" | "c = RBRACE" | "c = COMMA"
    | "c = COLON" | "isSpace c" | "\<not> structural c"
    by (auto simp: structural_def)
  then show ?thesis
  proof cases
    case 1
    from step1_quote[OF False assms(4)[unfolded 1]] 1 assms(2) show ?thesis by simp
  next
    case 2
    from step1_lbrack[OF False assms(4)[unfolded 2]] 2 assms(2) show ?thesis by simp
  next
    case 3
    from step1_lbrace[OF False assms(4)[unfolded 3]] 3 assms(2) show ?thesis by simp
  next
    case 4
    from step1_rbrack[OF False assms(4)[unfolded 4]] 4 assms(2,5) popParseState_open[of s] show ?thesis by auto
  next
    case 5
    from step1_rbrace[OF False assms(4)[unfolded 5]] 5 assms(2,5) popParseState_open[of s]
      popParseState_open[of "s\<lparr>sc_stack := ParseObjectValue # tl (sc_stack s)\<rparr>"]
    show ?thesis by (auto split: if_splits)
  next
    case 6
    from step1_comma[OF False assms(4)[unfolded 6]] 6 assms(2) show ?thesis by auto
  next
    case 7
    from step1_colon[OF False assms(4)[unfolded 7]] 7 assms(2) show ?thesis by auto
  next
    case 8
    from step1_space[OF False assms(4) 8] assms(1-3) show ?thesis by (auto split: if_splits)
  next
    case 9
    from step1_other[OF False assms(4) 9] assms(2) show ?thesis by simp
  qed
qed

lemma read_value_open:
  assumes "sc_stack s \<noteq> []" "\<not> sc_endTop s" "sc_step s \<noteq> EndTop" "scan_eof_ok (srun s v)"
    and "v = [] \<or> \<not> isSpace (last v)"
  shows "read_value s (v @ rest) acc = Some (acc @ v, rest)"
  using assms
proof (induction v arbitrary: s acc)
  case Nil
  from eof_ok_states[of s] Nil.prems show ?case by simp
next
  case (Cons c cs)
  have a: "alive (srun (step1 s c) cs)" using eof_ok_alive[OF Cons.prems(4)] by simp
  then have a1: "alive (step1 s c)" using srun_dead by blast
  obtain s' op where s': "scan_step s c = (s', op)" by fastforce
  show ?case
  proof (cases "sc_stack s' = []")
    case True
    then have op: "op = ScanEndObject \<or> op = ScanEndArray" and st: "sc_step s' = EndTop"
      using open_closed[OF Cons.prems(1) a1] stack_emptied[OF Cons.prems(1) a1] s' by auto
    have "list_all isSpace cs" using endTop_run[of s' cs] st a s' by simp
    then have "cs = []" using Cons.prems(5) by (cases cs rule: rev_cases) (auto split: if_splits)
    with op True s' show ?thesis by auto
  next
    case False
    then have "\<not> sc_endTop s'" "sc_step s' \<noteq> EndTop" using open_stays[OF Cons.prems(1-3) a1] s' by auto
    moreover have "op \<noteq> ScanEnd" using open_not_ended[OF Cons.prems(1,3), of c] s' by simp
    moreover have "op \<noteq> ScanError" using scan_step_error_dead[of s c] a1 s' by auto
    moreover have "scan_eof_ok (srun s' cs)" "cs = [] \<or> \<not> isSpace (last cs)" using Cons.prems(4,5) s' by (auto split: if_splits)
    ultimately show ?thesis using Cons.IH[of s' "acc @ [c]"] False s' by simp
  qed
qed

lemma read_value_object:
  assumes "object_elem v"
  shows "read_value scanner_init (v @ rest) [] = Some (v, rest)"
proof -
  from assms obtain y where y: "v = LBRACE # y @ [RBRACE]" and ok: "scan_eof_ok (srun scanner_init v)"
    by (auto simp: object_elem_def Valid_srun)
  let ?s = "\<lparr>sc_step = BeginStringOrEmpty, sc_stack = [ParseObjectKey], sc_endTop = False\<rparr>"
  have s: "scan_step scanner_init LBRACE = (?s, ScanBeginObject)"
    by (simp add: scanner_init_def scan_step_def stateBeginValue_def isSpace_def pushParseState_def maxNestingDepth_def)
  have "read_value ?s ((y @ [RBRACE]) @ rest) [LBRACE] = Some ([LBRACE] @ (y @ [RBRACE]), rest)"
    by (rule read_value_open) (use ok y s in \<open>simp_all add: isSpace_def\<close>)
  then show ?thesis using y s by simp
qed

text \<open>The decoder before the elements \<open>xs\<close>; \<open>b\<close> if it has taken one already.\<close>

definition array_state :: "bool \<Rightarrow> bytes list \<Rightarrow> decoder" where
  "array_state b xs = \<lparr>dc_rest = (if b then concat (map (\<lambda>x. COMMA # x) xs)
       else (case xs of [] \<Rightarrow> [] | y # ys \<Rightarrow> y @ concat (map (\<lambda>x. COMMA # x) ys))) @ [RBRACK],
     dc_comma = b\<rparr>"

lemma array_open: "dec_open (array_text xs) = Some (array_state False xs)"
  by (simp add: dec_open_def array_text_def array_state_def isSpace_def)

lemma array_end: "\<not> dec_More (array_state b [])"
  by (simp add: dec_More_def array_state_def isSpace_def)

lemma array_next:
  assumes "object_elem x"
  shows "dec_More (array_state b (x # xs))" "dec_Decode (array_state b (x # xs)) = Some (x, array_state True xs)"
proof -
  let ?rest = "concat (map (\<lambda>x. COMMA # x) xs) @ [RBRACK]"
  from assms obtain y where y: "x = LBRACE # y" by (auto simp: object_elem_def)
  then show "dec_More (array_state b (x # xs))" by (simp add: dec_More_def array_state_def isSpace_def)
  have x: "dropWhile isSpace x = x" by (simp add: y isSpace_def)
  have "read_value scanner_init (x @ ?rest) [] = Some (x, ?rest)" by (rule read_value_object[OF assms])
  then show "dec_Decode (array_state b (x # xs)) = Some (x, array_state True xs)"
    by (cases b) (simp_all add: dec_Decode_def array_state_def isSpace_def x)
qed

text \<open>The texts of a batch response are such elements.\<close>

lemma response_text_elem:
  assumes "quote_ok quote" "payload_ok 0 r" "response_failure r = None"
  shows "object_elem (response_text quote r)"
proof -
  obtain m ms where "response_members quote r = m # ms" by (cases "response_members quote r") (simp_all add: response_members_def)
  then have "response_text quote r = LBRACE # (member m @ concat (map (\<lambda>m. COMMA # member m) ms)) @ [RBRACE]"
    by (simp add: response_text_def)
  with response_text_valid[OF assms] show ?thesis unfolding object_elem_def by blast
qed

end
