(* ===== verification/WsClientProps.thy ===== *)
theory WsClientProps
  imports WsClient StdioClientProps JsonStreamProps
begin

text \<open>
  The WebSocket client: the invariant of its step machine, and from it that calls and the
  entries of batches are answered only by what the peer sent for them, aligned with the specs.
\<close>

section \<open>Registering a batch\<close>

lemma core_ok_count: "core_ok c \<Longrightarrow> co_seq c \<le> m \<Longrightarrow> core_ok (c\<lparr>co_seq := m\<rparr>)"
  using call_ok_more[of "co_seq c" "co_seen c" _ m "[]"] by (auto simp: core_ok_def list_all_iff)

lemma batch_requests_core:
  "batch_requests nextID specs c = (r :: 't call_err + slice list \<times> request list, c') \<Longrightarrow>
     \<exists>m. co_seq c \<le> m \<and> c' = c\<lparr>co_seq := m\<rparr>"
proof (induction specs arbitrary: c r)
  case Nil
  then show ?case by (intro exI[of _ "co_seq c"]) simp
next
  case (Cons x xs)
  show ?case
  proof (cases "MarshalParams (bs_Params x) :: 't call_err + slice")
    case (Inl e)
    with Cons.prems show ?thesis by (intro exI[of _ "co_seq c"]) simp
  next
    case (Inr raw)
    obtain i c1 where i: "(if bs_Notify x then (None, c) else nextID c) = (i, c1)" by fastforce
    then have c1: "\<exists>m. co_seq c \<le> m \<and> c1 = c\<lparr>co_seq := m\<rparr>"
      by (auto simp: nextID_def intro: exI[of _ "co_seq c"] exI[of _ "co_seq c + 1"] split: if_splits)
    obtain r2 where "batch_requests nextID xs c1 = (r2 :: 't call_err + slice list \<times> request list, c')"
      using Cons.prems Inr i by (auto split: prod.splits sum.splits)
    from Cons.IH[OF this] obtain m where "co_seq c1 \<le> m" "c' = c1\<lparr>co_seq := m\<rparr>" by blast
    with c1 show ?thesis by (intro exI[of _ m]) auto
  qed
qed

lemma keys_iff: "set (List.map_filter (\<lambda>v. v) ids) = {k. Some k \<in> set ids}"
proof (induction ids)
  case (Cons v ids)
  then show ?case by (cases v) auto
qed simp

lemma register_ids_ok:
  assumes "core_ok c" "register_ids ids chans c = (chans', c')" "distinct (List.map_filter (\<lambda>v. v) ids)"
    and "\<And>k. Some k \<in> set ids \<Longrightarrow> (\<exists>n. 1 \<le> n \<and> n \<le> co_seq c \<and> k = itoa n) \<and> k \<notin> set (map ca_id (co_calls c))"
  shows "core_ok c' \<and> core_ext c c' \<and> (\<forall>k. Some k \<in> set ids \<longrightarrow> (\<exists>p. chans' k = Some p \<and> p < length (co_calls c') \<and>
     ca_id (co_calls c' ! p) = k)) \<and> (\<forall>k. Some k \<notin> set ids \<longrightarrow> chans' k = chans k)"
  using assms
proof (induction ids chans c rule: register_ids.induct)
  case (1 chans c)
  then show ?case by simp
next
  case (2 ids chans c)
  then show ?case by (simp add: List.map_filter_simps)
next
  case (3 k ids chans c)
  let ?c = "register k c"
  from "3.prems"(4)[of k] obtain n where n: "1 \<le> n" "n \<le> co_seq c" "k = itoa n" "k \<notin> set (map ca_id (co_calls c))" by auto
  have calls: "co_calls ?c = co_calls c @ [\<lparr>ca_id = k, ca_chan = []\<rparr>]" "co_seq ?c = co_seq c" "co_seen ?c = co_seen c"
    by (simp_all add: register_def)
  have "call_ok (co_seq c) (co_seen c) \<lparr>ca_id = k, ca_chan = []\<rparr>" using n by (auto simp: call_ok_def)
  moreover have "i < Suc (length (co_calls c)) \<and> ca_id ((co_calls c @ [new]) ! i) = x \<and> ca_chan ((co_calls c @ [new]) ! i) = []"
    if "co_pending c x = Some i" for x i new
    using core_ok_pending[OF "3.prems"(1) that] by (simp add: nth_append)
  ultimately have ok: "core_ok ?c"
    using "3.prems"(1) n(4) by (simp add: core_ok_def register_def)
  have ext: "core_ext c ?c" by (auto simp: core_ext_def calls nth_append)
  have k: "Some k \<notin> set ids" and dist: "distinct (List.map_filter (\<lambda>v. v) ids)"
    using "3.prems"(3) by (simp_all add: keys_iff)
  have reg: "register_ids ids (chans(k \<mapsto> length (co_calls c))) ?c = (chans', c')"
    using "3.prems"(2) by (simp only: register_ids.simps)
  have key: "(\<exists>n. 1 \<le> n \<and> n \<le> co_seq ?c \<and> x = itoa n) \<and> x \<notin> set (map ca_id (co_calls ?c))" if "Some x \<in> set ids" for x
    using "3.prems"(4)[of x] that k by (auto simp: calls)
  note IH = "3.IH"[OF ok reg dist key]
  then have new: "ca_id (co_calls c' ! length (co_calls c)) = k" "length (co_calls c) < length (co_calls c')"
    by (auto simp: core_ext_def calls)
  have "core_ext c c'" using IH core_ext_trans[OF ext] by blast
  moreover have "chans' k = Some (length (co_calls c))" using IH k by simp
  ultimately show ?case using IH new by auto
qed

section \<open>The invariant\<close>

text \<open>The result of an entry of a batch.\<close>

definition entry_ok :: "core \<Rightarrow> slice \<Rightarrow> batch_result \<Rightarrow> bool" where
  "entry_ok c v br = (case v of
       None \<Rightarrow> br = zero_batch_result
     | Some k \<Rightarrow> (\<exists>r. addressed k (co_seen c) r \<and> br = BatchResultFromResponse r))"

text \<open>How many entries of a batch have their result.\<close>

fun answered :: "bphase \<Rightarrow> nat \<Rightarrow> nat" where
  "answered (BAwait k) n = k"
| "answered (BSending _) n = 0"
| "answered (BDone _) n = n"

definition channels_ok :: "core \<Rightarrow> batch \<Rightarrow> bool" where
  "channels_ok c b \<longleftrightarrow> (\<forall>k. Some k \<in> set (ba_ids b) \<longrightarrow>
     (\<exists>p. ba_chans b k = Some p \<and> p < length (co_calls c) \<and> ca_id (co_calls c ! p) = k))"

definition shape_ok :: "batch \<Rightarrow> bool" where
  "shape_ok b \<longleftrightarrow> length (ba_ids b) = length (ba_specs b) \<and> length (ba_results b) = length (ba_specs b) \<and>
     map (\<lambda>v. v = None) (ba_ids b) = map bs_Notify (ba_specs b) \<and> distinct (List.map_filter (\<lambda>v. v) (ba_ids b)) \<and>
     (\<forall>rs. ba_phase b = BDone (Inr rs) \<longrightarrow> rs = Some (ba_results b))"

definition results_ok :: "core \<Rightarrow> batch \<Rightarrow> bool" where
  "results_ok c b \<longleftrightarrow> (\<forall>j < length (ba_ids b). if j < answered (ba_phase b) (length (ba_ids b))
     then entry_ok c (ba_ids b ! j) (ba_results b ! j) else ba_results b ! j = zero_batch_result)"

definition failed :: "batch \<Rightarrow> bool" where
  "failed b \<longleftrightarrow> (\<exists>e. ba_phase b = BDone (Inl e))"

definition batch_ok :: "core \<Rightarrow> batch \<Rightarrow> bool" where
  "batch_ok c b \<longleftrightarrow> failed b \<or> (shape_ok b \<and> channels_ok c b \<and> results_ok c b)"

definition ws_ok :: "'w wsclient \<Rightarrow> bool" where
  "ws_ok c \<longleftrightarrow> core_ok (wc_core c) \<and>
     list_all (\<lambda>(p, ph). p < length (co_calls (wc_core c)) \<and> outcome_ok (wc_core c) p ph) (wc_calls c) \<and>
     list_all (batch_ok (wc_core c)) (wc_batches c)"

lemma entry_ok_ext: "entry_ok c v br \<Longrightarrow> core_ext c c' \<Longrightarrow> entry_ok c' v br"
  by (auto simp: entry_ok_def core_ext_def split: option.splits intro: addressed_mono)

lemma batch_ok_ext: "batch_ok c b \<Longrightarrow> core_ext c c' \<Longrightarrow> batch_ok c' b"
proof -
  assume b: "batch_ok c b" and e: "core_ext c c'"
  show ?thesis
  proof (cases "failed b")
    case False
    with b have *: "shape_ok b" "channels_ok c b" "results_ok c b" by (simp_all add: batch_ok_def)
    have "results_ok c' b" using *(3) entry_ok_ext[OF _ e] unfolding results_ok_def by meson
    moreover have "channels_ok c' b" using *(2) e unfolding channels_ok_def core_ext_def by (metis order_less_le_trans)
    ultimately show ?thesis using *(1) by (simp add: batch_ok_def)
  qed (simp add: batch_ok_def)
qed

text \<open>A new core with the calls and batches untouched.\<close>

lemma ws_ok_core:
  assumes "ws_ok c" "core_ok core" "core_ext (wc_core c) core"
  shows "ws_ok (c\<lparr>wc_core := core\<rparr>)"
proof -
  have "length (co_calls (wc_core c)) \<le> length (co_calls core)" using assms(3) by (simp add: core_ext_def)
  then show ?thesis using assms
    by (auto simp: ws_ok_def list_all_iff intro: outcome_ok_ext batch_ok_ext)
qed

lemma ws_ok_fields [simp]:
  "ws_ok (c\<lparr>wc_entering := x\<rparr>) = ws_ok c" "ws_ok (c\<lparr>wc_reader := y\<rparr>) = ws_ok c" "ws_ok (c\<lparr>wc_conn := w\<rparr>) = ws_ok c"
  "ws_ok (c\<lparr>wc_closed := b\<rparr>) = ws_ok c" "ws_ok (c\<lparr>wc_closing := b'\<rparr>) = ws_ok c" "ws_ok (c\<lparr>wc_notified := n\<rparr>) = ws_ok c"
  by (simp_all add: ws_ok_def)

lemma list_all_update: "list_all P xs \<Longrightarrow> P x \<Longrightarrow> list_all P (xs[i := x])"
  by (auto simp: list_all_iff dest: set_update_subset_insert[THEN subsetD])

lemma ws_ok_call:
  assumes "ws_ok c" "p < length (co_calls (wc_core c))" "outcome_ok (wc_core c) p ph"
  shows "ws_ok (c\<lparr>wc_calls := (wc_calls c)[i := (p, ph)]\<rparr>)"
  using assms by (auto simp: ws_ok_def intro: list_all_update)

lemma ws_ok_batch:
  assumes "ws_ok c" "batch_ok (wc_core c) b"
  shows "ws_ok (set_batch i b c)"
  using assms by (auto simp: ws_ok_def set_batch_def intro: list_all_update)

lemma ws_call_pos: "ws_ok c \<Longrightarrow> i < length (wc_calls c) \<Longrightarrow> wc_calls c ! i = (p, ph) \<Longrightarrow> p < length (co_calls (wc_core c))"
  by (auto simp: ws_ok_def list_all_length)

lemma ws_batch_at: "ws_ok c \<Longrightarrow> i < length (wc_batches c) \<Longrightarrow> wc_batches c ! i = b \<Longrightarrow> batch_ok (wc_core c) b"
  by (auto simp: ws_ok_def list_all_length)

lemma ws_core_ok: "ws_ok c \<Longrightarrow> core_ok (wc_core c)"
  by (simp add: ws_ok_def)

section \<open>Receiving\<close>

lemma deliver_entries_ok:
  "core_ok c \<Longrightarrow> deliver_entries lx n d c = Some c' \<Longrightarrow> core_ok c' \<and> core_ext c c'"
proof (induction lx n d c rule: deliver_entries.induct)
  case (1 lx d c)
  then show ?case by simp
next
  case (2 lx n d c)
  show ?case
  proof (cases "\<exists>elem d' resp. dec_More d \<and> dec_Decode d = Some (elem, d') \<and>
      Response_UnmarshalJSON lx zero_response elem = Some (resp, None)")
    case True
    then obtain elem d' resp where *: "dec_More d" "dec_Decode d = Some (elem, d')"
      "Response_UnmarshalJSON lx zero_response elem = Some (resp, None)" by blast
    let ?c = "snd (deliver resp (seen resp c))"
    have ok: "core_ok ?c" by (rule core_ok_deliver[OF core_ok_seen[OF "2.prems"(1)]]) (simp add: seen_def)
    have ext: "core_ext c ?c" by (rule core_ext_trans[OF core_ext_ops(1) core_ext_ops(4)])
    have "deliver_entries lx n d' ?c = Some c'" using "2.prems"(2) * by simp
    with "2.IH" * ok have "core_ok c' \<and> core_ext ?c c'" by blast
    with ext show ?thesis using core_ext_trans by blast
  next
    case False
    with "2.prems" have "c' = c"
      by (auto split: if_splits option.splits prod.splits)
    with "2.prems"(1) show ?thesis by simp
  qed
qed

lemma ws_handle_decoded:
  assumes "TrimSpace data = d" "length d \<noteq> 0" "d ! 0 \<noteq> LBRACK" "Response_UnmarshalJSON lx zero_response d = Some (resp, None)"
    "c1 = c\<lparr>wc_core := seen resp (wc_core c)\<rparr>"
  shows "ws_handle_frame lx data c =
     (if slice_len (rs_ID resp) = 0 \<and> rs_Error resp = None then ws_handlePush lx d c1
      else Some (c1\<lparr>wc_core := route resp (wc_core c1)\<rparr>))"
  unfolding ws_handle_frame_def Let_def assms(1,4,5) option.case prod.case using assms(2,3) by simp

lemma ws_handle_ok:
  assumes "ws_ok c" "ws_handle_frame lx data c = Some c'"
  shows "ws_ok c'"
proof -
  let ?d = "TrimSpace data"
  consider "c' = c"
    | core where "deliverBatch lx ?d (wc_core c) = Some core" "c' = c\<lparr>wc_core := core\<rparr>"
    | resp where "ws_handlePush lx ?d (c\<lparr>wc_core := seen resp (wc_core c)\<rparr>) = Some c'"
    | resp where "c' = c\<lparr>wc_core := seen resp (wc_core c), wc_core := route resp (seen resp (wc_core c))\<rparr>"
  proof (cases "length ?d = 0 \<or> ?d ! 0 = LBRACK")
    case True
    show ?thesis
    proof (cases "length ?d = 0")
      case True
      with assms(2) have "c' = c" by (simp add: ws_handle_frame_def)
      with that(1) show ?thesis .
    next
      case False
      with True assms(2) have "map_option (\<lambda>core. c\<lparr>wc_core := core\<rparr>) (deliverBatch lx ?d (wc_core c)) = Some c'"
        by (simp add: ws_handle_frame_def)
      with that(2) show ?thesis by blast
    qed
  next
    case False
    show ?thesis
    proof (cases "\<exists>resp. Response_UnmarshalJSON lx zero_response ?d = Some (resp, None)")
      case True
      then obtain resp where "Response_UnmarshalJSON lx zero_response ?d = Some (resp, None)" by blast
      from ws_handle_decoded[OF refl _ _ this refl, of c] False assms(2) that(3,4) show ?thesis
        by (simp split: if_splits)
    next
      case no: False
      then have "c' = c" using False assms(2)
        by (cases "Response_UnmarshalJSON lx zero_response ?d") (auto simp: ws_handle_frame_def split: option.splits)
      with that(1) show ?thesis by simp
    qed
  qed
  then show ?thesis
  proof cases
    case 2
    then have "core_ok core \<and> core_ext (wc_core c) core"
      using deliver_entries_ok[OF ws_core_ok[OF assms(1)]]
      by (cases "dec_open ?d") (auto simp: deliverBatch_def ws_core_ok[OF assms(1)])
    with 2 assms(1) show ?thesis by (simp add: ws_ok_core)
  next
    case 3
    have "ws_ok (c\<lparr>wc_core := seen resp (wc_core c)\<rparr>)"
      using assms(1) ws_core_ok[OF assms(1)] by (intro ws_ok_core) (auto simp: core_ok_seen core_ext_ops)
    with 3 show ?thesis by (auto simp: ws_handlePush_def split: if_splits)
  next
    case 4
    let ?core = "seen resp (wc_core c)"
    have "core_ok ?core" "core_ext (wc_core c) ?core" using ws_core_ok[OF assms(1)] by (simp_all add: core_ok_seen core_ext_ops)
    with core_ok_route[of ?core resp] have "core_ok (route resp ?core)" "core_ext (wc_core c) (route resp ?core)"
      by (auto simp: seen_def intro: core_ext_trans)
    with 4 assms(1) show ?thesis by (simp add: ws_ok_core)
  qed (use assms in simp)
qed

section \<open>Sending\<close>

lemma ws_send_same:
  assumes "ws_send jw wr m p v c = (e, c')"
  shows "(\<exists>w. c' = c\<lparr>wc_conn := w\<rparr>) \<and> (\<forall>x. e \<noteq> Some (ErrResponse x))"
proof -
  have "\<exists>w. c = c\<lparr>wc_conn := w\<rparr>" by (intro exI[of _ "wc_conn c"]) simp
  moreover have "MarshalParams p \<noteq> Inl (ErrResponse x :: ws_err call_err)" for x
    by (auto simp: MarshalParams_def split: goany.splits sum.splits)
  ultimately show ?thesis using assms
    by (auto simp: ws_send_def ws_sendFrame_def split: sum.splits prod.splits)
qed

lemma ws_finish_ok:
  assumes "ws_ok c" "p < length (co_calls (wc_core c))" "outcome_ok (wc_core c) p (CDone r got)"
  shows "ws_ok (ws_finish i p r got c)"
  unfolding ws_finish_def by (rule ws_ok_call[OF assms])

lemma ws_ok_unregister: "ws_ok c \<Longrightarrow> ws_ok (c\<lparr>wc_core := unregister k (wc_core c)\<rparr>)"
  by (rule ws_ok_core) (auto simp: ws_core_ok core_ok_unregister core_ext_ops)

lemma ws_ok_unregister_all: "ws_ok c \<Longrightarrow> ws_ok (c\<lparr>wc_core := unregister_all chans (wc_core c)\<rparr>)"
proof (rule ws_ok_core)
  assume "ws_ok c"
  then show "core_ok (unregister_all chans (wc_core c))"
    using ws_core_ok[of c] by (auto simp: core_ok_def unregister_all_def)
qed (auto simp: core_ext_def unregister_all_def)

lemma ws_send_call_ok:
  assumes "ws_ok c" "q < length (co_calls (wc_core c))"
  shows "ws_ok (ws_send_call jw wr i q m p c)"
proof -
  obtain e c1 where s: "ws_send jw wr m p (Some (ws_call_id q c)) c = (e, c1)" by fastforce
  from ws_send_same[OF s] obtain w where w: "c1 = c\<lparr>wc_conn := w\<rparr>" and e: "\<forall>x. e \<noteq> Some (ErrResponse x)" by blast
  have c1: "ws_ok c1" "q < length (co_calls (wc_core c1))" using assms w by simp_all
  show ?thesis
  proof (cases e)
    case None
    have "ws_ok (c1\<lparr>wc_calls := (wc_calls c1)[i := (q, CWaiting)]\<rparr>)" by (rule ws_ok_call[OF c1]) simp
    with s None show ?thesis by (simp add: ws_send_call_def)
  next
    case (Some x)
    let ?c2 = "c1\<lparr>wc_core := unregister (ws_call_id q c1) (wc_core c1)\<rparr>"
    have "ws_ok (ws_finish i q (Inl x) None ?c2)"
      using c1 e Some by (intro ws_finish_ok ws_ok_unregister) (auto simp: core_frames)
    with s Some show ?thesis by (simp add: ws_send_call_def)
  qed
qed

lemma ws_recv_core:
  assumes "ws_ok c" "p < length (co_calls (wc_core c))" "ca_chan (co_calls (wc_core c) ! p) = r # rs"
  shows "ws_ok (c\<lparr>wc_core := recv_chan p (wc_core c)\<rparr>)" "addressed (ws_call_id p c) (co_seen (wc_core c)) r"
proof -
  show "ws_ok (c\<lparr>wc_core := recv_chan p (wc_core c)\<rparr>)"
    using assms ws_core_ok[OF assms(1)] by (intro ws_ok_core) (auto simp: core_ok_recv core_ext_ops)
  show "addressed (ws_call_id p c) (co_seen (wc_core c)) r"
    using core_ok_call[OF ws_core_ok[OF assms(1)] assms(2)] assms(3) by (simp add: call_ok_def ws_call_id_def)
qed

lemma ws_begin_call_ok:
  assumes "ws_ok c"
  shows "ws_ok (ws_begin_call m p c)"
proof -
  obtain v core where n: "nextID (wc_core c) = (v, core)" by fastforce
  have core: "core_ok (register (slice_bytes v) core)" by (rule core_ok_register[OF ws_core_ok[OF assms] n])
  have ext: "core_ext (wc_core c) (register (slice_bytes v) core)" using core_ext_ops(7)[of "wc_core c" "slice_bytes v"] n by simp
  have "ws_ok (c\<lparr>wc_core := register (slice_bytes v) core\<rparr>)" by (rule ws_ok_core[OF assms core ext])
  moreover have "length (co_calls core) < length (co_calls (register (slice_bytes v) core))" by (simp add: register_def)
  ultimately show ?thesis by (simp add: ws_begin_call_def n ws_ok_def)
qed

section \<open>Batches\<close>

lemma ws_begin_batch_ok:
  assumes "ws_ok c"
  shows "ws_ok (begin_batch jw specs c)"
proof -
  obtain r core where mb: "MarshalBatch jw nextID specs (wc_core c) = (r :: ws_err call_err + bytes \<times> slice list, core)" by fastforce
  then obtain req where "batch_requests nextID specs (wc_core c) = (req :: ws_err call_err + slice list \<times> request list, core)"
    by (auto simp: MarshalBatch_def split: prod.splits sum.splits)
  from batch_requests_core[OF this] obtain m where m: "co_seq (wc_core c) \<le> m" "core = (wc_core c)\<lparr>co_seq := m\<rparr>" by blast
  have core: "core_ok core" "core_ext (wc_core c) core"
    using core_ok_count[OF ws_core_ok[OF assms] m(1)] m(2) by (simp_all add: core_ext_def)
  have base: "ws_ok (c\<lparr>wc_core := core\<rparr>)" by (rule ws_ok_core[OF assms core])
  show ?thesis
  proof (cases r)
    case (Inl e)
    with mb base show ?thesis by (simp add: begin_batch_def ws_ok_def batch_ok_def failed_def)
  next
    case (Inr fi)
    then obtain frame ids where r: "r = Inr (frame, ids)" by (cases fi) simp
    note drawn = core_ids.drawn_keys[OF mb[unfolded r]]
    have seq: "0 \<le> co_seq (wc_core c)" using ws_core_ok[OF assms] by (simp add: core_ok_def)
    have dist: "distinct (List.map_filter (\<lambda>v. v) ids)"
      unfolding drawn(3) by (rule itoa_distinct[OF seq])
    have key: "(\<exists>n. 1 \<le> n \<and> n \<le> co_seq core \<and> k = itoa n) \<and> k \<notin> set (map ca_id (co_calls core))" if "Some k \<in> set ids" for k
    proof -
      from that have "k \<in> set (List.map_filter (\<lambda>v. v) ids)" by (simp add: keys_iff)
      then obtain n where n: "co_seq (wc_core c) + 1 \<le> n" "n \<le> co_seq core" "k = itoa n" by (auto simp: drawn(3))
      have "ca_id ca \<noteq> k" if "ca \<in> set (co_calls (wc_core c))" for ca
      proof
        assume eq: "ca_id ca = k"
        from that ws_core_ok[OF assms] obtain n' where "1 \<le> n'" "n' \<le> co_seq (wc_core c)" "ca_id ca = itoa n'"
          by (auto simp: core_ok_def list_all_iff call_ok_def)
        with eq n itoa_inj[of n' n] show False by simp
      qed
      then have "k \<notin> set (map ca_id (co_calls core))" using m(2) by auto
      moreover have "1 \<le> n" using n(1) seq by simp
      ultimately show ?thesis using n(2,3) by blast
    qed
    obtain chans core1 where reg: "register_ids ids Map.empty core = (chans, core1)" by fastforce
    note ok = register_ids_ok[OF core(1) reg dist key]
    let ?b = "\<lparr>ba_specs = specs, ba_ids = ids, ba_chans = chans,
      ba_results = replicate (length specs) zero_batch_result, ba_phase = BSending frame\<rparr>"
    have b: "batch_ok core1 ?b"
      using ok dist drawn(1,2) by (auto simp: batch_ok_def shape_ok_def channels_ok_def results_ok_def)
    have "ws_ok (c\<lparr>wc_core := core1\<rparr>)"
      using ok core_ext_trans[OF core(2)] by (intro ws_ok_core[OF assms]) auto
    with b show ?thesis
      using mb r reg by (simp add: begin_batch_def ws_ok_def)
  qed
qed

lemma ws_send_batch_ok:
  assumes "ws_ok c" "batch_ok (wc_core c) b" "ba_phase b = BSending frame"
  shows "ws_ok (send_batch wr i b frame c)"
proof -
  obtain e c1 where s: "ws_sendFrame wr frame c = (e, c1)" by fastforce
  then obtain w where w: "c1 = c\<lparr>wc_conn := w\<rparr>" by (auto simp: ws_sendFrame_def split: prod.splits)
  show ?thesis
  proof (cases e)
    case None
    have "batch_ok (wc_core c1) (b\<lparr>ba_phase := BAwait 0\<rparr>)"
      using assms(2,3) w by (auto simp: batch_ok_def failed_def shape_ok_def channels_ok_def results_ok_def)
    with s None w assms(1) show ?thesis by (simp add: send_batch_def ws_ok_batch)
  next
    case (Some x)
    have "batch_ok core (b\<lparr>ba_phase := BDone (Inl x)\<rparr>)" for core by (simp add: batch_ok_def failed_def)
    moreover have "ws_ok (c1\<lparr>wc_core := unregister_all (ba_chans b) (wc_core c1)\<rparr>)"
      using assms(1) w by (intro ws_ok_unregister_all) simp
    ultimately show ?thesis using s Some ws_ok_batch by (fastforce simp: send_batch_def)
  qed
qed

lemma awaiting_ok:
  assumes "batch_ok c b" "ba_phase b = BAwait k"
  shows "shape_ok b" "channels_ok c b" "results_ok c b"
  using assms by (auto simp: batch_ok_def failed_def)

text \<open>The next entry gets its result.\<close>

lemma batch_ok_advance:
  assumes b: "batch_ok c b" "ba_phase b = BAwait k" "k < length (ba_ids b)" and e: "entry_ok c (ba_ids b ! k) br"
  shows "batch_ok c (b\<lparr>ba_results := (ba_results b)[k := br], ba_phase := BAwait (Suc k)\<rparr>)"
proof -
  let ?b = "b\<lparr>ba_results := (ba_results b)[k := br], ba_phase := BAwait (Suc k)\<rparr>"
  note ok = awaiting_ok[OF b(1,2)]
  have len: "length (ba_results b) = length (ba_ids b)" using ok(1) by (simp add: shape_ok_def)
  have "shape_ok ?b" using ok(1) by (simp add: shape_ok_def)
  moreover have "channels_ok c ?b" using ok(2) by (simp add: channels_ok_def)
  moreover have "results_ok c ?b"
    unfolding results_ok_def
  proof (intro allI impI)
    fix j assume j: "j < length (ba_ids ?b)"
    with ok(3) b(2) have old: "if j < k then entry_ok c (ba_ids b ! j) (ba_results b ! j) else ba_results b ! j = zero_batch_result"
      by (simp add: results_ok_def)
    show "if j < answered (ba_phase ?b) (length (ba_ids ?b)) then entry_ok c (ba_ids ?b ! j) (ba_results ?b ! j)
        else ba_results ?b ! j = zero_batch_result"
    proof (cases "j = k")
      case True
      then show ?thesis using e b(3) len by simp
    next
      case False
      then have "j < Suc k \<longleftrightarrow> j < k" by auto
      with False old show ?thesis by simp
    qed
  qed
  ultimately show ?thesis by (simp add: batch_ok_def)
qed

lemma batch_ok_skip:
  assumes b: "batch_ok c b" "ba_phase b = BAwait k" "k < length (ba_ids b)" "ba_ids b ! k = None"
  shows "batch_ok c (b\<lparr>ba_phase := BAwait (Suc k)\<rparr>)"
proof -
  have zero: "ba_results b ! k = zero_batch_result"
    using awaiting_ok(3)[OF b(1,2)] b(2,3) by (auto simp: results_ok_def)
  have "b\<lparr>ba_results := (ba_results b)[k := zero_batch_result]\<rparr> = b"
    using list_update_id[of "ba_results b" k] zero by simp
  moreover have "batch_ok c (b\<lparr>ba_results := (ba_results b)[k := zero_batch_result], ba_phase := BAwait (Suc k)\<rparr>)"
    by (rule batch_ok_advance[OF b(1-3)]) (simp add: entry_ok_def b(4))
  ultimately show ?thesis by metis
qed

lemma ws_recv_batch_ok:
  assumes c: "ws_ok c" and b: "batch_ok (wc_core c) b" "ba_phase b = BAwait k" "k < length (ba_ids b)" "ba_ids b ! k = Some key"
    and p: "ba_chans b key = Some p" "ca_chan (co_calls (wc_core c) ! p) = r # rs"
  shows "ws_ok (recv_batch i b k p r c)"
proof -
  have "Some key \<in> set (ba_ids b)" using b(3,4) by (metis nth_mem)
  then have pos: "p < length (co_calls (wc_core c))" "ws_call_id p c = key"
    using awaiting_ok(2)[OF b(1,2)] p(1) by (auto simp: channels_ok_def ws_call_id_def)
  note recv = ws_recv_core[OF c pos(1) p(2)]
  have "entry_ok (wc_core c) (Some key) (BatchResultFromResponse r)"
    using recv(2) pos(2) by (auto simp: entry_ok_def)
  then have "batch_ok (wc_core c) (b\<lparr>ba_results := (ba_results b)[k := BatchResultFromResponse r], ba_phase := BAwait (Suc k)\<rparr>)"
    using batch_ok_advance[OF b(1-3)] b(4) by simp
  then have "batch_ok (recv_chan p (wc_core c)) (b\<lparr>ba_results := (ba_results b)[k := BatchResultFromResponse r], ba_phase := BAwait (Suc k)\<rparr>)"
    by (rule batch_ok_ext) (rule core_ext_ops(6)[OF pos(1)])
  then show ?thesis unfolding recv_batch_def by (intro ws_ok_batch recv(1)) simp
qed

lemma ws_batch_failed: "ws_ok c \<Longrightarrow> ws_ok (set_batch i (b\<lparr>ba_phase := BDone (Inl e)\<rparr>) c)"
  by (rule ws_ok_batch) (simp_all add: batch_ok_def failed_def)

lemma batch_ok_done:
  assumes "batch_ok c b" "ba_phase b = BAwait (length (ba_ids b))"
  shows "batch_ok c (b\<lparr>ba_phase := BDone (Inr (Some (ba_results b)))\<rparr>)"
  using awaiting_ok[OF assms] assms(2) by (auto simp: batch_ok_def shape_ok_def channels_ok_def results_ok_def)

theorem ws_step_ok: "ws_step jw lx wr shut c c' \<Longrightarrow> ws_ok c \<Longrightarrow> ws_ok c'"
proof (induction rule: ws_step.induct)
  case (call_begin c xs m p ys)
  then show ?case by (intro ws_begin_call_ok) simp
next
  case (batch_begin c xs specs ys)
  then show ?case by (intro ws_begin_batch_ok) simp
next
  case (notify c xs m p ys)
  obtain e c1 where s: "ws_send jw wr m p None (c\<lparr>wc_entering := xs @ ys\<rparr>) = (e, c1)" by fastforce
  from ws_send_same[OF s] notify.prems have "ws_ok c1" by auto
  with s show ?case by simp
next
  case (call_send i c q m p)
  then show ?case by (intro ws_send_call_ok ws_call_pos)
next
  case (call_recv i c p r rs)
  note pos = ws_call_pos[OF call_recv.prems call_recv.hyps(1,2)]
  from ws_recv_core[OF call_recv.prems pos call_recv.hyps(3)] show ?case
    using pos core_ext_ops(6)[OF pos]
    by (intro ws_finish_ok) (simp_all add: core_frames same_ids ws_call_id_def)
next
  case (call_cancel i c p e)
  from ws_call_pos[OF call_cancel.prems call_cancel.hyps(1,2)] call_cancel.prems show ?case
    by (intro ws_finish_ok ws_ok_unregister) (simp_all add: core_frames)
next
  case (call_closed i c p)
  from ws_call_pos[OF call_closed.prems call_closed.hyps(1,2)] call_closed.prems show ?case
    by (intro ws_finish_ok) simp_all
next
  case (batch_send i c b frame)
  then show ?case by (intro ws_send_batch_ok ws_batch_at)
next
  case (batch_skip i c b k)
  from batch_ok_skip[OF ws_batch_at[OF batch_skip.prems batch_skip.hyps(1,2)] batch_skip.hyps(3-5)] batch_skip.prems
  show ?case by (intro ws_ok_batch)
next
  case (batch_recv i c b k key p r rs)
  from ws_recv_batch_ok[OF batch_recv.prems ws_batch_at[OF batch_recv.prems batch_recv.hyps(1,2)] batch_recv.hyps(3-7)]
  show ?case .
next
  case (batch_cancel i c b k e)
  then show ?case by (intro ws_batch_failed ws_ok_unregister_all)
next
  case (batch_closed i c b k)
  then show ?case by (intro ws_batch_failed)
next
  case (batch_done i c b)
  from batch_ok_done[OF ws_batch_at[OF batch_done.prems batch_done.hyps(1,2)] batch_done.hyps(3)] batch_done.prems
  show ?case by (intro ws_ok_batch)
next
  case (read_fail c)
  then show ?case by (simp add: ws_close_begin_def)
next
  case (handle c data c')
  from ws_handle_ok[OF handle.prems handle.hyps(2)] show ?case by simp
next
  case (close_begin c)
  then show ?case by (simp add: ws_close_begin_def)
next
  case (close_end c)
  have "ws_ok (c\<lparr>wc_core := failPending (wc_core c)\<rparr>)"
    using close_end.prems ws_core_ok[OF close_end.prems] by (intro ws_ok_core) (auto simp: core_ok_failPending core_ext_ops)
  then show ?case by (simp add: ws_close_end_def ws_ok_def)
qed simp_all

section \<open>Runs\<close>

lemma DialClient_ok: "DialClient dial opts = Inr c0 \<Longrightarrow> ws_ok c0"
  by (auto simp: DialClient_def ws_ok_def core_ok_init Let_def split: sum.splits)

lemma ws_run_ok: "(ws_step jw lx wr shut)\<^sup>*\<^sup>* c0 c \<Longrightarrow> ws_ok c0 \<Longrightarrow> ws_ok c"
  by (induction rule: rtranclp_induct) (auto intro: ws_step_ok)

text \<open>
  C12: a \<open>CallBatch\<close> over the WebSocket that returns without an error returns one result per
  spec, in order, with no two entries sharing an id: the zero result for a notification, and for
  a call what a response with the id of that entry carried, or the error of a rejection that
  carried no usable id. Other calls and batches on the connection, and what else the peer sends,
  do not change that.
\<close>

theorem ws_batch_aligned:
  assumes "DialClient dial opts = Inr c0" "(ws_step jw lx wr shut)\<^sup>*\<^sup>* c0 c"
    and "b \<in> set (wc_batches c)" "ba_phase b = BDone (Inr res)"
  shows "\<exists>rs. res = Some rs \<and> length rs = length (ba_specs b) \<and> length (ba_ids b) = length (ba_specs b) \<and>
     distinct (List.map_filter (\<lambda>v. v) (ba_ids b)) \<and>
     (\<forall>i < length rs. case ba_ids b ! i of
         None \<Rightarrow> bs_Notify (ba_specs b ! i) \<and> rs ! i = zero_batch_result
       | Some k \<Rightarrow> \<not> bs_Notify (ba_specs b ! i) \<and> (\<exists>q \<in> set (co_seen (wc_core c)).
           (rs_ID q = Some k \<and> rs ! i = BatchResultFromResponse q) \<or>
           (isNullID (rs_ID q) \<and> rs_Error q \<noteq> None \<and> rs ! i = \<lparr>br_Result = None, br_Error = rs_Error q\<rparr>)))"
proof -
  from ws_run_ok[OF assms(2) DialClient_ok[OF assms(1)]] assms(3,4)
  have b: "shape_ok b" "results_ok (wc_core c) b"
    by (auto simp: ws_ok_def list_all_iff batch_ok_def failed_def)
  have len: "length (ba_ids b) = length (ba_specs b)" "length (ba_results b) = length (ba_specs b)"
    and res: "res = Some (ba_results b)" and d: "distinct (List.map_filter (\<lambda>v. v) (ba_ids b))"
    using b(1) assms(4) by (simp_all add: shape_ok_def)
  have "case ba_ids b ! i of
         None \<Rightarrow> bs_Notify (ba_specs b ! i) \<and> ba_results b ! i = zero_batch_result
       | Some k \<Rightarrow> \<not> bs_Notify (ba_specs b ! i) \<and> (\<exists>q \<in> set (co_seen (wc_core c)).
           (rs_ID q = Some k \<and> ba_results b ! i = BatchResultFromResponse q) \<or>
           (isNullID (rs_ID q) \<and> rs_Error q \<noteq> None \<and> ba_results b ! i = \<lparr>br_Result = None, br_Error = rs_Error q\<rparr>))"
    if i: "i < length (ba_results b)" for i
  proof -
    have "map (\<lambda>v. v = None) (ba_ids b) ! i = map bs_Notify (ba_specs b) ! i" using b(1) by (simp add: shape_ok_def)
    then have n: "(ba_ids b ! i = None) = bs_Notify (ba_specs b ! i)" using i len by simp
    have e: "entry_ok (wc_core c) (ba_ids b ! i) (ba_results b ! i)"
      using b(2) i len assms(4) by (simp add: results_ok_def)
    show ?thesis
    proof (cases "ba_ids b ! i")
      case None
      with n e show ?thesis by (simp add: entry_ok_def)
    next
      case (Some k)
      with e obtain r where r: "addressed k (co_seen (wc_core c)) r" "ba_results b ! i = BatchResultFromResponse r"
        by (auto simp: entry_ok_def)
      have "\<exists>q \<in> set (co_seen (wc_core c)).
           (rs_ID q = Some k \<and> ba_results b ! i = BatchResultFromResponse q) \<or>
           (isNullID (rs_ID q) \<and> rs_Error q \<noteq> None \<and> ba_results b ! i = \<lparr>br_Result = None, br_Error = rs_Error q\<rparr>)"
        using r by (auto simp: addressed_def BatchResultFromResponse_def rejection_def)
      with Some n show ?thesis by simp
    qed
  qed
  with res len d show ?thesis by simp
qed

text \<open>The same for a single call.\<close>

theorem ws_call_correlates:
  assumes "DialClient dial opts = Inr c0" "(ws_step jw lx wr shut)\<^sup>*\<^sup>* c0 c"
    and "(p, CDone (Inr v) got) \<in> set (wc_calls c)"
  shows "\<exists>q \<in> set (co_seen (wc_core c)). rs_ID q = Some (ws_call_id p c) \<and> rs_Error q = None \<and>
     v = (case rs_Result q of None \<Rightarrow> None | Some m \<Rightarrow> m)"
proof -
  from ws_run_ok[OF assms(2) DialClient_ok[OF assms(1)]] assms(3)
  have o: "outcome_ok (wc_core c) p (CDone (Inr v) got :: ws_err cphase)" by (fastforce simp: ws_ok_def list_all_iff)
  then obtain q where q: "Inr v = (response_outcome q :: ws_err call_err + slice)" "addressed (ws_call_id p c) (co_seen (wc_core c)) q"
    by (cases got) (auto simp: ws_call_id_def)
  from q(1) have "rs_Error q = None \<and> v = (case rs_Result q of None \<Rightarrow> None | Some m \<Rightarrow> m)"
    by (auto simp: response_outcome_def split: option.splits)
  with q(2) show ?thesis by (auto simp: addressed_def rejection_def)
qed

text \<open>
  C40: a request frame of the peer, one with a method, that carries the id of a waiting call. The
  stdio client looks for the method and drops the frame; the WebSocket client does not look, and
  hands it to the waiting call as a response without result and without error, so that the
  call returns successfully with a nil result the peer never sent.
\<close>

theorem request_frame_collision:
  assumes "TrimSpace data = d" "length d \<noteq> 0" "d ! 0 \<noteq> LBRACK" "isRequestFrame lx d = Some True"
    and "Response_UnmarshalJSON lx zero_response d = Some (q, None)" "rs_ID q = Some k" "rs_Error q = None" "rs_Result q = None"
    and "core_ok core" "co_pending core k = Some i"
  shows "handle_frame lx data (c\<lparr>cl_core := core\<rparr>) = Some (c\<lparr>cl_core := seen q core\<rparr>) \<and>
     (\<exists>core'. ws_handle_frame lx data (w\<lparr>wc_core := core\<rparr>) = Some (w\<lparr>wc_core := core'\<rparr>) \<and>
        ca_chan (co_calls core' ! i) = [q] \<and> response_outcome q = (Inr None :: ws_err call_err + slice))"
proof -
  have k: "slice_len (rs_ID q) \<noteq> 0" using pending_key_ne[OF assms(9,10)] assms(6) by simp
  have "handle_frame lx data (c\<lparr>cl_core := core\<rparr>) = Some (c\<lparr>cl_core := seen q core\<rparr>)"
    using k assms(4,7,8) unfolding handle_frame_decoded[OF assms(1-3,5) refl] by (simp add: request_probe_def)
  moreover have "ws_handle_frame lx data (w\<lparr>wc_core := core\<rparr>) = Some (w\<lparr>wc_core := route q (seen q core)\<rparr>)"
    using k unfolding ws_handle_decoded[OF assms(1-3,5) refl] by simp
  moreover have "ca_chan (co_calls (route q (seen q core)) ! i) = [q]"
    using route_registered[OF assms(9,10,6)] by simp
  ultimately show ?thesis using assms(7,8) by (auto simp: response_outcome_def)
qed

section \<open>A batch response of the server\<close>

lemma deliver_entries_array:
  assumes "list_all object_elem xs" "list_all2 (\<lambda>x r. Response_UnmarshalJSON lx zero_response x = Some (r, None)) xs rs"
    and "length xs \<le> n"
  shows "deliver_entries lx n (array_state b xs) c = Some (fold (\<lambda>r c. snd (deliver r (seen r c))) rs c)"
  using assms
proof (induction xs arbitrary: rs n b c)
  case Nil
  then show ?case by (cases n) (simp_all add: array_end)
next
  case (Cons x xs)
  then obtain r rs' n' where *: "rs = r # rs'" "n = Suc n'" by (cases rs; cases n) auto
  with Cons show ?case by (simp add: array_next)
qed

text \<open>
  C39: a batch response as the server writes it reaches its calls. The WebSocket client takes the
  array apart with the streaming decoder, whatever the responses contain, and delivers every one
  of them in order, as long as there are no more than the calls that wait.
\<close>

theorem batch_frame_delivered:
  assumes jw: "jwriter_ok jw quote view" "quote_ok quote" "list_all (payload_ok 0) rs"
    and frame: "BatchFullResponse_MarshalJSON jw (Some rs) = Inr frame"
    and dec: "list_all2 (\<lambda>r q. Response_UnmarshalJSON lx zero_response (response_text quote r) = Some (q, None)) rs qs"
    and few: "length rs \<le> card (dom (co_pending (wc_core c)))"
  shows "ws_handle_frame lx frame c =
     Some (c\<lparr>wc_core := fold (\<lambda>r core. snd (deliver r (seen r core))) qs (wc_core c)\<rparr>)"
proof -
  let ?xs = "map (response_text quote) rs"
  have f: "\<forall>r \<in> set rs. response_failure r = None" and a: "frame = array_text ?xs"
    using batch_marshal[OF jw(1), of rs] frame by (auto split: if_splits)
  have elems: "list_all object_elem ?xs"
    using jw(3) f response_text_elem[OF jw(2)] by (simp add: list_all_iff)
  have pos: "frame \<noteq> []" "hd frame = LBRACK" "last frame = RBRACK" by (simp_all add: a array_text_def)
  then have trim: "TrimSpace frame = frame" by (intro TrimSpace_plain) (simp_all add: byte_val_def)
  have "deliverBatch lx frame (wc_core c) = Some (fold (\<lambda>r core. snd (deliver r (seen r core))) qs (wc_core c))"
    using deliver_entries_array[OF elems _ , of lx qs "card (dom (co_pending (wc_core c)))" False "wc_core c"] dec few
    by (simp add: a deliverBatch_def array_open list_all2_map1)
  moreover have "frame ! 0 = LBRACK" using pos(1,2) by (simp add: hd_conv_nth)
  ultimately show ?thesis using pos(1) by (simp add: ws_handle_frame_def trim)
qed

section \<open>A session\<close>

text \<open>A batch of a call and a notification, answered by an array of one response.\<close>

definition sample_specs :: "spec list" where
  "sample_specs = [\<lparr>bs_Method = ''m'', bs_Params = ANil, bs_Notify = False\<rparr>,
     \<lparr>bs_Method = ''n'', bs_Params = ANil, bs_Notify = True\<rparr>]"

definition sample_ws :: "bytes wsclient" where
  "sample_ws = \<lparr>wc_conn = [], wc_readLimit = ws_DefaultClientMaxMessageSize, wc_onNotify = False,
     wc_maxBatchSize = DefaultMaxBatchSize, wc_core = core_init, wc_calls = [], wc_batches = [],
     wc_entering = [], wc_closed = False, wc_closing = False, wc_reader = RReading, wc_notified = []\<rparr>"

definition sample_batch_frame :: bytes where
  "sample_batch_frame = ''[{\"jsonrpc\":\"2.0\",\"method\":\"m\",\"id\":1},{\"jsonrpc\":\"2.0\",\"method\":\"n\"}]''"

definition sample_batch :: batch where
  "sample_batch = \<lparr>ba_specs = sample_specs, ba_ids = [Some ''1'', None], ba_chans = [''1'' \<mapsto> 0],
     ba_results = [zero_batch_result, zero_batch_result], ba_phase = BSending sample_batch_frame\<rparr>"

definition answered_batch :: batch where
  "answered_batch = sample_batch\<lparr>ba_results := [\<lparr>br_Result = Some ''7'', br_Error = None\<rparr>, zero_batch_result],
     ba_phase := BDone (Inr (Some [\<lparr>br_Result = Some ''7'', br_Error = None\<rparr>, zero_batch_result]))\<rparr>"

lemma sample_dial: "DialClient (\<lambda>_. Inr []) [] = Inr sample_ws"
  by (simp add: DialClient_def sample_ws_def)

lemma sample_marshal: "MarshalBatch buffer_writer nextID sample_specs core_init =
    (Inr (sample_batch_frame, [Some ''1'', None]) :: ws_err call_err + bytes \<times> slice list, core_init\<lparr>co_seq := 1\<rparr>)"
proof -
  let ?reqs = "[\<lparr>rq_Version = Version, rq_Method = ''m'', rq_Params = None, rq_ID = Some ''1''\<rparr>,
    \<lparr>rq_Version = Version, rq_Method = ''n'', rq_Params = None, rq_ID = None\<rparr>]"
  have "Requests_MarshalJSON buffer_writer (Some ?reqs) = Inr sample_batch_frame" by code_simp
  moreover have "batch_requests nextID sample_specs core_init =
      (Inr ([Some ''1'', None], ?reqs) :: ws_err call_err + slice list \<times> request list, core_init\<lparr>co_seq := 1\<rparr>)"
    by (simp add: sample_specs_def MarshalParams_def nextID_def core_init_def itoa_1)
  ultimately show ?thesis by (simp add: MarshalBatch_def)
qed

definition sample_core :: "response list \<Rightarrow> response list \<Rightarrow> (bytes \<rightharpoonup> nat) \<Rightarrow> core" where
  "sample_core chan rs pending = \<lparr>co_seq = 1, co_pending = pending,
     co_calls = [\<lparr>ca_id = ''1'', ca_chan = chan\<rparr>], co_seen = rs\<rparr>"

lemma sample_array:
  "dec_open ''[{}]'' = Some \<lparr>dc_rest = ''{}]'', dc_comma = False\<rparr>" "dec_More \<lparr>dc_rest = ''{}]'', dc_comma = False\<rparr>"
  "dec_Decode \<lparr>dc_rest = ''{}]'', dc_comma = False\<rparr> = Some (''{}'', \<lparr>dc_rest = '']'', dc_comma = True\<rparr>)"
  "TrimSpace ''[{}]'' = ''[{}]''"
  by code_simp+

lemma sample_batch_handle:
  assumes "wc_core c = sample_core [] [] [''1'' \<mapsto> 0]"
  shows "ws_handle_frame answer_lexer ''[{}]'' c = Some (c\<lparr>wc_core := sample_core [sample_answer] [sample_answer] Map.empty\<rparr>)"
proof -
  have "snd (deliver sample_answer (seen sample_answer (wc_core c))) = sample_core [sample_answer] [sample_answer] Map.empty"
    by (simp add: assms sample_core_def sample_answer_def deliver_def seen_def send_chan_def unregister_def fun_upd_idem)
  then have "deliverBatch answer_lexer ''[{}]'' (wc_core c) = Some (sample_core [sample_answer] [sample_answer] Map.empty)"
    by (simp add: deliverBatch_def sample_array(1) assms) (simp add: sample_array sample_decoded sample_core_def)
  then show ?thesis by (simp add: ws_handle_frame_def sample_array(4))
qed

lemma sample_batch_run:
  "\<exists>c. (ws_step buffer_writer answer_lexer pipe id)\<^sup>*\<^sup>* sample_ws c \<and> wc_batches c = [answered_batch] \<and>
     co_seen (wc_core c) = [sample_answer]"
proof -
  let ?step = "ws_step buffer_writer answer_lexer pipe id"
  define c1 where "c1 = sample_ws\<lparr>wc_entering := [WBatch sample_specs]\<rparr>"
  define c2 where "c2 = sample_ws\<lparr>wc_core := sample_core [] [] [''1'' \<mapsto> 0], wc_batches := [sample_batch]\<rparr>"
  define c3 where "c3 = c2\<lparr>wc_conn := sample_batch_frame, wc_batches := [sample_batch\<lparr>ba_phase := BAwait 0\<rparr>]\<rparr>"
  define c4 where "c4 = c3\<lparr>wc_reader := RGot ''[{}]''\<rparr>"
  define c5 where "c5 = c3\<lparr>wc_core := sample_core [sample_answer] [sample_answer] Map.empty\<rparr>"
  define b1 where "b1 = sample_batch\<lparr>ba_results := [\<lparr>br_Result = Some ''7'', br_Error = None\<rparr>, zero_batch_result], ba_phase := BAwait 1\<rparr>"
  define c6 where "c6 = c3\<lparr>wc_core := sample_core [] [sample_answer] Map.empty, wc_batches := [b1]\<rparr>"
  define b2 where "b2 = b1\<lparr>ba_phase := BAwait 2\<rparr>"
  define c7 where "c7 = c6\<lparr>wc_batches := [b2]\<rparr>"
  define c8 where "c8 = c6\<lparr>wc_batches := [answered_batch]\<rparr>"
  have "?step sample_ws (sample_ws\<lparr>wc_entering := wc_entering sample_ws @ [WBatch sample_specs]\<rparr>)"
    by (rule ws_step.enter_batch) (simp add: batch_checks_def sample_ws_def sample_specs_def DefaultMaxBatchSize_def)
  then have s1: "?step sample_ws c1" by (simp add: c1_def sample_ws_def)
  have "?step c1 (begin_batch buffer_writer sample_specs (c1\<lparr>wc_entering := [] @ []\<rparr>))"
    by (rule ws_step.batch_begin) (simp add: c1_def)
  moreover have "begin_batch buffer_writer sample_specs (c1\<lparr>wc_entering := [] @ []\<rparr>) = c2"
    by (simp add: c1_def c2_def begin_batch_def sample_ws_def sample_marshal)
      (simp add: register_def core_init_def sample_core_def sample_batch_def sample_specs_def)
  ultimately have s2: "?step c1 c2" by metis
  have "?step c2 (send_batch pipe 0 sample_batch sample_batch_frame c2)"
    by (rule ws_step.batch_send) (simp_all add: c2_def sample_batch_def)
  moreover have "send_batch pipe 0 sample_batch sample_batch_frame c2 = c3"
    by (simp add: send_batch_def ws_sendFrame_def pipe_def c2_def c3_def set_batch_def sample_ws_def)
  ultimately have s3: "?step c2 c3" by metis
  have s4: "?step c3 c4" unfolding c4_def by (rule ws_step.read) (simp add: c3_def c2_def sample_ws_def)
  have "ws_handle_frame answer_lexer ''[{}]'' c4 = Some (c4\<lparr>wc_core := sample_core [sample_answer] [sample_answer] Map.empty\<rparr>)"
    by (rule sample_batch_handle) (simp add: c4_def c3_def c2_def)
  then have "?step c4 (c4\<lparr>wc_core := sample_core [sample_answer] [sample_answer] Map.empty, wc_reader := RReading\<rparr>)"
    by (rule ws_step.handle[rotated]) (simp add: c4_def)
  then have s5: "?step c4 c5" by (simp add: c5_def c4_def c3_def c2_def sample_ws_def)
  have "?step c5 (recv_batch 0 (sample_batch\<lparr>ba_phase := BAwait 0\<rparr>) 0 0 sample_answer c5)"
    by (rule ws_step.batch_recv) (simp_all add: c5_def c3_def sample_batch_def sample_core_def)
  moreover have "recv_batch 0 (sample_batch\<lparr>ba_phase := BAwait 0\<rparr>) 0 0 sample_answer c5 = c6"
    by (simp add: recv_batch_def recv_chan_def c5_def c6_def c3_def c2_def b1_def set_batch_def sample_batch_def sample_core_def
        BatchResultFromResponse_def sample_answer_def)
  ultimately have s6: "?step c5 c6" by metis
  have "?step c6 (set_batch 0 (b1\<lparr>ba_phase := BAwait (Suc 1)\<rparr>) c6)"
    by (rule ws_step.batch_skip) (simp_all add: c6_def b1_def sample_batch_def)
  then have s7: "?step c6 c7" by (simp add: set_batch_def c7_def b2_def c6_def numeral_2_eq_2)
  have "?step c7 (set_batch 0 (b2\<lparr>ba_phase := BDone (Inr (Some (ba_results b2)))\<rparr>) c7)"
    by (rule ws_step.batch_done) (simp_all add: c7_def b2_def b1_def sample_batch_def)
  then have s8: "?step c7 c8"
    by (simp add: set_batch_def c8_def c7_def b2_def b1_def answered_batch_def)
  from s1 s2 s3 s4 s5 s6 s7 s8 have "?step\<^sup>*\<^sup>* sample_ws c8" by (meson converse_rtranclp_into_rtranclp rtranclp.rtrancl_refl)
  then show ?thesis by (intro exI[of _ c8]) (simp add: c8_def c6_def sample_core_def)
qed

theorem ws_batch_aligned_witness:
  "\<exists>c. (ws_step buffer_writer answer_lexer pipe id)\<^sup>*\<^sup>* sample_ws c \<and> answered_batch \<in> set (wc_batches c) \<and>
     (\<exists>rs. ba_phase answered_batch = BDone (Inr (Some rs)) \<and> length rs = 2)"
proof -
  from sample_batch_run obtain c where c: "(ws_step buffer_writer answer_lexer pipe id)\<^sup>*\<^sup>* sample_ws c" "wc_batches c = [answered_batch]"
    by blast
  let ?rs = "[\<lparr>br_Result = Some ''7'', br_Error = None\<rparr>, zero_batch_result]"
  have "\<exists>rs. Some ?rs = Some rs \<and> length rs = length (ba_specs answered_batch)"
    using ws_batch_aligned[OF sample_dial c(1), of answered_batch "Some ?rs"] c(2) by (auto simp: answered_batch_def)
  then have "length ?rs = 2" by (simp add: answered_batch_def sample_batch_def sample_specs_def)
  with c show ?thesis by (auto simp: answered_batch_def)
qed

text \<open>A request frame with the id of the waiting call: \<open>{"method":"x","id":1}\<close>.\<close>

definition request_lexer :: "tok list jlexer" where
  "request_lexer = stream_lexer [TD LBRACE, TK ''method'', TV (LStr ''x'' ''\"x\"''), TK ''id'', TV (LRaw ''1''), TD RBRACE]"

lemma sample_request_frame:
  "isRequestFrame request_lexer d = Some True"
  "Response_UnmarshalJSON request_lexer zero_response d =
     Some (\<lparr>rs_Version = [], rs_Result = None, rs_Error = None, rs_ID = Some ''1''\<rparr>, None)"
  by (simp_all add: isRequestFrame_def Request_UnmarshalJSON_def Request_UnmarshalEasyJSON_def Request_field_def
      zero_request_def copied_def run_decoder request_lexer_def)

theorem request_frame_collision_witness:
  "handle_frame request_lexer ''{}'' (sample_client\<lparr>cl_core := sample_core [] [] [''1'' \<mapsto> 0]\<rparr>) =
     Some (sample_client\<lparr>cl_core := seen \<lparr>rs_Version = [], rs_Result = None, rs_Error = None, rs_ID = Some ''1''\<rparr>
       (sample_core [] [] [''1'' \<mapsto> 0])\<rparr>) \<and>
   (\<exists>core'. ws_handle_frame request_lexer ''{}'' (sample_ws\<lparr>wc_core := sample_core [] [] [''1'' \<mapsto> 0]\<rparr>) =
       Some (sample_ws\<lparr>wc_core := core'\<rparr>) \<and>
     ca_chan (co_calls core' ! 0) = [\<lparr>rs_Version = [], rs_Result = None, rs_Error = None, rs_ID = Some ''1''\<rparr>])"
proof -
  let ?q = "\<lparr>rs_Version = [], rs_Result = None, rs_Error = None, rs_ID = Some ''1''\<rparr>"
  let ?core = "sample_core [] [] [''1'' \<mapsto> 0]"
  have ok: "core_ok ?core"
    by (auto simp: core_ok_def sample_core_def call_ok_def itoa_1 intro!: exI[of _ 1])
  have "handle_frame request_lexer ''{}'' (sample_client\<lparr>cl_core := ?core\<rparr>) = Some (sample_client\<lparr>cl_core := seen ?q ?core\<rparr>) \<and>
     (\<exists>core'. ws_handle_frame request_lexer ''{}'' (sample_ws\<lparr>wc_core := ?core\<rparr>) = Some (sample_ws\<lparr>wc_core := core'\<rparr>) \<and>
        ca_chan (co_calls core' ! 0) = [?q] \<and> response_outcome ?q = (Inr None :: ws_err call_err + slice))"
    by (rule request_frame_collision[OF TrimSpace_sample _ _ sample_request_frame _ _ _ ok]) (simp_all add: sample_core_def)
  then show ?thesis by blast
qed

theorem batch_frame_delivered_witness:
  "ws_handle_frame answer_lexer ''[{\"jsonrpc\":\"2.0\",\"result\":7,\"id\":1}]'' (sample_ws\<lparr>wc_core := sample_core [] [] [''1'' \<mapsto> 0]\<rparr>) =
     Some (sample_ws\<lparr>wc_core := sample_core [sample_answer] [sample_answer] Map.empty\<rparr>)"
proof -
  let ?r = "\<lparr>rs_Version = Version, rs_Result = Some (Some ''7''), rs_Error = None, rs_ID = Some ''1''\<rparr>"
  let ?c = "sample_ws\<lparr>wc_core := sample_core [] [] [''1'' \<mapsto> 0]\<rparr>"
  have m: "BatchFullResponse_MarshalJSON buffer_writer (Some [?r]) = Inr ''[{\"jsonrpc\":\"2.0\",\"result\":7,\"id\":1}]''"
    by code_simp
  have p: "payload_ok 0 ?r" by code_simp
  have "ws_handle_frame answer_lexer ''[{\"jsonrpc\":\"2.0\",\"result\":7,\"id\":1}]'' ?c =
      Some (?c\<lparr>wc_core := fold (\<lambda>r core. snd (deliver r (seen r core))) [sample_answer] (wc_core ?c)\<rparr>)"
    by (rule batch_frame_delivered[OF buffer_writer_ok quote_ok_json_string _ m])
      (simp_all add: p sample_decoded sample_core_def)
  moreover have "snd (deliver sample_answer (seen sample_answer (sample_core [] [] [''1'' \<mapsto> 0]))) =
      sample_core [sample_answer] [sample_answer] Map.empty"
    by (simp add: sample_core_def sample_answer_def deliver_def seen_def send_chan_def unregister_def fun_upd_idem)
  ultimately show ?thesis by simp
qed

end
