(* ===== verification/WsServe.thy ===== *)
theory WsServe
  imports ClientHelpers "HOL-Library.Multiset"
begin

text \<open>
  The WebSocket server (\<open>jsonrpcws/handler.go\<close>, \<open>jsonrpcws/push.go\<close>): the options of the
  handler, the connection's writer with its bound on the time of a write, the pusher, and the
  loop of \<open>ServeHTTP\<close>.

  \<open>websocket.Conn\<close> is not part of the repository: \<open>accept\<close> is the handshake, \<open>wr\<close> its \<open>Write\<close>,
  \<open>shut\<close> its \<open>Close\<close>, \<open>shutNow\<close> its \<open>CloseNow\<close>, and what \<open>Read\<close> yields is the argument of a
  step. The loop is a step machine, one step per action of one goroutine; a write is one step
  because it happens under the writer's mutex. \<open>se_read\<close>, \<open>se_done\<close> and \<open>se_writes\<close> are
  histories: the frames read, the frames whose dispatch is over with the reply it got, and the
  writes with whether they carried a response and the error they returned.
\<close>

section \<open>Options\<close>

definition ws_DefaultMaxMessageSize :: int where "ws_DefaultMaxMessageSize = 2 ^ 20"
definition ws_DefaultMaxConcurrentCalls :: int where "ws_DefaultMaxConcurrentCalls = 16"
definition DefaultWriteTimeout :: int where "DefaultWriteTimeout = 10 * second"

record ws_handler =
  wh_maxMessageSize :: int
  wh_maxCalls :: int
  wh_writeTimeout :: int
  wh_originPatterns :: "bytes list"

definition ws_WithMaxMessageSize :: "int \<Rightarrow> ws_handler \<Rightarrow> ws_handler" where
  "ws_WithMaxMessageSize n h = (if n > 0 then h\<lparr>wh_maxMessageSize := n\<rparr> else h)"

definition ws_WithMaxConcurrentCalls :: "int \<Rightarrow> ws_handler \<Rightarrow> ws_handler" where
  "ws_WithMaxConcurrentCalls n h = (if n > 0 then h\<lparr>wh_maxCalls := n\<rparr> else h)"

definition WithWriteTimeout :: "int \<Rightarrow> ws_handler \<Rightarrow> ws_handler" where
  "WithWriteTimeout d h = (if d > 0 then h\<lparr>wh_writeTimeout := d\<rparr> else h)"

definition WithOriginPatterns :: "bytes list \<Rightarrow> ws_handler \<Rightarrow> ws_handler" where
  "WithOriginPatterns patterns h = h\<lparr>wh_originPatterns := wh_originPatterns h @ patterns\<rparr>"

definition ws_Handler :: "(ws_handler \<Rightarrow> ws_handler) list \<Rightarrow> ws_handler" where
  "ws_Handler opts = fold (\<lambda>opt h. opt h) opts
     \<lparr>wh_maxMessageSize = ws_DefaultMaxMessageSize, wh_maxCalls = ws_DefaultMaxConcurrentCalls,
       wh_writeTimeout = DefaultWriteTimeout, wh_originPatterns = []\<rparr>"

section \<open>A session\<close>

datatype ws_phase =
    WsReading
  | WsGot bytes
  | WsExiting
  | WsDraining
  | WsReturned

record 'w session =
  se_conn :: 'w
  se_readLimit :: int
  se_ctxDone :: bool
  se_canceled :: bool
  se_phase :: ws_phase
  se_running :: "bytes list"
  se_read :: "bytes list"
  se_done :: "(bytes \<times> slice) list"
  se_writes :: "(bool \<times> bytes \<times> bytes option) list"

text \<open>\<open>ctx.Err() != nil\<close> for the session's context, a child of the request's.\<close>

definition session_ended :: "'w session \<Rightarrow> bool" where
  "session_ended s \<longleftrightarrow> se_canceled s \<or> se_ctxDone s"

text \<open>The context of one write: whether it is over already, and its timeout.\<close>

record write_ctx =
  wx_done :: bool
  wx_timeout :: int

type_synonym 'w ws_writer = "write_ctx \<Rightarrow> 'w \<Rightarrow> bytes \<Rightarrow> bytes option \<times> 'w"

text \<open>\<open>connWriter.write\<close>, with \<open>onError\<close> as \<open>ServeHTTP\<close> sets it.\<close>

definition ws_write :: "'w ws_writer \<Rightarrow> ('w \<Rightarrow> 'w) \<Rightarrow> ws_handler \<Rightarrow> bool \<Rightarrow> bytes \<Rightarrow> 'w session \<Rightarrow>
    bytes option \<times> 'w session" where
  "ws_write wr shutNow h response frame s =
     (case wr \<lparr>wx_done = session_ended s, wx_timeout = wh_writeTimeout h\<rparr> (se_conn s) frame of
        (Some e, w) \<Rightarrow> (Some e, s\<lparr>se_conn := shutNow w, se_canceled := True,
            se_writes := se_writes s @ [(response, frame, Some e)]\<rparr>)
      | (None, w) \<Rightarrow> (None, s\<lparr>se_conn := w, se_writes := se_writes s @ [(response, frame, None)]\<rparr>))"

text \<open>\<open>connPusher.Notify\<close>.\<close>

definition ws_Notify :: "'j jwriter \<Rightarrow> 'w ws_writer \<Rightarrow> ('w \<Rightarrow> 'w) \<Rightarrow> ws_handler \<Rightarrow> bytes \<Rightarrow> goany \<Rightarrow>
    'w session \<Rightarrow> unit call_err option \<times> 'w session" where
  "ws_Notify jw wr shutNow h meth params s =
     (case MarshalParams params of
        Inl e \<Rightarrow> (Some e, s)
      | Inr rawParams \<Rightarrow>
          (case Request_MarshalJSON jw \<lparr>rq_Version = Version, rq_Method = meth,
                  rq_Params = rawParams, rq_ID = None\<rparr> of
             Inl e \<Rightarrow> (Some (ErrWrap [] e), s)
           | Inr frame \<Rightarrow> (case ws_write wr shutNow h False frame s of
               (e, s') \<Rightarrow> (map_option (ErrWrap []) e, s'))))"

text \<open>The body of the goroutine of a frame, once the dispatcher has replied with \<open>resp\<close>.\<close>

definition ws_reply :: "'w ws_writer \<Rightarrow> ('w \<Rightarrow> 'w) \<Rightarrow> ws_handler \<Rightarrow> bytes \<Rightarrow> slice \<Rightarrow> 'w session \<Rightarrow> 'w session" where
  "ws_reply wr shutNow h frame resp s =
     (let s1 = s\<lparr>se_done := se_done s @ [(frame, resp)]\<rparr> in
      if slice_len resp = 0 then s1 else snd (ws_write wr shutNow h True (slice_bytes resp) s1))"

text \<open>\<open>ServeHTTP\<close> up to its loop; \<open>None\<close> if the handshake fails, which ends it.\<close>

definition ws_serve_start :: "(bytes list \<Rightarrow> 'w option) \<Rightarrow> ws_handler \<Rightarrow> bool \<Rightarrow> 'w session option" where
  "ws_serve_start accept h ctxDone =
     map_option (\<lambda>w. \<lparr>se_conn = w, se_readLimit = wh_maxMessageSize h, se_ctxDone = ctxDone, se_canceled = False,
       se_phase = WsReading, se_running = [], se_read = [], se_done = [], se_writes = []\<rparr>)
       (accept (wh_originPatterns h))"

text \<open>
  \<open>replies frame resp\<close> says that \<open>HandleRPCJSONRawMessage\<close> may answer \<open>frame\<close> with \<open>resp\<close>. A
  frame in \<open>WsGot\<close> waits for a slot; \<open>finish\<close> gives the slot back. \<open>return\<close> is \<open>Close\<close> and the
  deferred \<open>CloseNow\<close>.
\<close>

inductive ws_serve_step :: "'j jwriter \<Rightarrow> 'w ws_writer \<Rightarrow> ('w \<Rightarrow> 'w) \<Rightarrow> ('w \<Rightarrow> 'w) \<Rightarrow> ws_handler \<Rightarrow>
    (bytes \<Rightarrow> slice \<Rightarrow> bool) \<Rightarrow> 'w session \<Rightarrow> 'w session \<Rightarrow> bool"
  for jw wr shut shutNow h replies where
  ctx_ends: "ws_serve_step jw wr shut shutNow h replies s (s\<lparr>se_ctxDone := True\<rparr>)"
| read: "se_phase s = WsReading \<Longrightarrow>
    ws_serve_step jw wr shut shutNow h replies s (s\<lparr>se_phase := WsGot frame, se_read := se_read s @ [frame]\<rparr>)"
| read_fail: "se_phase s = WsReading \<Longrightarrow>
    ws_serve_step jw wr shut shutNow h replies s (s\<lparr>se_phase := WsExiting\<rparr>)"
| spawn: "se_phase s = WsGot frame \<Longrightarrow> int (length (se_running s)) < wh_maxCalls h \<Longrightarrow>
    ws_serve_step jw wr shut shutNow h replies s
      (s\<lparr>se_phase := WsReading, se_running := se_running s @ [frame]\<rparr>)"
| finish: "se_running s = xs @ frame # ys \<Longrightarrow> replies frame resp \<Longrightarrow>
    ws_serve_step jw wr shut shutNow h replies s
      ((ws_reply wr shutNow h frame resp s)\<lparr>se_running := xs @ ys\<rparr>)"
| push: "ws_serve_step jw wr shut shutNow h replies s (snd (ws_Notify jw wr shutNow h meth params s))"
| drain: "se_phase s = WsExiting \<Longrightarrow>
    ws_serve_step jw wr shut shutNow h replies s (s\<lparr>se_phase := WsDraining, se_canceled := True\<rparr>)"
| return: "se_phase s = WsDraining \<Longrightarrow> se_running s = [] \<Longrightarrow>
    ws_serve_step jw wr shut shutNow h replies s
      (s\<lparr>se_phase := WsReturned, se_conn := shutNow (shut (se_conn s))\<rparr>)"

end
