(* ===== verification/WsServeProps.thy ===== *)
theory WsServeProps
  imports WsServe CodecProps
begin

text \<open>
  The WebSocket server: how the replies written relate to the frames read, what comes out of
  the connection, that no session can get stuck, and that a push after the end fails.
\<close>

section \<open>What the operations leave alone\<close>

lemma ws_write_fields [simp]:
  "se_phase (snd (ws_write wr sn h r m s)) = se_phase s" "se_running (snd (ws_write wr sn h r m s)) = se_running s"
  "se_read (snd (ws_write wr sn h r m s)) = se_read s" "se_done (snd (ws_write wr sn h r m s)) = se_done s"
  "se_readLimit (snd (ws_write wr sn h r m s)) = se_readLimit s" "se_ctxDone (snd (ws_write wr sn h r m s)) = se_ctxDone s"
  by (auto simp: ws_write_def split: prod.splits option.splits)

lemma ws_write_effect:
  "se_writes (snd (ws_write wr sn h r m s)) = se_writes s @ [(r, m, fst (ws_write wr sn h r m s))]"
  "se_canceled (snd (ws_write wr sn h r m s)) = (se_canceled s \<or> fst (ws_write wr sn h r m s) \<noteq> None)"
  by (auto simp: ws_write_def split: prod.splits option.splits)

text \<open>A push is a write of a frame, or nothing.\<close>

lemma ws_Notify_cases:
  obtains "fst (ws_Notify jw wr sn h meth params s) \<noteq> None" "snd (ws_Notify jw wr sn h meth params s) = s"
  | frame where "snd (ws_Notify jw wr sn h meth params s) = snd (ws_write wr sn h False frame s)"
      "fst (ws_Notify jw wr sn h meth params s) = map_option (ErrWrap []) (fst (ws_write wr sn h False frame s))"
proof (cases "MarshalParams params :: unit call_err + slice")
  case (Inl e)
  then show thesis by (intro that(1)) (simp_all add: ws_Notify_def)
next
  case (Inr raw)
  show thesis
  proof (cases "Request_MarshalJSON jw \<lparr>rq_Version = Version, rq_Method = meth, rq_Params = raw, rq_ID = None\<rparr>")
    case (Inl e)
    with Inr show thesis by (intro that(1)) (simp_all add: ws_Notify_def)
  next
    case (Inr frame)
    with \<open>MarshalParams params = Inr raw\<close> show thesis
      by (intro that(2)[of frame]) (simp_all add: ws_Notify_def case_prod_unfold)
  qed
qed

section \<open>Every frame is answered once\<close>

definition ws_in_hand :: "'w session \<Rightarrow> bytes list" where
  "ws_in_hand s = (case se_phase s of WsGot d \<Rightarrow> [d] | _ \<Rightarrow> [])"

text \<open>The frames with a reply to send, and the writes that carried a response.\<close>

definition due :: "(bytes \<times> slice) list \<Rightarrow> bytes list" where
  "due ds = filter (\<lambda>m. m \<noteq> []) (map (slice_bytes \<circ> snd) ds)"

definition response_writes :: "(bool \<times> bytes \<times> bytes option) list \<Rightarrow> bytes list" where
  "response_writes ws = map (fst \<circ> snd) (filter fst ws)"

definition write_failed :: "(bool \<times> bytes \<times> bytes option) list \<Rightarrow> bool" where
  "write_failed ws = list_ex (\<lambda>(r, m, e). e \<noteq> None) ws"

definition session_ok :: "ws_handler \<Rightarrow> (bytes \<Rightarrow> slice \<Rightarrow> bool) \<Rightarrow> 'w session \<Rightarrow> bool" where
  "session_ok h replies s \<longleftrightarrow>
     int (length (se_running s)) \<le> wh_maxCalls h \<and>
     mset (se_read s) = mset (map fst (se_done s)) + mset (se_running s) + mset (ws_in_hand s) \<and>
     list_all (\<lambda>(d, r). replies d r) (se_done s) \<and>
     response_writes (se_writes s) = due (se_done s) \<and>
     (write_failed (se_writes s) \<longrightarrow> se_canceled s) \<and>
     (se_phase s = WsDraining \<or> se_phase s = WsReturned \<longrightarrow> se_canceled s) \<and>
     (se_phase s = WsReturned \<longrightarrow> se_running s = [])"

lemma slice_len_nil: "slice_len v = 0 \<longleftrightarrow> slice_bytes v = []"
  by (cases v) auto

lemma session_ok_write:
  assumes "session_ok h replies s"
  shows "session_ok h replies (snd (ws_write wr sn h False m s))"
  using assms by (auto simp: session_ok_def ws_write_effect ws_in_hand_def response_writes_def write_failed_def)

lemma session_ok_push:
  assumes "session_ok h replies s"
  shows "session_ok h replies (snd (ws_Notify jw wr sn h meth params s))"
  by (rule ws_Notify_cases[of jw wr sn h meth params s]) (use assms session_ok_write[OF assms] in simp_all)

lemma session_ok_reply:
  assumes "session_ok h replies s" "se_running s = xs @ frame # ys" "replies frame resp"
  shows "session_ok h replies ((ws_reply wr sn h frame resp s)\<lparr>se_running := xs @ ys\<rparr>)"
proof (cases "slice_len resp = 0")
  case True
  with assms show ?thesis
    by (auto simp: session_ok_def ws_reply_def ws_in_hand_def due_def slice_len_nil)
next
  case False
  with assms show ?thesis
    by (auto simp: session_ok_def ws_reply_def ws_in_hand_def due_def slice_len_nil ws_write_effect response_writes_def
        write_failed_def)
qed

lemma session_step:
  assumes "ws_serve_step jw wr shut sn h replies s s'" "session_ok h replies s"
  shows "session_ok h replies s'"
  using assms(1)
proof cases
  case (finish xs frame ys resp)
  with session_ok_reply[OF assms(2)] show ?thesis by simp
next
  case (push meth params)
  with session_ok_push[OF assms(2)] show ?thesis by simp
qed (use assms(2) in \<open>auto simp: session_ok_def ws_in_hand_def\<close>)

lemma session_run:
  assumes "(ws_serve_step jw wr shut sn h replies)\<^sup>*\<^sup>* s s'" "session_ok h replies s"
  shows "session_ok h replies s'"
  using assms by (induction rule: rtranclp_induct) (auto intro: session_step)

text \<open>The options that exist.\<close>

definition ws_option :: "(ws_handler \<Rightarrow> ws_handler) \<Rightarrow> bool" where
  "ws_option opt \<longleftrightarrow> (\<exists>n. opt = ws_WithMaxMessageSize n) \<or> (\<exists>n. opt = ws_WithMaxConcurrentCalls n) \<or>
     (\<exists>d. opt = WithWriteTimeout d) \<or> (\<exists>ps. opt = WithOriginPatterns ps)"

lemma ws_options_pos:
  assumes "list_all ws_option opts" "0 < wh_maxCalls h" "0 < wh_maxMessageSize h" "0 < wh_writeTimeout h"
  shows "0 < wh_maxCalls (fold (\<lambda>opt h. opt h) opts h)" "0 < wh_maxMessageSize (fold (\<lambda>opt h. opt h) opts h)"
    "0 < wh_writeTimeout (fold (\<lambda>opt h. opt h) opts h)"
proof -
  have "0 < wh_maxCalls (fold (\<lambda>opt h. opt h) opts h) \<and> 0 < wh_maxMessageSize (fold (\<lambda>opt h. opt h) opts h) \<and>
    0 < wh_writeTimeout (fold (\<lambda>opt h. opt h) opts h)"
    using assms
  proof (induction opts arbitrary: h)
    case (Cons opt opts)
    have "0 < wh_maxCalls (opt h) \<and> 0 < wh_maxMessageSize (opt h) \<and> 0 < wh_writeTimeout (opt h)"
      using Cons.prems by (auto simp: ws_option_def ws_WithMaxMessageSize_def ws_WithMaxConcurrentCalls_def
          WithWriteTimeout_def WithOriginPatterns_def)
    with Cons show ?case by simp
  qed simp
  then show "0 < wh_maxCalls (fold (\<lambda>opt h. opt h) opts h)" "0 < wh_maxMessageSize (fold (\<lambda>opt h. opt h) opts h)"
    "0 < wh_writeTimeout (fold (\<lambda>opt h. opt h) opts h)" by simp_all
qed

lemma ws_Handler_pos:
  assumes "list_all ws_option opts"
  shows "0 < wh_maxCalls (ws_Handler opts)" "0 < wh_maxMessageSize (ws_Handler opts)" "0 < wh_writeTimeout (ws_Handler opts)"
  unfolding ws_Handler_def
  by (rule ws_options_pos[OF assms];
      simp add: ws_DefaultMaxConcurrentCalls_def ws_DefaultMaxMessageSize_def DefaultWriteTimeout_def second_def)+

lemma session_start:
  assumes "ws_serve_start accept h ctxDone = Some s" "0 < wh_maxCalls h"
  shows "session_ok h replies s"
  using assms by (auto simp: ws_serve_start_def session_ok_def ws_in_hand_def due_def response_writes_def write_failed_def)

text \<open>
  C7: Every frame a WebSocket session reads is answered once. However dispatches, pushes and
  failing writes interleave, the frames read are those with a finished dispatch, those being
  dispatched, at most as many as configured, and the one waiting for a slot; the response
  frames written are the non-empty replies of the finished dispatches, one each and in the
  order in which they finished. A write only fails with the session's context canceled in the
  end, the loop waits for the dispatches only after it has canceled them, and when the handler
  has returned none is left.
\<close>

theorem ws_session_answers_once:
  assumes "list_all ws_option opts" "ws_serve_start accept (ws_Handler opts) ctxDone = Some s0"
    and "(ws_serve_step jw wr shut shutNow (ws_Handler opts) replies)\<^sup>*\<^sup>* s0 s"
  shows "mset (se_read s) = mset (map fst (se_done s)) + mset (se_running s) + mset (ws_in_hand s) \<and>
     int (length (se_running s)) \<le> wh_maxCalls (ws_Handler opts) \<and>
     list_all (\<lambda>(d, r). replies d r) (se_done s) \<and>
     response_writes (se_writes s) = due (se_done s) \<and>
     (write_failed (se_writes s) \<or> se_phase s = WsDraining \<longrightarrow> se_canceled s) \<and>
     (se_phase s = WsReturned \<longrightarrow> se_canceled s \<and> mset (se_read s) = mset (map fst (se_done s)))"
proof -
  have "session_ok (ws_Handler opts) replies s"
    by (rule session_run[OF assms(3) session_start[OF assms(2) ws_Handler_pos(1)[OF assms(1)]]])
  then have ok: "int (length (se_running s)) \<le> wh_maxCalls (ws_Handler opts)"
    "mset (se_read s) = mset (map fst (se_done s)) + mset (se_running s) + mset (ws_in_hand s)"
    "list_all (\<lambda>(d, r). replies d r) (se_done s)" "response_writes (se_writes s) = due (se_done s)"
    "write_failed (se_writes s) \<longrightarrow> se_canceled s" "se_phase s = WsDraining \<or> se_phase s = WsReturned \<longrightarrow> se_canceled s"
    "se_phase s = WsReturned \<longrightarrow> se_running s = []"
    unfolding session_ok_def by blast+
  have "mset (se_read s) = mset (map fst (se_done s))" if "se_phase s = WsReturned"
    using ok(2,7) that by (simp add: ws_in_hand_def)
  then have "se_phase s = WsReturned \<longrightarrow> se_canceled s \<and> mset (se_read s) = mset (map fst (se_done s))"
    using ok(6) by (intro impI conjI) metis+
  moreover have "write_failed (se_writes s) \<or> se_phase s = WsDraining \<longrightarrow> se_canceled s" using ok(5,6) by metis
  ultimately show ?thesis using ok(1-4) by (intro conjI)
qed

section \<open>What comes out of the connection\<close>

text \<open>
  What is documented of \<open>websocket.Conn\<close>: a \<open>Write\<close> without an error has sent the message, one
  with an error may have sent it or not; closing sends no message, and writing on a closed
  connection sends nothing and fails. \<open>out\<close> is the messages sent.
\<close>

definition websocket_ok :: "'w ws_writer \<Rightarrow> ('w \<Rightarrow> 'w) \<Rightarrow> ('w \<Rightarrow> 'w) \<Rightarrow> ('w \<Rightarrow> bytes list) \<Rightarrow> ('w \<Rightarrow> bool) \<Rightarrow> bool" where
  "websocket_ok wr shut shutNow out dead \<longleftrightarrow>
     (\<forall>x w m. case wr x w m of
        (None, w') \<Rightarrow> \<not> dead w \<and> out w' = out w @ [m]
      | (Some e, w') \<Rightarrow> (out w' = out w \<or> \<not> dead w \<and> out w' = out w @ [m]) \<and> (dead w \<longrightarrow> dead w')) \<and>
     (\<forall>w. out (shut w) = out w \<and> out (shutNow w) = out w \<and> dead (shutNow w) \<and> (dead w \<longrightarrow> dead (shut w)))"

lemma websocket_write:
  assumes "websocket_ok wr shut shutNow out dead"
  shows "wr x w m = (None, w') \<Longrightarrow> \<not> dead w \<and> out w' = out w @ [m]"
    "wr x w m = (Some e, w') \<Longrightarrow> (out w' = out w \<or> \<not> dead w \<and> out w' = out w @ [m]) \<and> (dead w \<longrightarrow> dead w')"
proof -
  have *: "case wr x w m of
        (None, w') \<Rightarrow> \<not> dead w \<and> out w' = out w @ [m]
      | (Some e, w') \<Rightarrow> (out w' = out w \<or> \<not> dead w \<and> out w' = out w @ [m]) \<and> (dead w \<longrightarrow> dead w')"
    by (rule assms[unfolded websocket_ok_def, THEN conjunct1, rule_format])
  show "wr x w m = (None, w') \<Longrightarrow> \<not> dead w \<and> out w' = out w @ [m]"
    "wr x w m = (Some e, w') \<Longrightarrow> (out w' = out w \<or> \<not> dead w \<and> out w' = out w @ [m]) \<and> (dead w \<longrightarrow> dead w')"
    using * by auto
qed

lemma websocket_close:
  assumes "websocket_ok wr shut shutNow out dead"
  shows "out (shut w) = out w" "out (shutNow w) = out w" "dead (shutNow w)" "dead w \<Longrightarrow> dead (shut w)"
  using assms unfolding websocket_ok_def by blast+

text \<open>The first \<open>k\<close> writes are sent.\<close>

abbreviation wrote :: "bool \<times> bytes \<times> bytes option \<Rightarrow> bool" where
  "wrote w \<equiv> snd (snd w) = None"

definition sent_upto :: "('w \<Rightarrow> bytes list) \<Rightarrow> ('w \<Rightarrow> bool) \<Rightarrow> nat \<Rightarrow> 'w session \<Rightarrow> bool" where
  "sent_upto out dead k s \<longleftrightarrow> k \<le> length (se_writes s) \<and>
     out (se_conn s) = map (fst \<circ> snd) (take k (se_writes s)) \<and>
     (\<forall>i < length (se_writes s). wrote (se_writes s ! i) \<longrightarrow> i < k) \<and>
     (\<forall>i. Suc i < k \<longrightarrow> wrote (se_writes s ! i)) \<and>
     (\<not> dead (se_conn s) \<longrightarrow> k = length (se_writes s) \<and> list_all wrote (se_writes s)) \<and>
     (se_phase s = WsReturned \<longrightarrow> dead (se_conn s))"

lemma sent_write:
  assumes "websocket_ok wr shut shutNow out dead" "sent_upto out dead k s"
  shows "\<exists>k'. sent_upto out dead k' (snd (ws_write wr shutNow h r m s))"
proof -
  let ?x = "\<lparr>wx_done = session_ended s, wx_timeout = wh_writeTimeout h\<rparr>"
  obtain e w where w: "wr ?x (se_conn s) m = (e, w)" by (cases "wr ?x (se_conn s) m")
  note close = websocket_close[OF assms(1)]
  show ?thesis
  proof (cases e)
    case None
    with websocket_write(1)[OF assms(1)] w have sent: "\<not> dead (se_conn s)" "out w = out (se_conn s) @ [m]" by blast+
    with assms(2) None w have "sent_upto out dead (Suc k) (snd (ws_write wr shutNow h r m s))"
      by (auto simp: sent_upto_def ws_write_def nth_append list_all_length less_Suc_eq)
    then show ?thesis ..
  next
    case (Some x)
    with websocket_write(2)[OF assms(1)] w
    consider "out w = out (se_conn s)" | "\<not> dead (se_conn s)" "out w = out (se_conn s) @ [m]" by blast
    then show ?thesis
    proof cases
      case 1
      with assms(2) Some w have "sent_upto out dead k (snd (ws_write wr shutNow h r m s))"
        by (auto simp: sent_upto_def ws_write_def nth_append list_all_length less_Suc_eq close)
      then show ?thesis ..
    next
      case 2
      with assms(2) Some w have "sent_upto out dead (Suc k) (snd (ws_write wr shutNow h r m s))"
        by (auto simp: sent_upto_def ws_write_def nth_append list_all_length less_Suc_eq close)
      then show ?thesis ..
    qed
  qed
qed

lemma sent_step:
  assumes "ws_serve_step jw wr shut shutNow h replies s s'" "websocket_ok wr shut shutNow out dead" "sent_upto out dead k s"
  shows "\<exists>k'. sent_upto out dead k' s'"
  using assms(1)
proof cases
  case (finish xs frame ys resp)
  have d: "sent_upto out dead k (s\<lparr>se_done := se_done s @ [(frame, resp)]\<rparr>)"
    using assms(3) by (simp add: sent_upto_def)
  have "\<exists>k'. sent_upto out dead k' (ws_reply wr shutNow h frame resp s)"
    using d sent_write[OF assms(2) d] by (auto simp: ws_reply_def Let_def)
  then show ?thesis unfolding finish(1) by (auto simp: sent_upto_def)
next
  case (push meth params)
  then show ?thesis
    using ws_Notify_cases[of jw wr shutNow h meth params s] sent_write[OF assms(2,3)] assms(3) by metis
next
  case return
  with assms(3) websocket_close[OF assms(2)] show ?thesis by (intro exI[of _ k]) (simp add: sent_upto_def)
qed (use assms(3) in \<open>auto intro!: exI[of _ k] simp: sent_upto_def\<close>)

lemma sent_run:
  assumes "(ws_serve_step jw wr shut shutNow h replies)\<^sup>*\<^sup>* s s'" "websocket_ok wr shut shutNow out dead" "sent_upto out dead k s"
  shows "\<exists>k'. sent_upto out dead k' s'"
  using assms(1,3) by (induction arbitrary: k rule: rtranclp_induct) (use sent_step[OF _ assms(2)] in blast)+

text \<open>
  C35: What a WebSocket session sends is the messages of its first writes, whole and in the order
  of the writes, responses and pushes alike: every write that returned nil is among them, and
  of the others at most the last one sent. Once the handler has returned, every push fails and
  sends nothing.
\<close>

theorem ws_session_output:
  assumes "websocket_ok wr shut shutNow out dead" "ws_serve_start accept h ctxDone = Some s0" "out (se_conn s0) = []"
    and "(ws_serve_step jw wr shut shutNow h replies)\<^sup>*\<^sup>* s0 s"
  shows "(\<exists>k \<le> length (se_writes s). out (se_conn s) = map (fst \<circ> snd) (take k (se_writes s)) \<and>
       (\<forall>i < length (se_writes s). wrote (se_writes s ! i) \<longrightarrow> i < k) \<and>
       (\<forall>i. Suc i < k \<longrightarrow> wrote (se_writes s ! i))) \<and>
     (se_phase s = WsReturned \<longrightarrow> (\<forall>meth params. fst (ws_Notify jw wr shutNow h meth params s) \<noteq> None \<and>
       out (se_conn (snd (ws_Notify jw wr shutNow h meth params s))) = out (se_conn s)))"
proof -
  have "sent_upto out dead 0 s0" using assms(2,3) by (auto simp: ws_serve_start_def sent_upto_def)
  from sent_run[OF assms(4,1) this] obtain k where k: "sent_upto out dead k s" ..
  have "fst (ws_Notify jw wr shutNow h meth params s) \<noteq> None \<and>
      out (se_conn (snd (ws_Notify jw wr shutNow h meth params s))) = out (se_conn s)"
    if "se_phase s = WsReturned" for meth params
  proof (rule ws_Notify_cases[of jw wr shutNow h meth params s])
    fix frame
    let ?x = "\<lparr>wx_done = session_ended s, wx_timeout = wh_writeTimeout h\<rparr>"
    have dead: "dead (se_conn s)" using k that by (simp add: sent_upto_def)
    obtain e w where w: "wr ?x (se_conn s) frame = (e, w)" by (cases "wr ?x (se_conn s) frame")
    have "e \<noteq> None" using w dead websocket_write(1)[OF assms(1), of ?x "se_conn s" frame w] by metis
    then obtain x where "e = Some x" by blast
    with w dead websocket_write(2)[OF assms(1), of ?x "se_conn s" frame x w]
    have e: "e = Some x" "out w = out (se_conn s)" by metis+
    assume "snd (ws_Notify jw wr shutNow h meth params s) = snd (ws_write wr shutNow h False frame s)"
      "fst (ws_Notify jw wr shutNow h meth params s) = map_option (ErrWrap []) (fst (ws_write wr shutNow h False frame s))"
    with w e show ?thesis by (simp add: ws_write_def websocket_close(2)[OF assms(1)])
  qed simp
  moreover have "k \<le> length (se_writes s) \<and> out (se_conn s) = map (fst \<circ> snd) (take k (se_writes s)) \<and>
       (\<forall>i < length (se_writes s). wrote (se_writes s ! i) \<longrightarrow> i < k) \<and> (\<forall>i. Suc i < k \<longrightarrow> wrote (se_writes s ! i))"
    using k unfolding sent_upto_def by (elim conjE) (intro conjI)
  ultimately show ?thesis by (intro conjI exI[of _ k] impI allI) metis+
qed

section \<open>No session gets stuck\<close>

lemma ws_reply_fields [simp]:
  "se_phase (ws_reply wr sn h d r s) = se_phase s" "se_read (ws_reply wr sn h d r s) = se_read s"
  by (simp_all add: ws_reply_def Let_def)

lemma finish_all:
  assumes "\<And>d. \<exists>r. replies d r"
  shows "\<exists>s'. (ws_serve_step jw wr shut shutNow h replies)\<^sup>*\<^sup>* s s' \<and> se_running s' = [] \<and>
     se_phase s' = se_phase s \<and> se_read s' = se_read s"
proof (induction "se_running s" arbitrary: s)
  case Nil
  then show ?case by (intro exI[of _ s]) simp
next
  case (Cons d ds)
  from assms obtain r where "replies d r" by blast
  let ?s = "(ws_reply wr shutNow h d r s)\<lparr>se_running := [] @ ds\<rparr>"
  have "ws_serve_step jw wr shut shutNow h replies s ?s"
    by (rule ws_serve_step.finish) (use Cons.hyps(2) \<open>replies d r\<close> in simp_all)
  with Cons.hyps(1)[of ?s] show ?case by (auto intro: converse_rtranclp_into_rtranclp)
qed

text \<open>
  No session deadlocks. If the dispatcher answers every frame, a session in any reachable
  state can be run to the return of the handler without reading another frame, and then every
  frame it has read has been dispatched. A frame that waits for a slot gets one because the
  options keep the number of slots positive.
\<close>

theorem ws_session_can_return:
  assumes "list_all ws_option opts" "ws_serve_start accept (ws_Handler opts) ctxDone = Some s0"
    and "(ws_serve_step jw wr shut shutNow (ws_Handler opts) replies)\<^sup>*\<^sup>* s0 s" "\<And>d. \<exists>r. replies d r"
  shows "\<exists>s'. (ws_serve_step jw wr shut shutNow (ws_Handler opts) replies)\<^sup>*\<^sup>* s s' \<and> se_phase s' = WsReturned \<and>
     se_read s' = se_read s \<and> mset (map fst (se_done s')) = mset (se_read s)"
proof -
  let ?step = "ws_serve_step jw wr shut shutNow (ws_Handler opts) replies"
  note idle = finish_all[where replies = replies and jw = jw and wr = wr and shut = shut and shutNow = shutNow and
      h = "ws_Handler opts", OF assms(4)]
  have draining: "\<exists>s'. ?step\<^sup>*\<^sup>* s s' \<and> se_phase s' = WsReturned \<and> se_read s' = se_read s" if "se_phase s = WsDraining" for s
  proof -
    from idle[of s] that obtain t where t: "?step\<^sup>*\<^sup>* s t" "se_running t = []" "se_phase t = WsDraining" "se_read t = se_read s" by auto
    have "?step t (t\<lparr>se_phase := WsReturned, se_conn := shutNow (shut (se_conn t))\<rparr>)"
      by (rule ws_serve_step.return) (use t in simp_all)
    with t show ?thesis by (auto intro: rtranclp.rtrancl_into_rtrancl)
  qed
  have exiting: "\<exists>s'. ?step\<^sup>*\<^sup>* s s' \<and> se_phase s' = WsReturned \<and> se_read s' = se_read s" if "se_phase s = WsExiting" for s
  proof -
    have "?step s (s\<lparr>se_phase := WsDraining, se_canceled := True\<rparr>)" by (rule ws_serve_step.drain[OF that])
    with draining[of "s\<lparr>se_phase := WsDraining, se_canceled := True\<rparr>"] show ?thesis
      by (auto intro: converse_rtranclp_into_rtranclp)
  qed
  have reading: "\<exists>s'. ?step\<^sup>*\<^sup>* s s' \<and> se_phase s' = WsReturned \<and> se_read s' = se_read s" if "se_phase s = WsReading" for s
  proof -
    have "?step s (s\<lparr>se_phase := WsExiting\<rparr>)" by (rule ws_serve_step.read_fail[OF that])
    with exiting[of "s\<lparr>se_phase := WsExiting\<rparr>"] show ?thesis by (auto intro: converse_rtranclp_into_rtranclp)
  qed
  have got: "\<exists>s'. ?step\<^sup>*\<^sup>* s s' \<and> se_phase s' = WsReturned \<and> se_read s' = se_read s" if "se_phase s = WsGot d" for s d
  proof -
    from idle[of s] that obtain t where t: "?step\<^sup>*\<^sup>* s t" "se_running t = []" "se_phase t = WsGot d" "se_read t = se_read s" by auto
    let ?t = "t\<lparr>se_phase := WsReading, se_running := se_running t @ [d]\<rparr>"
    have "?step t ?t" by (rule ws_serve_step.spawn[OF t(3)]) (simp add: t(2) ws_Handler_pos(1)[OF assms(1)])
    with t(1) have "?step\<^sup>*\<^sup>* s ?t" by (rule rtranclp.rtrancl_into_rtrancl)
    with reading[of ?t] t(4) show ?thesis by (auto intro: rtranclp_trans)
  qed
  have "\<exists>s'. ?step\<^sup>*\<^sup>* s s' \<and> se_phase s' = WsReturned \<and> se_read s' = se_read s"
  proof (cases "se_phase s")
    case WsReturned
    then show ?thesis by (intro exI[of _ s]) simp
  qed (use reading got exiting draining in auto)
  then obtain s' where s': "?step\<^sup>*\<^sup>* s s'" "se_phase s' = WsReturned" "se_read s' = se_read s" by blast
  have "session_ok (ws_Handler opts) replies s'"
    by (rule session_run[OF rtranclp_trans[OF assms(3) s'(1)] session_start[OF assms(2) ws_Handler_pos(1)[OF assms(1)]]])
  with s' show ?thesis by (auto simp: session_ok_def ws_in_hand_def)
qed

section \<open>A session\<close>

text \<open>A connection that records the messages until it is closed, and two frames, one answered.\<close>

definition tape :: "(bytes list \<times> bool) ws_writer" where
  "tape x w m = (if snd w then (Some ''closed'', w) else (None, (fst w @ [m], False)))"

definition untape :: "bytes list \<times> bool \<Rightarrow> bytes list \<times> bool" where "untape w = (fst w, True)"

definition sample_replies :: "bytes \<Rightarrow> slice \<Rightarrow> bool" where
  "sample_replies d r \<longleftrightarrow> r = (if d = ''note'' then None else Some (''re:'' @ d))"

definition sample_session :: "(bytes list \<times> bool) session" where
  "sample_session = \<lparr>se_conn = ([], False), se_readLimit = ws_DefaultMaxMessageSize, se_ctxDone = False,
     se_canceled = False, se_phase = WsReading, se_running = [], se_read = [], se_done = [], se_writes = []\<rparr>"

lemma sample_accept: "ws_serve_start (\<lambda>_. Some ([], False)) (ws_Handler []) False = Some sample_session"
  by (simp add: ws_serve_start_def sample_session_def ws_Handler_def)

lemma tape_ok: "websocket_ok tape untape untape fst snd"
  by (auto simp: websocket_ok_def tape_def untape_def split: if_splits)

definition answered_session :: "(bytes list \<times> bool) session" where
  "answered_session = sample_session\<lparr>se_conn := ([''re:call''], False), se_read := [''call''],
     se_done := [(''call'', Some ''re:call'')], se_writes := [(True, ''re:call'', None)]\<rparr>"

lemma sample_session_run: "(ws_serve_step jw tape untape untape (ws_Handler []) sample_replies)\<^sup>*\<^sup>* sample_session answered_session"
proof -
  let ?step = "ws_serve_step jw tape untape untape (ws_Handler []) sample_replies"
  define s1 where "s1 = sample_session\<lparr>se_phase := WsGot ''call'', se_read := [''call'']\<rparr>"
  define s2 where "s2 = s1\<lparr>se_phase := WsReading, se_running := [''call'']\<rparr>"
  have "?step sample_session (sample_session\<lparr>se_phase := WsGot ''call'', se_read := se_read sample_session @ [''call'']\<rparr>)"
    by (rule ws_serve_step.read) (simp add: sample_session_def)
  then have 1: "?step sample_session s1" by (simp add: s1_def sample_session_def)
  have "?step s1 (s1\<lparr>se_phase := WsReading, se_running := se_running s1 @ [''call'']\<rparr>)"
    by (rule ws_serve_step.spawn) (simp_all add: s1_def sample_session_def ws_Handler_def ws_DefaultMaxConcurrentCalls_def)
  then have 2: "?step s1 s2" by (simp add: s2_def s1_def sample_session_def)
  have "?step s2 ((ws_reply tape untape (ws_Handler []) ''call'' (Some ''re:call'') s2)\<lparr>se_running := [] @ []\<rparr>)"
    by (rule ws_serve_step.finish) (simp_all add: s2_def sample_replies_def)
  moreover have "(ws_reply tape untape (ws_Handler []) ''call'' (Some ''re:call'') s2)\<lparr>se_running := [] @ []\<rparr> = answered_session"
    by (simp add: ws_reply_def ws_write_def tape_def s2_def s1_def sample_session_def answered_session_def)
  ultimately have 3: "?step s2 answered_session" by metis
  from 1 2 3 show ?thesis by (meson converse_rtranclp_into_rtranclp rtranclp.rtrancl_refl)
qed

theorem ws_session_answers_once_witness:
  "response_writes (se_writes answered_session) = due (se_done answered_session) \<and>
   mset (se_read answered_session) = mset (map fst (se_done answered_session)) + mset [] + mset []"
  using ws_session_answers_once[of "[]", OF _ sample_accept sample_session_run[where jw = buffer_writer]]
  by (simp add: answered_session_def sample_session_def ws_in_hand_def)

theorem ws_session_output_witness:
  "\<exists>k \<le> 1. fst (se_conn answered_session) = map (fst \<circ> snd) (take k (se_writes answered_session)) \<and> 0 < k"
proof -
  have "\<exists>k \<le> length (se_writes answered_session). fst (se_conn answered_session) = map (fst \<circ> snd) (take k (se_writes answered_session)) \<and>
       (\<forall>i < length (se_writes answered_session). wrote (se_writes answered_session ! i) \<longrightarrow> i < k) \<and>
       (\<forall>i. Suc i < k \<longrightarrow> wrote (se_writes answered_session ! i))"
    by (rule ws_session_output[OF tape_ok sample_accept _ sample_session_run[where jw = buffer_writer], THEN conjunct1])
      (simp add: sample_session_def)
  then show ?thesis by (auto simp: answered_session_def)
qed

theorem ws_session_can_return_witness:
  "\<exists>s'. (ws_serve_step buffer_writer tape untape untape (ws_Handler []) sample_replies)\<^sup>*\<^sup>* answered_session s' \<and>
     se_phase s' = WsReturned \<and> mset (map fst (se_done s')) = {#''call''#}"
  using ws_session_can_return[of "[]", OF _ sample_accept sample_session_run[where jw = buffer_writer]]
  by (auto simp: sample_replies_def answered_session_def)

end
