(* ===== verification/Mime.thy ===== *)
theory Mime
  imports Scan
begin

text \<open>
  \<open>mime.ParseMediaType\<close> of the standard library, as far as the HTTP handlers use it: whether a
  \<open>Content-Type\<close> parses, and the media type. Letters outside ASCII only matter where
  \<open>strings.ToLower\<close> makes an ASCII letter of them (the dotted capital I and the Kelvin sign);
  all others are kept, which rejects the text as any other lower case letter would.
\<close>

definition lower_ascii :: "char \<Rightarrow> char" where
  "lower_ascii c = (if 0x41 \<le> byte_val c \<and> byte_val c \<le> 0x5A then char_of (byte_val c + 0x20) else c)"

fun ToLower :: "bytes \<Rightarrow> bytes" where
  "ToLower (a # b # c # r) =
     (if a = CHR 0xC4 \<and> b = CHR 0xB0 then CHR ''i'' # ToLower (c # r)
      else if a = CHR 0xE2 \<and> b = CHR 0x84 \<and> c = CHR 0xAA then CHR ''k'' # ToLower r
      else lower_ascii a # ToLower (b # c # r))"
| "ToLower [a, b] = (if a = CHR 0xC4 \<and> b = CHR 0xB0 then [CHR ''i''] else [lower_ascii a, lower_ascii b])"
| "ToLower [a] = [lower_ascii a]"
| "ToLower [] = []"

definition isTSpecial :: "char \<Rightarrow> bool" where
  "isTSpecial c \<longleftrightarrow> c \<in> set ''()<>@,;:/[]?='' \<union> {BSLASH, QUOTE}"

definition isTokenChar :: "char \<Rightarrow> bool" where
  "isTokenChar c \<longleftrightarrow> 0x20 < byte_val c \<and> byte_val c < 0x7F \<and> \<not> isTSpecial c"

definition consumeToken :: "bytes \<Rightarrow> bytes \<times> bytes" where
  "consumeToken v = (takeWhile isTokenChar v, dropWhile isTokenChar v)"

text \<open>The body of a quoted string, after its opening quote; \<open>None\<close> if it does not end.\<close>

fun consumeQuoted :: "bytes \<Rightarrow> bytes \<Rightarrow> (bytes \<times> bytes) option" where
  "consumeQuoted [] acc = None"
| "consumeQuoted [r] acc = (if r = QUOTE then Some (acc, []) else None)"
| "consumeQuoted (r # r2 # rs) acc =
     (if r = QUOTE then Some (acc, r2 # rs)
      else if r = BSLASH \<and> isTSpecial r2 then consumeQuoted rs (acc @ [r2])
      else if r = CR \<or> r = LF then None
      else consumeQuoted (r2 # rs) (acc @ [r]))"

definition consumeValue :: "bytes \<Rightarrow> bytes \<times> bytes" where
  "consumeValue v =
     (case v of
        [] \<Rightarrow> ([], [])
      | c # r \<Rightarrow> if c \<noteq> QUOTE then consumeToken v
          else (case consumeQuoted r [] of None \<Rightarrow> ([], v) | Some res \<Rightarrow> res))"

text \<open>The name, the value and the rest; \<open>None\<close> for the results with an empty name.\<close>

definition consumeMediaParam :: "bytes \<Rightarrow> (bytes \<times> bytes \<times> bytes) option" where
  "consumeMediaParam v =
     (case trim_left v of
        c # r1 \<Rightarrow>
          (if c \<noteq> CHR '';'' then None
           else case consumeToken (trim_left r1) of (param, r2) \<Rightarrow>
             if param = [] then None
             else (case trim_left r2 of
                 d # r3 \<Rightarrow>
                   (if d \<noteq> CHR ''='' then None
                    else case consumeValue (trim_left r3) of (val, r4) \<Rightarrow>
                      if val = [] \<and> r4 = trim_left r3 then None
                      else Some (ToLower param, val, r4))
               | [] \<Rightarrow> None))
      | [] \<Rightarrow> None)"

lemma trim_left_length: "length (trim_left v) \<le> length v"
proof (induction v rule: trim_left.induct)
  case (1 bs)
  then show ?case
    by (subst trim_left.simps) (auto split: option.split intro: le_trans)
qed

lemma consumeQuoted_length: "consumeQuoted r acc = Some (val, rest) \<Longrightarrow> length rest \<le> length r"
  by (induction r acc rule: consumeQuoted.induct) (auto split: if_splits)

lemma consumeValue_length: "consumeValue v = (val, rest) \<Longrightarrow> length rest \<le> length v"
  by (auto simp: consumeValue_def consumeToken_def length_dropWhile_le le_SucI split: list.splits if_splits option.splits
      dest: consumeQuoted_length)

lemma consumeMediaParam_length:
  assumes "consumeMediaParam v = Some (param, val, rest)"
  shows "length rest < length v"
proof -
  obtain c r1 where 1: "trim_left v = c # r1" using assms by (auto simp: consumeMediaParam_def split: list.splits)
  obtain p r2 where 2: "consumeToken (trim_left r1) = (p, r2)" by fastforce
  obtain d r3 where 3: "trim_left r2 = d # r3"
    using assms 1 2 by (auto simp: consumeMediaParam_def split: list.splits if_splits)
  obtain x r4 where 4: "consumeValue (trim_left r3) = (x, r4)" by fastforce
  have "rest = r4" using assms 1 2 3 4 by (auto simp: consumeMediaParam_def split: if_splits)
  moreover have "length r4 \<le> length (trim_left r3)" by (rule consumeValue_length[OF 4])
  moreover have "length r2 \<le> length (trim_left r1)"
    using 2 by (auto simp: consumeToken_def length_dropWhile_le)
  ultimately show ?thesis
    using 1 3 trim_left_length[of v] trim_left_length[of r1] trim_left_length[of r2] trim_left_length[of r3]
    by simp
qed

text \<open>The loop over the parameters, with those it has seen; false if it fails.\<close>

function media_params :: "bytes \<Rightarrow> (bytes \<rightharpoonup> bytes) \<Rightarrow> bool" where
  "media_params v params =
     (let v1 = trim_left v in
      if v1 = [] then True
      else case consumeMediaParam v1 of
          None \<Rightarrow> TrimSpace v1 = '';''
        | Some (key, val, rest) \<Rightarrow>
            if params key \<noteq> None \<and> params key \<noteq> Some val then False
            else media_params rest (params(key \<mapsto> val)))"
  by pat_completeness auto
termination
proof (relation "measure (\<lambda>(v, _). length v)", goal_cases)
  case (2 v params v1 p key q val rest)
  then have "length rest < length v1" by (intro consumeMediaParam_length) auto
  with 2(1) trim_left_length[of v] show ?case by simp
qed simp

declare media_params.simps [simp del]

definition checkMediaTypeDisposition :: "bytes \<Rightarrow> bool" where
  "checkMediaTypeDisposition s =
     (case consumeToken s of (typ, rest) \<Rightarrow>
        typ \<noteq> [] \<and> (case rest of
            [] \<Rightarrow> True
          | c # r \<Rightarrow> c = CHR ''/'' \<and> (case consumeToken r of (sub, rest') \<Rightarrow> sub \<noteq> [] \<and> rest' = [])))"

text \<open>The media type, if there is no error.\<close>

definition ParseMediaType :: "bytes \<Rightarrow> bytes option" where
  "ParseMediaType v =
     (let base = takeWhile (\<lambda>c. c \<noteq> CHR '';'') v; mediatype = TrimSpace (ToLower base) in
      if checkMediaTypeDisposition mediatype \<and> media_params (drop (length base) v) Map.empty
      then Some mediatype else None)"

end
