(* ===== verification/Http.thy ===== *)
theory Http
  imports Mime Handle ClientHelpers Framing Correlator JsonStream "HOL-Library.AList"
begin

text \<open>
  JSON-RPC over HTTP: the handler for \<open>net/http\<close> (\<open>jsonrpchttp/handler.go\<close>), the two handlers
  for Fiber (\<open>jsonrpcfiber\<close>, \<open>jsonrpcfiberv3\<close>) and the client (\<open>jsonrpchttp/client.go\<close>). \<open>rpc\<close>
  is the dispatcher: the reply to a body, nil for silence, or \<open>None\<close> if it never comes back;
  \<open>dispatcher\<close> is the one of theory \<open>Handle\<close>.
\<close>

definition dispatcher :: "'j jwriter \<Rightarrow> 'l jlexer \<Rightarrow> (nat \<Rightarrow> 'e env \<times> int) \<Rightarrow> 'v ctx \<Rightarrow> ('e, 'v) config \<Rightarrow>
    bytes \<Rightarrow> slice option" where
  "dispatcher jw lx sched ctx cfg data = map_option mr_reply (HandleRPCJSONRawMessage jw lx sched ctx cfg data)"

section \<open>The handler\<close>

definition DefaultMaxBodySize :: int where "DefaultMaxBodySize = 2 ^ 20"

record http_handler =
  hh_maxBodySize :: int

definition WithMaxBodySize :: "int \<Rightarrow> http_handler \<Rightarrow> http_handler" where
  "WithMaxBodySize n h = h\<lparr>hh_maxBodySize := n\<rparr>"

definition http_Handler :: "(http_handler \<Rightarrow> http_handler) list \<Rightarrow> http_handler" where
  "http_Handler opts = fold (\<lambda>opt h. opt h) opts \<lparr>hh_maxBodySize = DefaultMaxBodySize\<rparr>"

text \<open>
  A request: an absent header is the empty text, as \<open>Header.Get\<close> gives it. The body is the
  bytes it yields and how it ends; \<open>BodyTooLarge\<close> is a \<open>MaxBytesError\<close>.
\<close>

datatype body_end = BodyEOF | BodyTooLarge | BodyErr

record http_request =
  hq_method :: bytes
  hq_contentType :: bytes
  hq_contentEncoding :: bytes
  hq_body :: bytes
  hq_end :: body_end

record http_response =
  hp_status :: int
  hp_headers :: "(bytes \<times> bytes) list"
  hp_body :: bytes

definition http_Error :: "(bytes \<times> bytes) list \<Rightarrow> bytes \<Rightarrow> int \<Rightarrow> http_response" where
  "http_Error hdr msg code = \<lparr>hp_status = code,
     hp_headers = hdr @ [(''Content-Type'', ''text/plain; charset=utf-8''), (''X-Content-Type-Options'', ''nosniff'')],
     hp_body = msg @ [LF]\<rparr>"

text \<open>\<open>io.ReadAll\<close> of the body, through \<open>http.MaxBytesReader\<close> if there is a cap.\<close>

definition read_body :: "int \<Rightarrow> http_request \<Rightarrow> body_end + bytes" where
  "read_body maxSize q =
     (if maxSize > 0 \<and> int (length (hq_body q)) > maxSize then Inl BodyTooLarge
      else case hq_end q of BodyEOF \<Rightarrow> Inr (hq_body q) | e \<Rightarrow> Inl e)"

definition ServeHTTP :: "(bytes \<Rightarrow> slice option) \<Rightarrow> http_handler \<Rightarrow> http_request \<Rightarrow> http_response option" where
  "ServeHTTP rpc h q =
     (if hq_method q \<noteq> ''POST'' then
        Some (http_Error [(''Allow'', ''POST'')] ''JSON-RPC requests must be POSTed'' 405)
      else if hq_contentType q \<noteq> [] \<and> ParseMediaType (hq_contentType q) \<noteq> Some ''application/json'' then
        Some (http_Error [] ''Content-Type must be application/json'' 415)
      else case read_body (hh_maxBodySize h) q of
          Inl e \<Rightarrow> Some (if e = BodyTooLarge then http_Error [] ''request body too large'' 413
                       else http_Error [] ''cannot read request body'' 400)
        | Inr data \<Rightarrow> map_option (\<lambda>resp.
            if slice_len resp = 0 then \<lparr>hp_status = 204, hp_headers = [], hp_body = []\<rparr>
            else \<lparr>hp_status = 200, hp_headers = [(''Content-Type'', ''application/json''),
                  (''Cache-Control'', ''no-store''), (''X-Content-Type-Options'', ''nosniff'')],
                hp_body = slice_bytes resp\<rparr>) (rpc data))"

section \<open>Fiber\<close>

text \<open>
  What the handler asks of \<open>fiber.Ctx\<close>, which is not part of the repository: a bare status, or
  a status with headers and a body. The body is what \<open>Body\<close> yields, within Fiber's own limit.
\<close>

datatype fiber_action = SendStatus int | SendBody int "(bytes \<times> bytes) list" bytes

definition fiber_Handler :: "(bytes \<Rightarrow> slice option) \<Rightarrow> http_request \<Rightarrow> fiber_action option" where
  "fiber_Handler rpc q =
     (if hq_contentType q \<noteq> [] \<and> ParseMediaType (hq_contentType q) \<noteq> Some ''application/json'' then Some (SendStatus 415)
      else if hq_contentEncoding q \<noteq> [] \<and> \<not> EqualFold (hq_contentEncoding q) ''identity'' then Some (SendStatus 415)
      else map_option (\<lambda>resp.
        if slice_len resp = 0 then SendStatus 204
        else SendBody 200 [(''Content-Type'', ''application/json''), (''Cache-Control'', ''no-store''),
               (''X-Content-Type-Options'', ''nosniff'')] (slice_bytes resp)) (rpc (hq_body q)))"

text \<open>The handler for Fiber v3.\<close>

definition fiberv3_Handler :: "(bytes \<Rightarrow> slice option) \<Rightarrow> http_request \<Rightarrow> fiber_action option" where
  "fiberv3_Handler rpc q =
     (if hq_contentType q \<noteq> [] \<and> ParseMediaType (hq_contentType q) \<noteq> Some ''application/json'' then Some (SendStatus 415)
      else if hq_contentEncoding q \<noteq> [] \<and> \<not> EqualFold (hq_contentEncoding q) ''identity'' then Some (SendStatus 415)
      else map_option (\<lambda>resp.
        if slice_len resp = 0 then SendStatus 204
        else SendBody 200 [(''Content-Type'', ''application/json''), (''Cache-Control'', ''no-store''),
               (''X-Content-Type-Options'', ''nosniff'')] (slice_bytes resp)) (rpc (hq_body q)))"

section \<open>The client\<close>

definition DefaultMaxResponseSize :: int where "DefaultMaxResponseSize = 16 * 2 ^ 20"

datatype http_err = HttpBatchTooLarge | HttpText bytes

text \<open>\<open>'h\<close> is \<open>*http.Client\<close>; the counter is kept beside the client, which the calls only read.\<close>

record 'h http_client =
  ht_url :: bytes
  ht_hc :: 'h
  ht_maxResponseSize :: int
  ht_maxBatchSize :: int

definition http_WithMaxBatchSize :: "int \<Rightarrow> 'h http_client \<Rightarrow> 'h http_client" where
  "http_WithMaxBatchSize n c = c\<lparr>ht_maxBatchSize := n\<rparr>"

definition WithHTTPClient :: "'h option \<Rightarrow> 'h http_client \<Rightarrow> 'h http_client" where
  "WithHTTPClient hc c = (case hc of Some h \<Rightarrow> c\<lparr>ht_hc := h\<rparr> | None \<Rightarrow> c)"

definition WithMaxResponseSize :: "int \<Rightarrow> 'h http_client \<Rightarrow> 'h http_client" where
  "WithMaxResponseSize n c = (if n > 0 then c\<lparr>ht_maxResponseSize := n\<rparr> else c)"

definition http_NewClient :: "'h \<Rightarrow> bytes \<Rightarrow> ('h http_client \<Rightarrow> 'h http_client) list \<Rightarrow> 'h http_client" where
  "http_NewClient defaultClient url opts = fold (\<lambda>opt c. opt c) opts
     \<lparr>ht_url = url, ht_hc = defaultClient, ht_maxResponseSize = DefaultMaxResponseSize,
       ht_maxBatchSize = DefaultMaxBatchSize\<rparr>"

definition http_nextID :: "int \<Rightarrow> slice \<times> int" where
  "http_nextID s = (Some (itoa (s + 1)), s + 1)"

text \<open>
  The network: \<open>ne_build\<close> is the error of \<open>http.NewRequestWithContext\<close> for the URL, if any, and
  \<open>ne_do\<close> is \<open>Do\<close> of the client with the URL and the body of the request, with the state of the
  world. A reply is its status, the bytes of its body and the error its body ends with, if any.
\<close>

record http_reply =
  hy_status :: int
  hy_body :: bytes
  hy_err :: "bytes option"

record ('h, 'n) network =
  ne_build :: "bytes \<Rightarrow> bytes option"
  ne_do :: "'h \<Rightarrow> bytes \<Rightarrow> bytes \<Rightarrow> 'n \<Rightarrow> (bytes + http_reply) \<times> 'n"

text \<open>\<open>io.ReadAll\<close> of an \<open>io.LimitReader\<close>: the end of a longer body is not looked at.\<close>

definition read_limited :: "int \<Rightarrow> http_reply \<Rightarrow> bytes + bytes" where
  "read_limited maxSize y =
     (if int (length (hy_body y)) < maxSize
      then (case hy_err y of Some e \<Rightarrow> Inl e | None \<Rightarrow> Inr (hy_body y))
      else Inr (take (nat maxSize) (hy_body y)))"

definition postRaw :: "('h, 'n) network \<Rightarrow> 'h http_client \<Rightarrow> bytes \<Rightarrow> 'n \<Rightarrow> (http_err call_err + bytes) \<times> 'n" where
  "postRaw net c reqBody n =
     (case ne_build net (ht_url c) of
        Some e \<Rightarrow> (Inl (ErrWrap ''jsonrpchttp: build request: '' e), n)
      | None \<Rightarrow>
          (case ne_do net (ht_hc c) (ht_url c) reqBody n of
             (Inl e, n1) \<Rightarrow> (Inl (ErrWrap ''jsonrpchttp: do request: '' e), n1)
           | (Inr y, n1) \<Rightarrow>
               (case read_limited (ht_maxResponseSize c) y of
                  Inl e \<Rightarrow> Inl (ErrWrap ''jsonrpchttp: read response: '' e)
                | Inr body \<Rightarrow>
                    if hy_status y < 200 \<or> hy_status y > 299
                    then Inl (ErrTransport (HttpText (''jsonrpchttp: unexpected HTTP status '' @ itoa (hy_status y))))
                    else Inr body, n1)))"

definition post :: "'j jwriter \<Rightarrow> ('h, 'n) network \<Rightarrow> 'h http_client \<Rightarrow> bytes \<Rightarrow> goany \<Rightarrow> slice \<Rightarrow> 'n \<Rightarrow>
    (http_err call_err + bytes) \<times> 'n" where
  "post jw net c meth params v n =
     (case MarshalParams params of
        Inl e \<Rightarrow> (Inl e, n)
      | Inr rawParams \<Rightarrow>
          (case Request_MarshalJSON jw \<lparr>rq_Version = Version, rq_Method = meth,
                  rq_Params = rawParams, rq_ID = v\<rparr> of
             Inl e \<Rightarrow> (Inl (ErrWrap ''jsonrpchttp: marshal request: '' e), n)
           | Inr reqBody \<Rightarrow> postRaw net c reqBody n))"

text \<open>\<open>http_answer\<close> is what \<open>Call\<close> makes of the body; \<open>None\<close> if the decoder never returns.\<close>

definition http_answer :: "'l jlexer \<Rightarrow> bytes \<Rightarrow> bytes \<Rightarrow> (http_err call_err + slice) option" where
  "http_answer lx key body =
     (if length body = 0
      then Some (Inl (ErrTransport (HttpText (''jsonrpchttp: empty response to a call (id '' @ key @ '')''))))
      else case Response_UnmarshalJSON lx zero_response body of
          None \<Rightarrow> None
        | Some (resp, Some e) \<Rightarrow> Some (Inl (ErrWrap ''jsonrpchttp: decode response: '' e))
        | Some (resp, None) \<Rightarrow> Some
            (case rs_Error resp of
               Some e \<Rightarrow> Inl (ErrResponse e)
             | None \<Rightarrow>
                 if slice_len (rs_ID resp) \<noteq> 0 \<and> slice_bytes (rs_ID resp) \<noteq> key
                 then Inl (ErrTransport (HttpText (''jsonrpchttp: response id '' @ slice_bytes (rs_ID resp) @
                        '' does not match request id '' @ key)))
                 else (case rs_Result resp of None \<Rightarrow> Inr None | Some m \<Rightarrow> Inr m)))"

definition http_Call :: "'j jwriter \<Rightarrow> 'l jlexer \<Rightarrow> ('h, 'n) network \<Rightarrow> 'h http_client \<Rightarrow> bytes \<Rightarrow> goany \<Rightarrow>
    int \<times> 'n \<Rightarrow> ((http_err call_err + slice) \<times> int \<times> 'n) option" where
  "http_Call jw lx net c meth params s =
     (case http_nextID (fst s) of (v, seq) \<Rightarrow>
        case post jw net c meth params v (snd s) of
          (Inl e, n) \<Rightarrow> Some (Inl e, seq, n)
        | (Inr body, n) \<Rightarrow> map_option (\<lambda>r. (r, seq, n)) (http_answer lx (slice_bytes v) body))"

definition http_Notify :: "'j jwriter \<Rightarrow> ('h, 'n) network \<Rightarrow> 'h http_client \<Rightarrow> bytes \<Rightarrow> goany \<Rightarrow> 'n \<Rightarrow>
    http_err call_err option \<times> 'n" where
  "http_Notify jw net c meth params n =
     (case post jw net c meth params None n of
        (Inl e, n1) \<Rightarrow> (Some e, n1)
      | (Inr _, n1) \<Rightarrow> (None, n1))"

section \<open>Batches\<close>

text \<open>The map from the awaited ids to the indices of their specs, as an association list.\<close>

fun expected_ids :: "slice list \<Rightarrow> nat \<Rightarrow> (bytes \<times> nat) list \<Rightarrow> (bytes \<times> nat) list" where
  "expected_ids [] i ex = ex"
| "expected_ids (None # ids) i ex = expected_ids ids (Suc i) ex"
| "expected_ids (Some k # ids) i ex = expected_ids ids (Suc i) (AList.update k i ex)"

text \<open>The loop over the array, with the entries it may still scan.\<close>

fun scan_batch :: "'l jlexer \<Rightarrow> nat \<Rightarrow> decoder \<Rightarrow> (bytes \<times> nat) list \<Rightarrow> batch_result list \<Rightarrow>
    (http_err call_err + (bytes \<times> nat) list \<times> batch_result list) option" where
  "scan_batch lx 0 d ex results = Some (Inr (ex, results))"
| "scan_batch lx (Suc n) d ex results =
     (if \<not> dec_More d \<or> length ex = 0 then Some (Inr (ex, results))
      else case dec_Decode d of
          None \<Rightarrow> Some (Inl (ErrWrap ''jsonrpchttp: decode batch response: '' ''invalid JSON''))
        | Some (elem, d') \<Rightarrow>
            (case Response_UnmarshalJSON lx zero_response elem of
               None \<Rightarrow> None
             | Some (resp, Some e) \<Rightarrow> Some (Inl (ErrWrap ''jsonrpchttp: decode batch response: '' e))
             | Some (resp, None) \<Rightarrow>
                 (case map_of ex (slice_bytes (rs_ID resp)) of
                    Some i \<Rightarrow> scan_batch lx n d' (AList.delete (slice_bytes (rs_ID resp)) ex)
                      (results[i := BatchResultFromResponse resp])
                  | None \<Rightarrow> scan_batch lx n d' ex results)))"

definition no_response :: "bytes \<Rightarrow> batch_result" where
  "no_response key = \<lparr>br_Result = None, br_Error = Some \<lparr>er_Code = InternalErrorCode,
     er_Message = ''no response for batch id '' @ key, er_Data = ANil\<rparr>\<rparr>"

definition fill_missing :: "(bytes \<times> nat) list \<Rightarrow> batch_result list \<Rightarrow> batch_result list" where
  "fill_missing ex results = fold (\<lambda>(key, i) rs. rs[i := no_response key]) ex results"

text \<open>
  What \<open>CallBatch\<close> makes of the body. The text of an error of the decoder is not modelled.
\<close>

definition http_batch_answer :: "'l jlexer \<Rightarrow> slice list \<Rightarrow> nat \<Rightarrow> bytes \<Rightarrow>
    (http_err call_err + batch_result list option) option" where
  "http_batch_answer lx ids n body =
     (let results = replicate n zero_batch_result; ex = expected_ids ids 0 [] in
      if length ex = 0 then Some (Inr (Some results))
      else if length body = 0
        then Some (Inl (ErrTransport (HttpText ''jsonrpchttp: empty response to a batch with calls'')))
      else case dec_open body of
          None \<Rightarrow> Some (Inl (if token_fails body
            then ErrWrap ''jsonrpchttp: decode batch response: '' ''invalid JSON''
            else ErrTransport (HttpText ''jsonrpchttp: batch response is not an array (server rejected the batch?)'')))
        | Some d \<Rightarrow>
            map_option (\<lambda>r. case r of
                Inl e \<Rightarrow> Inl e
              | Inr (missing, rs) \<Rightarrow> Inr (Some (fill_missing missing rs)))
              (scan_batch lx (length ids) d ex results))"

definition http_CallBatch :: "'j jwriter \<Rightarrow> 'l jlexer \<Rightarrow> ('h, 'n) network \<Rightarrow> 'h http_client \<Rightarrow> spec list \<Rightarrow>
    int \<times> 'n \<Rightarrow> ((http_err call_err + batch_result list option) \<times> int \<times> 'n) option" where
  "http_CallBatch jw lx net c specs s =
     (if length specs = 0 then Some (Inr None, s)
      else if ht_maxBatchSize c > 0 \<and> int (length specs) > ht_maxBatchSize c
        then Some (Inl (ErrTransport HttpBatchTooLarge), s)
      else case MarshalBatch jw http_nextID specs (fst s) of
          (Inl e, seq) \<Rightarrow> Some (Inl e, seq, snd s)
        | (Inr (frame, ids), seq) \<Rightarrow>
            (case postRaw net c frame (snd s) of
               (Inl e, n) \<Rightarrow> Some (Inl e, seq, n)
             | (Inr body, n) \<Rightarrow>
                 map_option (\<lambda>r. (r, seq, n)) (http_batch_answer lx ids (length specs) body)))"

interpretation http_ids: id_source http_nextID "\<lambda>s. s"
  by unfold_locales (simp_all add: http_nextID_def)

end
