(* ===== verification/Programs.thy ===== *)
theory Programs
  imports Serve Http JsonCompose
begin

text \<open>
  The programs that come with the library: the MCP server over stdio
  (\<open>example/mcp-stdio/main.go\<close>), the HTTP server (\<open>example/main.go\<close>) and the workload that the
  benchmarks share (\<open>benchmarks/internal/arena/arena.go\<close>).

  Go's \<open>int\<close> has 64 bits here, so the sums that these programs compute wrap around.
  \<open>json.Marshal\<close> is explicit on the values they marshal; the reflection-driven unmarshaling of
  parameters is an argument.
\<close>

section \<open>Marshaling\<close>

text \<open>
  The values that are marshaled, by their dynamic types: a struct by the names and the values of
  its fields in the order of its declaration, a map with keys of type string by its entries,
  which \<open>json.Marshal\<close> sorts.
\<close>

datatype govalue =
    GoString bytes
  | GoInt "64 word"
  | GoSlice "govalue list"
  | GoStruct "(bytes \<times> govalue) list"
  | GoMap "(bytes \<times> govalue) list"

definition json_object :: "(bytes \<times> bytes) list \<Rightarrow> bytes" where
  "json_object ms = object_text (map (\<lambda>(k, v). (string_body k, v)) ms)"

fun json_Marshal :: "govalue \<Rightarrow> bytes" where
  "json_Marshal (GoString s) = json_string s"
| "json_Marshal (GoInt i) = itoa (sint i)"
| "json_Marshal (GoSlice vs) = array_text (map json_Marshal vs)"
| "json_Marshal (GoStruct ms) = json_object (map (map_prod id json_Marshal) ms)"
| "json_Marshal (GoMap ms) = json_object (sort_key fst (map (map_prod id json_Marshal) ms))"

section \<open>The MCP server\<close>

record serverInfo =
  si_Name :: bytes
  si_Version :: bytes

record initializeResult =
  ir_ProtocolVersion :: bytes
  ir_Capabilities :: "(bytes \<times> govalue) list"
  ir_ServerInfo :: serverInfo

record tool =
  to_Name :: bytes
  to_Description :: bytes
  to_InputSchema :: "(bytes \<times> govalue) list"

record toolsListResult =
  tl_Tools :: "tool list"

record addParams =
  ad_A :: "64 word"
  ad_B :: "64 word"

record toolsCallParams =
  tc_Name :: bytes
  tc_Arguments :: addParams

record content =
  co_Type :: bytes
  co_Text :: bytes

record toolsCallResult =
  tr_Content :: "content list"

text \<open>The fields under the names of their tags.\<close>

definition serverInfo_value :: "serverInfo \<Rightarrow> govalue" where
  "serverInfo_value s = GoStruct [(''name'', GoString (si_Name s)), (''version'', GoString (si_Version s))]"

definition initializeResult_value :: "initializeResult \<Rightarrow> govalue" where
  "initializeResult_value r = GoStruct
     [(''protocolVersion'', GoString (ir_ProtocolVersion r)), (''capabilities'', GoMap (ir_Capabilities r)),
      (''serverInfo'', serverInfo_value (ir_ServerInfo r))]"

definition tool_value :: "tool \<Rightarrow> govalue" where
  "tool_value t = GoStruct
     [(''name'', GoString (to_Name t)), (''description'', GoString (to_Description t)),
      (''inputSchema'', GoMap (to_InputSchema t))]"

definition toolsListResult_value :: "toolsListResult \<Rightarrow> govalue" where
  "toolsListResult_value r = GoStruct [(''tools'', GoSlice (map tool_value (tl_Tools r)))]"

definition content_value :: "content \<Rightarrow> govalue" where
  "content_value c = GoStruct [(''type'', GoString (co_Type c)), (''text'', GoString (co_Text c))]"

definition toolsCallResult_value :: "toolsCallResult \<Rightarrow> govalue" where
  "toolsCallResult_value r = GoStruct [(''content'', GoSlice (map content_value (tr_Content r)))]"

text \<open>
  The four handlers: the result and the error they return. \<open>'m\<close> is \<open>map[string]any\<close>. A result
  that comes with an error is dropped, so its nil slice is the empty list here.
\<close>

definition mcp_initialize :: "'m \<Rightarrow> initializeResult \<times> goerr option" where
  "mcp_initialize _ =
     (\<lparr>ir_ProtocolVersion = ''2025-06-18'', ir_Capabilities = [(''tools'', GoMap [])],
       ir_ServerInfo = \<lparr>si_Name = ''mcp-stdio-example'', si_Version = ''0.1.0''\<rparr>\<rparr>, None)"

definition mcp_tools_list :: "unit \<Rightarrow> toolsListResult \<times> goerr option" where
  "mcp_tools_list _ =
     (\<lparr>tl_Tools = [\<lparr>to_Name = ''add'', to_Description = ''Add two integers.'',
         to_InputSchema =
           [(''type'', GoString ''object''),
            (''properties'', GoMap
               [(''a'', GoMap [(''type'', GoString ''integer'')]),
                (''b'', GoMap [(''type'', GoString ''integer'')])]),
            (''required'', GoSlice [GoString ''a'', GoString ''b''])]\<rparr>]\<rparr>, None)"

definition mcp_tools_call :: "toolsCallParams \<Rightarrow> toolsCallResult \<times> goerr option" where
  "mcp_tools_call p =
     (if tc_Name p \<noteq> ''add''
      then (\<lparr>tr_Content = []\<rparr>, Some (RPCErr (Some (NewRPCError InvalidParamsErrorCode
              (Some (errors_New (''unknown tool '' @ quoted (tc_Name p))))))))
      else (\<lparr>tr_Content = [\<lparr>co_Type = ''text'',
              co_Text = itoa (sint (ad_A (tc_Arguments p) + ad_B (tc_Arguments p)))\<rparr>]\<rparr>, None))"

definition mcp_initialized :: "'m \<Rightarrow> unit \<times> goerr option" where
  "mcp_initialized _ = ((), None)"

text \<open>
  What \<open>encoding/json\<close> makes of the parameters: \<open>map[string]any\<close>, whose zero value is nil,
  \<open>struct{}\<close> and \<open>toolsCallParams\<close>, or the text of its error, which wraps nothing; and the
  types of the metadata by their names.
\<close>

record 'm mcp_codecs =
  mc_nil :: 'm
  mc_map :: "bytes \<Rightarrow> bytes + 'm"
  mc_unit :: "bytes \<Rightarrow> bytes + unit"
  mc_call :: "bytes \<Rightarrow> bytes + toolsCallParams"
  mc_type :: "bytes \<Rightarrow> rtype"

definition zero_toolsCallParams :: toolsCallParams where
  "zero_toolsCallParams = \<lparr>tc_Name = [], tc_Arguments = \<lparr>ad_A = 0, ad_B = 0\<rparr>\<rparr>"

definition handler_codec :: "'p \<Rightarrow> (bytes \<Rightarrow> bytes + 'p) \<Rightarrow> rtype \<Rightarrow> ('r \<Rightarrow> govalue) \<Rightarrow> rtype \<Rightarrow>
    ('p \<Rightarrow> 'r \<times> goerr option) \<Rightarrow> ('e, 'v, 'p, 'r) typed_codec" where
  "handler_codec zero um pt val rt fn = \<lparr>tc_zero = zero, tc_unmarshal = (\<lambda>b. map_sum errors_New id (um b)),
     tc_marshal = (\<lambda>r. Inr (json_Marshal (val r))), tc_Params = pt, tc_Result = rt,
     tc_fn = (\<lambda>_ _ _ p. (Returns (fn p), 0))\<rparr>"

text \<open>\<open>must\<close> ends the program with status 1.\<close>

definition must :: "('e, 'v) cfg_result \<Rightarrow> int + ('e, 'v) config" where
  "must r = (case r of (None, cfg, _) \<Rightarrow> Inr cfg | (Some _, _, _) \<Rightarrow> Inl 1)"

definition and_then :: "'x + 'a \<Rightarrow> ('a \<Rightarrow> 'x + 'b) \<Rightarrow> 'x + 'b" where
  "and_then r f = (case r of Inl x \<Rightarrow> Inl x | Inr a \<Rightarrow> f a)"

text \<open>\<open>main\<close> up to \<open>Serve\<close>, and the exit status for what \<open>Serve\<close> returns.\<close>

definition mcp_main :: "'m mcp_codecs \<Rightarrow> int \<Rightarrow> int + ('e, 'v) config" where
  "mcp_main mc gomaxprocs =
     (let t = mc_type mc; anymap = t ''map[string]interface {}'' in
      and_then (must (RegisterTyped ''initialize'' (handler_codec (mc_nil mc) (mc_map mc) anymap
         initializeResult_value (t ''main.initializeResult'') mcp_initialize) [] (New gomaxprocs)))
      (\<lambda>c. and_then (must (RegisterTyped ''tools/list'' (handler_codec () (mc_unit mc) (t ''struct {}'')
         toolsListResult_value (t ''main.toolsListResult'') mcp_tools_list) [] c))
      (\<lambda>c. and_then (must (RegisterTyped ''tools/call'' (handler_codec zero_toolsCallParams (mc_call mc)
         (t ''main.toolsCallParams'') toolsCallResult_value (t ''main.toolsCallResult'') mcp_tools_call) [] c))
      (\<lambda>c. must (RegisterTyped ''notifications/initialized'' (handler_codec (mc_nil mc) (mc_map mc) anymap
         (\<lambda>_. GoStruct []) (t ''struct {}'') mcp_initialized) [] c)))))"

definition mcp_serve :: "reader option \<Rightarrow> 'w option \<Rightarrow> ferr + server \<times> 'w serve" where
  "mcp_serve stdin stdout = Serve_start False FramingNDJSON stdin stdout [] None"

definition mcp_exit :: "serve_err option \<Rightarrow> int" where
  "mcp_exit err = (case err of Some _ \<Rightarrow> 1 | None \<Rightarrow> 0)"

section \<open>The HTTP server\<close>

record income =
  in_A :: "64 word"
  in_B :: "64 word"

record outcome_sum =
  out_Sum :: "64 word"

definition outcome_value :: "outcome_sum \<Rightarrow> govalue" where
  "outcome_value r = GoStruct [(''sum'', GoInt (out_Sum r))]"

definition sum_method :: "(bytes \<Rightarrow> bytes + income) \<Rightarrow> ('e, 'v) rpc_method" where
  "sum_method um = (\<lambda>e now ctx data. (Returns
     (case um (slice_bytes data) of
        Inl err \<Rightarrow> (None, InvalidParamsErrorCode, Some (errors_New err))
      | Inr inc \<Rightarrow>
          (case (Inr (json_Marshal (outcome_value \<lparr>out_Sum = in_A inc + in_B inc\<rparr>)) :: goerr + bytes) of
             Inl err \<Rightarrow> (None, InternalErrorCode, Some err)
           | Inr mdata \<Rightarrow> (Some mdata, OK, None))), 0))"

text \<open>\<open>main\<close> up to \<open>ListenAndServe\<close>: the server and its handler, or the panic.\<close>

definition sum_main :: "(bytes \<Rightarrow> bytes + income) \<Rightarrow> int \<Rightarrow> (('e, 'v) config \<times> http_handler) outcome" where
  "sum_main um gomaxprocs =
     (case RegisterMethod ''sum'' (sum_method um) (New gomaxprocs) of
        (Some err, _, _) \<Rightarrow> Panics (goerr_Error err)
      | (None, serv, _) \<Rightarrow> Returns (serv, http_Handler []))"

section \<open>The workload of the benchmarks\<close>

record SumParams =
  sp_A :: "64 word"
  sp_B :: "64 word"

record SumResult =
  sr_Sum :: "64 word"

definition Sum :: "SumParams \<Rightarrow> SumResult" where
  "Sum p = \<lparr>sr_Sum = sp_A p + sp_B p\<rparr>"

record EchoParams =
  ep_Data :: bytes

record EchoResult =
  eo_Data :: bytes

definition Echo :: "EchoParams \<Rightarrow> EchoResult" where
  "Echo p = \<lparr>eo_Data = ep_Data p\<rparr>"

definition LargePayload :: bytes where
  "LargePayload = replicate (10 * 2 ^ 10) (CHR ''x'')"

definition SumRequestJSON :: "int \<Rightarrow> bytes" where
  "SumRequestJSON v = ''{\"jsonrpc\":\"2.0\",\"method\":\"sum\",\"params\":{\"a\":3,\"b\":4},\"id\":'' @ itoa v @ ''}''"

function batch_entries :: "int \<Rightarrow> int \<Rightarrow> bytes" where
  "batch_entries i n =
     (if i \<le> n then (if i > 1 then [COMMA] else []) @ SumRequestJSON i @ batch_entries (i + 1) n else [])"
  by pat_completeness auto
termination by (relation "measure (\<lambda>(i, n). nat (n + 1 - i))") auto

declare batch_entries.simps [simp del]

definition BatchRequestJSON :: "int \<Rightarrow> bytes" where
  "BatchRequestJSON n = [LBRACK] @ batch_entries 1 n @ [RBRACK]"

definition WantSum :: "64 word" where "WantSum = 7"

definition CheckSum :: "64 word \<Rightarrow> goerr option" where
  "CheckSum got =
     (if got \<noteq> WantSum
      then Some (errors_New (''sum = '' @ itoa (sint got) @ '', want '' @ itoa (sint WantSum)))
      else None)"

end
