(* ===== verification/Sessions.thy ===== *)
theory Sessions
  imports HandleProps ServeProps Http
begin

text \<open>
  Servers over the dispatcher of raw messages: which replies a session may write, and when they
  depend on nothing but the message.
\<close>

section \<open>What the servers send\<close>

text \<open>The replies a dispatcher may give, for some schedule of what user code sees.\<close>

definition dispatcher_replies :: "'j jwriter \<Rightarrow> 'l jlexer \<Rightarrow> 'v ctx \<Rightarrow> ('e, 'v) config \<Rightarrow> bytes \<Rightarrow> slice \<Rightarrow> bool" where
  "dispatcher_replies jw lx ctx cfg data resp \<longleftrightarrow> (\<exists>sched. dispatcher jw lx sched ctx cfg data = Some resp)"

lemma dispatcher_reply_valid:
  assumes "jwriter_ok jw quote view" "quote_ok quote" "payloads_ok lx ctx cfg data" "shallow_ids lx data"
    and "dispatcher_replies jw lx ctx cfg data resp" "slice_bytes resp \<noteq> []"
  shows "Valid (slice_bytes resp)"
proof -
  obtain sched m where m: "HandleRPCJSONRawMessage jw lx sched ctx cfg data = Some m" "mr_reply m = resp"
    using assms(5) by (auto simp: dispatcher_replies_def dispatcher_def)
  obtain b where "resp = Some b" using assms(6) by (cases resp) auto
  with reply_valid[OF assms(1-4) m(1)] m(2) show ?thesis by simp
qed

text \<open>
  Every response the stdio server has written is a reply to a frame it has read, and what it
  has in hand are frames it has read.
\<close>

definition sends_replies :: "(bytes \<Rightarrow> slice \<Rightarrow> bool) \<Rightarrow> 'w serve \<Rightarrow> bool" where
  "sends_replies replies s \<longleftrightarrow> set (sv_running s) \<union> set (in_hand s) \<subseteq> set (sv_read s) \<and>
     (\<forall>m \<in> set (responses s). \<exists>d \<in> set (sv_read s). \<exists>r. replies d r \<and> m = slice_bytes r \<and> m \<noteq> [])"

lemma responses_write:
  "set (responses (serve_write wr b m s)) \<subseteq> set (responses s) \<union> (if b then {m} else {})"
  by (auto simp: serve_write_def responses_def serve_fail_def Let_def split: prod.splits option.splits if_splits)

lemma sends_replies_reply:
  assumes "sends_replies replies s" "d \<in> set (sv_read s)" "replies d r"
  shows "sends_replies replies (serve_reply wr r s)"
proof (cases "slice_bytes r = []")
  case False
  have "\<exists>d \<in> set (sv_read s). \<exists>r. replies d r \<and> m = slice_bytes r \<and> m \<noteq> []"
    if "m \<in> set (responses (serve_write wr True (slice_bytes r) s))" for m
  proof (cases "m = slice_bytes r")
    case True
    with assms(2,3) False show ?thesis by blast
  next
    case False
    with that responses_write[of wr True "slice_bytes r" s] have "m \<in> set (responses s)" by auto
    with assms(1) show ?thesis by (simp add: sends_replies_def)
  qed
  with False assms(1) show ?thesis by (simp add: sends_replies_def serve_reply_def slice_len_def in_hand_def)
qed (use assms(1) in \<open>simp add: serve_reply_def slice_len_def\<close>)

lemma sends_replies_step:
  assumes "serve_step wr n replies s s'" "sends_replies replies s"
  shows "sends_replies replies s'"
  using assms(1)
proof cases
  case (inline frame resp)
  with assms(2) have "frame \<in> set (sv_read s)" by (simp add: sends_replies_def in_hand_def)
  from sends_replies_reply[OF assms(2) this inline(4)] inline show ?thesis
    by (simp add: sends_replies_def responses_def in_hand_def)
next
  case (finish xs frame ys resp)
  with assms(2) have "frame \<in> set (sv_read s)" by (simp add: sends_replies_def)
  from sends_replies_reply[OF assms(2) this finish(3)] finish show ?thesis
    by (simp add: sends_replies_def responses_def in_hand_def)
next
  case (push frame)
  with assms(2) responses_write[of wr False frame s] show ?thesis by (auto simp: sends_replies_def in_hand_def)
qed (use assms(2) in \<open>auto simp: sends_replies_def responses_def in_hand_def after_read_def serve_fail_def Let_def
       split: prod.splits sum.splits option.splits\<close>)

section \<open>Replies that depend on the message only\<close>

text \<open>
  Under the contexts \<open>C\<close> every request comes back, and whether and how it is answered depends on
  nothing but the request: \<open>f\<close> says how.
\<close>

definition answers_by :: "('v ctx \<Rightarrow> bool) \<Rightarrow> ('e, 'v) config \<Rightarrow> (request \<Rightarrow> response option) \<Rightarrow> bool" where
  "answers_by C cfg f \<longleftrightarrow> cf_observe cfg = None \<and>
     (\<forall>env ctx req t. C ctx \<longrightarrow> map_option hd_resp (handleRPC env ctx cfg req t) = Some (f req))"

lemma answers_byD:
  assumes "answers_by C cfg f" "C ctx"
  shows "map_option hd_resp (handleRPC env ctx cfg req t) = Some (f req)"
  using assms by (simp add: answers_by_def)

definition entry_answer :: "('e, 'v) config \<Rightarrow> (request \<Rightarrow> response option) \<Rightarrow> request list \<Rightarrow> bool list \<Rightarrow> nat \<Rightarrow> response option" where
  "entry_answer cfg f reqs failed i =
     (if failed ! i
      then Some (fst (errorResponse cfg (Some (errors_New ''batch entry is not a valid request object'')) InvalidRequestErrorCode ANil))
      else f (reqs ! i))"

lemma batch_entry_answer:
  assumes "answers_by C cfg f" "C ctx"
  shows "map_option hd_resp (batch_entry sched ctx cfg reqs (Some failed) i) = Some (entry_answer cfg f reqs failed i)"
  using answers_byD[OF assms] assms(1)
  by (simp add: batch_entry_def entry_answer_def answers_by_def observe_def case_prod_unfold Let_def)

lemma batch_answers:
  assumes "answers_by C cfg f" "C ctx"
  shows "handleBatchRPC sched ctx cfg reqs (Some failed) = Some (List.map_filter (entry_answer cfg f reqs failed) [0..<length reqs])"
proof -
  let ?e = "batch_entry sched ctx cfg reqs (Some failed)"
  have e: "\<exists>h. ?e i = Some h \<and> hd_resp h = entry_answer cfg f reqs failed i" for i
    using batch_entry_answer[OF assms, of sched reqs failed i] by auto
  have none: "None \<notin> set (map ?e xs)" for xs
  proof
    assume "None \<in> set (map ?e xs)"
    then obtain i where "?e i = None" by (metis imageE list.set_map)
    with e[of i] show False by simp
  qed
  have "List.map_filter (\<lambda>h. hd_resp (the h)) (map ?e xs) = List.map_filter (entry_answer cfg f reqs failed) xs" for xs
  proof (induction xs)
    case (Cons i xs)
    with e[of i] show ?case by (auto simp: List.map_filter_simps split: option.split)
  qed (simp add: List.map_filter_simps)
  with none[of "[0..<length reqs]"] show ?thesis by (simp only: handleBatchRPC_def Let_def if_False)
qed

text \<open>A request that comes back, for its answer alone.\<close>

lemma handle_object_answer:
  assumes "answers_by C cfg f" "C ctx"
  shows "handle_object jw lx sched ctx cfg x =
    (case Request_UnmarshalJSON lx zero_request x of
       None \<Rightarrow> None
     | Some (req, Some err) \<Rightarrow> reply (errorForMalformed x)
     | Some (req, None) \<Rightarrow>
         (case f req of None \<Rightarrow> silent | Some resp \<Rightarrow> marshal_single jw cfg (rq_ID req) resp))"
proof -
  have h: "\<exists>h. handleRPC (fst (sched 0)) ctx cfg req (snd (sched 0)) = Some h \<and> hd_resp h = f req" for req
    using answers_byD[OF assms, of "fst (sched 0)" req "snd (sched 0)"] by auto
  show ?thesis
  proof (cases "Request_UnmarshalJSON lx zero_request x")
    case (Some p)
    with h[of "fst p"] show ?thesis by (cases p) (auto simp: handle_object_def split: option.split)
  qed (simp add: handle_object_def)
qed

lemma handle_array_answer:
  assumes "answers_by C cfg f" "C ctx"
  shows "handle_array jw lx sched ctx cfg x =
    (case splitBatchElements x of
       None \<Rightarrow> reply (errorForMalformed x)
     | Some elems \<Rightarrow>
         if elems = [] then reply respInvalidRequest
         else (case decode_entries lx elems of
                 None \<Rightarrow> None
               | Some None \<Rightarrow> reply respParseError
               | Some (Some (reqs, failed)) \<Rightarrow>
                   (let rs = List.map_filter (entry_answer cfg f reqs failed) [0..<length reqs]
                    in if rs = [] then silent else marshal_batch jw cfg rs)))"
  by (auto simp: handle_array_def batch_answers[OF assms] Let_def split: option.split)

text \<open>The reply to a message is then the same in every run.\<close>

lemma dispatcher_fixed:
  assumes "answers_by C cfg f" "C ctx" "C ctx'"
  shows "dispatcher jw lx sched ctx cfg d = dispatcher jw lx sched' ctx' cfg d"
proof -
  have "handle_object jw lx sched ctx cfg = handle_object jw lx sched' ctx' cfg"
    by (rule ext) (simp add: handle_object_answer[OF assms(1,2)] handle_object_answer[OF assms(1,3)])
  moreover have "handle_array jw lx sched ctx cfg = handle_array jw lx sched' ctx' cfg"
    by (rule ext) (simp add: handle_array_answer[OF assms(1,2)] handle_array_answer[OF assms(1,3)])
  ultimately show ?thesis by (simp only: dispatcher_def HandleRPCJSONRawMessage_def)
qed

lemma marshals_return: "marshal_single jw cfg v resp \<noteq> None" "marshal_batch jw cfg rs \<noteq> None"
  "reply b \<noteq> None" "silent \<noteq> None" "logging evs r \<noteq> None \<longleftrightarrow> r \<noteq> None"
  by (auto simp: marshal_single_def marshal_batch_def silent_def reply_def logging_def split: sum.splits)

lemma decode_entries_returns:
  assumes "\<And>e. Request_UnmarshalJSON lx zero_request e \<noteq> None"
  shows "decode_entries lx es \<noteq> None"
proof (induction es)
  case (Cons e es)
  with assms[of e] show ?case by (auto split: option.splits)
qed simp

lemma dispatcher_returns:
  assumes "answers_by C cfg f" "C ctx" "\<And>e. Request_UnmarshalJSON lx zero_request e \<noteq> None"
  shows "dispatcher jw lx sched ctx cfg d \<noteq> None"
proof -
  have "handle_object jw lx sched ctx cfg x \<noteq> None" for x
    using assms(3)[of x] marshals_return
    by (auto simp: handle_object_answer[OF assms(1,2)] split: option.splits)
  moreover have "handle_array jw lx sched ctx cfg x \<noteq> None" for x
    using decode_entries_returns[OF assms(3), of "the (splitBatchElements x)"] marshals_return
    by (auto simp: handle_array_answer[OF assms(1,2)] Let_def split: option.splits)
  ultimately show ?thesis using marshals_return
    by (simp add: dispatcher_def HandleRPCJSONRawMessage_def Let_def)
qed

text \<open>Fewer replies, fewer runs.\<close>

lemma serve_step_replies:
  assumes "serve_step wr n replies s s'" "\<And>d r. replies d r \<Longrightarrow> replies' d r"
  shows "serve_step wr n replies' s s'"
  using assms(1) by cases (auto intro: serve_step.intros assms(2))

lemma serve_run_replies:
  assumes "(serve_step wr n replies)\<^sup>*\<^sup>* s s'" "\<And>d r. replies d r \<Longrightarrow> replies' d r"
  shows "(serve_step wr n replies')\<^sup>*\<^sup>* s s'"
  using assms(1) by (rule rtranclp_mono[THEN predicate2D, rotated]) (auto intro: serve_step_replies assms(2))

lemma replies_fixed:
  assumes "answers_by C cfg f" "C ctx" "dispatcher_replies jw lx ctx cfg d r"
  shows "reply_to (\<lambda>d. the (dispatcher jw lx sched ctx cfg d)) d r"
proof -
  obtain s where "dispatcher jw lx s ctx cfg d = Some r" using assms(3) by (auto simp: dispatcher_replies_def)
  with dispatcher_fixed[OF assms(1,2,2), of jw lx s d sched] show ?thesis by (simp add: reply_to_def eq_commute[of "Some r"])
qed

end
