(* ===== verification/ProgramsProps.thy ===== *)
theory ProgramsProps
  imports Programs Sessions
begin

text \<open>
  What the MCP server of \<open>example/mcp-stdio\<close> answers: all its registrations succeed, and
  \<open>mcp_answer\<close> says what becomes of every request, with the texts of the results. The answer
  depends on nothing but the request.
\<close>

section \<open>The answers of the MCP server\<close>

text \<open>The server that \<open>main\<close> sets up; none of its registrations fails.\<close>

definition mcp_server :: "'m mcp_codecs \<Rightarrow> int \<Rightarrow> ('e, 'v) config" where
  "mcp_server mc gomaxprocs = (case mcp_main mc gomaxprocs of Inr cfg \<Rightarrow> cfg | Inl _ \<Rightarrow> New gomaxprocs)"

lemmas program_defs = mcp_main_def must_def and_then_def RegisterTyped_def registerMethod_def
  updateRegistry_def update_def compose_def New_def has_prefix.simps Let_def

lemma mcp_main_succeeds: "mcp_main mc p = Inr (mcp_server mc p)"
  by (simp add: mcp_server_def program_defs)

lemma mcp_server_simps:
  "cf_globalInterceptors (mcp_server mc p) = []" "cf_defaultTimeOut (mcp_server mc p) = 30 * second"
  "cf_enforcedTimeout (mcp_server mc p) = False" "cf_observe (mcp_server mc p) = None"
  "cf_errors (mcp_server mc p) = default_errors" "cf_maxMessageSize (mcp_server mc p) = 0"
  by (simp_all add: mcp_server_def program_defs)

lemma mcp_timeout: "method_timeout (mcp_server mc p) name = 30 * second"
  by (auto simp: method_timeout_def mcp_server_def program_defs zero_methodinfo_def)

lemma mcp_methods:
  "cf_composed (mcp_server mc p) name =
     (if name = ''initialize'' then Some (Typed (handler_codec (mc_nil mc) (mc_map mc) (mc_type mc ''map[string]interface {}'')
         initializeResult_value (mc_type mc ''main.initializeResult'') mcp_initialize))
      else if name = ''tools/list'' then Some (Typed (handler_codec () (mc_unit mc) (mc_type mc ''struct {}'')
         toolsListResult_value (mc_type mc ''main.toolsListResult'') mcp_tools_list))
      else if name = ''tools/call'' then Some (Typed (handler_codec zero_toolsCallParams (mc_call mc)
         (mc_type mc ''main.toolsCallParams'') toolsCallResult_value (mc_type mc ''main.toolsCallResult'') mcp_tools_call))
      else if name = ''notifications/initialized'' then Some (Typed (handler_codec (mc_nil mc) (mc_map mc)
         (mc_type mc ''map[string]interface {}'') (\<lambda>_. GoStruct []) (mc_type mc ''struct {}'') mcp_initialized))
      else None)"
  by (simp add: mcp_server_def program_defs)

text \<open>The parameters a typed handler is called with; none if they do not decode.\<close>

definition accepted :: "'p \<Rightarrow> (bytes \<Rightarrow> bytes + 'p) \<Rightarrow> slice \<Rightarrow> 'p option" where
  "accepted zero um params =
     (if slice_len params = 0 then Some zero
      else case um (slice_bytes params) of
          Inr p \<Rightarrow> Some p
        | Inl _ \<Rightarrow> if isEmptyJSONArray (slice_bytes params) then Some zero else None)"

definition initialize_text :: bytes where
  "initialize_text = ''{\"protocolVersion\":\"2025-06-18\",\"capabilities\":{\"tools\":{}},\"serverInfo\":{\"name\":\"mcp-stdio-example\",\"version\":\"0.1.0\"}}''"

definition tools_text :: bytes where
  "tools_text = ''{\"tools\":[{\"name\":\"add\",\"description\":\"Add two integers.\",\"inputSchema\":{\"properties\":{\"a\":{\"type\":\"integer\"},\"b\":{\"type\":\"integer\"}},\"required\":[\"a\",\"b\"],\"type\":\"object\"}}]}''"

definition sum_text :: "64 word \<Rightarrow> bytes" where
  "sum_text x = ''{\"content\":[{\"type\":\"text\",\"text\":\"'' @ itoa (sint x) @ ''\"}]}''"

text \<open>The result of a method, or the code of its error.\<close>

definition mcp_result :: "'m mcp_codecs \<Rightarrow> bytes \<Rightarrow> slice \<Rightarrow> int + bytes" where
  "mcp_result mc name params =
     (let decoded = (\<lambda>a f. case a of None \<Rightarrow> Inl InvalidParamsErrorCode | Some p \<Rightarrow> f p) in
      if name = ''initialize'' then decoded (accepted (mc_nil mc) (mc_map mc) params) (\<lambda>_. Inr initialize_text)
      else if name = ''tools/list'' then (case accepted () (mc_unit mc) params of
          None \<Rightarrow> Inl InvalidParamsErrorCode | Some _ \<Rightarrow> Inr tools_text)
      else if name = ''tools/call'' then (case accepted zero_toolsCallParams (mc_call mc) params of
          None \<Rightarrow> Inl InvalidParamsErrorCode
        | Some p \<Rightarrow> if tc_Name p = ''add'' then Inr (sum_text (ad_A (tc_Arguments p) + ad_B (tc_Arguments p)))
                    else Inl InvalidParamsErrorCode)
      else if name = ''notifications/initialized'' then decoded (accepted (mc_nil mc) (mc_map mc) params) (\<lambda>_. Inr ''{}'')
      else Inl MethodNotFoundErrorCode)"

definition mcp_error :: "int \<Rightarrow> slice \<Rightarrow> response" where
  "mcp_error code v = newError (the (default_errors code)) code ANil (AID v)"

definition mcp_answer :: "'m mcp_codecs \<Rightarrow> request \<Rightarrow> response option" where
  "mcp_answer mc req =
     (if validateRequest req \<noteq> None
      then Some (mcp_error InvalidRequestErrorCode
             (if slice_len (rq_ID req) > 0 \<and> \<not> Valid (slice_bytes (rq_ID req)) then None else rq_ID req))
      else if slice_len (rq_ID req) = 0 then None
      else Some (case mcp_result mc (rq_Method req) (rq_Params req) of
          Inl code \<Rightarrow> mcp_error code (rq_ID req)
        | Inr raw \<Rightarrow> NewResponse (AID (rq_ID req)) (Some (Some raw)) None))"

text \<open>Decimal numbers need no escapes.\<close>

lemma string_body_plain: "list_all (\<lambda>c. byte_val c < 0x80 \<and> escape_ascii c = [c]) t \<Longrightarrow> string_body t = t"
  by (induction t) simp_all

lemma digit_unescaped: "d < 10 \<Longrightarrow> byte_val (digit d) < 0x80 \<and> escape_ascii (digit d) = [digit d]"
proof -
  assume "d < 10"
  then have "digit d \<in> set ''0123456789''" unfolding digit_def by (intro nth_mem) simp
  moreover have "\<forall>c \<in> set ''0123456789''. byte_val c < 0x80 \<and> escape_ascii c = [c]" by code_simp
  ultimately show ?thesis by blast
qed

lemma string_body_itoa: "string_body (itoa i) = itoa i"
proof (rule string_body_plain)
  note d = nat_digits_all[of "\<lambda>c. byte_val c < 0x80 \<and> escape_ascii c = [c]", OF digit_unescaped]
  have "byte_val (CHR ''-'') < 0x80 \<and> escape_ascii (CHR ''-'') = ''-''" by code_simp
  then show "list_all (\<lambda>c. byte_val c < 0x80 \<and> escape_ascii c = [c]) (itoa i)" using d by (simp add: itoa_def)
qed

lemma plain_bodies: "string_body ''content'' = ''content''" "string_body ''type'' = ''type''" "string_body ''text'' = ''text''"
  "string_body ''sum'' = ''sum''"
  by code_simp+

lemma sum_text_marshal:
  "json_Marshal (toolsCallResult_value \<lparr>tr_Content = [\<lparr>co_Type = ''text'', co_Text = itoa (sint x)\<rparr>]\<rparr>) = sum_text x"
  by (simp add: toolsCallResult_value_def content_value_def json_object_def plain_bodies array_text_def member_def
      json_string_def string_body_itoa sum_text_def del: string_body.simps)

lemma initialize_marshal: "json_Marshal (initializeResult_value (fst (mcp_initialize m))) = initialize_text"
  unfolding mcp_initialize_def fst_conv initialize_text_def by code_simp

lemma tools_list_marshal: "json_Marshal (toolsListResult_value (fst (mcp_tools_list u))) = tools_text"
  unfolding mcp_tools_list_def fst_conv tools_text_def by code_simp

lemma no_errors: "snd (mcp_initialize m) = None" "snd (mcp_tools_list u) = None" "snd (mcp_initialized n) = None"
  by (simp_all add: mcp_initialize_def mcp_tools_list_def mcp_initialized_def)

lemma mcp_error_plain:
  assumes "default_errors code \<noteq> None" "rpc_error_of err = None"
  shows "fst (errorResponse (mcp_server mc p) err code (AID v)) = mcp_error code v"
  using assms by (auto simp: errorResponse_public public_error_def mcp_server_simps mcp_error_def newError_def)

lemma handler_codec_simps:
  "tc_zero (handler_codec zero um pt val rt fn) = zero"
  "tc_unmarshal (handler_codec zero um pt val rt fn) b = map_sum errors_New id (um b)"
  "tc_marshal (handler_codec zero um pt val rt fn) r = Inr (json_Marshal (val r))"
  "tc_fn (handler_codec zero um pt val rt fn) e now ctx q = (Returns (fn q), 0)"
  by (simp_all add: handler_codec_def)

lemma decoded_params:
  "typed_params (handler_codec zero um pt val rt fn) data =
     (case accepted zero um data of
        Some p \<Rightarrow> Inr p
      | None \<Rightarrow> (case um (slice_bytes data) of Inl t \<Rightarrow> Inl (Errorf_w (''unmarshal params: '' @ t) (errors_New t))
               | Inr p \<Rightarrow> Inr p))"
  by (auto simp: typed_params_def accepted_def handler_codec_simps errors_New_def split: sum.split)

lemma refused_params: "accepted zero um data = None \<Longrightarrow> \<exists>t. um (slice_bytes data) = Inl t"
  by (auto simp: accepted_def split: if_splits sum.splits)

text \<open>A handler of this kind, by what its function returns.\<close>

lemma handler_run:
  assumes "accepted zero um data = Some p" "fn p = (r, err)"
  shows "Typed (handler_codec zero um pt val rt fn) e now ctx data =
    (Returns (case err of Some x \<Rightarrow> (None, InternalErrorCode, Some x)
              | None \<Rightarrow> (Some (json_Marshal (val r)), OK, None)), 0)"
  using assms by (auto simp: Typed_def decoded_params handler_codec_simps split: option.split)

lemma handler_refuses:
  assumes "accepted zero um data = None"
  obtains err where "Typed (handler_codec zero um pt val rt fn) e now ctx data = (Returns (None, InvalidParamsErrorCode, Some err), 0)"
    "rpc_error_of (Some err) = None"
proof -
  obtain t where t: "um (slice_bytes data) = Inl t" using refused_params[OF assms] by blast
  show ?thesis
    by (rule that[of "Errorf_w (''unmarshal params: '' @ t) (errors_New t)"])
      (simp_all add: Typed_def decoded_params assms t rpc_error_of_def Errorf_w_def errors_New_def)
qed

text \<open>The call of a method, for its response and its time.\<close>

definition mcp_called :: "slice \<Rightarrow> int + bytes \<Rightarrow> response" where
  "mcp_called v r = (case r of Inl code \<Rightarrow> mcp_error code v | Inr raw \<Rightarrow> NewResponse (AID v) (Some (Some raw)) None)"

lemmas call_simps = rpc_call_def callGlobalInterceptors_def Let_def

lemma call_returns:
  assumes "cf_globalInterceptors cfg = []" "cf_composed cfg name = Some m" "m e t ctx data = (Returns (Some raw, OK, None), 0)"
  shows "\<exists>evs. rpc_call cfg e t ctx name data (AID v) = Some (NewResponse (AID v) (Some (Some raw)) None, evs, t)"
  using assms by (simp add: call_simps)

lemma call_fails:
  assumes "cf_globalInterceptors cfg = []" "cf_composed cfg name = Some m" "m e t ctx data = (Returns (None, code, Some err), 0)"
    "fst (errorResponse cfg (Some err) code (AID v)) = r"
  shows "\<exists>evs. rpc_call cfg e t ctx name data (AID v) = Some (r, evs, t)"
  using assms by (cases "errorResponse cfg (Some err) code (AID v)") (simp add: call_simps)

lemma call_unknown:
  assumes "cf_globalInterceptors cfg = []" "cf_composed cfg name = None"
    "fst (errorResponse cfg None MethodNotFoundErrorCode (AID v)) = r"
  shows "\<exists>evs. rpc_call cfg e t ctx name data (AID v) = Some (r, evs, t)"
  using assms by (cases "errorResponse cfg None MethodNotFoundErrorCode (AID v)") (simp add: call_simps)

lemma tools_call_error:
  "fst (errorResponse (mcp_server mc p) (Some (RPCErr (Some (NewRPCError InvalidParamsErrorCode x)))) code (AID v)) =
     mcp_error InvalidParamsErrorCode v"
  by (simp add: errorResponse_public public_error_def rpc_error_of_def NewRPCError_def mcp_server_simps mcp_error_def
      newError_def default_errors_def code_defs)

lemma known_codes: "default_errors InvalidParamsErrorCode \<noteq> None" "default_errors MethodNotFoundErrorCode \<noteq> None"
  "default_errors InvalidRequestErrorCode \<noteq> None" "default_errors InternalErrorCode \<noteq> None"
  by (simp_all add: default_errors_def code_defs)

lemma mcp_call:
  "\<exists>evs. rpc_call (mcp_server mc p :: ('e, 'v) config) e t ctx name data (AID v) = Some (mcp_called v (mcp_result mc name data), evs, t)"
proof -
  let ?cfg = "mcp_server mc p :: ('e, 'v) config"
  have handler: "\<exists>evs. rpc_call ?cfg e t ctx name data (AID v) = Some (mcp_called v r, evs, t)"
    if m: "cf_composed ?cfg name = Some (Typed (handler_codec zero um pt val rt fn))"
      and none: "accepted zero um data = None \<Longrightarrow> r = Inl InvalidParamsErrorCode"
      and some: "\<And>x. accepted zero um data = Some x \<Longrightarrow>
        (snd (fn x) = None \<and> r = Inr (json_Marshal (val (fst (fn x))))) \<or>
        (\<exists>y. snd (fn x) = Some (RPCErr (Some (NewRPCError InvalidParamsErrorCode y))) \<and> r = Inl InvalidParamsErrorCode)"
    for zero :: 'p and um pt and val :: "'r \<Rightarrow> govalue" and rt fn r
  proof (cases "accepted zero um data")
    case None
    obtain err where err: "Typed (handler_codec zero um pt val rt fn) e t ctx data = (Returns (None, InvalidParamsErrorCode, Some err), 0)"
      "rpc_error_of (Some err) = None" by (rule handler_refuses[OF None])
    with call_fails[OF mcp_server_simps(1) m err(1) mcp_error_plain[OF known_codes(1) err(2)]] none[OF None] show ?thesis
      by (simp add: mcp_called_def)
  next
    case (Some x)
    obtain y z where f: "fn x = (y, z)" by (cases "fn x")
    note run = handler_run[where fn = fn, OF Some f, of pt val rt e t ctx]
    from some[OF Some] f consider "z = None" "r = Inr (json_Marshal (val y))"
      | w where "z = Some (RPCErr (Some (NewRPCError InvalidParamsErrorCode w)))" "r = Inl InvalidParamsErrorCode" by auto
    then show ?thesis
    proof cases
      case 1
      with run have "Typed (handler_codec zero um pt val rt fn) e t ctx data = (Returns (Some (json_Marshal (val y)), OK, None), 0)" by simp
      from call_returns[OF mcp_server_simps(1) m this] 1 show ?thesis by (simp add: mcp_called_def)
    next
      case (2 w)
      with run have "Typed (handler_codec zero um pt val rt fn) e t ctx data =
        (Returns (None, InternalErrorCode, Some (RPCErr (Some (NewRPCError InvalidParamsErrorCode w)))), 0)" by simp
      from call_fails[OF mcp_server_simps(1) m this tools_call_error] 2 show ?thesis by (simp add: mcp_called_def)
    qed
  qed
  have empty: "json_object [] = ''{}''" by (simp add: json_object_def)
  consider "name = ''initialize''" | "name = ''tools/list''" | "name = ''tools/call''" | "name = ''notifications/initialized''"
    | (unknown) "name \<noteq> ''initialize''" "name \<noteq> ''tools/list''" "name \<noteq> ''tools/call''" "name \<noteq> ''notifications/initialized''"
    by blast
  then show ?thesis
  proof cases
    case unknown
    have "rpc_error_of None = None" by (simp add: rpc_error_of_def)
    moreover have "cf_composed ?cfg name = None" "mcp_result mc name data = Inl MethodNotFoundErrorCode"
      using unknown by (simp_all add: mcp_methods mcp_result_def Let_def)
    ultimately show ?thesis
      using call_unknown[OF mcp_server_simps(1) _ mcp_error_plain[OF known_codes(2)]] by (simp add: mcp_called_def)
  next
    case 1
    show ?thesis
      by (rule handler[where zero = "mc_nil mc" and um = "mc_map mc" and fn = mcp_initialize and val = "initializeResult_value"]) (use 1 in \<open>simp_all add: mcp_methods mcp_result_def initialize_marshal no_errors\<close>)
  next
    case 2
    show ?thesis
      by (rule handler[where zero = "()" and um = "mc_unit mc" and fn = mcp_tools_list and val = "toolsListResult_value"]) (use 2 in \<open>simp_all add: mcp_methods mcp_result_def tools_list_marshal no_errors\<close>)
  next
    case 3
    show ?thesis
      by (rule handler[where zero = "zero_toolsCallParams" and um = "mc_call mc" and fn = mcp_tools_call and val = "toolsCallResult_value"]) (use 3 in \<open>auto simp: mcp_methods mcp_result_def mcp_tools_call_def sum_text_marshal\<close>)
  next
    case 4
    show ?thesis
      by (rule handler[where zero = "mc_nil mc" and um = "mc_map mc" and fn = mcp_initialized and val = "\<lambda>_. GoStruct []"]) (use 4 in \<open>simp_all add: mcp_methods mcp_result_def no_errors empty\<close>)
  qed
qed

text \<open>\<open>context.Background\<close> and what the transport derives from it: canceled perhaps, but with no deadline.\<close>

definition no_deadline :: "'v ctx \<Rightarrow> bool" where
  "no_deadline ctx \<longleftrightarrow> (\<forall>td cause. cx_done ctx \<noteq> Some (td, DeadlineExceeded, cause))"

lemma not_timed_out:
  assumes "no_deadline ctx"
  shows "ctx_Err (WithTimeoutCtx ctx t (30 * second)) t \<noteq> Some DeadlineExceeded"
  using assms by (auto simp: no_deadline_def ctx_Err_def WithTimeoutCtx_def second_def Let_def split: option.splits)

lemma mcp_dispatch:
  assumes "no_deadline ctx"
  obtains d where "dispatch env ctx (mcp_server mc p) req t = Some d"
    "dp_resp d = mcp_called (rq_ID req) (mcp_result mc (rq_Method req) (rq_Params req))"
proof -
  let ?c = "WithTimeoutCtx ctx t (30 * second)"
  obtain evs where "rpc_call (mcp_server mc p) (ev_user env) t ?c (rq_Method req) (rq_Params req) (AID (rq_ID req)) =
      Some (mcp_called (rq_ID req) (mcp_result mc (rq_Method req) (rq_Params req)), evs, t)"
    using mcp_call[where mc = mc and p = p and e = "ev_user env" and t = t and ctx = ?c and name = "rq_Method req" and
        data = "rq_Params req" and v = "rq_ID req"] by blast
  with not_timed_out[OF assms, of t] that show ?thesis
    by (simp add: dispatch_def mcp_server_simps mcp_timeout Let_def)
qed

lemma mcp_handleRPC:
  assumes "no_deadline ctx"
  shows "map_option hd_resp (handleRPC env ctx (mcp_server mc p) req t) = Some (mcp_answer mc req)"
proof (cases "validateRequest req")
  case (Some err)
  let ?v = "if slice_len (rq_ID req) > 0 \<and> \<not> Valid (slice_bytes (rq_ID req)) then None else rq_ID req"
  have "rpc_error_of (Some err) = None"
    using Some by (auto simp: validateRequest_def rpc_error_of_def errors_New_def split: if_splits)
  from mcp_error_plain[OF known_codes(3) this]
  have "fst (errorResponse (mcp_server mc p) (Some err) InvalidRequestErrorCode (AID ?v)) = mcp_error InvalidRequestErrorCode ?v" .
  with Some show ?thesis
    by (simp add: handleRPC_def observe_def mcp_server_simps mcp_answer_def case_prod_unfold Let_def)
next
  case None
  obtain d where "dispatch env ctx (mcp_server mc p) req t = Some d"
    "dp_resp d = mcp_called (rq_ID req) (mcp_result mc (rq_Method req) (rq_Params req))"
    by (rule mcp_dispatch[OF assms])
  with None show ?thesis
    by (simp add: handleRPC_def observe_def mcp_server_simps mcp_answer_def mcp_called_def)
qed

lemma mcp_answers: "answers_by no_deadline (mcp_server mc p) (mcp_answer mc)"
  by (simp add: answers_by_def mcp_server_simps mcp_handleRPC)

end
