(* ===== verification/HttpProps.thy ===== *)
theory HttpProps
  imports Http HandleProps WsClientProps
begin

text \<open>
  JSON-RPC over HTTP: what the handler answers, that the Fiber handlers answer the same, and
  what the client makes of the reply to a call and to a batch.
\<close>

section \<open>The handlers\<close>

text \<open>The requests the handler hands to the dispatcher.\<close>

definition acceptable :: "http_handler \<Rightarrow> http_request \<Rightarrow> bool" where
  "acceptable h q \<longleftrightarrow> hq_method q = ''POST'' \<and>
     (hq_contentType q = [] \<or> ParseMediaType (hq_contentType q) = Some ''application/json'') \<and>
     hq_end q = BodyEOF \<and> (hh_maxBodySize h \<le> 0 \<or> int (length (hq_body q)) \<le> hh_maxBodySize h)"

lemma read_body_ok: "read_body n q = Inr d \<longleftrightarrow> hq_end q = BodyEOF \<and> (n \<le> 0 \<or> int (length (hq_body q)) \<le> n) \<and> d = hq_body q"
  by (cases "hq_end q") (auto simp: read_body_def)

lemma ServeHTTP_acceptable:
  assumes "acceptable h q"
  shows "ServeHTTP rpc h q = map_option (\<lambda>resp.
     if slice_len resp = 0 then \<lparr>hp_status = 204, hp_headers = [], hp_body = []\<rparr>
     else \<lparr>hp_status = 200, hp_headers = [(''Content-Type'', ''application/json''),
            (''Cache-Control'', ''no-store''), (''X-Content-Type-Options'', ''nosniff'')],
          hp_body = slice_bytes resp\<rparr>) (rpc (hq_body q))"
proof -
  have "read_body (hh_maxBodySize h) q = Inr (hq_body q)" using assms by (simp add: acceptable_def read_body_ok)
  with assms show ?thesis by (auto simp: ServeHTTP_def acceptable_def)
qed

text \<open>The content type is absent or, parameters aside, that of JSON; the body exceeds the cap.\<close>

definition json_or_absent :: "http_request \<Rightarrow> bool" where
  "json_or_absent q \<longleftrightarrow> hq_contentType q = [] \<or> ParseMediaType (hq_contentType q) = Some ''application/json''"

definition oversized :: "http_handler \<Rightarrow> http_request \<Rightarrow> bool" where
  "oversized h q \<longleftrightarrow> hq_end q = BodyTooLarge \<or> 0 < hh_maxBodySize h \<and> hh_maxBodySize h < int (length (hq_body q))"

lemma read_body_cases:
  "read_body (hh_maxBodySize h) q =
    (if oversized h q then Inl BodyTooLarge else if hq_end q \<noteq> BodyEOF then Inl BodyErr else Inr (hq_body q))"
  by (cases "hq_end q") (simp_all add: read_body_def oversized_def)

lemma acceptable_cases:
  "acceptable h q \<longleftrightarrow> hq_method q = ''POST'' \<and> json_or_absent q \<and> \<not> oversized h q \<and> hq_end q = BodyEOF"
  by (cases "hq_end q") (auto simp: acceptable_def json_or_absent_def oversized_def)

lemma ServeHTTP_rejection:
  assumes "\<not> acceptable h q"
  shows "ServeHTTP rpc h q = Some
    (if hq_method q \<noteq> ''POST'' then http_Error [(''Allow'', ''POST'')] ''JSON-RPC requests must be POSTed'' 405
     else if \<not> json_or_absent q then http_Error [] ''Content-Type must be application/json'' 415
     else if oversized h q then http_Error [] ''request body too large'' 413
     else http_Error [] ''cannot read request body'' 400)"
proof -
  have j: "(hq_contentType q \<noteq> [] \<and> ParseMediaType (hq_contentType q) \<noteq> Some ''application/json'') = (\<not> json_or_absent q)"
    by (simp add: json_or_absent_def)
  from assms show ?thesis
    unfolding ServeHTTP_def j read_body_cases acceptable_cases by (auto simp del: not_None_eq)
qed

lemma ServeHTTP_status:
  assumes "ServeHTTP rpc h q = Some p"
  shows "acceptable h q \<Longrightarrow> hp_status p \<in> {200, 204}"
    and "\<not> acceptable h q \<Longrightarrow> hp_status p =
      (if hq_method q \<noteq> ''POST'' then 405 else if \<not> json_or_absent q then 415 else if oversized h q then 413 else 400)"
    and "\<not> acceptable h q \<Longrightarrow> hq_method q \<noteq> ''POST'' \<Longrightarrow> map_of (hp_headers p) ''Allow'' = Some ''POST''"
    and "\<not> acceptable h q \<Longrightarrow> ServeHTTP rpc' h q = Some p"
proof -
  show "hp_status p \<in> {200, 204}" if "acceptable h q"
    using assms unfolding ServeHTTP_acceptable[OF that] by (cases "rpc (hq_body q)") (simp_all split: if_splits, auto)
  note r = ServeHTTP_rejection[of h q]
  show "hp_status p = (if hq_method q \<noteq> ''POST'' then 405 else if \<not> json_or_absent q then 415 else if oversized h q then 413 else 400)"
    if "\<not> acceptable h q"
    using assms unfolding r[OF that] option.inject by (rule subst) (simp add: http_Error_def)
  show "map_of (hp_headers p) ''Allow'' = Some ''POST''" if "\<not> acceptable h q" "hq_method q \<noteq> ''POST''"
    using assms unfolding r[OF that(1)] option.inject by (rule subst) (simp add: that(2) http_Error_def)
  show "ServeHTTP rpc' h q = Some p" if "\<not> acceptable h q" using assms unfolding r[OF that] .
qed

lemma ServeHTTP_rejected:
  assumes "ServeHTTP rpc h q = Some p"
  shows "hp_status p = 405 \<longleftrightarrow> hq_method q \<noteq> ''POST''"
    and "hp_status p = 415 \<longleftrightarrow> hq_method q = ''POST'' \<and> \<not> json_or_absent q"
    and "hp_status p = 413 \<longleftrightarrow> hq_method q = ''POST'' \<and> json_or_absent q \<and> oversized h q"
    and "hp_status p = 400 \<longleftrightarrow> hq_method q = ''POST'' \<and> json_or_absent q \<and> \<not> oversized h q \<and> hq_end q \<noteq> BodyEOF"
    and "hp_status p = 405 \<Longrightarrow> map_of (hp_headers p) ''Allow'' = Some ''POST''"
    and "\<not> acceptable h q \<Longrightarrow> ServeHTTP rpc' h q = Some p"
  using ServeHTTP_status[OF assms] by (cases "acceptable h q"; auto simp: acceptable_cases split: if_splits)+

text \<open>
  C14: what a request over HTTP is answered with, exactly. Status 405, with the header \<open>Allow\<close>, is for
  what is not a POST; 415 for a POST whose content type is given and not JSON; 413 for one whose
  body exceeds the cap, 400 for one whose body cannot be read; each of them only for that, in this
  order, without the dispatcher having a say. In all other cases the dispatcher has the
  body: 204 and no body if and only if it stays silent, 200 with the reply for a body and the
  content type of JSON if and only if it answers; a reply is never taken for silence.
\<close>

theorem http_exchange:
  assumes "jwriter_ok jw quote view" "ServeHTTP (dispatcher jw lx sched ctx cfg) h q = Some p"
  shows "(hp_status p = 405 \<longleftrightarrow> hq_method q \<noteq> ''POST'') \<and>
    (hp_status p = 405 \<longrightarrow> map_of (hp_headers p) ''Allow'' = Some ''POST'') \<and>
    (hp_status p = 415 \<longleftrightarrow> hq_method q = ''POST'' \<and> \<not> json_or_absent q) \<and>
    (hp_status p = 413 \<longleftrightarrow> hq_method q = ''POST'' \<and> json_or_absent q \<and> oversized h q) \<and>
    (hp_status p = 400 \<longleftrightarrow> hq_method q = ''POST'' \<and> json_or_absent q \<and> \<not> oversized h q \<and> hq_end q \<noteq> BodyEOF) \<and>
    (hp_status p \<in> {400, 405, 413, 415} \<longrightarrow> (\<forall>rpc. ServeHTTP rpc h q = Some p)) \<and>
    (hp_status p \<notin> {400, 405, 413, 415} \<longrightarrow>
       (\<exists>m. HandleRPCJSONRawMessage jw lx sched ctx cfg (hq_body q) = Some m \<and>
          (hp_status p = 204 \<longleftrightarrow> mr_reply m = None) \<and> (hp_status p = 200 \<longleftrightarrow> mr_reply m \<noteq> None) \<and>
          hp_body p = (case mr_reply m of None \<Rightarrow> [] | Some b \<Rightarrow> b) \<and>
          (hp_status p = 200 \<longrightarrow> map_of (hp_headers p) ''Content-Type'' = Some ''application/json'')))"
proof -
  note r = ServeHTTP_rejected[OF assms(2)]
  have rej: "hp_status p \<in> {400, 405, 413, 415} \<longleftrightarrow> \<not> acceptable h q"
    using r(1-4) unfolding acceptable_def json_or_absent_def oversized_def by (cases "hq_end q") auto
  have "\<exists>m. HandleRPCJSONRawMessage jw lx sched ctx cfg (hq_body q) = Some m \<and>
          (hp_status p = 204 \<longleftrightarrow> mr_reply m = None) \<and> (hp_status p = 200 \<longleftrightarrow> mr_reply m \<noteq> None) \<and>
          hp_body p = (case mr_reply m of None \<Rightarrow> [] | Some b \<Rightarrow> b) \<and>
          (hp_status p = 200 \<longrightarrow> map_of (hp_headers p) ''Content-Type'' = Some ''application/json'')"
    if a: "acceptable h q"
  proof -
    note s = assms(2)[unfolded ServeHTTP_acceptable[OF a]]
    then obtain m where m: "HandleRPCJSONRawMessage jw lx sched ctx cfg (hq_body q) = Some m"
      by (auto simp: dispatcher_def)
    show ?thesis
    proof (cases "mr_reply m")
      case None
      with s m show ?thesis by (auto simp: dispatcher_def)
    next
      case (Some b)
      with reply_nonempty[OF assms(1) m] s m show ?thesis by (auto simp: dispatcher_def)
    qed
  qed
  with r rej show ?thesis by blast
qed

text \<open>
  The Fiber handlers are the HTTP handler. Both answer alike, and for an acceptable request
  whose body is not compressed they send the status, the headers and the body that the handler
  for \<open>net/http\<close> sends; a compressed body is refused with 415 before the dispatcher sees it.
\<close>

theorem fiber_matches_http:
  assumes "acceptable h q"
  shows "fiberv3_Handler rpc q = fiber_Handler rpc q \<and>
     fiber_Handler rpc q =
       (if hq_contentEncoding q \<noteq> [] \<and> \<not> EqualFold (hq_contentEncoding q) ''identity'' then Some (SendStatus 415)
        else map_option (\<lambda>p. if hp_status p = 200 then SendBody 200 (hp_headers p) (hp_body p) else SendStatus (hp_status p))
          (ServeHTTP rpc h q))"
proof -
  have ct: "\<not> (hq_contentType q \<noteq> [] \<and> ParseMediaType (hq_contentType q) \<noteq> Some ''application/json'')"
    using assms by (auto simp: acceptable_def)
  show ?thesis
    unfolding ServeHTTP_acceptable[OF assms] fiberv3_Handler_def fiber_Handler_def
    using ct by (cases "rpc (hq_body q)") auto
qed

section \<open>Calls of the client\<close>

text \<open>
  A call over HTTP succeeds only on an answer to it: the server replied with a 2xx status,
  the body decodes as a response without an error, the id of the response is the one the call
  sent or absent, and the result of the call is that of the response.
\<close>

theorem http_call_answered:
  assumes "http_Call jw lx net c meth params s = Some (Inr v, s')"
  shows "\<exists>reqBody y n' q. MarshalParams params = (Inr (rq_Params reqBody) :: http_err call_err + slice) \<and>
     rq_ID reqBody = Some (itoa (fst s + 1)) \<and> rq_Method reqBody = meth \<and>
     (\<exists>b. Request_MarshalJSON jw reqBody = Inr b \<and> ne_do net (ht_hc c) (ht_url c) b (snd s) = (Inr y, n')) \<and>
     200 \<le> hy_status y \<and> hy_status y \<le> 299 \<and>
     Response_UnmarshalJSON lx zero_response (take (nat (ht_maxResponseSize c)) (hy_body y)) = Some (q, None) \<and>
     rs_Error q = None \<and> (slice_len (rs_ID q) = 0 \<or> rs_ID q = Some (itoa (fst s + 1))) \<and>
     v = (case rs_Result q of None \<Rightarrow> None | Some m \<Rightarrow> m) \<and> s' = (fst s + 1, n')"
proof -
  let ?key = "itoa (fst s + 1)"
  obtain body n' where p: "post jw net c meth params (Some ?key) (snd s) = (Inr body, n')"
    and a: "http_answer lx ?key body = Some (Inr v)" and s': "s' = (fst s + 1, n')"
    using assms by (auto simp: http_Call_def http_nextID_def split: prod.splits sum.splits)
  obtain raw where raw: "MarshalParams params = (Inr raw :: http_err call_err + slice)"
    using p by (auto simp: post_def split: sum.splits)
  let ?req = "\<lparr>rq_Version = Version, rq_Method = meth, rq_Params = raw, rq_ID = Some ?key\<rparr>"
  obtain b where b: "Request_MarshalJSON jw ?req = Inr b" and pr: "postRaw net c b (snd s) = (Inr body, n')"
    using p raw by (auto simp: post_def split: sum.splits)
  obtain y where y: "ne_do net (ht_hc c) (ht_url c) b (snd s) = (Inr y, n')"
    and l: "read_limited (ht_maxResponseSize c) y = Inr body" and st: "200 \<le> hy_status y" "hy_status y \<le> 299"
    using pr by (auto simp: postRaw_def split: option.splits prod.splits sum.splits if_splits)
  have body: "body = take (nat (ht_maxResponseSize c)) (hy_body y)"
    using l by (auto simp: read_limited_def split: if_splits option.splits)
  obtain q where q: "Response_UnmarshalJSON lx zero_response body = Some (q, None)" "rs_Error q = None"
    "slice_len (rs_ID q) = 0 \<or> slice_bytes (rs_ID q) = ?key" "v = (case rs_Result q of None \<Rightarrow> None | Some m \<Rightarrow> m)"
    using a by (auto simp: http_answer_def split: if_splits option.splits)
  have "slice_len (rs_ID q) = 0 \<or> rs_ID q = Some ?key" using q(3) by (cases "rs_ID q") simp_all
  with raw b y st q(1,2,4) s' show ?thesis unfolding body
    by (intro exI[of _ ?req] exI[of _ y] exI[of _ n'] exI[of _ q]) simp
qed

section \<open>Batches of the client\<close>

text \<open>The awaited ids with their indices.\<close>

fun awaited :: "slice list \<Rightarrow> nat \<Rightarrow> (bytes \<times> nat) list" where
  "awaited [] i = []"
| "awaited (None # ids) i = awaited ids (Suc i)"
| "awaited (Some k # ids) i = (k, i) # awaited ids (Suc i)"

lemma awaited_keys: "map fst (awaited ids i) = List.map_filter (\<lambda>v. v) ids"
  by (induction ids i rule: awaited.induct) simp_all

lemma awaited_indices: "(k, j) \<in> set (awaited ids i) \<longleftrightarrow> i \<le> j \<and> j < i + length ids \<and> ids ! (j - i) = Some k"
proof (induction ids i rule: awaited.induct)
  case (2 ids i)
  then show ?case by (auto simp: nth_Cons' Suc_diff_le split: if_splits)
next
  case (3 k' ids i)
  then show ?case by (auto simp: nth_Cons' Suc_diff_le split: if_splits)
qed simp

lemma awaited_index_distinct: "distinct (map snd (awaited ids i))"
proof (induction ids i rule: awaited.induct)
  case (3 k ids i)
  have "i \<notin> snd ` set (awaited ids (Suc i))" using awaited_indices[of _ i ids "Suc i"] by auto
  with 3 show ?case by simp
qed simp_all

lemma update_new: "k \<notin> fst ` set ex \<Longrightarrow> AList.update k i ex = ex @ [(k, i)]"
  by (induction ex) auto

lemma expected_awaited:
  "distinct (map fst ex @ List.map_filter (\<lambda>v. v) ids) \<Longrightarrow> expected_ids ids i ex = ex @ awaited ids i"
proof (induction ids i ex rule: expected_ids.induct)
  case (3 k ids i ex)
  then have "AList.update k i ex = ex @ [(k, i)]" by (intro update_new) auto
  with 3 show ?case by simp
qed simp_all

text \<open>The responses the loop can get out of the array, and the first with an id.\<close>

fun array_responses :: "'l jlexer \<Rightarrow> nat \<Rightarrow> decoder \<Rightarrow> response list" where
  "array_responses lx 0 d = []"
| "array_responses lx (Suc n) d =
     (if \<not> dec_More d then []
      else case dec_Decode d of
          None \<Rightarrow> []
        | Some (elem, d') \<Rightarrow>
            (case Response_UnmarshalJSON lx zero_response elem of
               Some (resp, None) \<Rightarrow> resp # array_responses lx n d'
             | _ \<Rightarrow> []))"

definition batch_answer :: "bytes \<Rightarrow> response list \<Rightarrow> batch_result" where
  "batch_answer k rs = (case List.find (\<lambda>q. slice_bytes (rs_ID q) = k) rs of
       Some q \<Rightarrow> BatchResultFromResponse q | None \<Rightarrow> no_response k)"

lemma fill_missing_effect:
  assumes "distinct (map snd ex)" "\<forall>(k, i) \<in> set ex. i < length rs"
  shows "length (fill_missing ex rs) = length rs \<and>
     (\<forall>(k, i) \<in> set ex. fill_missing ex rs ! i = no_response k) \<and>
     (\<forall>i. i \<notin> snd ` set ex \<longrightarrow> fill_missing ex rs ! i = rs ! i)"
  using assms
proof (induction ex arbitrary: rs)
  case Nil
  then show ?case by (simp add: fill_missing_def)
next
  case (Cons p ex)
  obtain k i where p: "p = (k, i)" by (cases p)
  have f: "fill_missing ((k, i) # ex) rs = fill_missing ex (rs[i := no_response k])" by (simp add: fill_missing_def)
  have "distinct (map snd ex)" "\<forall>(k, j) \<in> set ex. j < length (rs[i := no_response k])" "i \<notin> snd ` set ex" "i < length rs"
    using Cons.prems p by auto
  with Cons.IH[of "rs[i := no_response k]"] show ?case unfolding p f by auto
qed

lemma delete_other: "(k, i) \<in> set (AList.delete key ex) \<longleftrightarrow> (k, i) \<in> set ex \<and> k \<noteq> key"
  by (auto simp: AList.delete_eq)

lemma scan_batch_exact:
  assumes "scan_batch lx n d ex rs = Some (Inr (ex', rs'))" "distinct (map fst ex)" "distinct (map snd ex)"
    and "\<forall>(k, i) \<in> set ex. i < length rs"
  shows "length (fill_missing ex' rs') = length rs \<and>
     (\<forall>(k, i) \<in> set ex. fill_missing ex' rs' ! i = batch_answer k (array_responses lx n d)) \<and>
     (\<forall>i. i \<notin> snd ` set ex \<longrightarrow> fill_missing ex' rs' ! i = rs ! i)"
  using assms
proof (induction lx n d ex rs rule: scan_batch.induct)
  case (1 lx d ex rs)
  with fill_missing_effect[of ex rs] show ?case by (simp add: batch_answer_def)
next
  case (2 lx n d ex rs)
  show ?case
  proof (cases "\<not> dec_More d \<or> ex = []")
    case True
    with "2.prems" fill_missing_effect[of ex rs] show ?thesis
      by (auto simp: batch_answer_def split: prod.splits)
  next
    case go: False
    then obtain elem d' resp where dec: "dec_Decode d = Some (elem, d')"
      and un: "Response_UnmarshalJSON lx zero_response elem = Some (resp, None)"
      using "2.prems"(1) by (auto split: option.splits)
    let ?key = "slice_bytes (rs_ID resp)"
    have all: "array_responses lx (Suc n) d = resp # array_responses lx n d'" using go dec un by simp
    have other: "batch_answer k (array_responses lx (Suc n) d) = batch_answer k (array_responses lx n d')" if "k \<noteq> ?key" for k
      using that by (simp add: all batch_answer_def del: array_responses.simps)
    have same: "batch_answer ?key (array_responses lx (Suc n) d) = BatchResultFromResponse resp"
      by (simp add: all batch_answer_def del: array_responses.simps)
    show ?thesis
    proof (cases "map_of ex ?key")
      case None
      have step: "scan_batch lx n d' ex rs = Some (Inr (ex', rs'))" using "2.prems"(1) go dec un None by simp
      have IH: "length (fill_missing ex' rs') = length rs \<and>
         (\<forall>(k, i) \<in> set ex. fill_missing ex' rs' ! i = batch_answer k (array_responses lx n d')) \<and>
         (\<forall>i. i \<notin> snd ` set ex \<longrightarrow> fill_missing ex' rs' ! i = rs ! i)"
        by (rule "2.IH"(1)[OF _ dec refl un refl refl None step "2.prems"(2-4)]) (use go in simp)
      have "k \<noteq> ?key" if "(k, i) \<in> set ex" for k i
        using None that by (auto simp: map_of_eq_None_iff image_iff)
      then have "batch_answer k (array_responses lx (Suc n) d) = batch_answer k (array_responses lx n d')" if "(k, i) \<in> set ex" for k i
        using that other by blast
      with IH show ?thesis by auto
    next
      case (Some i)
      let ?ex = "AList.delete ?key ex" and ?rs = "rs[i := BatchResultFromResponse resp]"
      have step: "scan_batch lx n d' ?ex ?rs = Some (Inr (ex', rs'))" using "2.prems"(1) go dec un Some by simp
      have in_ex: "(?key, i) \<in> set ex" using Some by (rule map_of_SomeD)
      have d1: "distinct (map fst ?ex)" using "2.prems"(2) by (rule distinct_delete)
      have d2: "distinct (map snd ?ex)" using "2.prems"(3) by (simp add: AList.delete_eq distinct_map_filter)
      have len: "\<forall>(k, j) \<in> set ?ex. j < length ?rs" using "2.prems"(4) by (auto simp: AList.delete_eq)
      have IH: "length (fill_missing ex' rs') = length ?rs \<and>
         (\<forall>(k, j) \<in> set ?ex. fill_missing ex' rs' ! j = batch_answer k (array_responses lx n d')) \<and>
         (\<forall>j. j \<notin> snd ` set ?ex \<longrightarrow> fill_missing ex' rs' ! j = ?rs ! j)"
        by (rule "2.IH"(2)[OF _ dec refl un refl refl Some step d1 d2 len]) (use go in simp)
      have out: "i \<notin> snd ` set ?ex"
      proof
        assume "i \<in> snd ` set ?ex"
        then obtain k where k: "(k, i) \<in> set ex" "k \<noteq> ?key" by (auto simp: AList.delete_eq)
        have "inj_on snd (set ex)" using "2.prems"(3) by (simp add: distinct_map)
        from inj_onD[OF this _ in_ex k(1)] k(2) show False by simp
      qed
      have "fill_missing ex' rs' ! i = BatchResultFromResponse resp" using IH out in_ex "2.prems"(4) by auto
      moreover have "j = i" if "(?key, j) \<in> set ex" for j
        using that in_ex "2.prems"(2) by (metis eq_key_imp_eq_value)
      ultimately have "fill_missing ex' rs' ! j = batch_answer k (array_responses lx (Suc n) d)" if "(k, j) \<in> set ex" for k j
      proof (cases "k = ?key")
        case True
        with that \<open>\<And>j. (?key, j) \<in> set ex \<Longrightarrow> j = i\<close> \<open>fill_missing ex' rs' ! i = BatchResultFromResponse resp\<close> same
        show ?thesis by metis
      next
        case False
        then have "(k, j) \<in> set ?ex" using that by (simp add: delete_other)
        with IH other[OF False] show ?thesis by auto
      qed
      moreover have "fill_missing ex' rs' ! j = rs ! j" if "j \<notin> snd ` set ex" for j
      proof -
        have "j \<noteq> i" "j \<notin> snd ` set ?ex" using that in_ex by (force simp: AList.delete_eq)+
        with IH show ?thesis by auto
      qed
      ultimately show ?thesis using IH by (simp add: case_prod_unfold del: array_responses.simps)
    qed
  qed
qed

definition batch_responses_of :: "'l jlexer \<Rightarrow> nat \<Rightarrow> bytes \<Rightarrow> response list" where
  "batch_responses_of lx n body = (case dec_open body of None \<Rightarrow> [] | Some d \<Rightarrow> array_responses lx n d)"

text \<open>
  C13: what a batch over HTTP returns. It returns one result per spec, in order. The ids it sent
  are distinct; a notification has the zero result, and a call has the first response with its id
  among the entries of the array that the loop may scan, as many as specs, or the error that
  there was no response for it. Nothing else in the body has an influence.
\<close>

theorem http_batch_exact:
  assumes "http_CallBatch jw lx net c specs s = Some (Inr (Some rs), s')" "0 \<le> fst s"
  shows "\<exists>frame ids seq body n. MarshalBatch jw http_nextID specs (fst s) =
        (Inr (frame, ids) :: http_err call_err + bytes \<times> slice list, seq) \<and>
     postRaw net c frame (snd s) = (Inr body, n) \<and> length rs = length specs \<and>
     distinct (List.map_filter (\<lambda>v. v) ids) \<and> map (\<lambda>v. v = None) ids = map bs_Notify specs \<and>
     (\<forall>i < length specs. rs ! i = (case ids ! i of
        None \<Rightarrow> zero_batch_result
      | Some k \<Rightarrow> batch_answer k (batch_responses_of lx (length specs) body)))"
proof -
  obtain frame ids seq where mb: "MarshalBatch jw http_nextID specs (fst s) =
      (Inr (frame, ids) :: http_err call_err + bytes \<times> slice list, seq)"
    using assms(1) by (auto simp: http_CallBatch_def split: if_splits prod.splits sum.splits)
  obtain body n where p: "postRaw net c frame (snd s) = (Inr body, n)"
    using assms(1) mb by (auto simp: http_CallBatch_def split: if_splits prod.splits sum.splits)
  have a: "http_batch_answer lx ids (length specs) body = Some (Inr (Some rs))"
    using assms(1) mb p by (auto simp: http_CallBatch_def split: if_splits)
  note drawn = http_ids.drawn_keys[OF mb]
  have d: "distinct (List.map_filter (\<lambda>v. v) ids)" unfolding drawn(3) by (rule itoa_distinct[OF assms(2)])
  let ?ex = "awaited ids 0" and ?zero = "replicate (length specs) zero_batch_result"
  have ex: "expected_ids ids 0 [] = ?ex" using expected_awaited[of "[]" ids 0] d by simp
  have idx: "(k, i) \<in> set ?ex \<longleftrightarrow> i < length specs \<and> ids ! i = Some k" for k i
    using awaited_indices[of k i ids 0] drawn(1) by simp
  have "length rs = length specs \<and> (\<forall>(k, i) \<in> set ?ex. rs ! i = batch_answer k (batch_responses_of lx (length specs) body)) \<and>
      (\<forall>i. i \<notin> snd ` set ?ex \<longrightarrow> rs ! i = ?zero ! i)"
  proof (cases "?ex = []")
    case True
    with a ex have "rs = ?zero" by (simp add: http_batch_answer_def)
    with True show ?thesis by simp
  next
    case False
    obtain dc where dc: "dec_open body = Some dc"
      using a False ex by (auto simp: http_batch_answer_def split: if_splits option.splits)
    obtain z where z: "scan_batch lx (length ids) dc ?ex ?zero = Some z"
      and zr: "(case z of Inl e \<Rightarrow> Inl e | Inr (missing, rs) \<Rightarrow> Inr (Some (fill_missing missing rs))) = Inr (Some rs)"
      using a False ex dc by (auto simp: http_batch_answer_def split: if_splits)
    obtain missing rs' where sc: "scan_batch lx (length ids) dc ?ex ?zero = Some (Inr (missing, rs'))"
      and rs: "rs = fill_missing missing rs'"
      using z zr by (cases z) auto
    have "distinct (map fst ?ex)" using d by (simp add: awaited_keys)
    moreover have "\<forall>(k, i) \<in> set ?ex. i < length ?zero" using idx by auto
    ultimately show ?thesis
      using scan_batch_exact[OF sc _ awaited_index_distinct] drawn(1) by (simp add: rs batch_responses_of_def dc)
  qed
  moreover have "rs ! i = zero_batch_result" if "i < length specs" "ids ! i = None" for i
  proof -
    have "i \<notin> snd ` set ?ex" using that idx by auto
    with calculation that(1) show ?thesis by auto
  qed
  moreover have "rs ! i = batch_answer k (batch_responses_of lx (length specs) body)" if "i < length specs" "ids ! i = Some k" for i k
    using calculation(1) that idx[of k i] by auto
  ultimately have "\<forall>i < length specs. rs ! i = (case ids ! i of
        None \<Rightarrow> zero_batch_result
      | Some k \<Rightarrow> batch_answer k (batch_responses_of lx (length specs) body))" and "length rs = length specs"
    by (simp_all split: option.splits)
  with mb p d drawn(2) show ?thesis by blast
qed

section \<open>A server that answers\<close>

definition sample_post :: http_request where
  "sample_post = \<lparr>hq_method = ''POST'', hq_contentType = ''application/json'', hq_contentEncoding = [],
     hq_body = ''{}'', hq_end = BodyEOF\<rparr>"

lemma sample_post_acceptable: "acceptable (http_Handler []) sample_post"
  unfolding acceptable_def by code_simp

theorem http_exchange_witness:
  "\<exists>p. ServeHTTP (dispatcher buffer_writer boom_lexer (\<lambda>_. (sample_env, 0)) sample_ctx sample) (http_Handler []) sample_post = Some p \<and>
     hp_status p = 200 \<and> hp_body p = response_text json_string (newError ''internal_error'' InternalErrorCode ANil (AID (Some ''7''))) \<and>
   (\<exists>p. ServeHTTP (dispatcher buffer_writer boom_lexer (\<lambda>_. (sample_env, 0)) sample_ctx sample) (http_Handler [])
       (sample_post\<lparr>hq_contentType := ''text/plain''\<rparr>) = Some p \<and> hp_status p = 415)"
proof -
  let ?rpc = "dispatcher buffer_writer boom_lexer (\<lambda>_. (sample_env, 0)) sample_ctx sample"
  obtain log where m: "HandleRPCJSONRawMessage buffer_writer boom_lexer (\<lambda>_. (sample_env, 0)) sample_ctx sample ''{}'' =
     Some \<lparr>mr_reply = Some (response_text json_string (newError ''internal_error'' InternalErrorCode ANil (AID (Some ''7'')))), mr_log = log\<rparr>"
    using boom_message by blast
  then obtain p where p: "ServeHTTP ?rpc (http_Handler []) sample_post = Some p"
    unfolding ServeHTTP_acceptable[OF sample_post_acceptable] by (auto simp: dispatcher_def sample_post_def)
  have ok: "hq_method sample_post = ''POST''" "json_or_absent sample_post" "\<not> oversized (http_Handler []) sample_post"
    "hq_end sample_post = BodyEOF" "hq_body sample_post = ''{}''"
    using sample_post_acceptable by (auto simp: acceptable_def json_or_absent_def oversized_def sample_post_def)
  have bad: "\<not> json_or_absent (sample_post\<lparr>hq_contentType := ''text/plain''\<rparr>)"
    unfolding json_or_absent_def by code_simp
  then obtain p' where p': "ServeHTTP ?rpc (http_Handler []) (sample_post\<lparr>hq_contentType := ''text/plain''\<rparr>) = Some p'"
    using ok(1) by (auto simp: ServeHTTP_def json_or_absent_def)
  have "hp_status p = 200 \<and> hp_body p = response_text json_string (newError ''internal_error'' InternalErrorCode ANil (AID (Some ''7'')))"
    using http_exchange[OF buffer_writer_ok p] ok m by auto
  moreover have "hp_status p' = 415"
    using http_exchange[OF buffer_writer_ok p'] bad ok(1) by simp
  ultimately show ?thesis using p p' by blast
qed

theorem fiber_matches_http_witness:
  "fiberv3_Handler (\<lambda>data. Some (Some data)) sample_post = Some (SendBody 200 [(''Content-Type'', ''application/json''),
     (''Cache-Control'', ''no-store''), (''X-Content-Type-Options'', ''nosniff'')] ''{}'')"
  using fiber_matches_http[OF sample_post_acceptable, of "\<lambda>data. Some (Some data)"]
  unfolding ServeHTTP_acceptable[OF sample_post_acceptable] by (simp add: sample_post_def)

definition sample_network :: "bytes \<Rightarrow> (unit, nat) network" where
  "sample_network body = \<lparr>ne_build = \<lambda>_. None,
     ne_do = \<lambda>hc url b n. (Inr \<lparr>hy_status = 200, hy_body = body, hy_err = None\<rparr>, Suc n)\<rparr>"

definition sample_http :: "unit http_client" where "sample_http = http_NewClient () ''http://host'' []"

lemma sample_postRaw:
  "postRaw (sample_network ''{}'') sample_http b n = (Inr ''{}'', Suc n)"
  "postRaw (sample_network ''[{}]'') sample_http b n = (Inr ''[{}]'', Suc n)"
  by (simp_all add: postRaw_def sample_network_def sample_http_def http_NewClient_def read_limited_def DefaultMaxResponseSize_def)

theorem http_call_answered_witness:
  "\<exists>q :: response. http_Call buffer_writer answer_lexer (sample_network ''{}'') sample_http ''m'' ANil (0, 0) = Some (Inr (Some ''7''), 1, 1) \<and>
     (slice_len (rs_ID q) = 0 \<or> rs_ID q = Some ''1'') \<and> Some ''7'' = (case rs_Result q of None \<Rightarrow> None | Some m \<Rightarrow> m)"
proof -
  have "\<exists>b. Request_MarshalJSON buffer_writer \<lparr>rq_Version = Version, rq_Method = ''m'', rq_Params = None, rq_ID = Some ''1''\<rparr> = Inr b"
    by (rule exI[of _ sample_frame]) code_simp
  then have call: "http_Call buffer_writer answer_lexer (sample_network ''{}'') sample_http ''m'' ANil (0, 0) = Some (Inr (Some ''7''), 1, 1)"
    by (auto simp: http_Call_def http_nextID_def post_def MarshalParams_def itoa_1 sample_postRaw http_answer_def sample_decoded)
      (simp_all add: sample_answer_def)
  have one: "itoa (fst (0 :: int, 0 :: nat) + 1) = ''1''" by (simp add: itoa_1)
  from http_call_answered[OF call] call show ?thesis unfolding one by blast
qed

theorem http_batch_exact_witness:
  "\<exists>rs s'. http_CallBatch buffer_writer answer_lexer (sample_network ''[{}]'') sample_http sample_specs (0, 0) = Some (Inr (Some rs), s') \<and>
     length rs = 2"
proof -
  let ?reqs = "[\<lparr>rq_Version = Version, rq_Method = ''m'', rq_Params = None, rq_ID = Some ''1''\<rparr>,
    \<lparr>rq_Version = Version, rq_Method = ''n'', rq_Params = None, rq_ID = None\<rparr>]"
  have "Requests_MarshalJSON buffer_writer (Some ?reqs) = Inr sample_batch_frame" by code_simp
  moreover have "batch_requests http_nextID sample_specs 0 =
      (Inr ([Some ''1'', None], ?reqs) :: http_err call_err + slice list \<times> request list, 1)"
    by (simp add: sample_specs_def MarshalParams_def http_nextID_def itoa_1)
  ultimately have mb: "MarshalBatch buffer_writer http_nextID sample_specs 0 =
      (Inr (sample_batch_frame, [Some ''1'', None]) :: http_err call_err + bytes \<times> slice list, 1)"
    by (simp add: MarshalBatch_def)
  have small: "length sample_specs \<noteq> 0" "\<not> int (length sample_specs) > ht_maxBatchSize sample_http"
    by (simp_all add: sample_specs_def sample_http_def http_NewClient_def DefaultMaxBatchSize_def)
  have "scan_batch answer_lexer 2 \<lparr>dc_rest = ''{}]'', dc_comma = False\<rparr> [(''1'', 0)] [zero_batch_result, zero_batch_result] =
      Some (Inr ([], [\<lparr>br_Result = Some ''7'', br_Error = None\<rparr>, zero_batch_result]))"
    by (simp add: numeral_2_eq_2 sample_array sample_decoded) (simp add: sample_answer_def BatchResultFromResponse_def)
  then have "http_batch_answer answer_lexer [Some ''1'', None] (length sample_specs) ''[{}]'' =
      Some (Inr (Some [\<lparr>br_Result = Some ''7'', br_Error = None\<rparr>, zero_batch_result]))"
    by (simp add: http_batch_answer_def sample_array(1) sample_specs_def fill_missing_def numeral_2_eq_2)
  then obtain rs s' where r: "http_CallBatch buffer_writer answer_lexer (sample_network ''[{}]'') sample_http sample_specs (0, 0) = Some (Inr (Some rs), s')"
    unfolding http_CallBatch_def using small mb by (simp add: sample_postRaw)
  have "length rs = length sample_specs"
    by (rule http_batch_exact[OF r, THEN exE]) (simp, blast)
  with r show ?thesis by (auto simp: sample_specs_def)
qed

end
