(* ===== verification/WireProps.thy ===== *)
theory WireProps
  imports CodecProps
begin

text \<open>
  The two codecs against each other: what one side writes the other decodes. The lexer is
  easyjson's; what is used of it is that on the text of an object it delivers the members of
  that object, \<open>lexes\<close>, with an error object nested in a response.
\<close>

section \<open>The lexer on nested objects\<close>

text \<open>
  At \<open>l\<close> stands the value \<open>v\<close>: looking for \<open>null\<close> does not move on, and each way of reading
  the value ends at \<open>l'\<close>.
\<close>

definition scalar_at :: "'l jlexer \<Rightarrow> 'l \<Rightarrow> lexval \<Rightarrow> 'l \<Rightarrow> bool" where
  "scalar_at lx l v l' \<longleftrightarrow>
     lx_IsNull lx (snd (lx_IsNull lx l)) = lx_IsNull lx l \<and> lx_Ok lx l' \<and> raw_of v \<noteq> [] \<and>
     lx_Raw lx l = (Some (raw_of v), l') \<and> lx_Raw lx (snd (lx_IsNull lx l)) = (Some (raw_of v), l') \<and>
     (case v of
        LNull \<Rightarrow> fst (lx_IsNull lx l) \<and> lx_Skip lx (snd (lx_IsNull lx l)) = l'
      | LStr s raw \<Rightarrow> \<not> fst (lx_IsNull lx l) \<and> lx_String lx l = (s, l') \<and> lx_String lx (snd (lx_IsNull lx l)) = (s, l')
      | LRaw raw \<Rightarrow> \<not> fst (lx_IsNull lx l) \<and> (\<forall>n. raw = itoa n \<longrightarrow> lx_Int lx (snd (lx_IsNull lx l)) = (n, l')))"

text \<open>Between the braces the lexer delivers the members \<open>ms\<close>, whose values are at their places by \<open>at\<close>.\<close>

inductive delivered :: "'l jlexer \<Rightarrow> ('l \<Rightarrow> 'x \<Rightarrow> 'l \<Rightarrow> bool) \<Rightarrow> 'l \<Rightarrow> (bytes \<times> 'x) list \<Rightarrow> 'l \<Rightarrow> bool" for lx at where
  done_all: "lx_IsDelim lx l RBRACE = (True, l') \<Longrightarrow> delivered lx at l [] l'"
| deliver_next: "lx_IsDelim lx l RBRACE = (False, l1) \<Longrightarrow> lx_UnsafeFieldName lx l1 = (k, l2) \<Longrightarrow>
     at (lx_WantColon lx l2) x l3 \<Longrightarrow> delivered lx at (lx_WantComma lx l3) ms l' \<Longrightarrow>
     delivered lx at l ((k, x) # ms) l'"

datatype wire = Scalar lexval | Object "(bytes \<times> lexval) list"

fun wire_text :: "wire \<Rightarrow> bytes" where
  "wire_text (Scalar v) = raw_of v"
| "wire_text (Object ms) = object_text (map (map_prod id raw_of) ms)"

fun wire_at :: "'l jlexer \<Rightarrow> 'l \<Rightarrow> wire \<Rightarrow> 'l \<Rightarrow> bool" where
  "wire_at lx l (Scalar v) l' = scalar_at lx l v l'"
| "wire_at lx l (Object ms) l' = (let l1 = snd (lx_IsNull lx l) in
     \<not> fst (lx_IsNull lx l) \<and> lx_IsNull lx l1 = lx_IsNull lx l \<and> \<not> lx_IsStart lx l1 \<and>
     (\<exists>m. delivered lx (scalar_at lx) (lx_Delim lx l1 LBRACE) ms m \<and> lx_Delim lx m RBRACE = l'))"

definition lexes :: "'l jlexer \<Rightarrow> (bytes \<times> wire) list \<Rightarrow> bool" where
  "lexes lx ms \<longleftrightarrow> (let l = lx_new lx (object_text (map (map_prod id wire_text) ms)) in
     \<not> fst (lx_IsNull lx l) \<and>
     (\<exists>m. delivered lx (wire_at lx) (lx_Delim lx (snd (lx_IsNull lx l)) LBRACE) ms m \<and>
        lx_Error lx (if lx_IsStart lx l then lx_Consumed lx (lx_Delim lx m RBRACE) else lx_Delim lx m RBRACE) = None))"

text \<open>\<open>keep ms v\<close> is what the decoder may rely on before the members \<open>ms\<close>.\<close>

lemma delivered_loop:
  assumes "delivered lx at l ms l'" "keep ms v0"
    and "\<And>k x ms v l l'. keep ((k, x) # ms) v \<Longrightarrow> at l x l' \<Longrightarrow> field k v l = Some (put k x v, l') \<and> keep ms (put k x v)"
  shows "object_loop lx field v0 l = Some (fold (\<lambda>(k, x). put k x) ms v0, l')"
  using assms(1,2)
proof (induction arbitrary: v0 rule: delivered.induct)
  case (done_all l l')
  then show ?case by (subst object_loop.simps) simp
next
  case (deliver_next l l1 k l2 x l3 ms l')
  have f: "field k v0 (lx_WantColon lx l2) = Some (put k x v0, l3) \<and> keep ms (put k x v0)"
    by (rule assms(3)[OF deliver_next.prems deliver_next.hyps(3)])
  then have "object_loop lx field (put k x v0) (lx_WantComma lx l3) = Some (fold (\<lambda>(k, x). put k x) ms (put k x v0), l')"
    by (intro deliver_next.IH) simp
  then show ?case using f deliver_next.hyps(1,2) by (subst object_loop.simps) simp
qed

lemma lexes_struct:
  assumes "lexes lx ms" "keep ms v0"
    and "\<And>k x ms v l l'. keep ((k, x) # ms) v \<Longrightarrow> wire_at lx l x l' \<Longrightarrow> field k v l = Some (put k x v, l') \<and> keep ms (put k x v)"
  shows "map_option (\<lambda>(v, l). (v, lx_Error lx l))
      (decode_struct lx field v0 (lx_new lx (object_text (map (map_prod id wire_text) ms)))) =
    Some (fold (\<lambda>(k, x). put k x) ms v0, None)"
proof -
  let ?l = "lx_new lx (object_text (map (map_prod id wire_text) ms))"
  obtain m where m: "\<not> fst (lx_IsNull lx ?l)" "delivered lx (wire_at lx) (lx_Delim lx (snd (lx_IsNull lx ?l)) LBRACE) ms m"
    "lx_Error lx (if lx_IsStart lx ?l then lx_Consumed lx (lx_Delim lx m RBRACE) else lx_Delim lx m RBRACE) = None"
    using assms(1) by (auto simp: lexes_def Let_def)
  have "object_loop lx field v0 (lx_Delim lx (snd (lx_IsNull lx ?l)) LBRACE) = Some (fold (\<lambda>(k, x). put k x) ms v0, m)"
    by (rule delivered_loop[where keep = keep, OF m(2) assms(2,3)])
  then show ?thesis using m(1,3)
    by (cases "lx_IsStart lx ?l") (simp_all add: decode_struct_def Let_def case_prod_unfold)
qed

section \<open>Requests\<close>

text \<open>The value with a text that is no string.\<close>

definition value_of :: "bytes \<Rightarrow> lexval" where
  "value_of raw = (if raw = ''null'' then LNull else LRaw raw)"

lemma raw_of_value [simp]: "raw_of (value_of raw) = raw"
  by (simp add: value_of_def)

definition request_wire :: "(bytes \<Rightarrow> bytes) \<Rightarrow> request \<Rightarrow> (bytes \<times> wire) list" where
  "request_wire quote r =
     [(''jsonrpc'', Scalar (LStr (rq_Version r) (quote (rq_Version r)))),
      (''method'', Scalar (LStr (rq_Method r) (quote (rq_Method r))))] @
     (if slice_len (rq_Params r) > 0 then [(''params'', Scalar (value_of (slice_bytes (rq_Params r))))] else []) @
     (if rq_ID r \<noteq> None then [(''id'', Scalar (value_of (id_text (rq_ID r))))] else [])"

lemma request_wire_members: "map (map_prod id wire_text) (request_wire quote r) = request_members quote r"
  by (simp add: request_wire_def request_members_def)

definition request_received :: "request \<Rightarrow> request" where
  "request_received r = r\<lparr>
     rq_Params := (if slice_len (rq_Params r) = 0 \<or> slice_bytes (rq_Params r) = ''null'' then None else rq_Params r),
     rq_ID := (if rq_ID r = None then None else Some (id_text (rq_ID r)))\<rparr>"

definition request_put :: "bytes \<Rightarrow> wire \<Rightarrow> request \<Rightarrow> request" where
  "request_put k x v =
     (case x of
        Scalar s \<Rightarrow>
          if k = ''jsonrpc'' then (case s of LStr t _ \<Rightarrow> v\<lparr>rq_Version := t\<rparr> | _ \<Rightarrow> v)
          else if k = ''method'' then (case s of LStr t _ \<Rightarrow> v\<lparr>rq_Method := t\<rparr> | _ \<Rightarrow> v)
          else if k = ''params'' then v\<lparr>rq_Params := (if s = LNull then None else Some (raw_of s))\<rparr>
          else v\<lparr>rq_ID := Some (raw_of s)\<rparr>
      | Object _ \<Rightarrow> v)"

lemma request_field:
  assumes "(k, x) \<in> set (request_wire quote r)" "wire_at lx l x l'"
  shows "Request_field lx k v l = Some (request_put k x v, l')"
proof -
  consider (version) "k = ''jsonrpc''" "x = Scalar (LStr (rq_Version r) (quote (rq_Version r)))"
    | (name) "k = ''method''" "x = Scalar (LStr (rq_Method r) (quote (rq_Method r)))"
    | (par) "k = ''params''" "x = Scalar (value_of (slice_bytes (rq_Params r)))"
    | (id) "k = ''id''" "x = Scalar (value_of (id_text (rq_ID r)))"
    using assms(1) by (auto simp: request_wire_def split: if_splits)
  then show ?thesis
  proof cases
    case par
    then show ?thesis using assms(2)
      by (cases "slice_bytes (rq_Params r) = ''null''")
        (auto simp: Request_field_def request_put_def scalar_at_def value_of_def copied_def Let_def case_prod_unfold)
  next
    case id
    then have "lx_Raw lx l = (Some (id_text (rq_ID r)), l')" "id_text (rq_ID r) \<noteq> []"
      using assms(2) by (simp_all add: scalar_at_def)
    with id show ?thesis by (simp add: Request_field_def request_put_def copied_def)
  qed (use assms(2) in \<open>simp_all add: Request_field_def request_put_def scalar_at_def\<close>)
qed

lemma request_decoded:
  assumes "lexes lx (request_wire quote r)"
  shows "Request_UnmarshalJSON lx zero_request (object_text (request_members quote r)) = Some (request_received r, None)"
proof -
  have "fold (\<lambda>(k, x). request_put k x) (request_wire quote r) zero_request = request_received r"
    by (cases "rq_Params r")
      (auto simp: request_wire_def request_put_def request_received_def zero_request_def value_of_def)
  with lexes_struct[OF assms, of "\<lambda>ms v. set ms \<subseteq> set (request_wire quote r)" zero_request "Request_field lx" request_put]
    request_field[of _ _ quote r lx] show ?thesis
    by (simp add: Request_UnmarshalJSON_def Request_UnmarshalEasyJSON_def request_wire_members)
qed

section \<open>Responses\<close>

definition error_wire :: "(bytes \<Rightarrow> bytes) \<Rightarrow> rpc_error \<Rightarrow> (bytes \<times> lexval) list" where
  "error_wire quote e =
     [(''code'', LRaw (itoa (er_Code e))), (''message'', LStr (er_Message e) (quote (er_Message e)))] @
     (if er_Data e = ANil then []
      else [(''data'', value_of (case data_text (er_Data e) of Inr b \<Rightarrow> b | Inl _ \<Rightarrow> []))])"

definition response_wire :: "(bytes \<Rightarrow> bytes) \<Rightarrow> response \<Rightarrow> (bytes \<times> wire) list" where
  "response_wire quote r =
     [(''jsonrpc'', Scalar (LStr (rs_Version r) (quote (rs_Version r))))] @
     (case rs_Result r of None \<Rightarrow> [] | Some m \<Rightarrow> [(''result'', Scalar (value_of (id_text m)))]) @
     (case rs_Error r of None \<Rightarrow> [] | Some e \<Rightarrow> [(''error'', Object (error_wire quote e))]) @
     [(''id'', Scalar (value_of (id_text (rs_ID r))))]"

lemma response_wire_members: "map (map_prod id wire_text) (response_wire quote r) = response_members quote r"
  by (auto simp: response_wire_def response_members_def error_wire_def error_members_def split: option.splits)

text \<open>What arrives: a null result is an absent one, data is the text of the data.\<close>

definition error_received :: "rpc_error \<Rightarrow> rpc_error" where
  "error_received e = e\<lparr>er_Data :=
     (if er_Data e = ANil then ANil
      else case data_text (er_Data e) of
          Inr b \<Rightarrow> if b = ''null'' then ANil else ARawMessage (Some b)
        | Inl _ \<Rightarrow> ARawMessage (Some []))\<rparr>"

definition response_received :: "response \<Rightarrow> response" where
  "response_received r = \<lparr>rs_Version = rs_Version r,
     rs_Result = (case rs_Result r of None \<Rightarrow> None | Some m \<Rightarrow> if id_text m = ''null'' then None else Some (Some (id_text m))),
     rs_Error = map_option error_received (rs_Error r),
     rs_ID = (if id_text (rs_ID r) = ''null'' then None else Some (id_text (rs_ID r)))\<rparr>"

definition error_put :: "rpc_error \<Rightarrow> bytes \<Rightarrow> lexval \<Rightarrow> rpc_error \<Rightarrow> rpc_error" where
  "error_put e k s v =
     (if k = ''code'' then v\<lparr>er_Code := er_Code e\<rparr>
      else if k = ''message'' then v\<lparr>er_Message := er_Message e\<rparr>
      else v\<lparr>er_Data := (if s = LNull then ANil else ARawMessage (Some (raw_of s)))\<rparr>)"

lemma error_field:
  assumes "(k, s) \<in> set (error_wire quote e)" "scalar_at lx l s l'"
  shows "Error_field lx k v l = Some (error_put e k s v, l')"
proof -
  have c: "copied (Some (raw_of s)) = Some (raw_of s)" using assms(2) by (simp add: copied_def scalar_at_def)
  consider (code) "k = ''code''" "s = LRaw (itoa (er_Code e))"
    | (message) "k = ''message''" "s = LStr (er_Message e) (quote (er_Message e))"
    | (data) "k = ''data''" "\<forall>t raw. s \<noteq> LStr t raw"
    using assms(1) by (auto simp: error_wire_def value_of_def split: if_splits)
  then show ?thesis
  proof cases
    case data
    then show ?thesis using assms(2) c
      by (cases s) (auto simp: Error_field_def error_put_def scalar_at_def Let_def case_prod_unfold)
  qed (use assms(2) in \<open>auto simp: Error_field_def error_put_def scalar_at_def Let_def case_prod_unfold\<close>)
qed

lemma error_put_all: "fold (\<lambda>(k, s). error_put e k s) (error_wire quote e) zero_error = error_received e"
  by (auto simp: error_wire_def error_put_def error_received_def zero_error_def value_of_def split: sum.splits)

definition response_put :: "response \<Rightarrow> bytes \<Rightarrow> wire \<Rightarrow> response \<Rightarrow> response" where
  "response_put r k x v =
     (case x of
        Object _ \<Rightarrow> v\<lparr>rs_Error := map_option error_received (rs_Error r)\<rparr>
      | Scalar s \<Rightarrow>
          if k = ''jsonrpc'' then v\<lparr>rs_Version := rs_Version r\<rparr>
          else if k = ''result'' then v\<lparr>rs_Result := (if s = LNull then None else Some (Some (raw_of s)))\<rparr>
          else (if s = LNull then v else v\<lparr>rs_ID := Some (raw_of s)\<rparr>))"

lemma response_put_all: "fold (\<lambda>(k, x). response_put r k x) (response_wire quote r) zero_response = response_received r"
  by (auto simp: response_wire_def response_put_def response_received_def zero_response_def value_of_def split: option.splits)

text \<open>The decoder keeps an error object it has seen before; in \<open>v\<close> there is none yet.\<close>

lemma response_field:
  assumes "(k, x) \<in> set (response_wire quote r)" "wire_at lx l x l'" "k = ''error'' \<Longrightarrow> rs_Error v = None"
  shows "Response_field lx k v l = Some (response_put r k x v, l')"
proof -
  consider (version) "k = ''jsonrpc''" "x = Scalar (LStr (rs_Version r) (quote (rs_Version r)))"
    | (result) m where "k = ''result''" "x = Scalar (value_of (id_text m))"
    | (error) e where "k = ''error''" "x = Object (error_wire quote e)" "rs_Error r = Some e"
    | (id) "k = ''id''" "x = Scalar (value_of (id_text (rs_ID r)))"
    using assms(1) by (auto simp: response_wire_def split: option.splits)
  then show ?thesis
  proof cases
    case version
    then show ?thesis using assms(2) by (auto simp: Response_field_def response_put_def scalar_at_def Let_def case_prod_unfold)
  next
    case result
    then show ?thesis using assms(2)
      by (cases "id_text m = ''null''")
        (auto simp: Response_field_def response_put_def scalar_at_def value_of_def rawmessage_set_def Let_def case_prod_unfold)
  next
    case error
    let ?l1 = "snd (lx_IsNull lx l)"
    obtain m where m: "\<not> fst (lx_IsNull lx l)" "lx_IsNull lx ?l1 = lx_IsNull lx l" "\<not> lx_IsStart lx ?l1"
      "delivered lx (scalar_at lx) (lx_Delim lx ?l1 LBRACE) (error_wire quote e) m" "lx_Delim lx m RBRACE = l'"
      using assms(2) error(2) by (auto simp: Let_def)
    from delivered_loop[OF m(4), of "\<lambda>ms v. set ms \<subseteq> set (error_wire quote e)" zero_error "Error_field lx" "error_put e"]
      error_field[of _ _ quote e lx]
    have "object_loop lx (Error_field lx) zero_error (lx_Delim lx ?l1 LBRACE) = Some (error_received e, m)"
      by (simp only: error_put_all) simp
    with m(1-3,5) have "Error_UnmarshalEasyJSON lx zero_error ?l1 = Some (error_received e, l')"
      by (simp add: Error_UnmarshalEasyJSON_def decode_struct_def Let_def case_prod_unfold)
    then show ?thesis using m(1,2) assms(3) error
      by (simp add: Response_field_def response_put_def Let_def case_prod_unfold)
  next
    case id
    then show ?thesis using assms(2)
      by (cases "id_text (rs_ID r) = ''null''")
        (auto simp: Response_field_def response_put_def scalar_at_def value_of_def Let_def case_prod_unfold)
  qed
qed


definition errors_later :: "(bytes \<times> wire) list \<Rightarrow> response \<Rightarrow> bool" where
  "errors_later ms v \<longleftrightarrow> distinct (map fst ms) \<and> (''error'' \<in> fst ` set ms \<longrightarrow> rs_Error v = None)"

lemma response_decoded:
  assumes "lexes lx (response_wire quote r)"
  shows "Response_UnmarshalJSON lx zero_response (response_text quote r) = Some (response_received r, None)"
proof -
  let ?keep = "\<lambda>ms v. set ms \<subseteq> set (response_wire quote r) \<and> errors_later ms v"
  have start: "?keep (response_wire quote r) zero_response"
    by (auto simp: errors_later_def response_wire_def zero_response_def split: option.splits)
  have step: "Response_field lx k v l = Some (response_put r k x v, l') \<and> ?keep ms (response_put r k x v)"
    if i: "?keep ((k, x) # ms) v" and at: "wire_at lx l x l'" for k x ms v l l'
  proof -
    have m: "(k, x) \<in> set (response_wire quote r)" "k = ''error'' \<Longrightarrow> rs_Error v = None"
      using i by (simp_all add: errors_later_def)
    have "rs_Error (response_put r k x v) = rs_Error v" if "k \<noteq> ''error''"
      using that m(1) by (auto simp: response_put_def response_wire_def split: option.splits if_splits)
    then have "errors_later ms (response_put r k x v)"
      using i by (cases "k = ''error''") (auto simp: errors_later_def image_iff)
    with response_field[OF m(1) at m(2)] i show ?thesis by simp
  qed
  from lexes_struct[where keep = ?keep and field = "Response_field lx" and put = "response_put r", OF assms start step]
  show ?thesis
    by (simp add: Response_UnmarshalJSON_def Response_UnmarshalEasyJSON_def response_wire_members response_put_all response_text_def)
qed

text \<open>
  C25: the two codecs agree on the wire. A request that is marshaled is decoded as itself: version,
  method, parameters and id arrive as they were, but for parameters \<open>null\<close>, which arrive as
  absent, and an empty id, which arrives as \<open>null\<close>. A response arrives with its version, its
  result, its id, and the code and message of its error; the data of the error arrives as its
  JSON text.
\<close>

theorem wire_roundtrip:
  assumes "jwriter_ok jw quote view" "lexes lx (request_wire quote q)"
    and "response_failure r = None" "lexes lx (response_wire quote r)"
  shows "(\<exists>b. Request_MarshalJSON jw q = Inr b \<and> Request_UnmarshalJSON lx zero_request b = Some (q\<lparr>
        rq_Params := (if slice_len (rq_Params q) = 0 \<or> slice_bytes (rq_Params q) = ''null'' then None else rq_Params q),
        rq_ID := (if rq_ID q = None then None else Some (id_text (rq_ID q)))\<rparr>, None)) \<and>
    (\<exists>b. Response_MarshalJSON jw r = Inr b \<and>
       Response_UnmarshalJSON lx zero_response b = Some (response_received r, None))"
proof -
  have "Request_MarshalJSON jw q = Inr (object_text (request_members quote q))"
    using request_write[OF assms(1), of "jw_new jw" q] by (simp add: Request_MarshalJSON_def built_def jwriter_okD[OF assms(1)])
  moreover have "Response_MarshalJSON jw r = Inr (response_text quote r)" by (simp add: response_marshal[OF assms(1)] assms(3))
  ultimately show ?thesis
    using request_decoded[OF assms(2)] response_decoded[OF assms(4)] by (simp add: request_received_def)
qed

end
