(* ===== verification/Remote.thy ===== *)
theory Remote
  imports HttpProps WireProps
begin

text \<open>
  The HTTP client against the HTTP server: a call goes through the codec of the request, the
  handler, the decoder, the dispatcher, the codec of the response and the decoder of the client.
\<close>

text \<open>The network that is a server: what \<open>ServeHTTP\<close> makes of the POST that the client sends.\<close>

definition served_request :: "bytes \<Rightarrow> http_request" where
  "served_request body = \<lparr>hq_method = ''POST'', hq_contentType = ''application/json'', hq_contentEncoding = [],
     hq_body = body, hq_end = BodyEOF\<rparr>"

definition served :: "(bytes \<Rightarrow> slice option) \<Rightarrow> http_handler \<Rightarrow> ('h, 'n) network" where
  "served rpc h = \<lparr>ne_build = (\<lambda>_. None),
     ne_do = (\<lambda>hc url body n. (case ServeHTTP rpc h (served_request body) of
         None \<Rightarrow> Inl ''no response''
       | Some p \<Rightarrow> Inr \<lparr>hy_status = hp_status p, hy_body = hp_body p, hy_err = None\<rparr>, n))\<rparr>"

text \<open>The response that is sent for \<open>resp\<close>: itself, unless its error has data that does not marshal.\<close>

definition response_sent :: "('e, 'v) config \<Rightarrow> slice \<Rightarrow> response \<Rightarrow> response" where
  "response_sent cfg v resp = (if response_failure resp = None then resp else safeInternalResponse cfg (AID v))"

lemma json_content: "ParseMediaType ''application/json'' = Some ''application/json''"
  by code_simp

lemma object_text_ends:
  assumes "ms \<noteq> []"
  shows "object_text ms \<noteq> []" "hd (object_text ms) = LBRACE" "last (object_text ms) = RBRACE" "2 \<le> length (object_text ms)"
  using assms by (cases ms; simp)+

lemma object_text_trimmed:
  assumes "ms \<noteq> []"
  shows "TrimSpace (object_text ms) = object_text ms"
  by (rule TrimSpace_plain(1)) (simp_all add: object_text_ends[OF assms] byte_val_def)

lemma message_answered:
  assumes "jwriter_ok jw quote view" "lexes lx (request_wire quote q)"
    and "cf_maxMessageSize cfg \<le> 0 \<or> int (length (object_text (request_members quote q))) \<le> cf_maxMessageSize cfg"
    and "handleRPC (fst (sched 0)) ctx cfg (request_received q) (snd (sched 0)) = Some d" "hd_resp d = Some resp"
  shows "dispatcher jw lx sched ctx cfg (object_text (request_members quote q)) =
    Some (Some (response_text quote (response_sent cfg (rq_ID (request_received q)) resp)))"
proof -
  let ?t = "object_text (request_members quote q)"
  have m: "request_members quote q \<noteq> []" by (simp add: request_members_def)
  note e = object_text_ends[OF m] object_text_trimmed[OF m]
  have "handle_object jw lx sched ctx cfg ?t = marshal_single jw cfg (rq_ID (request_received q)) resp"
    using assms(4,5) by (simp add: handle_object_def request_decoded[OF assms(2)])
  moreover have "HandleRPCJSONRawMessage jw lx sched ctx cfg ?t = handle_object jw lx sched ctx cfg ?t"
    using assms(3) e(2-5) by (auto simp: HandleRPCJSONRawMessage_def Let_def)
  ultimately show ?thesis
    using marshal_single_cases[OF assms(1), of cfg "rq_ID (request_received q)" resp]
    by (auto simp: dispatcher_def response_sent_def)
qed

lemma http_call_served:
  assumes "jwriter_ok jw quote view" "config_ok cfg" "0 \<le> seq"
    and "MarshalParams params = (Inr raw :: http_err call_err + slice)"
    and "q = \<lparr>rq_Version = Version, rq_Method = meth, rq_Params = raw, rq_ID = Some (itoa (seq + 1))\<rparr>"
    and "handleRPC (fst (sched 0)) ctx cfg (request_received q) (snd (sched 0)) = Some d"
    and "lexes lx (request_wire quote q)"
    and "\<And>resp. hd_resp d = Some resp \<Longrightarrow> lexes lx (response_wire quote (response_sent cfg (rq_ID q) resp)) \<and>
      int (length (response_text quote (response_sent cfg (rq_ID q) resp))) < ht_maxResponseSize c"
    and "hh_maxBodySize h \<le> 0 \<or> int (length (object_text (request_members quote q))) \<le> hh_maxBodySize h"
    and "cf_maxMessageSize cfg \<le> 0 \<or> int (length (object_text (request_members quote q))) \<le> cf_maxMessageSize cfg"
  shows "\<exists>resp. hd_resp d = Some resp \<and>
    http_Call jw lx (served (dispatcher jw lx sched ctx cfg) h) c meth params (seq, n) =
      Some (response_outcome (response_received (response_sent cfg (rq_ID q) resp)), seq + 1, n)"
proof -
  let ?k = "itoa (seq + 1)" and ?t = "object_text (request_members quote q)"
  have id: "rq_ID q = Some ?k" "rq_ID (request_received q) = Some ?k" by (simp_all add: assms(5) request_received_def id_text_def)
  obtain resp where resp: "hd_resp d = Some resp"
    using assms(6) id(2) by (cases rule: handleRPC_cases) auto
  let ?s = "response_sent cfg (rq_ID q) resp" let ?b = "response_text quote ?s"
  have r: "rs_ID resp = Some ?k \<or> rs_ID resp = None"
    using assms(6)
  proof (cases rule: handleRPC_cases)
    case (valid x)
    with dispatch_facts(1)[OF valid(2), of] config_ok_internal[OF assms(2)] resp id(2) show ?thesis
      by (auto simp: proper_def split: if_splits)
  qed (use resp id(2) in \<open>auto split: if_splits\<close>)
  have sid: "rs_ID ?s = Some ?k \<or> rs_ID ?s = None"
    using r id(1) by (auto simp: response_sent_def safeInternalResponse_def)
  have lx: "lexes lx (response_wire quote ?s)" "int (length ?b) < ht_maxResponseSize c" using assms(8)[OF resp] by simp_all
  have disp: "dispatcher jw lx sched ctx cfg ?t = Some (Some ?b)"
    using message_answered[where sched = sched, OF assms(1,7,10,6) resp] id by simp
  have b: "?b \<noteq> []" using object_text_ends(1)[of "response_members quote ?s"] by (simp add: response_text_def response_members_def)
  have "acceptable h (served_request ?t)"
    using assms(9) by (simp add: acceptable_def served_request_def json_content)
  from ServeHTTP_acceptable[OF this] disp b
  have net: "ne_do (served (dispatcher jw lx sched ctx cfg) h) hc url ?t n =
      (Inr \<lparr>hy_status = 200, hy_body = ?b, hy_err = None\<rparr>, n)" for hc url
    by (simp add: served_def served_request_def)
  have req: "Request_MarshalJSON jw q = Inr ?t"
    using request_write[OF assms(1), of "jw_new jw" q] by (simp add: Request_MarshalJSON_def built_def jwriter_okD[OF assms(1)])
  have nb: "ne_build (served (dispatcher jw lx sched ctx cfg) h) u = None" for u by (simp add: served_def)
  have "postRaw (served (dispatcher jw lx sched ctx cfg) h) c ?t n = (Inr ?b, n)"
    using lx(2) by (simp add: postRaw_def nb net read_limited_def)
  then have p: "post jw (served (dispatcher jw lx sched ctx cfg) h) c meth params (Some ?k) n = (Inr ?b, n)"
    by (simp add: post_def assms(4) assms(5)[symmetric] req)
  have "rs_ID (response_received ?s) = Some ?k \<or> rs_ID (response_received ?s) = None"
    using sid by (auto simp: response_received_def id_text_def)
  then have "http_answer lx ?k ?b = Some (response_outcome (response_received ?s))"
    using b by (auto simp: http_answer_def response_decoded[OF lx(1)] response_outcome_def split: option.splits)
  with p resp show ?thesis by (simp add: http_Call_def http_nextID_def)
qed

text \<open>
  C4: a call over HTTP is a call of the server. Whatever the method is and however it ends, the
  client's \<open>Call\<close> with the server as its network returns what \<open>handleRPC\<close> answers to the request
  with this method, these parameters and the client's next id: the result of the response or its
  error, with null for an absent result and the data of an error as JSON; and the internal error
  if the data cannot be marshaled.
\<close>

theorem http_call_reaches_server:
  assumes "jwriter_ok jw quote view" "config_ok cfg" "0 \<le> seq"
    and "MarshalParams params = (Inr raw :: http_err call_err + slice)"
    and "q = \<lparr>rq_Version = Version, rq_Method = meth, rq_Params = raw, rq_ID = Some (itoa (seq + 1))\<rparr>"
    and "handleRPC (fst (sched 0)) ctx cfg (request_received q) (snd (sched 0)) = Some d"
    and "lexes lx (request_wire quote q)"
    and "\<And>resp. hd_resp d = Some resp \<Longrightarrow> lexes lx (response_wire quote (response_sent cfg (rq_ID q) resp)) \<and>
      int (length (response_text quote (response_sent cfg (rq_ID q) resp))) < ht_maxResponseSize c"
    and "hh_maxBodySize h \<le> 0 \<or> int (length (object_text (request_members quote q))) \<le> hh_maxBodySize h"
    and "cf_maxMessageSize cfg \<le> 0 \<or> int (length (object_text (request_members quote q))) \<le> cf_maxMessageSize cfg"
  shows "\<exists>resp. hd_resp d = Some resp \<and>
    http_Call jw lx (served (dispatcher jw lx sched ctx cfg) h) c meth params (seq, n) =
      Some (response_outcome (response_received (response_sent cfg (rq_ID q) resp)), seq + 1, n)"
  by (rule http_call_served[where sched = sched, OF assms])

section \<open>The sample server over HTTP\<close>

text \<open>
  A lexer for requests and responses without nested objects: it knows the members of the texts
  of a table, and what follows is as the token lexer has it, with the numbers 1 and 2.
\<close>

fun flat :: "(bytes \<times> wire) list \<Rightarrow> (bytes \<times> lexval) list" where
  "flat [] = []" | "flat ((k, Scalar v) # ms) = (k, v) # flat ms" | "flat ((k, Object _) # ms) = flat ms"

definition table_members :: "(bytes \<times> wire) list list \<Rightarrow> bytes \<Rightarrow> (bytes \<times> lexval) list" where
  "table_members mss t = (case find (\<lambda>ms. object_text (map (map_prod id wire_text) ms) = t) mss of None \<Rightarrow> [] | Some ms \<Rightarrow> flat ms)"

definition table_lexer :: "(bytes \<times> wire) list list \<Rightarrow> tlex jlexer" where
  "table_lexer mss = (token_lexer [])\<lparr>lx_new := (\<lambda>t. TStart (table_members mss t)),
     lx_Int := (\<lambda>l. (if tl_val l = LRaw ''2'' then 2 else 1, tl_next l))\<rparr>"

lemma itoa_digits: "itoa n = ''1'' \<longleftrightarrow> n = 1" "itoa n = ''2'' \<longleftrightarrow> n = 2"
proof -
  have pos: "0 \<le> n" if "itoa n = [c]" for n c
    using that nat_digits_ne by (cases "0 \<le> n") (auto simp: itoa_def)
  have two: "itoa 2 = ''2''" by code_simp
  show "itoa n = ''1'' \<longleftrightarrow> n = 1" using pos[of n] itoa_inj[of n 1] itoa_1 by auto
  show "itoa n = ''2'' \<longleftrightarrow> n = 2" using pos[of n] itoa_inj[of n 2] two by auto
qed

definition not_number :: "bytes \<Rightarrow> bool" where
  "not_number b \<longleftrightarrow> (\<forall>n. b \<noteq> itoa n)"

definition plain_member :: "wire \<Rightarrow> bool" where
  "plain_member x \<longleftrightarrow> (\<exists>v. x = Scalar v \<and> raw_of v \<noteq> [] \<and>
     (\<forall>raw. v = LRaw raw \<longrightarrow> raw \<in> {''1'', ''2''} \<or> not_number raw))"

lemma delivered_flat:
  assumes "\<forall>(k, x) \<in> set ms. plain_member x"
  shows "delivered (table_lexer mss) (wire_at (table_lexer mss)) (TKeys (flat ms)) ms (TKeys [])"
  using assms
proof (induction ms)
  case Nil
  show ?case by (rule delivered.done_all) (simp add: table_lexer_def token_lexer_def)
next
  case (Cons m ms)
  obtain k v where m: "m = (k, Scalar v)" "raw_of v \<noteq> []" "\<forall>raw. v = LRaw raw \<longrightarrow> raw \<in> {''1'', ''2''} \<or> not_number raw"
    using Cons.prems by (cases m) (auto simp: plain_member_def)
  show ?case unfolding m(1)
  proof (rule delivered.deliver_next)
    show "lx_IsDelim (table_lexer mss) (TKeys (flat ((k, Scalar v) # ms))) RBRACE = (False, TKeys ((k, v) # flat ms))"
      "lx_UnsafeFieldName (table_lexer mss) (TKeys ((k, v) # flat ms)) = (k, TVal v (flat ms))"
      by (simp_all add: table_lexer_def token_lexer_def)
    show "wire_at (table_lexer mss) (lx_WantColon (table_lexer mss) (TVal v (flat ms))) (Scalar v) (TKeys (flat ms))"
      using m(2,3) by (cases v) (auto simp: scalar_at_def table_lexer_def token_lexer_def not_number_def itoa_digits eq_commute[of _ "itoa _"])
    show "delivered (table_lexer mss) (wire_at (table_lexer mss)) (lx_WantComma (table_lexer mss) (TKeys (flat ms))) ms (TKeys [])"
      using Cons by (simp add: table_lexer_def token_lexer_def)
  qed
qed

lemma table_lexes:
  assumes "\<forall>(k, x) \<in> set ms. plain_member x"
    and "table_members mss (object_text (map (map_prod id wire_text) ms)) = flat ms"
  shows "lexes (table_lexer mss) ms"
proof -
  have "lx_new (table_lexer mss) (object_text (map (map_prod id wire_text) ms)) = TStart (flat ms)"
    using assms(2) by (simp add: table_lexer_def)
  with delivered_flat[OF assms(1), of mss] show ?thesis
    by (auto simp: lexes_def Let_def) (auto simp: table_lexer_def token_lexer_def)
qed

text \<open>Every text decodes to some request.\<close>

lemma table_decodes: "Request_UnmarshalJSON (table_lexer mss) zero_request e \<noteq> None"
proof -
  let ?lx = "table_lexer mss"
  have loop: "\<exists>v'. object_loop ?lx (Request_field ?lx) v (TKeys ms) = Some (v', TKeys [])" for v ms
  proof (induction ms arbitrary: v)
    case Nil
    show ?case by (subst object_loop.simps) (simp add: table_lexer_def token_lexer_def)
  next
    case (Cons m ms)
    obtain k x where m: "m = (k, x)" by (cases m)
    have "\<exists>v'. Request_field ?lx k v (TVal x ms) = Some (v', TKeys ms)"
      by (auto simp: Request_field_def Let_def table_lexer_def token_lexer_def)
    then obtain v' where "Request_field ?lx k v (TVal x ms) = Some (v', TKeys ms)" by blast
    with Cons.IH[of v'] m show ?case
      by (subst object_loop.simps) (simp add: table_lexer_def token_lexer_def)
  qed
  from loop[of zero_request "table_members mss e"] show ?thesis
    by (auto simp: Request_UnmarshalJSON_def Request_UnmarshalEasyJSON_def decode_struct_def table_lexer_def token_lexer_def)
qed

lemma true_not_number: "not_number ''true''"
proof -
  have "''true'' \<noteq> itoa n" for n :: int
  proof
    assume n: "''true'' = itoa n"
    show False
    proof (cases "0 \<le> n")
      case True
      then have "nat_digits (nat n) = ''true''" using n by (simp add: itoa_nonneg)
      then show False using nat_digits_all[of isDigit "nat n"] digit_isDigit by (simp add: isDigit_def byte_val_def)
    next
      case False
      then show False using n by (simp add: itoa_def)
    qed
  qed
  then show ?thesis by (simp add: not_number_def)
qed

definition echo_request :: request where
  "echo_request = \<lparr>rq_Version = Version, rq_Method = ''echo'', rq_Params = Some ''true'', rq_ID = Some ''1''\<rparr>"

definition echo_response :: response where
  "echo_response = NewResponse (AID (Some ''1'')) (Some (Some ''true'')) None"

definition echo_lexer :: "tlex jlexer" where
  "echo_lexer = table_lexer [request_wire json_string echo_request, response_wire json_string echo_response]"

lemma echo_lexes: "lexes echo_lexer (request_wire json_string echo_request)" "lexes echo_lexer (response_wire json_string echo_response)"
proof -
  let ?mss = "[request_wire json_string echo_request, response_wire json_string echo_response]"
  have t: "table_members ?mss (object_text (map (map_prod id wire_text) (request_wire json_string echo_request))) =
      flat (request_wire json_string echo_request)"
    "table_members ?mss (object_text (map (map_prod id wire_text) (response_wire json_string echo_response))) =
      flat (response_wire json_string echo_response)" by code_simp+
  show "lexes echo_lexer (request_wire json_string echo_request)" unfolding echo_lexer_def
    by (rule table_lexes[OF _ t(1)])
      (auto simp: plain_member_def request_wire_def echo_request_def value_of_def id_text_def json_string_def true_not_number)
  show "lexes echo_lexer (response_wire json_string echo_response)" unfolding echo_lexer_def
    by (rule table_lexes[OF _ t(2)])
      (auto simp: plain_member_def response_wire_def echo_response_def value_of_def id_text_def json_string_def true_not_number NewResponse_def toID_def)
qed

lemma echo_run: "\<exists>d. handleRPC sample_env sample_ctx sample (request_received echo_request) 0 = Some d \<and> hd_resp d = Some echo_response"
proof -
  have "request_received echo_request = echo_request" by code_simp
  moreover have "validateRequest echo_request = None" by code_simp
  ultimately show ?thesis
    by (simp add: sample_run sample_simps echo_request_def echo_response_def)
qed

theorem wire_roundtrip_witness:
  "Request_UnmarshalJSON echo_lexer zero_request (projr (Request_MarshalJSON buffer_writer echo_request)) = Some (echo_request, None) \<and>
   Response_UnmarshalJSON echo_lexer zero_response (projr (Response_MarshalJSON buffer_writer echo_response)) = Some (echo_response, None)"
proof -
  have f: "response_failure echo_response = None" by code_simp
  have "response_received echo_response = echo_response" by code_simp
  with wire_roundtrip[OF buffer_writer_ok echo_lexes(1) f echo_lexes(2)] show ?thesis
    by (auto simp: echo_request_def id_text_def)
qed

theorem http_call_reaches_server_witness:
  "http_Call buffer_writer echo_lexer (served (dispatcher buffer_writer echo_lexer (\<lambda>_. (sample_env, 0)) sample_ctx sample) (http_Handler []))
     (http_NewClient () ''http://host/rpc'' []) ''echo'' (ARawMessage (Some ''true'')) (0, ()) =
   Some (Inr (Some ''true''), 1, ())"
proof -
  obtain d where d: "handleRPC sample_env sample_ctx sample (request_received echo_request) 0 = Some d" "hd_resp d = Some echo_response"
    using echo_run by blast
  have s: "response_sent sample (rq_ID echo_request) echo_response = echo_response" by code_simp
  have len: "length (response_text json_string echo_response) < 100" "length (object_text (request_members json_string echo_request)) < 100"
    by code_simp+
  have out: "response_outcome (response_received echo_response) = (Inr (Some ''true'') :: http_err call_err + slice)" by code_simp
  have q: "echo_request = \<lparr>rq_Version = Version, rq_Method = ''echo'', rq_Params = Some ''true'', rq_ID = Some (itoa (0 + 1))\<rparr>"
    by (simp add: echo_request_def itoa_1)
  let ?c = "http_NewClient () ''http://host/rpc'' []"
  have c: "ht_maxResponseSize ?c = 16777216" "hh_maxBodySize (http_Handler []) = 1048576" "cf_maxMessageSize sample = 0"
    by (simp_all add: http_NewClient_def DefaultMaxResponseSize_def http_Handler_def DefaultMaxBodySize_def sample_defs)
  have r: "hd_resp d = Some resp \<Longrightarrow> lexes echo_lexer (response_wire json_string (response_sent sample (rq_ID echo_request) resp)) \<and>
      int (length (response_text json_string (response_sent sample (rq_ID echo_request) resp))) < ht_maxResponseSize ?c" for resp
    using d(2) s echo_lexes(2) len(1) c(1) by simp
  have "\<exists>resp. hd_resp d = Some resp \<and>
    http_Call buffer_writer echo_lexer (served (dispatcher buffer_writer echo_lexer (\<lambda>_. (sample_env, 0)) sample_ctx sample) (http_Handler []))
      ?c ''echo'' (ARawMessage (Some ''true'')) (0, ()) =
      Some (response_outcome (response_received (response_sent sample (rq_ID echo_request) resp)), 0 + 1, ())"
    by (rule http_call_reaches_server[OF buffer_writer_ok sample_ok _ _ q _ echo_lexes(1) r])
      (use d(1) len c in \<open>simp_all add: MarshalParams_def\<close>)
  then show ?thesis using d(2) s out by simp
qed

section \<open>A broken id among its siblings\<close>

text \<open>
  Three calls in a batch. The id of the second is the token \<open>1e\<close>, which is not JSON but which the
  lexer of easyjson delivers; and so does the lexer here.
\<close>

definition sibling :: "bytes \<Rightarrow> request" where
  "sibling v = \<lparr>rq_Version = Version, rq_Method = ''echo'', rq_Params = Some ''true'', rq_ID = Some v\<rparr>"

definition sibling_lexer :: "tlex jlexer" where
  "sibling_lexer = table_lexer (map (\<lambda>v. request_wire json_string (sibling v)) [''1'', ''1e'', ''2''])"

definition sibling_batch :: bytes where
  "sibling_batch = array_text (map (\<lambda>v. object_text (request_members json_string (sibling v))) [''1'', ''1e'', ''2''])"

definition sibling_result :: "bytes \<Rightarrow> response" where
  "sibling_result v = NewResponse (AID (Some v)) (Some (Some ''true'')) None"

definition sibling_error :: response where
  "sibling_error = newError ''invalid_request_not_conforming_to_spec'' InvalidRequestErrorCode ANil ANil"

definition sibling_reply :: bytes where
  "sibling_reply = array_text (map (response_text json_string) [sibling_result ''1'', sibling_error, sibling_result ''2''])"

lemma broken_not_number: "not_number ''1e''"
proof -
  have "''1e'' \<noteq> itoa n" for n :: int
  proof
    assume n: "''1e'' = itoa n"
    show False
    proof (cases "0 \<le> n")
      case True
      then have "nat_digits (nat n) = ''1e''" using n by (simp add: itoa_nonneg)
      then show False using nat_digits_all[of isDigit "nat n"] digit_isDigit by (simp add: isDigit_def byte_val_def)
    next
      case False
      then show False using n by (simp add: itoa_def)
    qed
  qed
  then show ?thesis by (simp add: not_number_def)
qed

lemma sibling_decoded:
  assumes "v \<in> set [''1'', ''1e'', ''2'']"
  shows "Request_UnmarshalJSON sibling_lexer zero_request (object_text (request_members json_string (sibling v))) = Some (sibling v, None)"
proof -
  let ?mss = "map (\<lambda>v. request_wire json_string (sibling v)) [''1'', ''1e'', ''2'']"
  have "table_members ?mss (object_text (map (map_prod id wire_text) (?mss ! 0))) = flat (?mss ! 0)"
    "table_members ?mss (object_text (map (map_prod id wire_text) (?mss ! 1))) = flat (?mss ! 1)"
    "table_members ?mss (object_text (map (map_prod id wire_text) (?mss ! 2))) = flat (?mss ! 2)" by code_simp+
  then have t: "table_members ?mss (object_text (map (map_prod id wire_text) (request_wire json_string (sibling v)))) =
      flat (request_wire json_string (sibling v))"
    using assms by auto
  have "lexes sibling_lexer (request_wire json_string (sibling v))" unfolding sibling_lexer_def
    by (rule table_lexes[OF _ t])
      (use assms in \<open>auto simp: plain_member_def request_wire_def sibling_def value_of_def id_text_def json_string_def true_not_number broken_not_number\<close>)
  moreover have "request_received (sibling v) = sibling v" using assms by (auto simp: request_received_def sibling_def id_text_def)
  ultimately show ?thesis using request_decoded[of sibling_lexer json_string "sibling v"] by simp
qed

lemma sibling_split:
  "splitBatchElements (TrimSpace sibling_batch) = Some (map (\<lambda>v. object_text (request_members json_string (sibling v))) [''1'', ''1e'', ''2''])"
  "TrimSpace sibling_batch = sibling_batch" "approxBatchLen sibling_batch 100 = 3"
  "hd sibling_batch = LBRACK" "last sibling_batch = RBRACK" "2 \<le> length sibling_batch"
  by code_simp+

lemma sibling_whole: "Request_UnmarshalJSON sibling_lexer zero_request sibling_batch = Some (zero_request, None)"
proof -
  have "table_members (map (\<lambda>v. request_wire json_string (sibling v)) [''1'', ''1e'', ''2'']) sibling_batch = []" by code_simp
  then have t: "lx_new sibling_lexer sibling_batch = TStart []" by (simp add: sibling_lexer_def table_lexer_def)
  have l: "lx_IsStart sibling_lexer (TStart [])" "lx_IsNull sibling_lexer (TStart []) = (False, TStart [])"
    "lx_Delim sibling_lexer (TStart []) c = TKeys []" "lx_Delim sibling_lexer (TKeys []) c = TEnd" "lx_Consumed sibling_lexer x = x"
    "lx_Error sibling_lexer x = None" "lx_Ok sibling_lexer x" for x c
    by (simp_all add: sibling_lexer_def table_lexer_def token_lexer_def)
  have "object_loop sibling_lexer f zero_request (TKeys []) = Some (zero_request, TKeys [])" for f
    by (subst object_loop.simps) (simp add: sibling_lexer_def table_lexer_def token_lexer_def)
  then show ?thesis
    by (simp add: Request_UnmarshalJSON_def Request_UnmarshalEasyJSON_def decode_struct_def t l)
qed

lemma sibling_requests: "requests_of sibling_lexer sibling_batch = {zero_request, sibling ''1'', sibling ''1e'', sibling ''2''}"
  unfolding requests_of_def sibling_split(1) option.simps
  using sibling_decoded sibling_whole by (auto simp: sibling_split(2))

lemma sibling_run:
  assumes "v \<in> {''1'', ''2''}"
  shows "\<exists>h. handleRPC env sample_ctx sample (sibling v) start = Some h \<and> hd_resp h = Some (sibling_result v)"
proof -
  have "validateRequest (sibling ''1'') = None" "validateRequest (sibling ''2'') = None" by code_simp+
  then have v: "validateRequest (sibling v) = None" using assms by auto
  have t: "\<not> start + 30 * second \<le> start + 5" "max start (start + 30 * second) = start + 30 * second" by (simp_all add: second_def)
  have "slice_len (Some v) \<noteq> 0" using assms by auto
  then show ?thesis
    using v t
    by (simp add: handleRPC_def dispatch_def rpc_call_def callGlobalInterceptors_def WithTimeoutCtx_def
        method_timeout_def ctx_Err_def observe_def observeOutcome_def sample_ctx_def sibling_def sibling_result_def
        zero_methodinfo_def Let_def sample_simps)
qed

lemma invalid_run:
  assumes "validateRequest q \<noteq> None"
  shows "\<exists>h. handleRPC env sample_ctx sample q start = Some h \<and> hd_resp h =
    Some (newError ''invalid_request_not_conforming_to_spec'' InvalidRequestErrorCode ANil
      (AID (if slice_len (rq_ID q) > 0 \<and> \<not> Valid (slice_bytes (rq_ID q)) then None else rq_ID q)))"
proof -
  obtain x where x: "validateRequest q = Some (errors_New x)" using assms by (auto simp: validateRequest_def split: if_splits)
  have "fst (errorResponse sample (Some (errors_New x)) InvalidRequestErrorCode v) =
      newError ''invalid_request_not_conforming_to_spec'' InvalidRequestErrorCode ANil v" for v
    by (simp add: errorResponse_public public_error_def rpc_error_of_def errors_New_def newError_def sample_simps
        default_errors_def code_defs)
  then show ?thesis by (simp add: handleRPC_def x Let_def case_prod_unfold observe_def sample_simps observeOutcome_def)
qed

lemma sibling_payloads: "payloads_ok sibling_lexer sample_ctx sample sibling_batch"
  unfolding payloads_ok_def sibling_requests
proof (intro ballI allI impI)
  fix req env start h resp
  assume req: "req \<in> {zero_request, sibling ''1'', sibling ''1e'', sibling ''2''}"
    and h: "handleRPC env sample_ctx sample req start = Some h" "hd_resp h = Some resp"
  have result: "supplied_ok 1 (sibling_result v)" for v unfolding supplied_ok_def sibling_result_def by simp code_simp
  have "validateRequest zero_request \<noteq> None" "validateRequest (sibling ''1e'') \<noteq> None" by code_simp+
  with req consider "validateRequest req \<noteq> None" | v where "v \<in> {''1'', ''2''}" "req = sibling v" by blast
  then show "supplied_ok 1 resp"
  proof cases
    case 1
    with invalid_run[OF 1, of env start] h show ?thesis by (auto intro: supplied_ok_error simp: newError_def)
  next
    case (2 v)
    with sibling_run[OF 2(1), of env start] h result show ?thesis by auto
  qed
qed

lemma sibling_shallow: "shallow_ids sibling_lexer sibling_batch"
proof -
  have "nesting (slice_bytes (rq_ID req)) = 0" if "req \<in> {zero_request, sibling ''1'', sibling ''1e'', sibling ''2''}" for req
  proof -
    have "list_all (\<lambda>req. nesting (slice_bytes (rq_ID req)) = 0) [zero_request, sibling ''1'', sibling ''1e'', sibling ''2'']" by code_simp
    with that show ?thesis by auto
  qed
  then show ?thesis unfolding shallow_ids_def sibling_requests by (simp add: maxNestingDepth_def)
qed

lemma sibling_message:
  "\<exists>m. HandleRPCJSONRawMessage buffer_writer sibling_lexer (\<lambda>_. (sample_env, 0)) sample_ctx sample sibling_batch = Some m \<and>
     mr_reply m = Some sibling_reply"
proof -
  let ?s = "\<lambda>_. (sample_env, 0)" and ?reqs = "[sibling ''1'', sibling ''1e'', sibling ''2'']" and ?f = "[False, False, False]"
  let ?es = "map (\<lambda>v. object_text (request_members json_string (sibling v))) [''1'', ''1e'', ''2'']"
  have d: "decode_entries sibling_lexer ?es = Some (Some (?reqs, ?f))"
    using sibling_decoded by simp
  have i: "validateRequest (sibling ''1e'') \<noteq> None" "\<not> Valid ''1e''" by code_simp+
  obtain h0 where h0: "batch_entry ?s sample_ctx sample ?reqs (Some ?f) 0 = Some h0" "hd_resp h0 = Some (sibling_result ''1'')"
    using sibling_run[of "''1''" sample_env 0] by (auto simp: batch_entry_def)
  obtain h1 where h1: "batch_entry ?s sample_ctx sample ?reqs (Some ?f) 1 = Some h1" "hd_resp h1 = Some sibling_error"
    using invalid_run[OF i(1), of sample_env 0] i(2)
    by (auto simp: batch_entry_def sibling_def sibling_error_def newError_def NewResponse_def toID_def)
  obtain h2 where h2: "batch_entry ?s sample_ctx sample ?reqs (Some ?f) 2 = Some h2" "hd_resp h2 = Some (sibling_result ''2'')"
    using sibling_run[of "''2''" sample_env 0] by (auto simp: batch_entry_def)
  let ?rs = "[sibling_result ''1'', sibling_error, sibling_result ''2'']"
  have u: "[0..<length ?reqs] = [0, 1, 2]" by (simp add: upt_rec)
  have b: "handleBatchRPC ?s sample_ctx sample ?reqs (Some ?f) = Some ?rs"
    unfolding handleBatchRPC_def u Let_def using h0 h1 h2 by (simp add: List.map_filter_simps)
  have f: "response_failure r = None" if "r \<in> set ?rs" for r
    using that by (auto simp: response_failure_def sibling_result_def sibling_error_def newError_def)
  obtain log where m: "marshal_batch buffer_writer sample ?rs = Some \<lparr>mr_reply = Some (array_text (map (\<lambda>r. response_text json_string (repaired sample r)) ?rs)), mr_log = log\<rparr>"
    using marshal_batch_cases[OF buffer_writer_ok, of sample ?rs] by blast
  have "map (\<lambda>r. response_text json_string (repaired sample r)) ?rs = map (response_text json_string) ?rs"
    using f by (simp add: repaired_def)
  then have r: "array_text (map (\<lambda>r. response_text json_string (repaired sample r)) ?rs) = sibling_reply" by (simp only: sibling_reply_def)
  have c: "cf_maxMessageSize sample = 0" "cf_maxBatchSize sample = 100" by (simp_all add: sample_defs DefaultMaxBatchSize_def)
  have "handle_array buffer_writer sibling_lexer ?s sample_ctx sample sibling_batch = marshal_batch buffer_writer sample ?rs"
    unfolding handle_array_def sibling_split(1)[unfolded sibling_split(2)] option.simps d prod.simps b by simp
  then have "HandleRPCJSONRawMessage buffer_writer sibling_lexer ?s sample_ctx sample sibling_batch = marshal_batch buffer_writer sample ?rs"
    using sibling_split(3-6) unfolding HandleRPCJSONRawMessage_def Let_def c sibling_split(2) by auto
  with m r show ?thesis by simp
qed

theorem HandleRPCJSONRawMessage_reply_valid_witness:
  "\<exists>m. HandleRPCJSONRawMessage buffer_writer sibling_lexer (\<lambda>_. (sample_env, 0)) sample_ctx sample sibling_batch = Some m \<and>
     mr_reply m = Some (array_text (map (response_text json_string) [sibling_result ''1'', sibling_error, sibling_result ''2''])) \<and>
     rs_ID sibling_error = None \<and> Valid (the (mr_reply m))"
proof -
  obtain m where m: "HandleRPCJSONRawMessage buffer_writer sibling_lexer (\<lambda>_. (sample_env, 0)) sample_ctx sample sibling_batch = Some m"
    "mr_reply m = Some sibling_reply" using sibling_message by blast
  from HandleRPCJSONRawMessage_reply_valid[OF buffer_writer_ok quote_ok_json_string sibling_payloads sibling_shallow m] m
  show ?thesis by (auto simp: sibling_reply_def sibling_error_def newError_def NewResponse_def toID_def)
qed

end
