(* ===== verification/Transcripts.thy ===== *)
theory Transcripts
  imports Remote Sessions
begin

text \<open>
  Sessions of the stdio server over the dispatcher, from the requests of the peer to the frames
  of the replies, for every configuration whose answers depend on the request alone.
\<close>

section \<open>The reply to a request\<close>

definition request_text :: "(bytes \<Rightarrow> bytes) \<Rightarrow> request \<Rightarrow> bytes" where
  "request_text quote q = object_text (request_members quote q)"

definition session_reply :: "(bytes \<Rightarrow> bytes) \<Rightarrow> ('e, 'v) config \<Rightarrow> (request \<Rightarrow> response option) \<Rightarrow> request \<Rightarrow> bytes option" where
  "session_reply quote cfg f q =
     map_option (\<lambda>r. response_text quote (response_sent cfg (rq_ID (request_received q)) r)) (f (request_received q))"

definition session_replies :: "(bytes \<Rightarrow> bytes) \<Rightarrow> ('e, 'v) config \<Rightarrow> (request \<Rightarrow> response option) \<Rightarrow> request list \<Rightarrow> bytes list" where
  "session_replies quote cfg f qs = List.map_filter (session_reply quote cfg f) qs"

lemma request_text_ends:
  "request_text quote q \<noteq> []" "hd (request_text quote q) = LBRACE" "last (request_text quote q) = RBRACE"
  "2 \<le> length (request_text quote q)" "TrimSpace (request_text quote q) = request_text quote q"
proof -
  have m: "request_members quote q \<noteq> []" by (simp add: request_members_def)
  show "request_text quote q \<noteq> []" "hd (request_text quote q) = LBRACE" "last (request_text quote q) = RBRACE"
    "2 \<le> length (request_text quote q)" "TrimSpace (request_text quote q) = request_text quote q"
    using object_text_ends[OF m] object_text_trimmed[OF m] by (simp_all add: request_text_def)
qed

lemma response_text_ends:
  "response_text quote r \<noteq> []" "hd (response_text quote r) = LBRACE" "last (response_text quote r) = RBRACE"
  "TrimSpace (response_text quote r) = response_text quote r"
proof -
  have m: "response_members quote r \<noteq> []" by (simp add: response_members_def)
  show "response_text quote r \<noteq> []" "hd (response_text quote r) = LBRACE" "last (response_text quote r) = RBRACE"
    "TrimSpace (response_text quote r) = response_text quote r"
    using object_text_ends[OF m] object_text_trimmed[OF m] by (simp_all add: response_text_def)
qed

lemma session_reply_ne: "session_reply quote cfg f q = Some m \<Longrightarrow> m \<noteq> []"
  by (auto simp: session_reply_def response_text_ends)

lemma message_reply:
  assumes "jwriter_ok jw quote view" "lexes lx (request_wire quote q)" "answers_by C cfg f" "C ctx"
    and "cf_maxMessageSize cfg \<le> 0 \<or> int (length (request_text quote q)) \<le> cf_maxMessageSize cfg"
  shows "dispatcher jw lx sched ctx cfg (request_text quote q) = Some (session_reply quote cfg f q)"
proof (cases "f (request_received q)")
  case (Some r)
  obtain d where "handleRPC (fst (sched 0)) ctx cfg (request_received q) (snd (sched 0)) = Some d" "hd_resp d = Some r"
    using answers_byD[OF assms(3,4), of "fst (sched 0)" "request_received q" "snd (sched 0)"] Some by auto
  from message_answered[where sched = sched, OF assms(1,2) _ this] assms(5) show ?thesis
    by (simp add: session_reply_def Some request_text_def)
next
  case None
  have "handle_object jw lx sched ctx cfg (request_text quote q) = silent"
    by (simp add: handle_object_answer[OF assms(3,4)] request_text_def request_decoded[OF assms(2)] None)
  then show ?thesis using request_text_ends[of quote q] assms(5)
    by (auto simp: dispatcher_def HandleRPCJSONRawMessage_def Let_def session_reply_def None silent_def)
qed

section \<open>The session\<close>

lemma answered_requests:
  assumes "\<And>q. q \<in> set qs \<Longrightarrow> h (request_text quote q) = session_reply quote cfg f q"
    and "\<And>m. m \<in> set (session_replies quote cfg f qs) \<Longrightarrow> W m \<noteq> None"
  shows "answers W h (map (request_text quote) qs) = session_replies quote cfg f qs"
  using assms
proof (induction qs)
  case (Cons q qs)
  have "answers W h (map (request_text quote) qs) = session_replies quote cfg f qs"
    using Cons by (auto simp: session_replies_def List.map_filter_simps split: option.splits)
  then show ?case using Cons.prems(1)[of q] Cons.prems(2)[of "the (session_reply quote cfg f q)"]
    by (cases "session_reply quote cfg f q")
      (auto simp: answers_def session_replies_def List.map_filter_simps session_reply_ne)
qed (simp add: session_replies_def List.map_filter_simps)

text \<open>What a session of requests has read, answered and written when it has ended with nil.\<close>

lemma session_transcript:
  fixes cfg :: "('e, 'v) config"
  assumes "jwriter_ok jw quote view" "io_writer wr out" "answers_by C cfg f" "C ctx"
    and "Serve_start rpcNil fid (Some \<lparr>rd_rest = concat (map (the \<circ> frame_wire f0 \<circ> request_text quote) qs), rd_end = StreamEOF\<rparr>)
      (Some w) opts ctxErr = Inr (srv, s0)" "list_all serve_option opts" "f0 = cn_fr (sv_conn s0)"
    and "\<And>q. q \<in> set qs \<Longrightarrow> lexes lx (request_wire quote q) \<and> frame_sendable f0 (request_text quote q) \<and>
      frame_received f0 (request_text quote q) = request_text quote q \<and>
      (cf_maxMessageSize cfg \<le> 0 \<or> int (length (request_text quote q)) \<le> cf_maxMessageSize cfg)"
    and "\<And>m. m \<in> set (session_replies quote cfg f qs) \<Longrightarrow> frame_wire f0 m \<noteq> None"
    and "(serve_step wr (sr_maxCalls srv) (dispatcher_replies jw lx ctx cfg))\<^sup>*\<^sup>* s0 s" "sv_phase s = Returned None"
  shows "sv_read s = map (request_text quote) qs" "mset (responses s) = mset (session_replies quote cfg f qs)"
    "sr_maxCalls srv = 1 \<Longrightarrow> responses s = session_replies quote cfg f qs"
    "list_all fst (sv_sent s) \<Longrightarrow> conn_out out (sv_conn s) = out w @ concat (map (the \<circ> frame_wire f0) (responses s))"
proof -
  let ?h = "\<lambda>d. the (dispatcher jw lx (undefined :: nat \<Rightarrow> 'e env \<times> int) ctx cfg d)" and ?ms = "map (request_text quote) qs"
  have run: "(serve_step wr (sr_maxCalls srv) (reply_to ?h))\<^sup>*\<^sup>* s0 s"
    using serve_run_replies[OF assms(10), of "reply_to ?h"] replies_fixed[OF assms(3,4)] by metis
  have ms: "list_all (frame_sendable f0) ?ms" "map (frame_received f0) ?ms = ?ms"
    using assms(8) by (auto simp: list_all_iff)
  have "concat (map (the \<circ> frame_wire f0 \<circ> request_text quote) qs) = concat (map (the \<circ> frame_wire f0) ?ms)" by simp
  note ended = clean_session[OF assms(2,5,6,7) ms(1) this run assms(11), unfolded ms(2)]
  have "?h (request_text quote q) = session_reply quote cfg f q" if "q \<in> set qs" for q
    using message_reply[OF assms(1) _ assms(3,4), of lx q] assms(8)[OF that] by simp
  then have ans: "answers (frame_wire f0) ?h ?ms = session_replies quote cfg f qs"
    by (rule answered_requests[OF _ assms(9)])
  show "sv_read s = ?ms" "mset (responses s) = mset (session_replies quote cfg f qs)"
    "sr_maxCalls srv = 1 \<Longrightarrow> responses s = session_replies quote cfg f qs"
    using ended(1-3) ans by simp_all
  have "responses s = map snd (sv_sent s)" if "list_all fst (sv_sent s)"
    using that by (simp add: responses_def list_all_iff)
  with ended(4) show "list_all fst (sv_sent s) \<Longrightarrow>
      conn_out out (sv_conn s) = out w @ concat (map (the \<circ> frame_wire f0) (responses s))"
    by simp
qed

text \<open>Such sessions exist: if every message decodes, the server can serve its peer to the end.\<close>

lemma session_exists:
  fixes cfg :: "('e, 'v) config"
  assumes "\<forall>w p. fst (wr w p) = None" "io_writer wr out" "answers_by C cfg f" "C ctx"
    and "\<And>e. Request_UnmarshalJSON lx zero_request e \<noteq> None"
    and "Serve_start rpcNil fid (Some \<lparr>rd_rest = input, rd_end = StreamEOF\<rparr>) (Some w) opts None = Inr (srv, s0)"
    and "list_all serve_option opts" "sr_maxCalls srv = 1" "f0 = cn_fr (sv_conn s0)"
    and "list_all (frame_sendable f0) ms" "input = concat (map (the \<circ> frame_wire f0) ms)"
  shows "\<exists>s. (serve_step wr 1 (dispatcher_replies jw lx ctx cfg))\<^sup>*\<^sup>* s0 s \<and> sv_phase s = Returned None \<and> list_all fst (sv_sent s)"
proof -
  let ?h = "\<lambda>d. the (dispatcher jw lx (undefined :: nat \<Rightarrow> 'e env \<times> int) ctx cfg d)"
  obtain s where s: "(serve_step wr 1 (reply_to ?h))\<^sup>*\<^sup>* s0 s" "sv_phase s = Returned None" "list_all fst (sv_sent s)"
    using serve_session_completes[OF assms(1,2,6-11)] by blast
  have "dispatcher_replies jw lx ctx cfg d r" if "reply_to ?h d r" for d r
    using that dispatcher_returns[OF assms(3-5), where jw = jw and d = d and sched = undefined]
    unfolding dispatcher_replies_def reply_to_def by (metis option.collapse)
  with s serve_run_replies[OF s(1)] show ?thesis by blast
qed

section \<open>Messages of one line\<close>

definition line :: "bytes \<Rightarrow> bytes" where "line m = m @ [LF]"

lemma one_line_received: "LF \<notin> set m \<Longrightarrow> frame_received g m = m"
  using no_LF_payload[of m] by (cases g) auto

lemma one_line_wire: "LF \<notin> set m \<Longrightarrow> frame_wire g m \<noteq> None"
  using no_LF_payload[of m] by (cases g) auto

lemma one_line_sendable:
  assumes "LF \<notin> set m" "hd m = LBRACE" "last m = RBRACE" "m \<noteq> []"
    and "int (length m) \<le> fb_maxSize (framer_base g)" "length m < 2 ^ 63"
  shows "frame_sendable g m"
  using assms not_header_prefix[OF assms(4)] no_LF_payload[OF assms(1)] by (cases g) auto

lemma LF_object: "LF \<notin> set (object_text ms) \<longleftrightarrow> (\<forall>(k, v) \<in> set ms. LF \<notin> set k \<and> LF \<notin> set v)"
  by (cases ms) (auto simp: member_def)

end
