(* ===== verification/McpSession.thy ===== *)
theory McpSession
  imports ProgramsProps Transcripts
begin

text \<open>
  Sessions of the MCP server from the bytes of stdin to the bytes of stdout: the framing, the
  loop of \<open>Serve\<close>, the codecs, the dispatcher and the handlers of \<open>example/mcp-stdio\<close> together.
\<close>

section \<open>The transcript of an MCP session\<close>

lemma mcp_answer_sendable: "mcp_answer mc q = Some resp \<Longrightarrow> response_sent cfg v resp = resp"
  by (auto simp: mcp_answer_def mcp_error_def response_sent_def response_failure_def split: if_splits sum.splits)

lemma mcp_reply: "session_reply quote (mcp_server mc p) (mcp_answer mc) q = map_option (response_text quote) (mcp_answer mc (request_received q))"
  by (cases "mcp_answer mc (request_received q)") (simp_all add: session_reply_def mcp_answer_sendable)

text \<open>Nothing that is written contains a newline.\<close>

lemma itoa_no_LF: "LF \<notin> set (itoa i)"
proof -
  have "d < 10 \<Longrightarrow> digit d \<noteq> LF" for d using digit_isDigit[of d] by (auto simp: isDigit_def byte_val_def)
  then have "list_all (\<lambda>c. c \<noteq> LF) (nat_digits n)" for n by (rule nat_digits_all)
  then show ?thesis by (auto simp: itoa_def list_all_iff)
qed

lemma result_no_LF: "mcp_result mc name data = Inr raw \<Longrightarrow> LF \<notin> set raw"
  by (auto simp: mcp_result_def initialize_text_def tools_text_def sum_text_def itoa_no_LF Let_def
      split: if_splits option.splits)

lemma response_no_LF:
  assumes "\<And>t. LF \<notin> set (quote t)" "LF \<notin> set (id_text (rs_ID r))" "\<And>m. rs_Result r = Some m \<Longrightarrow> LF \<notin> set (id_text m)"
    "\<And>e. rs_Error r = Some e \<Longrightarrow> er_Data e = ANil"
  shows "LF \<notin> set (response_text quote r)"
proof -
  have "LF \<notin> set (object_text (error_members quote e))" if "rs_Error r = Some e" for e
    using assms(4)[OF that] by (simp add: error_members_def LF_object itoa_no_LF assms(1) del: object_text.simps)
  then have "\<forall>(k, v) \<in> set (response_members quote r). LF \<notin> set k \<and> LF \<notin> set v"
    using assms(1-3) by (cases "rs_Result r"; cases "rs_Error r") (simp_all add: response_members_def)
  then show ?thesis by (simp add: response_text_def LF_object del: object_text.simps)
qed

lemma id_no_LF: "LF \<notin> set (request_text quote q) \<Longrightarrow> LF \<notin> set (id_text (rq_ID (request_received q)))"
  by (auto simp: request_text_def request_members_def LF_object request_received_def id_text_def slice_len_def member_def split: if_splits)

lemma answer_no_LF:
  assumes "\<And>t. LF \<notin> set (quote t)" "LF \<notin> set (request_text quote q)" "mcp_answer mc (request_received q) = Some r"
  shows "LF \<notin> set (response_text quote r)"
proof (rule response_no_LF[OF assms(1)])
  have "LF \<notin> set (id_text None)" by (simp add: id_text_def)
  with id_no_LF[OF assms(2)] assms(3) show "LF \<notin> set (id_text (rs_ID r))"
    by (auto simp: mcp_answer_def mcp_error_def split: if_splits sum.splits)
  show "rs_Result r = Some m \<Longrightarrow> LF \<notin> set (id_text m)" for m
    using assms(3) result_no_LF[of mc "rq_Method (request_received q)" "rq_Params (request_received q)"]
    by (auto simp: mcp_answer_def mcp_error_def id_text_def split: if_splits sum.splits)
  show "rs_Error r = Some e \<Longrightarrow> er_Data e = ANil" for e
    using assms(3) by (auto simp: mcp_answer_def mcp_error_def split: if_splits sum.splits)
qed

section \<open>The connection\<close>

lemma mcp_serve_start:
  assumes "mcp_serve (Some r) (Some w) = Inr (srv, s0)"
  obtains b where "cn_fr (sv_conn s0) = NdjsonFramer b" "fb_maxSize b = 8388608" "sr_maxCalls srv = 1"
  using assms by (auto simp: mcp_serve_def Serve_start_def newFramer_def FramingNDJSON_def FramingContentLength_def
      Framing_valid_def DefaultMaxMessageSize_def DefaultMaxConcurrentCalls_def)

lemma ndjson_line:
  assumes "LF \<notin> set m"
  shows "frame_wire (NdjsonFramer b) m = Some (line m)" "frame_received (NdjsonFramer b) m = m"
  using no_LF_payload[OF assms] by (simp_all add: line_def)

lemma request_sendable:
  assumes "LF \<notin> set (request_text quote q)" "int (length (request_text quote q)) \<le> fb_maxSize b"
  shows "frame_sendable (NdjsonFramer b) (request_text quote q)"
  using request_text_ends[of quote q] assms(2) not_header_prefix[of "request_text quote q"] no_LF_payload[OF assms(1)] by simp

definition mcp_replies :: "(bytes \<Rightarrow> bytes) \<Rightarrow> 'm mcp_codecs \<Rightarrow> request list \<Rightarrow> bytes list" where
  "mcp_replies quote mc qs = map (response_text quote) (List.map_filter (mcp_answer mc \<circ> request_received) qs)"

lemma replies_no_LF:
  assumes "\<And>t. LF \<notin> set (quote t)" "\<And>q. q \<in> set qs \<Longrightarrow> LF \<notin> set (request_text quote q)" "m \<in> set (mcp_replies quote mc qs)"
  shows "LF \<notin> set m"
proof -
  obtain q r where q: "q \<in> set qs" "mcp_answer mc (request_received q) = Some r" "m = response_text quote r"
    using assms(3) by (auto simp: mcp_replies_def List.map_filter_def)
  from answer_no_LF[OF assms(1) assms(2)[OF q(1)] q(2)] q(3) show ?thesis by simp
qed

lemma mcp_session_replies: "session_replies quote (mcp_server mc p) (mcp_answer mc) qs = mcp_replies quote mc qs"
  by (induction qs) (auto simp: session_replies_def mcp_replies_def List.map_filter_simps mcp_reply split: option.split)

text \<open>
  C2: The MCP server from end to end. If the client writes requests to its stdin, one per line,
  and closes it, then when \<open>Serve\<close> returns nil every request has been read, the replies are
  those of \<open>mcp_answer\<close> in the order of the requests, with none for a notification, and if
  nothing pushed a notification of its own, stdout has got exactly the lines of these replies.
\<close>

theorem mcp_transcript:
  assumes "jwriter_ok jw quote view" "\<And>t. LF \<notin> set (quote t)" "io_writer wr out" "no_deadline ctx"
    and "\<And>q. q \<in> set qs \<Longrightarrow> lexes lx (request_wire quote q) \<and> LF \<notin> set (request_text quote q) \<and>
      length (request_text quote q) \<le> 8388608"
    and "mcp_serve (Some \<lparr>rd_rest = concat (map (line \<circ> request_text quote) qs), rd_end = StreamEOF\<rparr>) (Some stdout) = Inr (srv, s0)"
    and "(serve_step wr (sr_maxCalls srv) (dispatcher_replies jw lx ctx (mcp_server mc p :: ('e, 'v) config)))\<^sup>*\<^sup>* s0 s" "sv_phase s = Returned None"
  shows "sv_read s = map (request_text quote) qs \<and> responses s = mcp_replies quote mc qs \<and>
    (list_all fst (sv_sent s) \<longrightarrow> conn_out out (sv_conn s) = out stdout @ concat (map line (mcp_replies quote mc qs)))"
proof -
  obtain b where f0: "cn_fr (sv_conn s0) = NdjsonFramer b" "fb_maxSize b = 8388608" and one: "sr_maxCalls srv = 1"
    by (rule mcp_serve_start[OF assms(6)])
  have "map (the \<circ> frame_wire (NdjsonFramer b) \<circ> request_text quote) qs = map (line \<circ> request_text quote) qs"
    using assms(5) ndjson_line[of _ b] by (simp del: frame_wire.simps)
  note st = assms(6)[unfolded mcp_serve_def, folded this]
  have q: "lexes lx (request_wire quote q) \<and> frame_sendable (NdjsonFramer b) (request_text quote q) \<and>
      frame_received (NdjsonFramer b) (request_text quote q) = request_text quote q \<and>
      (cf_maxMessageSize (mcp_server mc p :: ('e, 'v) config) \<le> 0 \<or>
       int (length (request_text quote q)) \<le> cf_maxMessageSize (mcp_server mc p :: ('e, 'v) config))"
    if "q \<in> set qs" for q
    using assms(5)[OF that] request_sendable[of quote q b] ndjson_line(2)[of _ b] f0(2)
    by (simp add: mcp_server_simps del: frame_sendable.simps frame_received.simps)
  have m: "LF \<notin> set m" if "m \<in> set (mcp_replies quote mc qs)" for m
    using replies_no_LF[of quote qs m mc] that assms(2,5) by blast
  then have wire: "frame_wire (NdjsonFramer b) m \<noteq> None" if "m \<in> set (mcp_replies quote mc qs)" for m
    using that one_line_wire by blast
  note ended = session_transcript[OF assms(1,3) mcp_answers assms(4) st _ f0(1)[symmetric] q _ assms(7,8), unfolded mcp_session_replies, OF _ _ wire]
  have "map (the \<circ> frame_wire (NdjsonFramer b)) (mcp_replies quote mc qs) = map line (mcp_replies quote mc qs)"
    using m ndjson_line(1)[of _ b] by (simp del: frame_wire.simps)
  with ended one show ?thesis by (simp del: frame_wire.simps)
qed

section \<open>A session\<close>

text \<open>
  One call that adds the largest integer and 1.
\<close>

definition add_request :: request where
  "add_request = \<lparr>rq_Version = Version, rq_Method = ''tools/call'',
     rq_Params = Some ''{\"name\":\"add\",\"arguments\":{\"a\":9223372036854775807,\"b\":1}}'', rq_ID = Some ''1''\<rparr>"

definition add_lexer :: "tlex jlexer" where
  "add_lexer = table_lexer [request_wire json_string add_request]"

definition add_codecs :: "unit mcp_codecs" where
  "add_codecs = \<lparr>mc_nil = (), mc_map = (\<lambda>_. Inr ()), mc_unit = (\<lambda>_. Inr ()),
     mc_call = (\<lambda>_. Inr \<lparr>tc_Name = ''add'', tc_Arguments = \<lparr>ad_A = 9223372036854775807, ad_B = 1\<rparr>\<rparr>),
     mc_type = (\<lambda>_. 0)\<rparr>"

definition add_session :: "bytes serve" where
  "add_session = snd (projr (mcp_serve (Some \<lparr>rd_rest = line (request_text json_string add_request), rd_end = StreamEOF\<rparr>) (Some [])))"

definition add_reply :: bytes where
  "add_reply = ''{\"jsonrpc\":\"2.0\",\"result\":{\"content\":[{\"type\":\"text\",\"text\":\"-9223372036854775808\"}]},\"id\":1}''"

lemma brace_not_number: "not_number (LBRACE # b)"
proof -
  have "d < 10 \<Longrightarrow> digit d \<noteq> LBRACE" for d using digit_not_space[of d] by auto
  then have d: "list_all (\<lambda>c. c \<noteq> LBRACE) (nat_digits n)" for n by (rule nat_digits_all)
  have "LBRACE \<notin> set (itoa n)" for n using d by (auto simp: itoa_def list_all_iff)
  then show ?thesis unfolding not_number_def by (metis list.set_intros(1))
qed

lemma add_lexes: "lexes add_lexer (request_wire json_string add_request)"
proof -
  have "table_members [request_wire json_string add_request] (object_text (map (map_prod id wire_text) (request_wire json_string add_request))) =
      flat (request_wire json_string add_request)" by (simp add: table_members_def)
  then show ?thesis unfolding add_lexer_def
    by (rule table_lexes[rotated])
      (auto simp: plain_member_def request_wire_def add_request_def value_of_def id_text_def json_string_def brace_not_number)
qed

lemma json_string_no_LF: "LF \<notin> set (json_string t)"
proof -
  have hex: "hex_digit n \<noteq> LF" if "n < 16" for n
    using hex_digit_isHex[OF that] by (auto simp: isHex_def byte_val_def)
  have esc: "LF \<notin> set (escape_ascii b)" for b
  proof -
    have "byte_val b div 16 < 16" "byte_val b mod 16 < 16"
      using nat_of_char_less_256[of b] unfolding byte_val_def by linarith+
    note h = this[THEN hex, symmetric]
    show ?thesis using h by (simp add: escape_ascii_def)
  qed
  have "LF \<notin> set (string_body t)"
  proof (induction t rule: string_body.induct)
    case (2 b bs)
    show ?case
    proof (cases "byte_val b < 0x80 \<or> rune_size (b # bs) = None")
      case True
      with 2(1,2) esc show ?thesis by (cases "byte_val b < 0x80") auto
    next
      case False
      then obtain n where n: "rune_size (b # bs) = Some n" "\<not> byte_val b < 0x80" by auto
      then have "LF \<notin> set (take n (b # bs))" using rune_size_high[OF n(1)] by (auto simp: byte_val_def)
      with 2(3)[OF n(2,1)] n show ?thesis by (simp add: Let_def)
    qed
  qed simp
  then show ?thesis by (simp add: json_string_def)
qed

lemma add_answer: "mcp_replies json_string add_codecs [add_request] = [add_reply]"
proof -
  have r: "request_received add_request = add_request" by code_simp
  have v: "validateRequest add_request = None" by code_simp
  have "sint (9223372036854775807 + 1 :: 64 word) = - 9223372036854775808" by simp
  moreover have "itoa (- 9223372036854775808) = ''-9223372036854775808''"
    by (simp add: itoa_def nat_digits.simps digit_def)
  ultimately have "mcp_answer add_codecs add_request = Some (NewResponse (AID (Some ''1'')) (Some (Some
      ''{\"content\":[{\"type\":\"text\",\"text\":\"-9223372036854775808\"}]}'')) None)"
    using v by (simp add: mcp_answer_def mcp_result_def accepted_def add_codecs_def sum_text_def add_request_def)
  moreover have "response_text json_string (NewResponse (AID (Some ''1'')) (Some (Some
      ''{\"content\":[{\"type\":\"text\",\"text\":\"-9223372036854775808\"}]}'')) None) = add_reply"
    unfolding add_reply_def by code_simp
  ultimately show ?thesis by (simp add: mcp_replies_def r List.map_filter_simps)
qed

lemma add_start: "mcp_serve (Some \<lparr>rd_rest = line (request_text json_string add_request), rd_end = StreamEOF\<rparr>) (Some []) =
    Inr (\<lparr>sr_maxMessageSize = 8388608, sr_maxCalls = 1\<rparr>, add_session)"
  by (simp add: add_session_def mcp_serve_def Serve_start_def newFramer_def FramingNDJSON_def FramingContentLength_def
      Framing_valid_def DefaultMaxMessageSize_def DefaultMaxConcurrentCalls_def)

lemma add_text: "LF \<notin> set (request_text json_string add_request)" "length (request_text json_string add_request) \<le> 8388608"
proof -
  have "length (request_text json_string add_request) < 200" by code_simp
  then show "length (request_text json_string add_request) \<le> 8388608" by simp
qed code_simp

theorem mcp_transcript_witness:
  "\<exists>s. (serve_step pipe 1 (dispatcher_replies buffer_writer add_lexer sample_ctx (mcp_server add_codecs 1 :: (unit, unit) config)))\<^sup>*\<^sup>* add_session s \<and>
     sv_phase s = Returned None \<and> responses s = [add_reply]"
proof -
  let ?cfg = "mcp_server add_codecs 1 :: (unit, unit) config"
  have ctx: "no_deadline sample_ctx" by (simp add: no_deadline_def sample_ctx_def)
  obtain b where f0: "cn_fr (sv_conn add_session) = NdjsonFramer b" "fb_maxSize b = 8388608"
    by (rule mcp_serve_start[OF add_start])
  have sendable: "list_all (frame_sendable (NdjsonFramer b)) [request_text json_string add_request]"
    using request_sendable[OF add_text(1), of b] add_text(2) f0(2) by simp
  have wire: "line (request_text json_string add_request) =
      concat (map (the \<circ> frame_wire (NdjsonFramer b)) [request_text json_string add_request])"
    using ndjson_line(1)[OF add_text(1), of b] by (simp del: frame_wire.simps)
  have "\<exists>s. (serve_step pipe 1 (dispatcher_replies buffer_writer add_lexer sample_ctx ?cfg))\<^sup>*\<^sup>* add_session s \<and>
      sv_phase s = Returned None \<and> list_all fst (sv_sent s)"
    unfolding add_lexer_def
    by (rule session_exists[OF pipe_writer(2,1) mcp_answers ctx table_decodes add_start[unfolded mcp_serve_def] _ _ f0(1)[symmetric] sendable wire])
      simp_all
  then obtain s where run: "(serve_step pipe 1 (dispatcher_replies buffer_writer add_lexer sample_ctx ?cfg))\<^sup>*\<^sup>* add_session s"
    and s: "sv_phase s = Returned None" by blast
  have start: "mcp_serve (Some \<lparr>rd_rest = concat (map (line \<circ> request_text json_string) [add_request]), rd_end = StreamEOF\<rparr>) (Some []) =
      Inr (\<lparr>sr_maxMessageSize = 8388608, sr_maxCalls = 1\<rparr>, add_session)"
    using add_start by simp
  have "responses s = mcp_replies json_string add_codecs [add_request]"
    using mcp_transcript[OF buffer_writer_ok json_string_no_LF pipe_writer(1) ctx _ start _ s, of add_lexer add_codecs 1]
      add_lexes add_text run by auto
  with run s add_answer show ?thesis by auto
qed

end
