(* ===== verification/RemoteStdio.thy ===== *)
theory RemoteStdio
  imports McpSession StdioClientProps
begin

text \<open>
  The stdio client against the stdio server: the calls that several goroutines make over one
  connection go through the framing, the loop and the slots of the server, its dispatcher and
  the read loop of the client, and each returns the answer to its own request.
\<close>

section \<open>Sending\<close>

text \<open>An open client on which every call made so far waits.\<close>

definition all_waiting :: "'w client \<Rightarrow> bool" where
  "all_waiting c \<longleftrightarrow> client_ok c \<and> \<not> cl_closed c \<and> \<not> cn_closed (cl_conn c) \<and> cl_reader c = RReading \<and>
     co_seq (cl_core c) = int (length (cl_phases c)) \<and>
     (\<forall>i < length (cl_phases c). cl_phases c ! i = CWaiting \<and> call_id i c = itoa (int i + 1) \<and>
        co_pending (cl_core c) (itoa (int i + 1)) = Some i)"

lemma client_write_complete:
  assumes "io_writer wr out" "\<forall>w p. fst (wr w p) = None" "\<not> cn_closed (cl_conn c)"
    and "frame_wire (cn_fr (cl_conn c)) m \<noteq> None"
  obtains n where "client_write wr m c = (None, c\<lparr>cl_conn := n\<rparr>)" "\<not> cn_closed n" "same_framing (cl_conn c) n"
    "conn_out out n = conn_out out (cl_conn c) @ the (frame_wire (cn_fr (cl_conn c)) m)"
proof -
  obtain e fl n where w: "conn_write wr m (cl_conn c) = ((e, fl), n)" by (metis prod.collapse)
  from conn_write_total[OF assms(2,3), of m] w have "fl = None" by simp
  with conn_write_cases[OF assms(1,3) w] assms(4) w that[of n] show thesis
    by (force simp: client_write_def)
qed

lemma call_sent:
  assumes "io_writer wr out" "\<forall>w p. fst (wr w p) = None" "all_waiting c" "k = length (cl_phases c)"
    and "request_frame jw ''request'' meth params (Some (itoa (int k + 1))) = (Inr m :: client_err call_err + bytes)"
    and "frame_wire (cn_fr (cl_conn c)) m \<noteq> None"
  shows "\<exists>c'. (client_step jw lx wr)\<^sup>*\<^sup>* c c' \<and> all_waiting c' \<and> length (cl_phases c') = Suc k \<and>
    same_framing (cl_conn c) (cl_conn c') \<and>
    conn_out out (cl_conn c') = conn_out out (cl_conn c) @ the (frame_wire (cn_fr (cl_conn c)) m)"
proof -
  let ?step = "client_step jw lx wr" and ?v = "itoa (int k + 1)"
  note c = assms(3)[unfolded all_waiting_def]
  have len: "length (co_calls (cl_core c)) = k" using c assms(4) by (simp add: client_ok_def calls_ok_def)
  let ?c1 = "c\<lparr>cl_entering := cl_entering c @ [(True, meth, params)]\<rparr>"
  define c2 where "c2 = begin_call meth params (?c1\<lparr>cl_entering := cl_entering c @ []\<rparr>)"
  have s1: "?step c ?c1" using c by (intro client_step.enter) simp
  have s2: "?step ?c1 c2" unfolding c2_def by (rule client_step.call_begin) simp
  have c2: "cl_phases c2 = cl_phases c @ [CSending meth params]" "cl_conn c2 = cl_conn c" "cl_closed c2 = cl_closed c"
    "cl_reader c2 = cl_reader c" "co_seq (cl_core c2) = int k + 1"
    "co_pending (cl_core c2) = (co_pending (cl_core c))(?v \<mapsto> k)"
    "co_calls (cl_core c2) = co_calls (cl_core c) @ [\<lparr>ca_id = ?v, ca_chan = []\<rparr>]"
    using c assms(4) len by (simp_all add: c2_def begin_call_def nextID_def register_def)
  have idk: "call_id k c2 = ?v" using c2(7) len by (simp add: call_id_def nth_append)
  obtain n where n: "client_write wr m c2 = (None, c2\<lparr>cl_conn := n\<rparr>)" "\<not> cn_closed n" "same_framing (cl_conn c) n"
    "conn_out out n = conn_out out (cl_conn c) @ the (frame_wire (cn_fr (cl_conn c)) m)"
    by (rule client_write_complete[OF assms(1,2), of c2 m]) (use c c2(2) assms(6) in simp_all)
  define c3 where "c3 = c2\<lparr>cl_conn := n, cl_phases := (cl_phases c2)[k := CWaiting]\<rparr>"
  have "send_call jw wr k meth params c2 = c3"
    by (simp add: send_call_def client_send_def idk assms(5) n(1) c3_def)
  moreover have "?step c2 (send_call jw wr k meth params c2)"
    using c2(1) assms(4) by (intro client_step.call_send) simp_all
  ultimately have run: "?step\<^sup>*\<^sup>* c c3" using s1 s2 by (metis rtranclp.rtrancl_into_rtrancl rtranclp.rtrancl_refl)
  have ok: "client_ok c3" using client_run_ok[OF run] c by simp
  have ph: "cl_phases c3 = cl_phases c @ [CWaiting]" using c2(1) assms(4) by (simp add: c3_def)
  have old: "itoa (int i + 1) \<noteq> ?v" if "i < k" for i using that itoa_inj[of "int i + 1" "int k + 1"] by auto
  have "all_waiting c3" unfolding all_waiting_def ph
  proof (intro conjI allI impI)
    fix i assume "i < length (cl_phases c @ [CWaiting])"
    then consider "i < k" | "i = k" using assms(4) by fastforce
    then have "(cl_phases c @ [CWaiting]) ! i = CWaiting \<and> call_id i c3 = itoa (int i + 1) \<and>
        co_pending (cl_core c3) (itoa (int i + 1)) = Some i"
    proof cases
      case 1
      then show ?thesis using c c2(6,7) old[OF 1] len assms(4) by (simp add: c3_def nth_append call_id_def)
    qed (use c2(6) idk assms(4) in \<open>simp add: c3_def call_id_def\<close>)
    then show "(cl_phases c @ [CWaiting]) ! i = CWaiting" "call_id i c3 = itoa (int i + 1)"
      "co_pending (cl_core c3) (itoa (int i + 1)) = Some i" by blast+
  qed (use ok c n(2) c2 assms(4) in \<open>simp_all add: c3_def\<close>)
  with run ph n assms(4) show ?thesis by (intro exI[of _ c3]) (simp add: c3_def)
qed

text \<open>The requests of a list of calls on a fresh client, which numbers them from 1.\<close>

definition call_request :: "(bytes \<times> goany) list \<Rightarrow> nat \<Rightarrow> request" where
  "call_request calls k = \<lparr>rq_Version = Version, rq_Method = fst (calls ! k),
     rq_Params = projr (MarshalParams (snd (calls ! k)) :: ferr call_err + slice), rq_ID = Some (itoa (int k + 1))\<rparr>"

lemma call_request_frame:
  assumes "jwriter_ok jw quote view" "\<not> isl (MarshalParams (snd (calls ! k)) :: ferr call_err + slice)"
  shows "request_frame jw what (fst (calls ! k)) (snd (calls ! k)) (Some (itoa (int k + 1))) =
    Inr (request_text quote (call_request calls k))"
proof -
  have "Request_MarshalJSON jw q = Inr (request_text quote q)" for q
    using request_write[OF assms(1), of "jw_new jw" q]
    by (simp add: Request_MarshalJSON_def built_def jwriter_okD[OF assms(1)] request_text_def)
  with assms(2) show ?thesis
    by (cases "MarshalParams (snd (calls ! k)) :: ferr call_err + slice") (simp_all add: request_frame_def call_request_def)
qed

lemma calls_sent:
  assumes "jwriter_ok jw quote view" "io_writer wr out" "\<forall>w p. fst (wr w p) = None" "all_waiting c0" "cl_phases c0 = []"
    and "\<And>k. k < n \<Longrightarrow> \<not> isl (MarshalParams (snd (calls ! k)) :: ferr call_err + slice) \<and>
      frame_wire (cn_fr (cl_conn c0)) (request_text quote (call_request calls k)) \<noteq> None"
  shows "\<exists>c. (client_step jw lx wr)\<^sup>*\<^sup>* c0 c \<and> all_waiting c \<and> length (cl_phases c) = n \<and> same_framing (cl_conn c0) (cl_conn c) \<and>
    conn_out out (cl_conn c) = conn_out out (cl_conn c0) @
      concat (map (\<lambda>k. the (frame_wire (cn_fr (cl_conn c0)) (request_text quote (call_request calls k)))) [0..<n])"
  using assms(6)
proof (induction n)
  case 0
  then show ?case using assms(4,5) by (intro exI[of _ c0]) simp
next
  case (Suc n)
  then obtain c where c: "(client_step jw lx wr)\<^sup>*\<^sup>* c0 c" "all_waiting c" "length (cl_phases c) = n"
    "same_framing (cl_conn c0) (cl_conn c)" "conn_out out (cl_conn c) = conn_out out (cl_conn c0) @
      concat (map (\<lambda>k. the (frame_wire (cn_fr (cl_conn c0)) (request_text quote (call_request calls k)))) [0..<n])"
    by force
  have n: "\<not> isl (MarshalParams (snd (calls ! n)) :: ferr call_err + slice)"
    "frame_wire (cn_fr (cl_conn c0)) (request_text quote (call_request calls n)) \<noteq> None" using Suc.prems[of n] by simp_all
  have same: "frame_wire (cn_fr (cl_conn c)) = frame_wire (cn_fr (cl_conn c0))" using c(4) by (simp add: same_framing_def)
  from call_sent[OF assms(2,3) c(2) c(3)[symmetric] call_request_frame[OF assms(1) n(1)], of lx] n(2)
  obtain c' where c': "(client_step jw lx wr)\<^sup>*\<^sup>* c c'" "all_waiting c'" "length (cl_phases c') = Suc n"
    "same_framing (cl_conn c) (cl_conn c')"
    "conn_out out (cl_conn c') = conn_out out (cl_conn c) @ the (frame_wire (cn_fr (cl_conn c0)) (request_text quote (call_request calls n)))"
    unfolding same by blast
  have "(client_step jw lx wr)\<^sup>*\<^sup>* c0 c'" by (rule rtranclp_trans[OF c(1) c'(1)])
  moreover have "same_framing (cl_conn c0) (cl_conn c')" using c(4) c'(4) by (simp add: same_framing_def)
  ultimately show ?case using c' c(5) by (intro exI[of _ c']) simp
qed

section \<open>Receiving\<close>

text \<open>The read loop takes the next message of the stream.\<close>

lemma message_read:
  assumes "client_ok c" "\<not> cl_closed c" "cl_reader c = RReading" "reader_ok framer (cl_conn c)"
    and "frame_sendable framer m" "frame_received framer m = m" "rd_rest (framer_rd (cn_fr (cl_conn c))) = the (frame_wire framer m) @ rest"
  obtains n where "client_step jw lx wr c (c\<lparr>cl_conn := n, cl_reader := RGot m\<rparr>)" "reader_ok framer n" "rd_rest (framer_rd (cn_fr n)) = rest"
proof -
  let ?f = "cn_fr (cl_conn c)"
  have f: "frame_sendable ?f m" "frame_received ?f m = m" "frame_wire ?f m = Some (the (frame_wire framer m))"
    using assms(4-6) frame_sendable_wire[OF assms(5)] by (auto simp: reader_ok_def)
  from fr.read_wire[OF f(1,3) assms(7)] obtain g where g: "ReadFrame ?f = (Inr m, g)" "framer_rd g = (framer_rd ?f)\<lparr>rd_rest := rest\<rparr>"
    using f(2) by auto
  let ?n = "(cl_conn c)\<lparr>cn_fr := g\<rparr>"
  have "client_read c = c\<lparr>cl_conn := ?n, cl_reader := RGot m\<rparr>" using g(1) assms(2) by (simp add: client_read_def Let_def)
  then have "client_step jw lx wr c (c\<lparr>cl_conn := ?n, cl_reader := RGot m\<rparr>)"
    using client_step.read[OF assms(3), of jw lx wr] by simp
  moreover have "reader_ok framer ?n" using fr.read_same[OF g(1)] assms(4) by (simp add: reader_ok_def)
  ultimately show thesis using g(2) by (intro that[of ?n]) simp_all
qed

text \<open>
  The responses \<open>rs i\<close> to the calls \<open>i\<close> of a list, in any order: the loop reads them all and every
  call of the list returns its own.
\<close>

lemma replies_received:
  assumes "client_ok c" "\<not> cl_closed c" "cl_reader c = RReading" "reader_ok framer (cl_conn c)"
    and "rd_rest (framer_rd (cn_fr (cl_conn c))) = concat (map (the \<circ> frame_wire framer \<circ> tx) js)" "distinct js"
    and "\<And>i. i \<in> set js \<Longrightarrow> i < length (cl_phases c) \<and> cl_phases c ! i = CWaiting \<and> co_pending (cl_core c) (call_id i c) = Some i"
    and "\<And>i. i \<in> set js \<Longrightarrow> frame_sendable framer (tx i) \<and> frame_received framer (tx i) = tx i \<and>
      TrimSpace (tx i) = tx i \<and> tx i \<noteq> [] \<and> tx i ! 0 \<noteq> LBRACK"
    and "\<And>i. i \<in> set js \<Longrightarrow> Response_UnmarshalJSON lx zero_response (tx i) = Some (rs i, None) \<and>
      rs_ID (rs i) = Some (call_id i c) \<and> request_probe lx (tx i) (rs i) = Some False"
  shows "\<exists>c'. (client_step jw lx wr)\<^sup>*\<^sup>* c c' \<and>
    cl_phases c' = fold (\<lambda>i ps. ps[i := CDone (response_outcome (rs i)) (Some (rs i))]) js (cl_phases c)"
  using assms
proof (induction js arbitrary: c)
  case Nil
  then show ?case by (intro exI[of _ c]) simp
next
  case (Cons i js)
  let ?step = "client_step jw lx wr"
  note t = Cons.prems(8)[of i, simplified] and r = Cons.prems(9)[of i, simplified] and w = Cons.prems(7)[of i, simplified]
  have rest: "rd_rest (framer_rd (cn_fr (cl_conn c))) = the (frame_wire framer (tx i)) @ concat (map (the \<circ> frame_wire framer \<circ> tx) js)"
    using Cons.prems(5) by (simp add: comp_def)
  obtain n where n: "?step c (c\<lparr>cl_conn := n, cl_reader := RGot (tx i)\<rparr>)" "reader_ok framer n"
    "rd_rest (framer_rd (cn_fr n)) = concat (map (the \<circ> frame_wire framer \<circ> tx) js)"
    by (rule message_read[OF Cons.prems(1-4) _ _ rest]) (use t in blast)+
  define c1 where "c1 = c\<lparr>cl_conn := n, cl_reader := RGot (tx i)\<rparr>"
  have f: "cl_phases c1 = cl_phases c" "cl_core c1 = cl_core c" "cl_reader c1 = RGot (tx i)" "cl_closed c1 = cl_closed c"
    "cl_conn c1 = n" "\<And>j. call_id j c1 = call_id j c" by (simp_all add: c1_def call_id_def)
  have s1: "?step c c1" using n(1) by (simp only: c1_def)
  have c1: "client_ok c1" by (rule client_step_ok[OF s1 Cons.prems(1)])
  have wait: "cl_phases c1 ! i = CWaiting" "co_pending (cl_core c1) (call_id i c1) = Some i" unfolding f using w by blast+
  have trim: "TrimSpace (tx i) = tx i" using t by blast
  have data: "TrimSpace (tx i) \<noteq> []" "TrimSpace (tx i) ! 0 \<noteq> LBRACK" unfolding trim using t by blast+
  have resp: "Response_UnmarshalJSON lx zero_response (TrimSpace (tx i)) = Some (rs i, None)" "rs_ID (rs i) = Some (call_id i c1)"
    "request_probe lx (TrimSpace (tx i)) (rs i) = Some False" unfolding f trim using r by blast+
  obtain c2 where c2: "?step\<^sup>*\<^sup>* c1 c2" "cl_phases c2 = (cl_phases c)[i := CDone (response_outcome (rs i)) (Some (rs i))]"
    "cl_conn c2 = n" "cl_reader c2 = RReading" "cl_closed c2 = cl_closed c"
    "co_pending (cl_core c2) = (co_pending (cl_core c))(call_id i c := None)" "\<And>j. call_id j c2 = call_id j c"
    using reply_run[OF c1 wait f(3) data resp, of jw wr] unfolding f by blast
  have ok2: "client_ok c2" by (rule client_run_ok[OF c2(1) c1])
  have other: "call_id j c \<noteq> call_id i c" if "j \<in> set js" for j
  proof
    assume "call_id j c = call_id i c"
    moreover have "co_pending (cl_core c) (call_id j c) = Some j" using Cons.prems(7)[of j] that by simp
    moreover have "co_pending (cl_core c) (call_id i c) = Some i" using w by blast
    ultimately have "Some j = Some i" by (metis (no_types))
    with that Cons.prems(6) show False by simp
  qed
  have run: "?step\<^sup>*\<^sup>* c c2" using s1 c2(1) by (rule converse_rtranclp_into_rtranclp)
  have "\<exists>c'. ?step\<^sup>*\<^sup>* c2 c' \<and>
      cl_phases c' = fold (\<lambda>i ps. ps[i := CDone (response_outcome (rs i)) (Some (rs i))]) js (cl_phases c2)"
  proof (rule Cons.IH[OF ok2])
    fix j assume j: "j \<in> set js"
    with Cons.prems(6) have "j \<noteq> i" by auto
    with Cons.prems(7)[of j] j other[OF j] show "j < length (cl_phases c2) \<and> cl_phases c2 ! j = CWaiting \<and>
        co_pending (cl_core c2) (call_id j c2) = Some j" by (simp add: c2(2,6,7))
  next
    show "\<not> cl_closed c2" "cl_reader c2 = RReading" "reader_ok framer (cl_conn c2)" "distinct js"
      "rd_rest (framer_rd (cn_fr (cl_conn c2))) = concat (map (the \<circ> frame_wire framer \<circ> tx) js)"
      using Cons.prems(2,6) c2(3-5) n(2,3) by simp_all
  qed (simp_all only: c2(7) list.set(2) insert_iff Cons.prems(8,9) simp_thms)
  then show ?case unfolding c2(2) fold_simps by (meson rtranclp_trans[OF run])
qed

lemma fold_replace:
  assumes "distinct js" "set js = {..<length ps}"
  shows "fold (\<lambda>i ps. ps[i := g i]) js ps = map g [0..<length ps]"
proof -
  have "length (fold (\<lambda>i ps. ps[i := g i]) js ps) = length ps \<and>
      (\<forall>k < length ps. fold (\<lambda>i ps. ps[i := g i]) js ps ! k = (if k \<in> set js then g k else ps ! k))" for js
  proof (induction js rule: rev_induct)
    case (snoc i js)
    have "xs[i := x] ! k = (if k = i \<and> k < length xs then x else xs ! k)" for xs :: "'a list" and x k
      by (cases "i = k") (auto simp: list_update_beyond)
    with snoc show ?case by auto
  qed simp
  with assms(2) show ?thesis by (intro nth_equalityI) simp_all
qed

lemma mset_map_order:
  assumes "mset xs = mset (map g ys)"
  shows "\<exists>zs. mset zs = mset ys \<and> xs = map g zs"
  using assms
proof (induction xs arbitrary: ys)
  case (Cons x xs)
  have "x \<in> set (map g ys)" using arg_cong[OF Cons.prems, of set_mset] by auto
  then obtain y where y: "y \<in> set ys" "x = g y" by auto
  have ys: "mset ys = add_mset y (mset (remove1 y ys))" using y(1) by simp
  have "add_mset x (mset xs) = image_mset g (mset ys)" using Cons.prems by simp
  then have "mset xs = mset (map g (remove1 y ys))" unfolding ys y(2) by simp
  from Cons.IH[OF this] obtain zs where "mset zs = mset (remove1 y ys)" "xs = map g zs" by blast
  with ys y(2) show ?case by (intro exI[of _ "y # zs"]) simp
qed simp

section \<open>The connection\<close>

definition client_option :: "(client_config \<Rightarrow> client_config) \<Rightarrow> bool" where
  "client_option opt \<longleftrightarrow> (\<exists>h. opt = WithNotificationHandler h) \<or> (\<exists>n. opt = WithClientMaxMessageSize n)"

lemma client_options_positive:
  assumes "list_all client_option opts" "0 < cc_maxMessageSize c"
  shows "0 < cc_maxMessageSize (fold (\<lambda>opt c. opt c) opts c)"
  using assms
proof (induction opts arbitrary: c)
  case (Cons opt opts)
  then have "0 < cc_maxMessageSize (opt c)"
    by (auto simp: client_option_def WithNotificationHandler_def WithClientMaxMessageSize_def)
  with Cons show ?case by simp
qed simp

lemma NewClient_ok:
  assumes "NewClient fid (Some r) (Some w) opts = Inr c0" "list_all client_option opts"
  shows "all_waiting c0" "cl_phases c0 = []" "framer_rd (cn_fr (cl_conn c0)) = r" "framer_wst (cn_fr (cl_conn c0)) = w"
    "frame_limit_ok (cn_fr (cl_conn c0))" "\<exists>k opt. newFramer fid r w k opt = Some (cn_fr (cl_conn c0))"
proof -
  let ?cfg = "fold (\<lambda>opt c. opt c) opts \<lparr>cc_maxMessageSize = DefaultClientMaxMessageSize, cc_onNotify = False\<rparr>"
  have pos: "0 < cc_maxMessageSize ?cfg"
    by (rule client_options_positive[OF assms(2)]) (simp add: DefaultClientMaxMessageSize_def)
  have "newFramer fid r w (cc_maxMessageSize ?cfg) ''WithClientMaxMessageSize'' \<noteq> None"
    using assms(1) by (auto simp: NewClient_def newFramer_def Framing_valid_def Let_def split: if_splits)
  then obtain g where g: "newFramer fid r w (cc_maxMessageSize ?cfg) ''WithClientMaxMessageSize'' = Some g" by blast
  have c0: "cl_conn c0 = \<lparr>cn_fr = g, cn_closed = False\<rparr>" "cl_closed c0 = False" "cl_reader c0 = RReading"
    "cl_core c0 = core_init"
    using assms(1) g by (auto simp: NewClient_def Let_def split: if_splits)
  note ok = NewClient_fields[OF assms(1)]
  then show "all_waiting c0" "cl_phases c0 = []" by (simp_all add: all_waiting_def c0 core_init_def)
  show "framer_rd (cn_fr (cl_conn c0)) = r" "framer_wst (cn_fr (cl_conn c0)) = w"
    "\<exists>k opt. newFramer fid r w k opt = Some (cn_fr (cl_conn c0))"
    using g newFramer_fields[OF g] by (auto simp: c0)
  show "frame_limit_ok (cn_fr (cl_conn c0))" using newFramer_fields(3)[OF g] pos by (simp add: c0 frame_limit_ok_def)
qed

lemma Serve_start_framer:
  assumes "Serve_start rpcNil fid (Some r) (Some w) opts ctxErr = Inr (srv, s)"
  shows "\<exists>k opt. newFramer fid r w k opt = Some (cn_fr (sv_conn s))"
proof -
  have "newFramer fid r w k opt \<noteq> None" for k opt
    using assms by (auto simp: Serve_start_def newFramer_def Framing_valid_def Let_def split: if_splits)
  then show ?thesis using assms
    by (intro exI[of _ "sr_maxMessageSize srv"] exI[of _ "''WithMaxMessageSize''"])
      (auto simp: Serve_start_def Let_def split: if_splits)
qed

section \<open>The answers\<close>

text \<open>The response the server sends to the call \<open>k\<close>.\<close>

definition call_reply :: "('e, 'v) config \<Rightarrow> (request \<Rightarrow> response option) \<Rightarrow> (bytes \<times> goany) list \<Rightarrow> nat \<Rightarrow> response" where
  "call_reply cfg f calls k = (let q = request_received (call_request calls k)
     in response_sent cfg (rq_ID q) (the (f q)))"

lemma call_answered:
  fixes cfg :: "('e, 'v) config"
  assumes "answers_by C cfg f" "C ctx" "cf_errors cfg InternalErrorCode \<noteq> None"
  shows "session_reply quote cfg f (call_request calls k) = Some (response_text quote (call_reply cfg f calls k))"
    "rs_ID (response_received (call_reply cfg f calls k)) = Some (itoa (int k + 1))"
proof -
  let ?q = "request_received (call_request calls k)" and ?v = "itoa (int k + 1)"
  have v: "rq_ID ?q = Some ?v" "slice_len (Some ?v) \<noteq> 0" "Valid ?v"
    using itoa_value[of "int k + 1"] by (simp_all add: request_received_def call_request_def id_text_def itoa_ne)
  obtain d where d: "handleRPC (undefined :: 'e env) ctx cfg ?q 0 = Some d" "hd_resp d = f ?q"
    using answers_byD[OF assms(1,2), of undefined ?q 0] by auto
  note internal = assms(3)
  have "\<exists>r. f ?q = Some r \<and> rs_ID r = Some ?v"
    using d(1)
  proof (cases rule: handleRPC_cases)
    case (invalid err)
    then have "f ?q = Some (fst (errorResponse cfg (Some err) InvalidRequestErrorCode (AID (Some ?v))))"
      using d(2) v by simp
    with proper_errorResponse[OF internal, of "AID (Some ?v)"] show ?thesis by (simp add: proper_def toID_def)
  next
    case (valid x)
    then have "f ?q = Some (dp_resp x)" using d(2) v by simp
    with dispatch_facts(1)[OF valid(2) internal] v show ?thesis by (simp add: proper_def)
  qed
  then obtain r where r: "f ?q = Some r" "rs_ID r = Some ?v" by blast
  then show "session_reply quote cfg f (call_request calls k) = Some (response_text quote (call_reply cfg f calls k))"
    by (simp add: session_reply_def call_reply_def)
  have "rs_ID (response_sent cfg (rq_ID ?q) r) = Some ?v"
    using r(2) v(1) by (auto simp: response_sent_def safeInternalResponse_def newError_def toID_def)
  then show "rs_ID (response_received (call_reply cfg f calls k)) = Some ?v"
    using r(1) itoa_not_null[of "int k + 1"] by (simp add: call_reply_def response_received_def id_text_def itoa_ne)
qed

text \<open>A message that either framing carries as it is, within the limit \<open>n\<close> of the reader.\<close>

definition one_line :: "int \<Rightarrow> bytes \<Rightarrow> bool" where
  "one_line n m \<longleftrightarrow> LF \<notin> set m \<and> int (length m) \<le> n \<and> length m < 2 ^ 63"

lemma one_line_carried:
  assumes "one_line (fb_maxSize (framer_base g)) m" "hd m = LBRACE" "last m = RBRACE" "m \<noteq> []"
  shows "frame_sendable g m" "frame_received g m = m" "frame_wire g m \<noteq> None"
  using assms one_line_sendable[of m g] one_line_received[of m g] one_line_wire[of m g] by (simp_all add: one_line_def)

text \<open>What the connection has to do for the call \<open>k\<close>: its parameters marshal, and either side decodes the other.\<close>

definition call_carried :: "(bytes \<Rightarrow> bytes) \<Rightarrow> 'l jlexer \<Rightarrow> ('e, 'v) config \<Rightarrow> (request \<Rightarrow> response option) \<Rightarrow> int \<Rightarrow> int \<Rightarrow>
    (bytes \<times> goany) list \<Rightarrow> nat \<Rightarrow> bool" where
  "call_carried quote lx cfg f server_max client_max calls k \<longleftrightarrow>
     (let q = call_request calls k; r = call_reply cfg f calls k in
        \<not> isl (MarshalParams (snd (calls ! k)) :: ferr call_err + slice) \<and>
        lexes lx (request_wire quote q) \<and> one_line server_max (request_text quote q) \<and>
        (cf_maxMessageSize cfg \<le> 0 \<or> int (length (request_text quote q)) \<le> cf_maxMessageSize cfg) \<and>
        lexes lx (response_wire quote r) \<and> one_line client_max (response_text quote r) \<and>
        request_probe lx (response_text quote r) (response_received r) = Some False)"

text \<open>The server half: it writes the reply to every call once, in some order.\<close>

lemma calls_served:
  fixes cfg :: "('e, 'v) config"
  assumes "jwriter_ok jw quote view" "answers_by C cfg f" "C ctx" "cf_errors cfg InternalErrorCode \<noteq> None" "io_writer swr sout"
    and "Serve_start rpcNil fid (Some \<lparr>rd_rest = concat (map (\<lambda>k. the (frame_wire f0 (request_text quote (call_request calls k)))) [0..<n]),
      rd_end = StreamEOF\<rparr>) (Some sw) opts ctxErr = Inr (srv, s0)" "list_all serve_option opts" "f0 = cn_fr (sv_conn s0)"
    and "(serve_step swr (sr_maxCalls srv) (dispatcher_replies jw lx ctx cfg))\<^sup>*\<^sup>* s0 s" "sv_phase s = Returned None" "list_all fst (sv_sent s)"
    and "\<And>k. k < n \<Longrightarrow> lexes lx (request_wire quote (call_request calls k)) \<and>
      frame_sendable f0 (request_text quote (call_request calls k)) \<and>
      frame_received f0 (request_text quote (call_request calls k)) = request_text quote (call_request calls k) \<and>
      (cf_maxMessageSize cfg \<le> 0 \<or> int (length (request_text quote (call_request calls k))) \<le> cf_maxMessageSize cfg)"
    and "\<And>k. k < n \<Longrightarrow> frame_wire f0 (response_text quote (call_reply cfg f calls k)) \<noteq> None"
  shows "\<exists>js. distinct js \<and> set js = {..<n} \<and> conn_out sout (sv_conn s) =
    sout sw @ concat (map (the \<circ> frame_wire f0 \<circ> (\<lambda>k. response_text quote (call_reply cfg f calls k))) js)"
proof -
  let ?r = "\<lambda>k. response_text quote (call_reply cfg f calls k)" and ?qs = "map (call_request calls) [0..<n]"
  have "session_replies quote cfg f (map (call_request calls) ks) = map ?r ks" for ks
    using call_answered(1)[OF assms(2-4), of quote calls]
    by (induction ks) (simp_all add: session_replies_def List.map_filter_simps)
  note replies = this[of "[0..<n]"]
  have q: "lexes lx (request_wire quote q) \<and> frame_sendable f0 (request_text quote q) \<and>
      frame_received f0 (request_text quote q) = request_text quote q \<and>
      (cf_maxMessageSize cfg \<le> 0 \<or> int (length (request_text quote q)) \<le> cf_maxMessageSize cfg)" if "q \<in> set ?qs" for q
  proof -
    from that obtain k where "k < n" "q = call_request calls k" by auto
    with assms(12)[of k] show ?thesis by simp
  qed
  have r: "frame_wire f0 m \<noteq> None" if "m \<in> set (session_replies quote cfg f ?qs)" for m
    using that assms(13) unfolding replies by auto
  have "concat (map (\<lambda>k. the (frame_wire f0 (request_text quote (call_request calls k)))) [0..<n]) =
      concat (map (the \<circ> frame_wire f0 \<circ> request_text quote) ?qs)" by (simp add: comp_def)
  note ended = session_transcript[OF assms(1,5,2,3) assms(6)[unfolded this] assms(7,8) q r assms(9,10), unfolded replies]
  have "mset (responses s) = mset (map ?r [0..<n])" by (rule ended(2))
  then obtain js where js: "mset js = mset [0..<n]" "responses s = map ?r js" using mset_map_order by blast
  have out: "conn_out sout (sv_conn s) = sout sw @ concat (map (the \<circ> frame_wire f0) (responses s))"
    by (rule ended(4)[OF _ _ assms(11)])
  have order: "distinct js" using mset_eq_imp_distinct_iff[OF js(1)] by simp
  have all: "set js = {..<n}" using mset_eq_setD[OF js(1)] by (simp add: lessThan_atLeast0)
  show ?thesis unfolding out js(2) map_map using order all by blast
qed

text \<open>
  C3: calls over stdio are calls of the server. Any number of calls made at once on a fresh client
  go out as the requests with the ids 1, 2, and so on; and if the server reads exactly these
  bytes, over either framing and with any number of slots, and returns nil, then whatever the
  order of its replies, the client that reads its output completes every call with the answer
  that the server has for the request of this call: the client can run until all are done.
\<close>

theorem stdio_calls_answered:
  fixes cfg :: "('e, 'v) config"
  assumes "jwriter_ok jw quote view" "answers_by C cfg f" "C ctx" "cf_errors cfg InternalErrorCode \<noteq> None"
    and "io_writer cwr cout" "\<forall>w p. fst (cwr w p) = None" "cout cw = []" "io_writer swr sout" "sout sw = []"
    and "Serve_start rpcNil fid (Some \<lparr>rd_rest = input, rd_end = StreamEOF\<rparr>) (Some sw) opts ctxErr = Inr (srv, s0)"
    and "list_all serve_option opts"
    and "input = concat (map (\<lambda>k. the (frame_wire (cn_fr (sv_conn s0)) (request_text quote (call_request calls k)))) [0..<length calls])"
    and "(serve_step swr (sr_maxCalls srv) (dispatcher_replies jw lx ctx cfg))\<^sup>*\<^sup>* s0 s" "sv_phase s = Returned None" "list_all fst (sv_sent s)"
    and "NewClient fid (Some \<lparr>rd_rest = conn_out sout (sv_conn s), rd_end = e\<rparr>) (Some cw) copts = Inr c0" "list_all client_option copts"
    and "\<And>k. k < length calls \<Longrightarrow>
      call_carried quote lx cfg f (sr_maxMessageSize srv) (fb_maxSize (framer_base (cn_fr (cl_conn c0)))) calls k"
  shows "\<exists>c1 c2. (client_step jw lx cwr)\<^sup>*\<^sup>* c0 c1 \<and> conn_out cout (cl_conn c1) = input \<and>
    (client_step jw lx cwr)\<^sup>*\<^sup>* c1 c2 \<and>
    cl_phases c2 = map (\<lambda>k. let r = response_received (call_reply cfg f calls k) in CDone (response_outcome r) (Some r)) [0..<length calls]"
proof -
  let ?n = "length calls" and ?f = "cn_fr (sv_conn s0)" and ?g = "cn_fr (cl_conn c0)"
  let ?q = "\<lambda>k. request_text quote (call_request calls k)" and ?r = "\<lambda>k. response_text quote (call_reply cfg f calls k)"
  note start = Serve_start_ok[OF assms(10,11)] and client = NewClient_ok[OF assms(16,17)]
  have wire: "frame_wire ?g = frame_wire ?f"
    using Serve_start_framer[OF assms(10)] client(6) newFramer_wire by metis
  have k: "\<not> isl (MarshalParams (snd (calls ! k)) :: ferr call_err + slice)" "lexes lx (request_wire quote (call_request calls k))"
    "one_line (fb_maxSize (framer_base ?f)) (?q k)" "cf_maxMessageSize cfg \<le> 0 \<or> int (length (?q k)) \<le> cf_maxMessageSize cfg"
    "lexes lx (response_wire quote (call_reply cfg f calls k))" "one_line (fb_maxSize (framer_base ?g)) (?r k)"
    "request_probe lx (?r k) (response_received (call_reply cfg f calls k)) = Some False" if "k < ?n" for k
    using assms(18)[OF that] start(12) by (simp_all add: call_carried_def Let_def)
  have fq: "frame_sendable ?f (?q k)" "frame_received ?f (?q k) = ?q k" "frame_wire ?f (?q k) \<noteq> None" if "k < ?n" for k
    using one_line_carried[OF k(3)[OF that]] request_text_ends by blast+
  have fr: "frame_sendable ?g (?r k)" "frame_received ?g (?r k) = ?r k" "frame_wire ?g (?r k) \<noteq> None" if "k < ?n" for k
    using one_line_carried[OF k(6)[OF that]] response_text_ends by blast+
  obtain c1 where c1: "(client_step jw lx cwr)\<^sup>*\<^sup>* c0 c1" "all_waiting c1" "length (cl_phases c1) = ?n"
    "same_framing (cl_conn c0) (cl_conn c1)" "conn_out cout (cl_conn c1) = input"
    using calls_sent[OF assms(1,5,6) client(1,2), of ?n calls lx] k(1) fq(3) assms(7,12) client(4) unfolding wire by auto
  obtain js where js: "distinct js" "set js = {..<?n}" "conn_out sout (sv_conn s) = concat (map (the \<circ> frame_wire ?f \<circ> ?r) js)"
    using calls_served[OF assms(1-4,8) assms(10)[unfolded assms(12)] assms(11) refl assms(13-15)] k(2,4) fq(1,2) fr(3) assms(9)
    unfolding wire by auto
  let ?rs = "\<lambda>k. response_received (call_reply cfg f calls k)"
  have "\<exists>c2. (client_step jw lx cwr)\<^sup>*\<^sup>* c1 c2 \<and>
      cl_phases c2 = fold (\<lambda>i ps. ps[i := CDone (response_outcome (?rs i)) (Some (?rs i))]) js (cl_phases c1)"
  proof (rule replies_received[where tx = "?r" and framer = "?g"])
    show "client_ok c1" "\<not> cl_closed c1" "cl_reader c1 = RReading" "distinct js"
      using c1(2) js(1) by (simp_all add: all_waiting_def)
    show "reader_ok ?g (cl_conn c1)" using c1(4) client(5) by (simp add: reader_ok_def same_framing_def)
    show "rd_rest (framer_rd (cn_fr (cl_conn c1))) = concat (map (the \<circ> frame_wire ?g \<circ> ?r) js)"
      using c1(4) client(3) js(3) wire by (simp add: same_framing_def comp_def)
  next
    fix i assume "i \<in> set js"
    then have i: "i < ?n" using js(2) by simp
    show "i < length (cl_phases c1) \<and> cl_phases c1 ! i = CWaiting \<and> co_pending (cl_core c1) (call_id i c1) = Some i"
      using c1(2,3) i by (simp add: all_waiting_def)
    show "frame_sendable ?g (?r i) \<and> frame_received ?g (?r i) = ?r i \<and> TrimSpace (?r i) = ?r i \<and> ?r i \<noteq> [] \<and> ?r i ! 0 \<noteq> LBRACK"
      using fr[OF i] response_text_ends[of quote "call_reply cfg f calls i"] by (simp add: hd_conv_nth[symmetric])
    show "Response_UnmarshalJSON lx zero_response (?r i) = Some (?rs i, None) \<and> rs_ID (?rs i) = Some (call_id i c1) \<and>
        request_probe lx (?r i) (?rs i) = Some False"
      using response_decoded[OF k(5)[OF i]] call_answered(2)[OF assms(2-4), of calls i] k(7)[OF i] c1(2,3) i
      by (simp add: all_waiting_def)
  qed
  then obtain c2 where c2: "(client_step jw lx cwr)\<^sup>*\<^sup>* c1 c2"
    "cl_phases c2 = map (\<lambda>k. CDone (response_outcome (?rs k)) (Some (?rs k))) [0..<?n]"
    using fold_replace[OF js(1), of "cl_phases c1"] js(2) c1(3) by auto
  with c1 show ?thesis by (auto simp: Let_def)
qed

section \<open>Two calls of the MCP server\<close>

text \<open>Two calls at once, which add 1 and 2 and 3 and 4.\<close>

definition pair_params :: "nat \<Rightarrow> bytes" where
  "pair_params k = (if k = 0 then ''{\"name\":\"add\",\"arguments\":{\"a\":1,\"b\":2}}'' else ''{\"name\":\"add\",\"arguments\":{\"a\":3,\"b\":4}}'')"

definition pair_calls :: "(bytes \<times> goany) list" where
  "pair_calls = [(''tools/call'', ARawMessage (Some (pair_params 0))), (''tools/call'', ARawMessage (Some (pair_params 1)))]"

definition pair_codecs :: "unit mcp_codecs" where
  "pair_codecs = add_codecs\<lparr>mc_call := (\<lambda>raw. Inr \<lparr>tc_Name = ''add'',
     tc_Arguments = (if raw = pair_params 0 then \<lparr>ad_A = 1, ad_B = 2\<rparr> else \<lparr>ad_A = 3, ad_B = 4\<rparr>)\<rparr>)\<rparr>"

definition pair_config :: "(unit, unit) config" where "pair_config = mcp_server pair_codecs 1"

definition pair_result :: "nat \<Rightarrow> bytes" where
  "pair_result k = (if k = 0 then ''{\"content\":[{\"type\":\"text\",\"text\":\"3\"}]}'' else ''{\"content\":[{\"type\":\"text\",\"text\":\"7\"}]}'')"

definition pair_reply :: "nat \<Rightarrow> response" where
  "pair_reply k = NewResponse (AID (Some (itoa (int k + 1)))) (Some (Some (pair_result k))) None"

definition pair_lexer :: "tlex jlexer" where
  "pair_lexer = table_lexer [request_wire json_string (call_request pair_calls 0), request_wire json_string (call_request pair_calls 1),
     response_wire json_string (pair_reply 0), response_wire json_string (pair_reply 1)]"

definition pair_input :: bytes where
  "pair_input = line (request_text json_string (call_request pair_calls 0)) @ line (request_text json_string (call_request pair_calls 1))"

definition pair_server :: "bytes serve" where
  "pair_server = snd (projr (Serve_start False FramingNDJSON (Some \<lparr>rd_rest = pair_input, rd_end = StreamEOF\<rparr>) (Some []) [] None))"

definition pair_client :: "bytes \<Rightarrow> bytes client" where
  "pair_client input = projr (NewClient FramingNDJSON (Some \<lparr>rd_rest = input, rd_end = StreamEOF\<rparr>) (Some []) [])"

lemma less_two: "k < length pair_calls \<Longrightarrow> k = 0 \<or> k = 1"
  by (auto simp: pair_calls_def)

lemma pair_requests:
  "call_request pair_calls 0 = \<lparr>rq_Version = Version, rq_Method = ''tools/call'', rq_Params = Some (pair_params 0), rq_ID = Some ''1''\<rparr>"
  "call_request pair_calls 1 = \<lparr>rq_Version = Version, rq_Method = ''tools/call'', rq_Params = Some (pair_params 1), rq_ID = Some ''2''\<rparr>"
  by code_simp+

lemma pair_results:
  "mcp_result pair_codecs ''tools/call'' (Some (pair_params 0)) = Inr (pair_result 0)"
  "mcp_result pair_codecs ''tools/call'' (Some (pair_params 1)) = Inr (pair_result 1)"
proof -
  have p: "pair_params 0 \<noteq> []" "pair_params 1 \<noteq> []" "pair_params 1 \<noteq> pair_params 0" by (simp_all add: pair_params_def)
  have sums: "sum_text (1 + 2) = pair_result 0" "sum_text (3 + 4) = pair_result 1" by code_simp+
  show "mcp_result pair_codecs ''tools/call'' (Some (pair_params 0)) = Inr (pair_result 0)"
    using p(1) sums(1) by (simp add: mcp_result_def accepted_def pair_codecs_def)
  show "mcp_result pair_codecs ''tools/call'' (Some (pair_params 1)) = Inr (pair_result 1)"
    using p(2,3) sums(2) by (simp add: mcp_result_def accepted_def pair_codecs_def)
qed

lemma pair_replies:
  assumes "k < length pair_calls"
  shows "call_reply pair_config (mcp_answer pair_codecs) pair_calls k = pair_reply k"
proof -
  let ?q = "call_request pair_calls"
  have v: "validateRequest (?q 0) = None" "validateRequest (?q 1) = None" "request_received (?q 0) = ?q 0" "request_received (?q 1) = ?q 1"
    by code_simp+
  have i: "itoa 1 = ''1''" "itoa 2 = ''2''" by code_simp+
  have "mcp_answer pair_codecs (?q 0) = Some (pair_reply 0)" "mcp_answer pair_codecs (?q 1) = Some (pair_reply 1)"
    using v(1,2) i by (simp_all add: mcp_answer_def pair_requests pair_results pair_reply_def del: One_nat_def)
  then have "call_reply pair_config (mcp_answer pair_codecs) pair_calls 0 = pair_reply 0"
    "call_reply pair_config (mcp_answer pair_codecs) pair_calls 1 = pair_reply 1"
    unfolding call_reply_def Let_def v(3,4) by (simp_all add: response_sent_def response_failure_def pair_reply_def NewResponse_def)
  with less_two[OF assms] show ?thesis by metis
qed

lemma pair_lexes:
  assumes "k < length pair_calls"
  shows "lexes pair_lexer (request_wire json_string (call_request pair_calls k))" "lexes pair_lexer (response_wire json_string (pair_reply k))"
proof -
  let ?mss = "[request_wire json_string (call_request pair_calls 0), request_wire json_string (call_request pair_calls 1),
     response_wire json_string (pair_reply 0), response_wire json_string (pair_reply 1)]"
  have t: "table_members ?mss (object_text (map (map_prod id wire_text) (?mss ! 0))) = flat (?mss ! 0)"
    "table_members ?mss (object_text (map (map_prod id wire_text) (?mss ! 1))) = flat (?mss ! 1)"
    "table_members ?mss (object_text (map (map_prod id wire_text) (?mss ! 2))) = flat (?mss ! 2)"
    "table_members ?mss (object_text (map (map_prod id wire_text) (?mss ! 3))) = flat (?mss ! 3)" by code_simp+
  have i: "itoa 1 = ''1''" "itoa 2 = ''2''" by code_simp+
  have q: "\<forall>(k, x) \<in> set (request_wire json_string (call_request pair_calls 0)). plain_member x"
    "\<forall>(k, x) \<in> set (request_wire json_string (call_request pair_calls 1)). plain_member x"
    unfolding pair_requests
    by (auto simp: plain_member_def request_wire_def value_of_def id_text_def json_string_def pair_params_def brace_not_number)
  have r: "\<forall>(k, x) \<in> set (response_wire json_string (pair_reply 0)). plain_member x"
    "\<forall>(k, x) \<in> set (response_wire json_string (pair_reply 1)). plain_member x"
    using i by (auto simp: plain_member_def response_wire_def pair_reply_def pair_result_def NewResponse_def toID_def value_of_def
        id_text_def json_string_def brace_not_number)
  have "lexes pair_lexer (request_wire json_string (call_request pair_calls 0))" "lexes pair_lexer (request_wire json_string (call_request pair_calls 1))"
    "lexes pair_lexer (response_wire json_string (pair_reply 0))" "lexes pair_lexer (response_wire json_string (pair_reply 1))"
    unfolding pair_lexer_def using table_lexes[OF q(1), of ?mss] table_lexes[OF q(2), of ?mss] table_lexes[OF r(1), of ?mss] table_lexes[OF r(2), of ?mss] t
    by simp_all
  with less_two[OF assms] show "lexes pair_lexer (request_wire json_string (call_request pair_calls k))" "lexes pair_lexer (response_wire json_string (pair_reply k))"
    by metis+
qed

lemma pair_texts:
  assumes "k < length pair_calls" "1000 \<le> n"
  shows "one_line n (request_text json_string (call_request pair_calls k))" "one_line n (response_text json_string (pair_reply k))"
proof -
  let ?ts = "[request_text json_string (call_request pair_calls 0), request_text json_string (call_request pair_calls 1),
      response_text json_string (pair_reply 0), response_text json_string (pair_reply 1)]"
  have "list_all (\<lambda>m. LF \<notin> set m \<and> length m < 200) ?ts" by code_simp
  moreover have "one_line n m" if "LF \<notin> set m \<and> length m < 200" for m using that assms(2) by (auto simp: one_line_def)
  ultimately have "list_all (one_line n) ?ts" unfolding list_all_iff by blast
  with less_two[OF assms(1)] show "one_line n (request_text json_string (call_request pair_calls k))" "one_line n (response_text json_string (pair_reply k))"
    unfolding list.pred_inject by metis+
qed

lemma pair_start:
  "Serve_start False FramingNDJSON (Some \<lparr>rd_rest = pair_input, rd_end = StreamEOF\<rparr>) (Some []) [] None =
    Inr (\<lparr>sr_maxMessageSize = 8388608, sr_maxCalls = 1\<rparr>, pair_server)"
  "NewClient FramingNDJSON (Some \<lparr>rd_rest = input, rd_end = StreamEOF\<rparr>) (Some []) [] = Inr (pair_client input)"
  "fb_maxSize (framer_base (cn_fr (cl_conn (pair_client input)))) = 16777216"
  by (simp_all add: pair_server_def pair_client_def Serve_start_def NewClient_def newFramer_def FramingNDJSON_def FramingContentLength_def
      Framing_valid_def DefaultMaxMessageSize_def DefaultMaxConcurrentCalls_def DefaultClientMaxMessageSize_def)

lemma pair_carried:
  assumes "k < length pair_calls"
  shows "call_carried json_string pair_lexer pair_config (mcp_answer pair_codecs) 8388608 16777216 pair_calls k"
proof -
  have "\<not> isl (MarshalParams (snd (pair_calls ! k)) :: ferr call_err + slice)"
    using less_two[OF assms] by (auto simp: pair_calls_def MarshalParams_def)
  moreover have "request_probe pair_lexer (response_text json_string (pair_reply k)) (response_received (pair_reply k)) = Some False"
    by (simp add: request_probe_def response_received_def pair_reply_def NewResponse_def pair_result_def id_text_def)
  moreover have "cf_maxMessageSize pair_config = 0" by (simp add: pair_config_def mcp_server_simps)
  ultimately show ?thesis
    using pair_lexes[OF assms] pair_texts[OF assms] by (simp add: call_carried_def pair_replies[OF assms])
qed

lemma pair_wire:
  "pair_input = concat (map (the \<circ> frame_wire (cn_fr (sv_conn pair_server))) (map (request_text json_string \<circ> call_request pair_calls) [0, 1]))"
  "list_all (frame_sendable (cn_fr (sv_conn pair_server))) (map (request_text json_string \<circ> call_request pair_calls) [0, 1])"
proof -
  let ?g = "cn_fr (sv_conn pair_server)"
  obtain b where g: "?g = NdjsonFramer b" "fb_maxSize b = 8388608"
    using mcp_serve_start[OF pair_start(1)[unfolded mcp_serve_def[symmetric]]] by auto
  note t = pair_texts(1)[of 0 8388608] pair_texts(1)[of 1 8388608]
  show "pair_input = concat (map (the \<circ> frame_wire ?g) (map (request_text json_string \<circ> call_request pair_calls) [0, 1]))"
    using t ndjson_line(1)[of _ b] by (simp add: pair_input_def g(1) one_line_def pair_calls_def del: frame_wire.simps)
  have "one_line (fb_maxSize (framer_base ?g)) (request_text json_string (call_request pair_calls k))" if "k \<in> {0, 1}" for k
    using that t g by (auto simp: pair_calls_def)
  with one_line_carried(1)[of ?g] show "list_all (frame_sendable ?g) (map (request_text json_string \<circ> call_request pair_calls) [0, 1])"
    by (simp add: request_text_ends)
qed

lemma pair_session:
  "\<exists>s. (serve_step pipe 1 (dispatcher_replies buffer_writer pair_lexer sample_ctx pair_config))\<^sup>*\<^sup>* pair_server s \<and>
    sv_phase s = Returned None \<and> list_all fst (sv_sent s)"
proof -
  have ctx: "no_deadline sample_ctx" by (simp add: no_deadline_def sample_ctx_def)
  show ?thesis unfolding pair_config_def pair_lexer_def
    by (rule session_exists[OF pipe_writer(2,1) mcp_answers ctx table_decodes pair_start(1) _ _ refl pair_wire(2,1)]) simp_all
qed

theorem stdio_calls_answered_witness:
  "\<exists>s c. (serve_step pipe 1 (dispatcher_replies buffer_writer pair_lexer sample_ctx pair_config))\<^sup>*\<^sup>* pair_server s \<and> sv_phase s = Returned None \<and>
     (client_step buffer_writer pair_lexer pipe)\<^sup>*\<^sup>* (pair_client (conn_out id (sv_conn s))) c \<and>
     cl_phases c = [CDone (Inr (Some (pair_result 0))) (Some (pair_reply 0)), CDone (Inr (Some (pair_result 1))) (Some (pair_reply 1))]"
proof -
  obtain s where s: "(serve_step pipe 1 (dispatcher_replies buffer_writer pair_lexer sample_ctx pair_config))\<^sup>*\<^sup>* pair_server s"
    "sv_phase s = Returned None" "list_all fst (sv_sent s)" using pair_session by blast
  have ctx: "no_deadline sample_ctx" by (simp add: no_deadline_def sample_ctx_def)
  have two: "[0..<length pair_calls] = [0, 1]" by (simp add: pair_calls_def upt_rec)
  have input: "pair_input = concat (map (\<lambda>k. the (frame_wire (cn_fr (sv_conn pair_server)) (request_text json_string (call_request pair_calls k)))) [0..<length pair_calls])"
    unfolding two using pair_wire(1) by simp
  have received: "map (\<lambda>k. let r = response_received (call_reply pair_config (mcp_answer pair_codecs) pair_calls k) in
        CDone (response_outcome r) (Some r)) [0, 1] =
      [CDone (Inr (Some (pair_result 0))) (Some (pair_reply 0)), CDone (Inr (Some (pair_result 1))) (Some (pair_reply 1)) :: client_err cphase]"
  proof -
    have "response_received (pair_reply 0) = pair_reply 0" "response_received (pair_reply 1) = pair_reply 1" by code_simp+
    then show ?thesis using pair_replies[of 0] pair_replies[of 1]
      by (simp add: pair_calls_def response_outcome_def) (simp add: pair_reply_def NewResponse_def)
  qed
  have answers: "answers_by no_deadline pair_config (mcp_answer pair_codecs)" unfolding pair_config_def by (rule mcp_answers)
  have internal: "cf_errors pair_config InternalErrorCode \<noteq> None"
    by (simp add: pair_config_def mcp_server_simps default_errors_def)
  have "\<exists>c1 c2. (client_step buffer_writer pair_lexer pipe)\<^sup>*\<^sup>* (pair_client (conn_out id (sv_conn s))) c1 \<and> conn_out id (cl_conn c1) = pair_input \<and>
    (client_step buffer_writer pair_lexer pipe)\<^sup>*\<^sup>* c1 c2 \<and>
    cl_phases c2 = map (\<lambda>k. let r = response_received (call_reply pair_config (mcp_answer pair_codecs) pair_calls k) in
        CDone (response_outcome r) (Some r)) [0..<length pair_calls]"
    by (rule stdio_calls_answered[OF buffer_writer_ok answers ctx internal pipe_writer(1,2) _ pipe_writer(1) _ pair_start(1) _ input _ s(2,3) pair_start(2)])
      (use s(1) pair_start(3) pair_carried in simp_all)
  then show ?thesis unfolding two received using s(1,2) by (meson rtranclp_trans)
qed

end
