(* ===== verification/WorkloadProps.thy ===== *)
theory WorkloadProps
  imports ProgramsProps Remote BatchScan
begin

text \<open>
  The HTTP program \<open>example/main.go\<close> from the client's call to the sum, and the batches of the
  benchmarks as the scanners of \<open>handle.go\<close> see them.
\<close>

section \<open>The sum over HTTP\<close>

definition sum_server :: "(bytes \<Rightarrow> bytes + income) \<Rightarrow> int \<Rightarrow> ('e, 'v) config" where
  "sum_server um p = fst (snd (RegisterMethod ''sum'' (sum_method um) (New p)))"

lemmas sum_defs = sum_server_def RegisterMethod_def registerMethod_def updateRegistry_def update_def compose_def New_def
  has_prefix.simps

lemma sum_main_starts: "sum_main um p = Returns (sum_server um p, http_Handler [])"
  by (simp add: sum_main_def sum_defs)

lemma sum_server_ok: "config_ok (sum_server um p)"
  using config_ok_run_ops[OF config_ok_New, of "[OpRegisterMethod ''sum'' (sum_method um) (zero_methodinfo\<lparr>mi_Name := ''sum''\<rparr>)]" p]
  by (simp add: sum_server_def RegisterMethod_def run_ops_def)

lemma sum_server_simps:
  "cf_composed (sum_server um p) ''sum'' = Some (sum_method um)" "cf_globalInterceptors (sum_server um p) = []"
  "cf_enforcedTimeout (sum_server um p) = False" "cf_observe (sum_server um p) = None" "cf_maxMessageSize (sum_server um p) = 0"
  "method_timeout (sum_server um p) name = 30 * second"
  by (simp_all add: sum_defs method_timeout_def zero_methodinfo_def)

definition sum_result :: "64 word \<Rightarrow> bytes" where
  "sum_result x = ''{\"sum\":'' @ itoa (sint x) @ ''}''"

lemma sum_marshal: "json_Marshal (outcome_value \<lparr>out_Sum = x\<rparr>) = sum_result x"
  by (simp add: outcome_value_def json_object_def plain_bodies member_def sum_result_def del: string_body.simps)

lemma sum_handleRPC:
  assumes "no_deadline ctx" "validateRequest req = None" "rq_Method req = ''sum''" "slice_len (rq_ID req) > 0"
    and "um (slice_bytes (rq_Params req)) = Inr inc"
  shows "\<exists>d. handleRPC env ctx (sum_server um p) req t = Some d \<and>
    hd_resp d = Some (NewResponse (AID (rq_ID req)) (Some (Some (sum_result (in_A inc + in_B inc)))) None)"
proof -
  let ?r = "NewResponse (AID (rq_ID req)) (Some (Some (sum_result (in_A inc + in_B inc)))) None"
  let ?c = "WithTimeoutCtx ctx t (30 * second)"
  have m: "sum_method um (ev_user env) t ?c (rq_Params req) = (Returns (Some (sum_result (in_A inc + in_B inc)), OK, None), 0)"
    by (simp add: sum_method_def assms(5) sum_marshal)
  obtain evs where "rpc_call (sum_server um p) (ev_user env) t ?c ''sum'' (rq_Params req) (AID (rq_ID req)) = Some (?r, evs, t)"
    using call_returns[OF sum_server_simps(2,1) m] by blast
  with not_timed_out[OF assms(1), of t]
  have "dispatch env ctx (sum_server um p) req t = Some \<lparr>dp_resp = ?r, dp_time = t, dp_events = evs, dp_detached = []\<rparr>"
    by (simp add: dispatch_def sum_server_simps assms(3) Let_def)
  with assms(2,4) show ?thesis by (simp add: handleRPC_def observe_def sum_server_simps)
qed

text \<open>
  A \<open>Call\<close> of \<open>sum\<close> with parameters that decode to \<open>a\<close> and \<open>b\<close> returns \<open>{"sum":a+b}\<close>, in
  64 bits, whatever the ids and the schedule are.
\<close>

lemma sum_over_http:
  assumes "jwriter_ok jw quote view" "0 \<le> seq" "no_deadline ctx"
    and "MarshalParams params = (Inr (Some raw) :: http_err call_err + slice)" "raw \<noteq> []" "raw \<noteq> ''null''" "um raw = Inr inc"
    and "q = \<lparr>rq_Version = Version, rq_Method = ''sum'', rq_Params = Some raw, rq_ID = Some (itoa (seq + 1))\<rparr>"
    and "r = NewResponse (AID (rq_ID q)) (Some (Some (sum_result (in_A inc + in_B inc)))) None"
    and "lexes lx (request_wire quote q)" "lexes lx (response_wire quote r)"
    and "int (length (response_text quote r)) < ht_maxResponseSize c"
    and "int (length (object_text (request_members quote q))) \<le> 2 ^ 20"
  shows "http_Call jw lx (served (dispatcher jw lx sched ctx (sum_server um p :: ('e, 'v) config)) (http_Handler [])) c ''sum'' params (seq, n) =
    Some (Inr (Some (sum_result (in_A inc + in_B inc))), seq + 1, n)"
proof -
  have i: "itoa (seq + 1) \<noteq> []" using assms(2) by (simp add: itoa_nonneg)
  obtain k where k: "k < 10" "hd (itoa (seq + 1)) = digit k"
    using nat_digits_hd[of "nat (seq + 1)"] assms(2) by (auto simp: itoa_nonneg)
  have "digit k \<in> set ''0123456789''" using k(1) unfolding digit_def by (intro nth_mem) simp
  with k(2) have h: "hd (itoa (seq + 1)) \<in> set (QUOTE # ''-n0123456789'')" by auto
  have rec: "request_received q = q" using assms(5,6,8) i by (simp add: request_received_def id_text_def)
  have "validateRequest q = None" using assms(8) i h itoa_value[of "seq + 1"] by (simp add: validateRequest_def Version_def)
  then obtain d where d: "handleRPC (fst (sched 0)) ctx (sum_server um p) q (snd (sched 0)) = Some d" "hd_resp d = Some r"
    using sum_handleRPC[OF assms(3), of q um inc "fst (sched 0)" p "snd (sched 0)"] assms(7-9) i by auto
  have run: "handleRPC (fst (sched 0)) ctx (sum_server um p) (request_received q) (snd (sched 0)) = Some d"
    using d(1) by (simp add: rec)
  have sent: "response_sent (sum_server um p :: ('e, 'v) config) (rq_ID q) r = r"
    by (simp add: response_sent_def response_failure_def assms(9))
  have body: "hh_maxBodySize (http_Handler []) = 1048576" by (simp add: http_Handler_def DefaultMaxBodySize_def)
  have "response_outcome (response_received r) = (Inr (Some (sum_result (in_A inc + in_B inc))) :: http_err call_err + slice)"
    by (simp add: response_outcome_def response_received_def assms(9) id_text_def sum_result_def)
  then show ?thesis using http_call_served[where sched = sched and cfg = "sum_server um p" and params = params and c = c and h = "http_Handler []" and n = n,
      OF assms(1) sum_server_ok assms(2,4,8) run assms(10)] d(2) sent assms(11-13) body
    by (auto simp: sum_server_simps)
qed

section \<open>The batches of the benchmarks\<close>

lemma batch_entries_join:
  assumes "1 < i"
  shows "batch_entries i n = concat (map (\<lambda>x. COMMA # x) (map SumRequestJSON [i..n]))"
  using assms
proof (induction i n rule: batch_entries.induct)
  case (1 i n)
  then show ?case by (cases "i \<le> n") (simp_all add: batch_entries.simps[of i n] upto.simps[of i n])
qed

lemma BatchRequestJSON_array: "BatchRequestJSON n = array_text (map SumRequestJSON [1..n])"
  using batch_entries_join[of 2 n]
  by (cases "1 \<le> n") (simp_all add: BatchRequestJSON_def array_text_def batch_entries.simps[of 1 n] upto.simps[of 1 n])

text \<open>The loop of \<open>splitBatchElements\<close> passes over an element at the top level of the array.\<close>

definition atomic :: "bytes \<Rightarrow> bool" where
  "atomic e \<longleftrightarrow> (\<forall>inner i elems. byte_loop (split_body inner) i e
       \<lparr>sp_depth = 0, sp_inString = False, sp_escaped = False, sp_start = -1, sp_elems = elems\<rparr> =
     Inr \<lparr>sp_depth = 0, sp_inString = False, sp_escaped = False, sp_start = int i, sp_elems = elems\<rparr>)"

lemma digits_kept:
  assumes "list_all isDigit ds" "sp_start st \<noteq> -1" "\<not> sp_inString st"
  shows "byte_loop (split_body inner) i ds st = Inr st"
  using assms(1)
proof (induction ds arbitrary: i)
  case (Cons c cs)
  then have "\<not> structural c" by (auto simp: structural_def isDigit_def isSpace_def)
  with Cons assms(2,3) show ?case by (simp add: split_body_plain)
qed simp

lemma SumRequestJSON_atomic:
  assumes "0 \<le> v"
  shows "atomic (SumRequestJSON v)"
  unfolding atomic_def
proof (intro allI)
  fix inner i elems
  let ?st = "\<lparr>sp_depth = 0, sp_inString = False, sp_escaped = False, sp_start = -1, sp_elems = elems\<rparr>"
  let ?pre = "''{\"jsonrpc\":\"2.0\",\"method\":\"sum\",\"params\":{\"a\":3,\"b\":4},\"id\":''"
  let ?mid = "\<lparr>sp_depth = 1, sp_inString = False, sp_escaped = False, sp_start = int i, sp_elems = elems\<rparr>"
  have pre: "byte_loop (split_body inner) i ?pre ?st = Inr ?mid" by (simp add: split_body_def)
  have "list_all isDigit (itoa v)" using assms nat_digits_all[of isDigit "nat v"] digit_isDigit by (simp add: itoa_nonneg)
  from digits_kept[OF this, of ?mid] have mid: "byte_loop (split_body inner) j (itoa v) ?mid = Inr ?mid" for j by simp
  have fin: "byte_loop (split_body inner) j ''}'' ?mid = Inr (?st\<lparr>sp_start := int i\<rparr>)" for j by (simp add: split_body_def)
  show "byte_loop (split_body inner) i (SumRequestJSON v) ?st = Inr \<lparr>sp_depth = 0, sp_inString = False, sp_escaped = False, sp_start = int i, sp_elems = elems\<rparr>"
    unfolding SumRequestJSON_def byte_loop_append pre sum.case mid fin by simp
qed

lemma split_elements:
  assumes "list_all atomic ys" "inner = p @ y @ concat (map (\<lambda>x. COMMA # x) ys)"
  shows "\<exists>st. byte_loop (split_body inner) (length (p @ y)) (concat (map (\<lambda>x. COMMA # x) ys))
      \<lparr>sp_depth = 0, sp_inString = False, sp_escaped = False, sp_start = int (length p), sp_elems = elems\<rparr> = Inr st \<and>
    split_end inner st = Some (elems @ y # ys)"
  using assms
proof (induction ys arbitrary: p y elems)
  case (Cons z ys)
  let ?st = "\<lparr>sp_depth = 0, sp_inString = False, sp_escaped = False, sp_start = int (length p), sp_elems = elems\<rparr>"
  have cut: "split_body inner (length (p @ y)) COMMA ?st =
      Inr \<lparr>sp_depth = 0, sp_inString = False, sp_escaped = False, sp_start = -1, sp_elems = elems @ [y]\<rparr>"
    by (simp add: split_body_comma Cons.prems(2))
  have inner: "inner = (p @ y @ [COMMA]) @ z @ concat (map (\<lambda>x. COMMA # x) ys)" using Cons.prems(2) by simp
  have z: "byte_loop (split_body inner) (length (p @ y @ [COMMA])) z
      \<lparr>sp_depth = 0, sp_inString = False, sp_escaped = False, sp_start = -1, sp_elems = elems @ [y]\<rparr> =
    Inr \<lparr>sp_depth = 0, sp_inString = False, sp_escaped = False, sp_start = int (length (p @ y @ [COMMA])), sp_elems = elems @ [y]\<rparr>"
    using Cons.prems(1) by (simp add: atomic_def)
  have all: "list_all atomic ys" using Cons.prems(1) by simp
  from Cons.IH[OF all inner, of "elems @ [y]"] cut z show ?case
    by (simp add: byte_loop_append del: length_append) (simp add: add.assoc)
qed (simp add: split_end_def)

lemma split_array:
  assumes "list_all atomic es"
  shows "splitBatchElements (array_text es) = Some es"
proof (cases es)
  case (Cons y ys)
  let ?inner = "y @ concat (map (\<lambda>x. COMMA # x) ys)"
  have y: "byte_loop (split_body ?inner) 0 y split_init =
      Inr \<lparr>sp_depth = 0, sp_inString = False, sp_escaped = False, sp_start = 0, sp_elems = []\<rparr>"
    using assms Cons by (simp add: atomic_def split_init_def)
  have "list_all atomic ys" using assms Cons by simp
  moreover have "butlast (y @ concat (map (\<lambda>x. COMMA # x) ys) @ [RBRACK]) = ?inner" by (metis append_assoc butlast_snoc)
  ultimately show ?thesis using split_elements[of ys ?inner "[]" y "[]"] y Cons
    by (auto simp: splitBatchElements_def array_text_def byte_loop_append Let_def)
qed (simp add: splitBatchElements_def array_text_def split_init_def split_end_def)

lemma SumRequestJSON_object:
  "SumRequestJSON v = object_text [(''jsonrpc'', ''\"2.0\"''), (''method'', ''\"sum\"''), (''params'', ''{\"a\":3,\"b\":4}''), (''id'', itoa v)]"
  by (simp add: SumRequestJSON_def member_def)

lemma SumRequestJSON_fits: "fits 1 (SumRequestJSON v)"
proof -
  have e: "embeddable 2 ''\"2.0\"''" "embeddable 2 ''\"sum\"''" "embeddable 2 ''{\"a\":3,\"b\":4}''" by code_simp+
  have "fits 2 (itoa v)" using itoa_value[of v] by (intro value_fits) simp_all
  then show ?thesis unfolding SumRequestJSON_object
    by (intro fits_object) (simp_all add: plain_keys e[THEN embeddable_fits, unfolded numeral_2_eq_2] numeral_2_eq_2 maxNestingDepth_def)
qed

text \<open>
  The frame of a benchmark's batch is valid JSON without a newline, \<open>splitBatchElements\<close> gives
  back the requests it was made of, and \<open>approxBatchLen\<close> counts them.
\<close>

lemma BatchRequestJSON_splits:
  assumes "0 \<le> n"
  shows "Valid (BatchRequestJSON n)" "splitBatchElements (BatchRequestJSON n) = Some (map SumRequestJSON [1..n])"
    "1 \<le> limit \<Longrightarrow> approxBatchLen (BatchRequestJSON n) limit = min n (limit + 1)" "LF \<notin> set (BatchRequestJSON n)"
proof -
  show "Valid (BatchRequestJSON n)" unfolding BatchRequestJSON_array
  proof (rule Valid_array, intro ballI conjI)
    fix x assume "x \<in> set (map SumRequestJSON [1..n])"
    then obtain v where "x = SumRequestJSON v" by auto
    then show "fits 1 x" "\<exists>y. x = LBRACE # y" using SumRequestJSON_fits[of v] by (simp, simp add: SumRequestJSON_def)
  qed
  have at: "list_all atomic (map SumRequestJSON [1..n])" by (auto simp: list_all_iff SumRequestJSON_atomic)
  show split: "splitBatchElements (BatchRequestJSON n) = Some (map SumRequestJSON [1..n])"
    unfolding BatchRequestJSON_array by (rule split_array[OF at])
  show "approxBatchLen (BatchRequestJSON n) limit = min n (limit + 1)" if "1 \<le> limit"
    using approx_counts[of "batch_entries 1 n" "map SumRequestJSON [1..n]" limit] split that assms
    by (simp add: BatchRequestJSON_def)
  have "LF \<notin> set (itoa v)" for v
  proof -
    have "d < 10 \<Longrightarrow> digit d \<noteq> LF" for d using digit_isDigit[of d] by (auto simp: isDigit_def byte_val_def)
    then have "list_all (\<lambda>c. c \<noteq> LF) (nat_digits k)" for k by (rule nat_digits_all)
    then show ?thesis by (auto simp: itoa_def list_all_iff)
  qed
  then have "LF \<notin> set (SumRequestJSON v)" for v by (simp add: SumRequestJSON_def)
  then show "LF \<notin> set (BatchRequestJSON n)"
    unfolding BatchRequestJSON_array by (auto simp: array_text_def split: list.split)
qed

text \<open>The answer that the benchmarks expect is the one of their handler.\<close>

lemma CheckSum_accepts: "CheckSum got = None \<longleftrightarrow> got = sr_Sum (Sum \<lparr>sp_A = 3, sp_B = 4\<rparr>)"
  by (simp add: CheckSum_def WantSum_def Sum_def)

end
