(* ===== verification/OpenRPC.thy ===== *)
theory OpenRPC
  imports Config "HOL-Library.AList"
begin

text \<open>
  Service discovery (\<open>openrpc/schema.go\<close>, \<open>openrpc/openrpc.go\<close>): the JSON schemas of Go types
  and the OpenRPC document of a method registry.

  Package \<open>reflect\<close> is a record: \<open>rf_type\<close> gives what the code asks of a \<open>reflect.Type\<close>, and a
  type is its handle. The code recurses over the types, and for some types forever; \<open>n\<close> is
  the depth of the recursion allowed, and \<open>None\<close> says that it was not enough. Go's maps are
  association lists; a reserved definition, nil in the code, is \<open>None\<close>.
\<close>

section \<open>Types\<close>

datatype kind =
    KInvalid | KBool | KInt | KInt8 | KInt16 | KInt32 | KInt64
  | KUint | KUint8 | KUint16 | KUint32 | KUint64 | KUintptr | KFloat32 | KFloat64
  | KComplex64 | KComplex128 | KArray | KChan | KFunc | KInterface | KMap | KPointer | KSlice
  | KString | KStruct | KUnsafePointer

text \<open>\<open>sf_Tag\<close> is the value of the tag under the key \<open>json\<close>.\<close>

record struct_field =
  sf_Name :: bytes
  sf_Type :: rtype
  sf_Tag :: bytes
  sf_Anonymous :: bool
  sf_Exported :: bool

record type_info =
  ti_Kind :: kind
  ti_Name :: bytes
  ti_String :: bytes
  ti_Elem :: rtype
  ti_Fields :: "struct_field list"

record reflection =
  rf_type :: "rtype \<Rightarrow> type_info"
  rf_timeType :: rtype
  rf_rawMessageType :: rtype
  rf_byteSliceType :: rtype

abbreviation Kind :: "reflection \<Rightarrow> rtype \<Rightarrow> kind" where "Kind re t \<equiv> ti_Kind (rf_type re t)"
abbreviation Elem :: "reflection \<Rightarrow> rtype \<Rightarrow> rtype" where "Elem re t \<equiv> ti_Elem (rf_type re t)"
abbreviation Name :: "reflection \<Rightarrow> rtype \<Rightarrow> bytes" where "Name re t \<equiv> ti_Name (rf_type re t)"

definition isWellKnown :: "reflection \<Rightarrow> rtype \<Rightarrow> bool" where
  "isWellKnown re t \<longleftrightarrow> t = rf_timeType re"

section \<open>Fields\<close>

text \<open>\<open>strings.Cut\<close> at the first comma.\<close>

definition Cut :: "bytes \<Rightarrow> bytes \<times> bytes" where
  "Cut s = (takeWhile (\<lambda>c. c \<noteq> COMMA) s, tl (dropWhile (\<lambda>c. c \<noteq> COMMA) s))"

lemma Cut_shorter: "snd (Cut (c # cs)) = r \<Longrightarrow> length r \<le> length cs"
  using length_dropWhile_le[of "\<lambda>c. c \<noteq> COMMA" cs] by (auto simp: Cut_def)

function hasOpt :: "bytes \<Rightarrow> bytes \<Rightarrow> bool" where
  "hasOpt [] want = False"
| "hasOpt (c # cs) want =
     (if fst (Cut (c # cs)) = want then True else hasOpt (snd (Cut (c # cs))) want)"
  by pat_completeness auto

termination
  by (relation "measure (length \<circ> fst)") (simp_all add: Cut_shorter le_imp_less_Suc)

record fieldInfo =
  fi_jsonName :: bytes
  fi_omitempty :: bool
  fi_typ :: rtype
  fi_index :: "nat list"

text \<open>Through the pointers to the type they end at.\<close>

fun strip_pointers :: "reflection \<Rightarrow> nat \<Rightarrow> rtype \<Rightarrow> rtype option" where
  "strip_pointers re 0 t = None"
| "strip_pointers re (Suc n) t = (if Kind re t = KPointer then strip_pointers re n (Elem re t) else Some t)"

text \<open>
  \<open>out\<close> and \<open>seen\<close>. \<open>add_field\<close> is the end of the loop body of \<open>walk\<close>; \<open>walk_fields\<close> is the loop,
  with the recursive call as an argument.
\<close>

type_synonym walked = "fieldInfo list \<times> bytes list"

definition add_field :: "struct_field \<Rightarrow> nat list \<Rightarrow> walked \<Rightarrow> walked" where
  "add_field f index acc =
     (case acc of (out, seen) \<Rightarrow> case Cut (sf_Tag f) of (name, opts) \<Rightarrow>
        let name = (if name = [] then sf_Name f else name) in
        if name \<in> set seen then (out, seen)
        else (out @ [\<lparr>fi_jsonName = name, fi_omitempty = hasOpt opts ''omitempty'', fi_typ = sf_Type f,
                fi_index = index\<rparr>], seen @ [name]))"

fun walk_fields :: "(rtype \<Rightarrow> nat list \<Rightarrow> walked \<Rightarrow> walked option) \<Rightarrow> reflection \<Rightarrow> nat \<Rightarrow> nat list \<Rightarrow> nat \<Rightarrow>
    struct_field list \<Rightarrow> walked \<Rightarrow> walked option" where
  "walk_fields rec re n pre i [] acc = Some acc"
| "walk_fields rec re n pre i (f # fs) acc =
     (if \<not> sf_Exported f \<or> sf_Tag f = ''-'' then walk_fields rec re n pre (Suc i) fs acc
      else if sf_Anonymous f \<and> fst (Cut (sf_Tag f)) = [] then
        (case strip_pointers re n (sf_Type f) of
           None \<Rightarrow> None
         | Some ft \<Rightarrow>
             if Kind re ft = KStruct then
               (case rec ft (pre @ [i]) acc of
                  None \<Rightarrow> None
                | Some acc' \<Rightarrow> walk_fields rec re n pre (Suc i) fs acc')
             else walk_fields rec re n pre (Suc i) fs (add_field f (pre @ [i]) acc))
      else walk_fields rec re n pre (Suc i) fs (add_field f (pre @ [i]) acc))"

fun walk :: "reflection \<Rightarrow> nat \<Rightarrow> rtype \<Rightarrow> nat list \<Rightarrow> walked \<Rightarrow> walked option" where
  "walk re 0 t pre acc = None"
| "walk re (Suc n) t pre acc = walk_fields (walk re n) re n pre 0 (ti_Fields (rf_type re t)) acc"

definition flatFields :: "reflection \<Rightarrow> nat \<Rightarrow> rtype \<Rightarrow> fieldInfo list option" where
  "flatFields re n t = map_option fst (walk re n t [] ([], []))"

section \<open>Schemas\<close>

datatype schema = Schema
  (sm_Ref: bytes) (sm_Type: bytes) (sm_Format: bytes) (sm_ContentEncoding: bytes)
  (sm_Items: "schema option") (sm_Properties: "(bytes \<times> schema) list") (sm_Required: "bytes list")
  (sm_AdditionalProperties: "schema option")

definition any_schema :: schema where "any_schema = Schema [] [] [] [] None [] [] None"
definition typed_schema :: "bytes \<Rightarrow> schema" where "typed_schema ty = Schema [] ty [] [] None [] [] None"
definition base64_schema :: schema where "base64_schema = Schema [] ''string'' [] ''base64'' None [] [] None"
definition ref_schema :: "bytes \<Rightarrow> schema" where
  "ref_schema name = Schema (''#/components/schemas/'' @ name) [] [] [] None [] [] None"

record builder =
  bd_defs :: "(bytes \<times> schema option) list"
  bd_names :: "(rtype \<times> bytes) list"

definition newBuilder :: builder where "newBuilder = \<lparr>bd_defs = [], bd_names = []\<rparr>"

definition name_char :: "char \<Rightarrow> bool" where
  "name_char c \<longleftrightarrow> (let v = byte_val c in 0x61 \<le> v \<and> v \<le> 0x7A \<or> 0x41 \<le> v \<and> v \<le> 0x5A \<or> 0x30 \<le> v \<and> v \<le> 0x39) \<or>
     c = CHR ''_'' \<or> c = CHR ''.''"

text \<open>\<open>sanitizeName\<close>: every rune outside the allowed ones, malformed bytes included, becomes one \<open>_\<close>.\<close>

function sanitizeName :: "bytes \<Rightarrow> bytes" where
  "sanitizeName [] = []"
| "sanitizeName (c # cs) =
     (if byte_val c < 0x80 then (if name_char c then c else CHR ''_'') # sanitizeName cs
      else CHR ''_'' # (case rune_size (c # cs) of
          None \<Rightarrow> sanitizeName cs
        | Some n \<Rightarrow> sanitizeName (drop (n - 1) cs)))"
  by pat_completeness auto
termination by (relation "measure length") auto

text \<open>The loop of \<open>defName\<close>, for at most \<open>n\<close> rounds.\<close>

fun free_name :: "nat \<Rightarrow> nat \<Rightarrow> bytes \<Rightarrow> bytes \<Rightarrow> (bytes \<times> schema option) list \<Rightarrow> bytes option" where
  "free_name 0 i base qualified defs = None"
| "free_name (Suc n) i base qualified defs =
     (if map_of defs qualified = None then Some qualified
      else free_name n (Suc i) base (base @ ''_'' @ itoa (int i)) defs)"

definition defName :: "reflection \<Rightarrow> rtype \<Rightarrow> builder \<Rightarrow> bytes option" where
  "defName re t b =
     (let name = sanitizeName (Name re t) in
      if map_of (bd_defs b) name = None then Some name
      else let base = sanitizeName (ti_String (rf_type re t)) in
        free_name (Suc (length (bd_defs b))) 2 base base (bd_defs b))"

text \<open>
  The loop over the fields that \<open>objectSchema\<close> and \<open>paramsOf\<close> share; \<open>rec\<close> is \<open>schemaOf\<close>, with
  the depth that is left.
\<close>

type_synonym schema_rec = "rtype \<Rightarrow> builder \<Rightarrow> (schema \<times> builder) option"

fun field_schemas :: "schema_rec \<Rightarrow> fieldInfo list \<Rightarrow> builder \<Rightarrow> ((fieldInfo \<times> schema) list \<times> builder) option" where
  "field_schemas rec [] b = Some ([], b)"
| "field_schemas rec (f # fs) b =
     (case rec (fi_typ f) b of
        None \<Rightarrow> None
      | Some (s, b1) \<Rightarrow>
          (case field_schemas rec fs b1 of
             None \<Rightarrow> None
           | Some (ps, b2) \<Rightarrow> Some ((f, s) # ps, b2)))"

definition objectSchema :: "schema_rec \<Rightarrow> reflection \<Rightarrow> nat \<Rightarrow> schema_rec" where
  "objectSchema rec re n t b =
     (case flatFields re n t of
        None \<Rightarrow> None
      | Some fs \<Rightarrow>
          (case field_schemas rec fs b of
             None \<Rightarrow> None
           | Some (ps, b1) \<Rightarrow>
               Some (Schema [] ''object'' [] [] None
                  (fold (\<lambda>(f, s). AList.update (fi_jsonName f) s) ps [])
                  (map (fi_jsonName \<circ> fst) (filter (\<lambda>(f, s). \<not> fi_omitempty f) ps)) None, b1)))"

definition structSchema :: "schema_rec \<Rightarrow> reflection \<Rightarrow> nat \<Rightarrow> schema_rec" where
  "structSchema rec re n t b =
     (if Name re t = [] then objectSchema rec re n t b
      else case map_of (bd_names b) t of
          Some name \<Rightarrow> Some (ref_schema name, b)
        | None \<Rightarrow>
            (case defName re t b of
               None \<Rightarrow> None
             | Some name \<Rightarrow>
                 (case objectSchema rec re n t (b\<lparr>bd_names := AList.update t name (bd_names b),
                         bd_defs := AList.update name None (bd_defs b)\<rparr>) of
                    None \<Rightarrow> None
                  | Some (s, b1) \<Rightarrow>
                      Some (ref_schema name, b1\<lparr>bd_defs := AList.update name (Some s) (bd_defs b1)\<rparr>))))"

text \<open>One level of \<open>schemaOf\<close> for a type that is not nil.\<close>

definition schema_body :: "schema_rec \<Rightarrow> reflection \<Rightarrow> nat \<Rightarrow> schema_rec" where
  "schema_body rec re n t b =
     (if t = rf_rawMessageType re then Some (any_schema, b)
      else if t = rf_timeType re then Some (Schema [] ''string'' ''date-time'' [] None [] [] None, b)
      else if t = rf_byteSliceType re then Some (base64_schema, b)
      else case Kind re t of
          KPointer \<Rightarrow> rec (Elem re t) b
        | KBool \<Rightarrow> Some (typed_schema ''boolean'', b)
        | KInt \<Rightarrow> Some (typed_schema ''integer'', b) | KInt8 \<Rightarrow> Some (typed_schema ''integer'', b)
        | KInt16 \<Rightarrow> Some (typed_schema ''integer'', b) | KInt32 \<Rightarrow> Some (typed_schema ''integer'', b)
        | KInt64 \<Rightarrow> Some (typed_schema ''integer'', b) | KUint \<Rightarrow> Some (typed_schema ''integer'', b)
        | KUint8 \<Rightarrow> Some (typed_schema ''integer'', b) | KUint16 \<Rightarrow> Some (typed_schema ''integer'', b)
        | KUint32 \<Rightarrow> Some (typed_schema ''integer'', b) | KUint64 \<Rightarrow> Some (typed_schema ''integer'', b)
        | KUintptr \<Rightarrow> Some (typed_schema ''integer'', b)
        | KFloat32 \<Rightarrow> Some (typed_schema ''number'', b) | KFloat64 \<Rightarrow> Some (typed_schema ''number'', b)
        | KString \<Rightarrow> Some (typed_schema ''string'', b)
        | KSlice \<Rightarrow>
            (if Kind re (Elem re t) = KUint8 then Some (base64_schema, b)
             else map_option (\<lambda>(s, b1). (Schema [] ''array'' [] [] (Some s) [] [] None, b1)) (rec (Elem re t) b))
        | KArray \<Rightarrow>
            (if Kind re (Elem re t) = KUint8 then Some (base64_schema, b)
             else map_option (\<lambda>(s, b1). (Schema [] ''array'' [] [] (Some s) [] [] None, b1)) (rec (Elem re t) b))
        | KMap \<Rightarrow> map_option (\<lambda>(s, b1). (Schema [] ''object'' [] [] None [] [] (Some s), b1)) (rec (Elem re t) b)
        | KStruct \<Rightarrow> structSchema rec re n t b
        | _ \<Rightarrow> Some (any_schema, b))"

fun schema_of :: "reflection \<Rightarrow> nat \<Rightarrow> schema_rec" where
  "schema_of re 0 t b = None"
| "schema_of re (Suc n) t b = schema_body (schema_of re n) re n t b"

definition schemaOf :: "reflection \<Rightarrow> nat \<Rightarrow> rtype option \<Rightarrow> builder \<Rightarrow> (schema \<times> builder) option" where
  "schemaOf re n t b = (case t of None \<Rightarrow> Some (any_schema, b) | Some t \<Rightarrow> schema_of re n t b)"

section \<open>The document\<close>

record service_info =
  in_Title :: bytes
  in_Version :: bytes
  in_Description :: bytes

record contentDescriptor =
  cd_Name :: bytes
  cd_Required :: bool
  cd_Schema :: schema

record errObj =
  eo_Code :: int
  eo_Message :: bytes
  eo_Data :: "bytes option"

record doc_example =
  ex_Name :: bytes
  ex_Value :: goany

record examplePairing =
  xr_Name :: bytes
  xr_Params :: "doc_example list"
  xr_Result :: "doc_example option"

record method_doc =
  md_Name :: bytes
  md_Summary :: bytes
  md_Description :: bytes
  md_Deprecated :: bool
  md_Tags :: "bytes list"
  md_ParamStructure :: bytes
  md_Params :: "contentDescriptor list"
  md_Result :: "contentDescriptor option"
  md_Errors :: "errObj list"
  md_Examples :: "examplePairing list"
  md_Extra :: "bytes \<rightharpoonup> goany"

record document =
  dc_OpenRPC :: bytes
  dc_Info :: service_info
  dc_Methods :: "method_doc list"
  dc_Components :: "(bytes \<times> schema option) list"

definition Public :: "methodinfo list \<Rightarrow> methodinfo list" where
  "Public methods = filter mi_Public methods"

definition paramsOf :: "reflection \<Rightarrow> nat \<Rightarrow> rtype option \<Rightarrow> builder \<Rightarrow>
    ((bytes \<times> contentDescriptor list) \<times> builder) option" where
  "paramsOf re n t0 b =
     (case t0 of
        None \<Rightarrow> Some (([], []), b)
      | Some t0 \<Rightarrow>
          (case strip_pointers re n t0 of
             None \<Rightarrow> None
           | Some t \<Rightarrow>
               if Kind re t = KStruct \<and> \<not> isWellKnown re t then
                 (case flatFields re n t of
                    None \<Rightarrow> None
                  | Some fs \<Rightarrow>
                      map_option (\<lambda>(ps, b1).
                        let cds = map (\<lambda>(f, s). \<lparr>cd_Name = fi_jsonName f, cd_Required = \<not> fi_omitempty f, cd_Schema = s\<rparr>) ps
                        in if cds = [] then (([], cds), b1) else ((''by-name'', cds), b1))
                        (field_schemas (schema_of re n) fs b))
               else map_option (\<lambda>(s, b1). (([], [\<lparr>cd_Name = ''params'', cd_Required = False, cd_Schema = s\<rparr>]), b1))
                      (schema_of re n t b)))"

text \<open>
  \<open>reflect.ValueOf\<close> as far as \<open>exampleParams\<close> looks at a value: a pointer, nil or to a value; a
  struct with its type and what \<open>FieldByIndexErr\<close> finds at an index path, \<open>None\<close> behind a nil
  pointer; a map with string keys in the order \<open>MapKeys\<close> yields them; anything else.
\<close>

datatype rvalue =
    VPointer "rvalue option"
  | VStruct rtype "nat list \<Rightarrow> goany option"
  | VStringMap "(bytes \<times> goany) list"
  | VOther

fun deref :: "rvalue \<Rightarrow> rvalue option" where
  "deref (VPointer None) = None"
| "deref (VPointer (Some r)) = deref r"
| "deref r = Some r"

definition exampleParams :: "reflection \<Rightarrow> (goany \<Rightarrow> rvalue) \<Rightarrow> nat \<Rightarrow> goany \<Rightarrow> doc_example list option" where
  "exampleParams re valueOf n v =
     (if v = ANil then Some []
      else case deref (valueOf v) of
          None \<Rightarrow> Some []
        | Some (VStruct t fieldByIndex) \<Rightarrow>
            (if isWellKnown re t then Some [\<lparr>ex_Name = ''params'', ex_Value = v\<rparr>]
             else map_option (List.map_filter (\<lambda>f. map_option
                 (\<lambda>fv. \<lparr>ex_Name = fi_jsonName f, ex_Value = fv\<rparr>) (fieldByIndex (fi_index f)))) (flatFields re n t))
        | Some (VStringMap kvs) \<Rightarrow> Some (map (\<lambda>(k, x). \<lparr>ex_Name = k, ex_Value = x\<rparr>) kvs)
        | _ \<Rightarrow> Some [\<lparr>ex_Name = ''params'', ex_Value = v\<rparr>])"

fun example_pairings :: "reflection \<Rightarrow> (goany \<Rightarrow> rvalue) \<Rightarrow> nat \<Rightarrow> examplepair list \<Rightarrow> examplePairing list option" where
  "example_pairings re valueOf n [] = Some []"
| "example_pairings re valueOf n (x # xs) =
     (case exampleParams re valueOf n (xp_Params x) of
        None \<Rightarrow> None
      | Some ps \<Rightarrow> map_option (\<lambda>rest. \<lparr>xr_Name = xp_Name x, xr_Params = ps,
            xr_Result = Some \<lparr>ex_Name = ''result'', ex_Value = xp_Result x\<rparr>\<rparr> # rest)
          (example_pairings re valueOf n xs))"

definition error_doc :: "errorinfo \<Rightarrow> errObj" where
  "error_doc e = \<lparr>eo_Code = ei_Code e, eo_Message = ei_Message e,
     eo_Data = (if ei_Description e \<noteq> [] then Some (ei_Description e) else None)\<rparr>"

text \<open>The body of the loop of \<open>Document\<close>.\<close>

definition document_method :: "reflection \<Rightarrow> (goany \<Rightarrow> rvalue) \<Rightarrow> nat \<Rightarrow> methodinfo \<Rightarrow> builder \<Rightarrow>
    (method_doc \<times> builder) option" where
  "document_method re valueOf n mi b =
     (case paramsOf re n (mi_Params mi) b of
        None \<Rightarrow> None
      | Some ((structure, ps), b1) \<Rightarrow>
          (case schemaOf re n (mi_Result mi) b1 of
             None \<Rightarrow> None
           | Some (s, b2) \<Rightarrow>
               (case example_pairings re valueOf n (mi_Examples mi) of
                  None \<Rightarrow> None
                | Some exs \<Rightarrow> Some (\<lparr>md_Name = mi_Name mi, md_Summary = mi_Summary mi,
                    md_Description = mi_Description mi, md_Deprecated = mi_Deprecated mi, md_Tags = mi_Tags mi,
                    md_ParamStructure = structure, md_Params = ps,
                    md_Result = Some \<lparr>cd_Name = ''result'', cd_Required = False, cd_Schema = s\<rparr>,
                    md_Errors = map error_doc (mi_Errors mi), md_Examples = exs,
                    md_Extra = mi_PublishedExtra mi\<rparr>, b2))))"

fun document_methods :: "reflection \<Rightarrow> (goany \<Rightarrow> rvalue) \<Rightarrow> nat \<Rightarrow> methodinfo list \<Rightarrow> builder \<Rightarrow>
    (method_doc list \<times> builder) option" where
  "document_methods re valueOf n [] b = Some ([], b)"
| "document_methods re valueOf n (mi # mis) b =
     (case document_method re valueOf n mi b of
        None \<Rightarrow> None
      | Some (m, b1) \<Rightarrow> map_option (\<lambda>(ms, b2). (m # ms, b2)) (document_methods re valueOf n mis b1))"

definition build_document :: "reflection \<Rightarrow> (goany \<Rightarrow> rvalue) \<Rightarrow> nat \<Rightarrow> service_info \<Rightarrow> methodinfo list \<Rightarrow> document option" where
  "build_document re valueOf n info methods =
     map_option (\<lambda>(ms, b). \<lparr>dc_OpenRPC = ''1.3.2'', dc_Info = info, dc_Methods = ms, dc_Components = bd_defs b\<rparr>)
       (document_methods re valueOf n methods newBuilder)"

text \<open>\<open>marshal\<close> is the reflection-driven \<open>json.Marshal\<close> of a document.\<close>

definition Document :: "(document \<Rightarrow> goerr + bytes) \<Rightarrow> reflection \<Rightarrow> (goany \<Rightarrow> rvalue) \<Rightarrow> nat \<Rightarrow> service_info \<Rightarrow>
    methodinfo list \<Rightarrow> (goerr + bytes) option" where
  "Document marshal re valueOf n info methods = map_option marshal (build_document re valueOf n info methods)"

text \<open>The handler sees the registry as it is when it is called; \<open>order\<close> is the map order of \<open>Methods\<close>.\<close>

definition DiscoverHandler :: "(document \<Rightarrow> goerr + bytes) \<Rightarrow> reflection \<Rightarrow> (goany \<Rightarrow> rvalue) \<Rightarrow> nat \<Rightarrow> service_info \<Rightarrow>
    bytes list \<Rightarrow> ('e, 'v) config \<Rightarrow> (goerr + bytes) option" where
  "DiscoverHandler marshal re valueOf n info order cfg =
     Document marshal re valueOf n info (Public (Methods order cfg))"

text \<open>\<open>tc\<close> is \<open>DiscoverHandler\<close> as a typed handler.\<close>

definition RegisterDiscover :: "('e, 'v, 'p, 'r) typed_codec \<Rightarrow> method_option list \<Rightarrow> ('e, 'v) config \<Rightarrow>
    ('e, 'v) cfg_result" where
  "RegisterDiscover tc opts = RegisterTyped ''rpc.discover'' tc
     ([WithPublic, WithSummary ''Return the service's OpenRPC description'',
       WithDescription (''The service-discovery method from the OpenRPC specification: returns the OpenRPC 1.3.2 '' @
         ''document describing every public method, its param/result schemas, and its documentation.'')] @ opts)"

end
