(* ===== verification/SchemaProps.thy ===== *)
theory SchemaProps
  imports OpenRPC CorrelatorProps
begin

text \<open>
  The schemas of Go types. The fields of a struct have distinct names, and flattening ends where
  embedding does; component names are clean and fresh; and every schema built is well-formed,
  with its references among the components.
\<close>

section \<open>Fields\<close>

lemma walk_fields_invariant:
  assumes "walk_fields rec re n pre i fs acc = Some acc'" "I acc"
    and "\<And>ft p a a'. rec ft p a = Some a' \<Longrightarrow> I a \<Longrightarrow> I a'" "\<And>f p a. I a \<Longrightarrow> I (add_field f p a)"
  shows "I acc'"
  using assms(1,2)
proof (induction fs arbitrary: i acc)
  case (Cons f fs)
  then show ?case
    using assms(3,4) by (auto split: if_splits option.splits)
qed simp

lemma walk_invariant:
  assumes "walk re n t pre acc = Some acc'" "I acc" "\<And>f p a. I a \<Longrightarrow> I (add_field f p a)"
  shows "I acc'"
  using assms(1,2)
proof (induction n arbitrary: t pre acc acc')
  case (Suc n)
  from Suc.prems(1) have w: "walk_fields (walk re n) re n pre 0 (ti_Fields (rf_type re t)) acc = Some acc'" by simp
  show ?case by (rule walk_fields_invariant[where I = I, OF w Suc.prems(2)]) (use Suc.IH assms(3) in blast)+
qed simp

lemma flatFields_distinct:
  assumes "flatFields re n t = Some fs"
  shows "distinct (map fi_jsonName fs)"
proof -
  obtain seen where w: "walk re n t [] ([], []) = Some (fs, seen)" using assms by (auto simp: flatFields_def)
  let ?I = "\<lambda>(out, seen). map fi_jsonName out = seen \<and> distinct seen"
  have "?I (fs, seen)"
    by (rule walk_invariant[OF w]) (auto simp: add_field_def Let_def split: prod.splits)
  then show ?thesis by simp
qed

text \<open>More depth does not change a result.\<close>

lemma strip_more: "strip_pointers re n t = Some u \<Longrightarrow> n \<le> m \<Longrightarrow> strip_pointers re m t = Some u"
proof (induction n arbitrary: t m)
  case (Suc n)
  then show ?case by (cases m) (auto split: if_splits)
qed simp

text \<open>The three ways a field is dealt with.\<close>

lemma walk_fields_cases:
  obtains (skip) "\<And>rec n i acc. walk_fields rec re n pre i (f # fs) acc = walk_fields rec re n pre (Suc i) fs acc"
  | (embed) "sf_Exported f" "sf_Anonymous f"
      "\<And>rec n i acc. walk_fields rec re n pre i (f # fs) acc =
        (case strip_pointers re n (sf_Type f) of
           None \<Rightarrow> None
         | Some ft \<Rightarrow>
             if Kind re ft = KStruct then
               (case rec ft (pre @ [i]) acc of
                  None \<Rightarrow> None
                | Some acc' \<Rightarrow> walk_fields rec re n pre (Suc i) fs acc')
             else walk_fields rec re n pre (Suc i) fs (add_field f (pre @ [i]) acc))"
  | (plain) "\<And>rec n i acc. walk_fields rec re n pre i (f # fs) acc =
      walk_fields rec re n pre (Suc i) fs (add_field f (pre @ [i]) acc)"
proof (cases "\<not> sf_Exported f \<or> sf_Tag f = ''-''")
  case True
  then show thesis by (intro skip) auto
next
  case False
  show thesis
  proof (cases "sf_Anonymous f \<and> fst (Cut (sf_Tag f)) = []")
    case True
    with False show thesis by (intro embed) simp_all
  next
    case plain: False
    with False show thesis by (intro that(3)) auto
  qed
qed

lemma walk_fields_more:
  assumes "walk_fields rec re n pre i fs acc = Some acc'" "n \<le> m"
    and "\<And>ft p a a'. rec ft p a = Some a' \<Longrightarrow> rec' ft p a = Some a'"
  shows "walk_fields rec' re m pre i fs acc = Some acc'"
  using assms(1)
proof (induction fs arbitrary: i acc)
  case (Cons f fs)
  show ?case
  proof (cases rule: walk_fields_cases[of re pre f fs])
    case skip
    with Cons show ?thesis by simp
  next
    case plain
    with Cons show ?thesis by simp
  next
    case embed
    from Cons.prems obtain ft where ft: "strip_pointers re n (sf_Type f) = Some ft"
      unfolding embed(3) by (cases "strip_pointers re n (sf_Type f)") simp_all
    show ?thesis
    proof (cases "Kind re ft = KStruct")
      case True
      with Cons.prems ft obtain a where a: "rec ft (pre @ [i]) acc = Some a"
        unfolding embed(3) by (cases "rec ft (pre @ [i]) acc") simp_all
      with Cons.prems Cons.IH[of "Suc i" a] ft True assms(3)[OF a] strip_more[OF ft assms(2)] show ?thesis
        unfolding embed(3) by simp
    next
      case False
      with Cons.prems Cons.IH ft strip_more[OF ft assms(2)] show ?thesis unfolding embed(3) by simp
    qed
  qed
qed simp

lemma walk_more: "walk re n t pre acc = Some acc' \<Longrightarrow> n \<le> m \<Longrightarrow> walk re m t pre acc = Some acc'"
proof (induction n arbitrary: t pre acc acc' m)
  case (Suc n)
  then obtain k where m: "m = Suc k" "n \<le> k" by (cases m) auto
  from Suc.prems(1) have w: "walk_fields (walk re n) re n pre 0 (ti_Fields (rf_type re t)) acc = Some acc'" by simp
  have "walk_fields (walk re k) re k pre 0 (ti_Fields (rf_type re t)) acc = Some acc'"
    by (rule walk_fields_more[OF w m(2)]) (rule Suc.IH[OF _ m(2)])
  then show ?case by (simp add: m(1))
qed simp

lemma flatFields_more:
  assumes "flatFields re n t = Some fs" "n \<le> m"
  shows "flatFields re m t = Some fs"
proof (cases "walk re n t [] ([], [])")
  case None
  with assms(1) show ?thesis by (simp add: flatFields_def)
next
  case (Some z)
  from walk_more[OF this assms(2)] Some assms(1) show ?thesis by (simp add: flatFields_def)
qed

text \<open>The fields the loop does not skip, and those it may descend into.\<close>

definition documented :: "struct_field \<Rightarrow> bool" where
  "documented f \<longleftrightarrow> sf_Exported f \<and> sf_Tag f \<noteq> ''-''"

definition embedded :: "struct_field \<Rightarrow> bool" where
  "embedded f \<longleftrightarrow> documented f \<and> sf_Anonymous f \<and> fst (Cut (sf_Tag f)) = []"

text \<open>The types of the fields of a struct, with those promoted from the structs it embeds.\<close>

inductive promotes :: "reflection \<Rightarrow> rtype \<Rightarrow> rtype \<Rightarrow> bool" for re where
  own: "f \<in> set (ti_Fields (rf_type re t)) \<Longrightarrow> documented f \<Longrightarrow> promotes re t (sf_Type f)"
| inner: "f \<in> set (ti_Fields (rf_type re t)) \<Longrightarrow> embedded f \<Longrightarrow> strip_pointers re n (sf_Type f) = Some u \<Longrightarrow>
     Kind re u = KStruct \<Longrightarrow> promotes re u x \<Longrightarrow> promotes re t x"

inductive_cases promotesE: "promotes re t x"

text \<open>
  Flattening ends where embedding does: if on a set of types a level decreases along pointers and
  from a struct to what it embeds, it is enough.
\<close>

definition embeds_down :: "reflection \<Rightarrow> rtype set \<Rightarrow> (rtype \<Rightarrow> nat) \<Rightarrow> bool" where
  "embeds_down re T level \<longleftrightarrow> (\<forall>t \<in> T.
     (Kind re t = KPointer \<longrightarrow> Elem re t \<in> T \<and> level (Elem re t) < level t) \<and>
     (Kind re t = KStruct \<longrightarrow> (\<forall>f \<in> set (ti_Fields (rf_type re t)). documented f \<longrightarrow>
        sf_Type f \<in> T \<and> (embedded f \<longrightarrow> level (sf_Type f) < level t))))"

lemma embeds_downD:
  assumes "embeds_down re T level" "t \<in> T"
  shows "Kind re t = KPointer \<Longrightarrow> Elem re t \<in> T \<and> level (Elem re t) < level t"
    and "Kind re t = KStruct \<Longrightarrow> f \<in> set (ti_Fields (rf_type re t)) \<Longrightarrow> documented f \<Longrightarrow>
      sf_Type f \<in> T \<and> (embedded f \<longrightarrow> level (sf_Type f) < level t)"
  using assms unfolding embeds_down_def by blast+

lemma strip_stays:
  assumes "embeds_down re T level"
  shows "strip_pointers re n t = Some u \<Longrightarrow> t \<in> T \<Longrightarrow> u \<in> T \<and> level u \<le> level t"
proof (induction n arbitrary: t)
  case (Suc n)
  show ?case
  proof (cases "Kind re t = KPointer")
    case True
    with embeds_downD(1)[OF assms Suc.prems(2)] Suc.IH[of "Elem re t"] Suc.prems(1) show ?thesis by fastforce
  qed (use Suc.prems in simp)
qed simp

lemma strip_ends:
  assumes "embeds_down re T level"
  shows "t \<in> T \<Longrightarrow> level t < n \<Longrightarrow> \<exists>u. strip_pointers re n t = Some u"
proof (induction n arbitrary: t)
  case (Suc n)
  show ?case
  proof (cases "Kind re t = KPointer")
    case True
    with embeds_downD(1)[OF assms Suc.prems(1)] Suc.IH[of "Elem re t"] Suc.prems(2) show ?thesis by simp
  qed simp
qed simp

lemma walk_fields_ends:
  assumes "\<And>f. f \<in> set fs \<Longrightarrow> embedded f \<Longrightarrow> \<exists>u. strip_pointers re n (sf_Type f) = Some u \<and>
     (Kind re u = KStruct \<longrightarrow> (\<forall>p a. \<exists>a'. rec u p a = Some a'))"
  shows "\<exists>acc'. walk_fields rec re n pre i fs acc = Some acc'"
  using assms
proof (induction fs arbitrary: i acc)
  case (Cons f fs)
  have rest: "\<exists>acc'. walk_fields rec re n pre i fs acc = Some acc'" for i acc using Cons by simp
  show ?case
  proof (cases "embedded f")
    case True
    then obtain u where u: "strip_pointers re n (sf_Type f) = Some u" "Kind re u = KStruct \<longrightarrow> (\<forall>p a. \<exists>a'. rec u p a = Some a')"
      using Cons.prems[of f] by auto
    show ?thesis
    proof (cases "Kind re u = KStruct")
      case True
      with u(2) obtain a where "rec u (pre @ [i]) acc = Some a" by blast
      with u(1) True rest \<open>embedded f\<close> show ?thesis by (simp add: embedded_def documented_def)
    qed (use u(1) rest True in \<open>simp add: embedded_def documented_def\<close>)
  qed (use rest in \<open>auto simp: embedded_def documented_def\<close>)
qed simp

lemma walk_ends:
  assumes "embeds_down re T level"
  shows "t \<in> T \<Longrightarrow> Kind re t = KStruct \<Longrightarrow> level t < n \<Longrightarrow> \<exists>acc'. walk re n t pre acc = Some acc'"
proof (induction n arbitrary: t pre acc)
  case (Suc n)
  have "\<exists>u. strip_pointers re n (sf_Type f) = Some u \<and> (Kind re u = KStruct \<longrightarrow> (\<forall>p a. \<exists>a'. walk re n u p a = Some a'))"
    if f: "f \<in> set (ti_Fields (rf_type re t))" "embedded f" for f
  proof -
    have d: "sf_Type f \<in> T" "level (sf_Type f) < level t"
      using embeds_downD(2)[OF assms Suc.prems(1,2) f(1)] f(2) by (auto simp: embedded_def)
    then have "level (sf_Type f) < n" using Suc.prems(3) by simp
    with strip_ends[OF assms d(1)] obtain u where u: "strip_pointers re n (sf_Type f) = Some u" by blast
    from strip_stays[OF assms u d(1)] \<open>level (sf_Type f) < n\<close> Suc.IH[of u] u show ?thesis by auto
  qed
  from walk_fields_ends[where rec = "walk re n", OF this] show ?case by simp
qed simp

lemma flatFields_ends:
  assumes "embeds_down re T level" "t \<in> T" "Kind re t = KStruct" "level t < n"
  shows "\<exists>fs. flatFields re n t = Some fs"
  using walk_ends[OF assms, of "[]" "([], [])"] by (auto simp: flatFields_def)

text \<open>What is listed for a struct has the type of a field of it or of one promoted into it.\<close>

lemma add_field_type: "f \<in> set (fst (add_field g p acc)) \<Longrightarrow> f \<in> set (fst acc) \<or> fi_typ f = sf_Type g"
  by (auto simp: add_field_def Let_def split: prod.splits if_splits)

lemma walk_fields_types:
  assumes "walk_fields rec re n pre i fs acc = Some acc'" "f \<in> set (fst acc')" "set fs \<subseteq> set (ti_Fields (rf_type re t))"
    and "\<And>u p a a' f. rec u p a = Some a' \<Longrightarrow> f \<in> set (fst a') \<Longrightarrow> f \<in> set (fst a) \<or> promotes re u (fi_typ f)"
  shows "f \<in> set (fst acc) \<or> promotes re t (fi_typ f)"
  using assms(1,3)
proof (induction fs arbitrary: i acc)
  case (Cons g fs)
  have g: "g \<in> set (ti_Fields (rf_type re t))" and sub: "set fs \<subseteq> set (ti_Fields (rf_type re t))" using Cons.prems(2) by simp_all
  have plain: ?case if "walk_fields rec re n pre (Suc i) fs (add_field g (pre @ [i]) acc) = Some acc'" "documented g"
    using Cons.IH[OF that(1) sub] add_field_type[of f g "pre @ [i]" acc] promotes.own[OF g that(2)] by auto
  show ?case
  proof (cases "embedded g")
    case True
    then have d: "documented g" and e: "sf_Exported g" "sf_Tag g \<noteq> ''-''" "sf_Anonymous g" "fst (Cut (sf_Tag g)) = []"
      by (simp_all add: embedded_def documented_def)
    from Cons.prems(1) e obtain u where u: "strip_pointers re n (sf_Type g) = Some u"
      by (cases "strip_pointers re n (sf_Type g)") simp_all
    show ?thesis
    proof (cases "Kind re u = KStruct")
      case struct: True
      from Cons.prems(1) e u struct obtain a where a: "rec u (pre @ [i]) acc = Some a" "walk_fields rec re n pre (Suc i) fs a = Some acc'"
        by (cases "rec u (pre @ [i]) acc") simp_all
      from Cons.IH[OF a(2) sub] assms(4)[OF a(1)] promotes.inner[OF g True u struct] show ?thesis by blast
    qed (use plain Cons.prems(1) e u d in simp)
  next
    case False
    show ?thesis
    proof (cases "documented g")
      case True
      with False plain Cons.prems(1) show ?thesis by (auto simp: embedded_def documented_def)
    next
      case skip: False
      with Cons.prems(1) Cons.IH[OF _ sub] show ?thesis by (auto simp: documented_def)
    qed
  qed
qed (use assms(2) in simp)

lemma walk_types:
  "walk re n t pre acc = Some acc' \<Longrightarrow> f \<in> set (fst acc') \<Longrightarrow> f \<in> set (fst acc) \<or> promotes re t (fi_typ f)"
proof (induction n arbitrary: t pre acc acc' f)
  case (Suc n)
  from Suc.prems(1) have "walk_fields (walk re n) re n pre 0 (ti_Fields (rf_type re t)) acc = Some acc'" by simp
  from walk_fields_types[OF this Suc.prems(2) subset_refl Suc.IH] show ?case .
qed simp

lemma flatFields_types: "flatFields re n t = Some fs \<Longrightarrow> f \<in> set fs \<Longrightarrow> promotes re t (fi_typ f)"
  using walk_types[of re n t "[]" "([], [])" _ f] by (auto simp: flatFields_def)

lemma promotes_stays:
  assumes "embeds_down re T level"
  shows "promotes re t x \<Longrightarrow> t \<in> T \<Longrightarrow> Kind re t = KStruct \<Longrightarrow> x \<in> T"
proof (induction rule: promotes.induct)
  case (own f t)
  with embeds_downD(2)[OF assms] show ?case by blast
next
  case (inner f t n u x)
  then have "sf_Type f \<in> T" using embeds_downD(2)[OF assms inner.prems inner.hyps(1)] by (simp add: embedded_def)
  with strip_stays[OF assms inner.hyps(3)] inner show ?case by blast
qed

section \<open>Names\<close>

definition clean :: "bytes \<Rightarrow> bool" where
  "clean name \<longleftrightarrow> list_all name_char name"

lemma sanitizeName_clean: "clean (sanitizeName s)"
proof (induction s rule: sanitizeName.induct)
  case 1
  then show ?case by (simp add: clean_def)
next
  case (2 c cs)
  have "name_char (CHR ''_'')" by code_simp
  with 2 show ?case by (auto simp: clean_def split: option.splits)
qed

lemma digits_clean: "clean (nat_digits k)"
proof -
  have "list_all (\<lambda>d. name_char (digit d)) [0..<10]" by code_simp
  then have d: "name_char (digit d)" if "d < 10" for d using that by (simp add: list_all_iff)
  show ?thesis
  proof (induction k rule: nat_digits.induct)
    case (1 n)
    then show ?case by (subst nat_digits.simps) (auto simp: clean_def d)
  qed
qed

lemma suffix_clean: "clean base \<Longrightarrow> clean (base @ ''_'' @ itoa (int i))"
proof -
  have "name_char (CHR ''_'')" by code_simp
  then show "clean base \<Longrightarrow> clean (base @ ''_'' @ itoa (int i))"
    using digits_clean[of i] by (simp add: clean_def itoa_def)
qed

text \<open>
  The loop of \<open>defName\<close> finds a free name: its candidates are distinct and there are more of them
  than names taken.
\<close>

lemma free_name_clean: "free_name n i base q defs = Some name \<Longrightarrow> clean base \<Longrightarrow> clean q \<Longrightarrow> clean name \<and> map_of defs name = None"
  using suffix_clean by (induction n i base q defs rule: free_name.induct) (auto split: if_splits)

definition candidate :: "bytes \<Rightarrow> nat \<Rightarrow> bytes" where
  "candidate base i = base @ ''_'' @ itoa (int i)"

lemma free_name_none:
  "free_name n i base q defs = None \<Longrightarrow> q # map (candidate base) [i..<i + n - 1] = cs \<Longrightarrow>
     n = 0 \<or> set cs \<subseteq> fst ` set defs"
proof (induction n arbitrary: i q cs)
  case (Suc n)
  have q: "q \<in> fst ` set defs" using Suc.prems(1) by (auto simp: map_of_eq_None_iff split: if_splits)
  have rest: "free_name n (Suc i) base (candidate base i) defs = None"
    using Suc.prems(1) by (auto simp: candidate_def split: if_splits)
  show ?case
  proof (cases n)
    case 0
    with Suc.prems(2) have "cs = [q]" by simp
    with q show ?thesis by simp
  next
    case (Suc k)
    have "cs = q # candidate base i # map (candidate base) [Suc i..<Suc i + n - 1]"
      using Suc.prems(2) Suc by (simp add: upt_conv_Cons del: upt_Suc)
    with Suc.IH[OF rest refl] q Suc show ?thesis by auto
  qed
qed simp

lemma candidates_distinct: "distinct (base # map (candidate base) [2..<k])"
proof -
  have "inj_on (candidate base) {2..<k}"
    by (rule inj_onI) (auto simp: candidate_def dest: itoa_inj[rotated 2])
  then show ?thesis by (auto simp: distinct_map candidate_def)
qed

lemma defName_fresh:
  "\<exists>name. defName re t b = Some name \<and> clean name \<and> map_of (bd_defs b) name = None"
proof (cases "map_of (bd_defs b) (sanitizeName (Name re t))")
  case None
  then show ?thesis by (simp add: defName_def sanitizeName_clean)
next
  case (Some s)
  let ?base = "sanitizeName (ti_String (rf_type re t))" and ?n = "Suc (length (bd_defs b))"
  have d: "defName re t b = free_name ?n 2 ?base ?base (bd_defs b)" using Some by (simp add: defName_def Let_def)
  have "free_name ?n 2 ?base ?base (bd_defs b) \<noteq> None"
  proof
    assume "free_name ?n 2 ?base ?base (bd_defs b) = None"
    from free_name_none[OF this refl] have "set (?base # map (candidate ?base) [2..<2 + ?n - 1]) \<subseteq> fst ` set (bd_defs b)" by simp
    from card_mono[OF _ this] have "length (?base # map (candidate ?base) [2..<2 + ?n - 1]) \<le> card (fst ` set (bd_defs b))"
      unfolding distinct_card[OF candidates_distinct] by simp
    then have "?n \<le> card (fst ` set (bd_defs b))" by (simp del: upt_Suc)
    also have "\<dots> \<le> length (bd_defs b)" by (metis card_image_le card_length finite_set le_trans)
    finally show False by simp
  qed
  then obtain name where name: "free_name ?n 2 ?base ?base (bd_defs b) = Some name" by auto
  from d free_name_clean[OF this sanitizeName_clean sanitizeName_clean] name show ?thesis by (simp del: free_name.simps)
qed

section \<open>Builders\<close>

text \<open>The references a schema makes, and the schemas that are well-formed with references to \<open>keys\<close>.\<close>

fun schema_ok :: "bytes set \<Rightarrow> schema \<Rightarrow> bool" where
  "schema_ok keys (Schema r ty fmt enc items props req extra) \<longleftrightarrow>
     (r \<noteq> [] \<longrightarrow> (\<exists>name \<in> keys. r = ''#/components/schemas/'' @ name) \<and> ty = [] \<and> items = None \<and> props = [] \<and> extra = None) \<and>
     (items \<noteq> None \<longrightarrow> ty = ''array'') \<and> (props \<noteq> [] \<or> extra \<noteq> None \<longrightarrow> ty = ''object'') \<and>
     distinct (map fst props) \<and> set req \<subseteq> fst ` set props \<and>
     (case items of None \<Rightarrow> True | Some s \<Rightarrow> schema_ok keys s) \<and>
     (\<forall>p \<in> set props. schema_ok keys (snd p)) \<and>
     (case extra of None \<Rightarrow> True | Some s \<Rightarrow> schema_ok keys s)"

lemma schema_ok_mono: "schema_ok keys s \<Longrightarrow> keys \<subseteq> keys' \<Longrightarrow> schema_ok keys' s"
proof (induction keys s rule: schema_ok.induct)
  case (1 keys r ty fmt enc items props req extra)
  then show ?case by (auto split: option.splits)
qed

abbreviation keys_of :: "builder \<Rightarrow> bytes set" where "keys_of b \<equiv> fst ` set (bd_defs b)"

text \<open>
  The invariant of a builder: types and component names correspond one to one, the names are
  clean, and the definitions that are there are well-formed.
\<close>

definition builder_ok :: "builder \<Rightarrow> bool" where
  "builder_ok b \<longleftrightarrow> distinct (map fst (bd_names b)) \<and> distinct (map snd (bd_names b)) \<and>
     map fst (bd_defs b) = map snd (bd_names b) \<and> list_all clean (map fst (bd_defs b)) \<and>
     (\<forall>name s. map_of (bd_defs b) name = Some (Some s) \<longrightarrow> schema_ok (keys_of b) s)"

text \<open>What building a schema does to a builder: it adds names, and what it adds it completes.\<close>

definition extends :: "builder \<Rightarrow> builder \<Rightarrow> bool" where
  "extends b b' \<longleftrightarrow> (\<exists>ns ds. bd_names b' = bd_names b @ ns \<and> bd_defs b' = bd_defs b @ ds \<and> None \<notin> snd ` set ds)"

lemma extends_refl [simp]: "extends b b"
  by (auto simp: extends_def)

lemma extends_trans: "extends a b \<Longrightarrow> extends b c \<Longrightarrow> extends a c"
  unfolding extends_def by fastforce

lemma extends_keys: "extends b b' \<Longrightarrow> keys_of b \<subseteq> keys_of b'"
  by (auto simp: extends_def)

lemma update_all_new:
  "distinct (map fst acc @ map (fi_jsonName \<circ> fst) ps) \<Longrightarrow>
     fold (\<lambda>(f, s). AList.update (fi_jsonName f) s) ps acc = acc @ map (\<lambda>(f, s). (fi_jsonName f, s)) ps"
proof (induction ps arbitrary: acc)
  case (Cons p ps)
  obtain f s where p: "p = (f, s)" by (cases p)
  have "AList.update (fi_jsonName f) s acc = acc @ [(fi_jsonName f, s)]"
    using Cons.prems p by (induction acc) auto
  with Cons.IH[of "acc @ [(fi_jsonName f, s)]"] Cons.prems p show ?case by simp
qed simp

lemma update_new_key: "k \<notin> fst ` set xs \<Longrightarrow> AList.update k v xs = xs @ [(k, v)]"
  by (induction xs) auto

lemma update_middle: "k \<notin> fst ` set xs \<Longrightarrow> AList.update k v (xs @ (k, w) # ys) = xs @ (k, v) # ys"
  by (induction xs) auto

lemma ref_ok: "name \<in> keys \<Longrightarrow> schema_ok keys (ref_schema name)"
  by (simp add: ref_schema_def)

text \<open>The reservation of a name for a type.\<close>

definition reserve :: "rtype \<Rightarrow> bytes \<Rightarrow> builder \<Rightarrow> builder" where
  "reserve t name b = b\<lparr>bd_names := AList.update t name (bd_names b), bd_defs := AList.update name None (bd_defs b)\<rparr>"

lemma reserve_ok:
  assumes "builder_ok b" "clean name" "map_of (bd_defs b) name = None" "map_of (bd_names b) t = None"
  shows "bd_names (reserve t name b) = bd_names b @ [(t, name)]" "bd_defs (reserve t name b) = bd_defs b @ [(name, None)]"
    "builder_ok (reserve t name b)"
proof -
  have new: "name \<notin> fst ` set (bd_defs b)" "t \<notin> fst ` set (bd_names b)"
    using assms(3,4) by (simp_all add: map_of_eq_None_iff)
  then show b0: "bd_names (reserve t name b) = bd_names b @ [(t, name)]" "bd_defs (reserve t name b) = bd_defs b @ [(name, None)]"
    by (simp_all add: reserve_def update_new_key)
  have "name \<notin> set (map snd (bd_names b))"
    using new(1) assms(1) by (metis builder_ok_def set_map)
  moreover have "schema_ok (keys_of (reserve t name b)) x" if "map_of (bd_defs (reserve t name b)) k = Some (Some x)" for k x
  proof -
    have "map_of (bd_defs b) k = Some (Some x)" using that unfolding b0 by (auto simp: map_add_def split: option.splits if_splits)
    then have "schema_ok (keys_of b) x" using assms(1) by (auto simp: builder_ok_def)
    then show ?thesis by (rule schema_ok_mono) (auto simp: b0)
  qed
  moreover have "list_all clean (map snd (bd_names b))" using assms(1) by (metis builder_ok_def)
  ultimately show "builder_ok (reserve t name b)"
    using assms(1,2) new(2) unfolding builder_ok_def b0 by (simp add: b0)
qed

text \<open>
  The contract between one level of the recursion and the next: the schemas of the next level
  are well-formed, and its builder extends the one it got.
\<close>

locale schema_source =
  fixes rec :: schema_rec
  assumes built: "rec t b = Some (s, b') \<Longrightarrow> builder_ok b \<Longrightarrow>
    builder_ok b' \<and> extends b b' \<and> schema_ok (keys_of b') s"
begin

lemma fields_built:
  "field_schemas rec fs b = Some (ps, b') \<Longrightarrow> builder_ok b \<Longrightarrow>
    builder_ok b' \<and> extends b b' \<and> map fst ps = fs \<and> (\<forall>p \<in> set ps. schema_ok (keys_of b') (snd p))"
proof (induction fs arbitrary: b ps)
  case (Cons f fs)
  obtain s b1 where 1: "rec (fi_typ f) b = Some (s, b1)" using Cons.prems(1) by (auto split: option.splits)
  obtain ps' where 2: "field_schemas rec fs b1 = Some (ps', b')" and ps: "ps = (f, s) # ps'"
    using Cons.prems(1) 1 by (auto split: option.splits)
  from built[OF 1 Cons.prems(2)] have b1: "builder_ok b1" "extends b b1" "schema_ok (keys_of b1) s" by simp_all
  from Cons.IH[OF 2 b1(1)] have IH: "builder_ok b'" "extends b1 b'" "map fst ps' = fs"
    "\<forall>p \<in> set ps'. schema_ok (keys_of b') (snd p)" by simp_all
  from schema_ok_mono[OF b1(3) extends_keys[OF IH(2)]] extends_trans[OF b1(2) IH(2)] IH ps show ?case by simp
qed simp

lemma object_built:
  assumes "objectSchema rec re n t b = Some (s, b')" "builder_ok b"
  shows "builder_ok b' \<and> extends b b' \<and> schema_ok (keys_of b') s"
proof -
  obtain fs where fs: "flatFields re n t = Some fs" using assms(1) by (auto simp: objectSchema_def split: option.splits)
  then obtain ps where ps: "field_schemas rec fs b = Some (ps, b')"
    and s: "s = Schema [] ''object'' [] [] None (fold (\<lambda>(f, s). AList.update (fi_jsonName f) s) ps [])
        (map (fi_jsonName \<circ> fst) (filter (\<lambda>(f, s). \<not> fi_omitempty f) ps)) None"
    using assms(1) by (auto simp: objectSchema_def split: option.splits)
  from fields_built[OF ps assms(2)] have ok: "builder_ok b'" "extends b b'" "map fst ps = fs"
    "\<forall>p \<in> set ps. schema_ok (keys_of b') (snd p)" by simp_all
  have d: "distinct (map (fi_jsonName \<circ> fst) ps)"
    using flatFields_distinct[OF fs] ok(3) by (metis map_map)
  then have props: "fold (\<lambda>(f, s). AList.update (fi_jsonName f) s) ps [] = map (\<lambda>(f, s). (fi_jsonName f, s)) ps"
    using update_all_new[of "[]" ps] by simp
  have names: "map fst (map (\<lambda>(f, s). (fi_jsonName f, s)) ps) = map (fi_jsonName \<circ> fst) ps"
    by (simp add: case_prod_unfold comp_def)
  have "distinct (map fst (map (\<lambda>(f, s). (fi_jsonName f, s)) ps))" unfolding names by (rule d)
  moreover have "set (map (fi_jsonName \<circ> fst) (filter (\<lambda>(f, s). \<not> fi_omitempty f) ps)) \<subseteq> fst ` set (map (\<lambda>(f, s). (fi_jsonName f, s)) ps)"
    by (force simp: image_iff)
  moreover have "\<forall>p \<in> set (map (\<lambda>(f, s). (fi_jsonName f, s)) ps). schema_ok (keys_of b') (snd p)" using ok(4) by auto
  ultimately show ?thesis using ok(1,2) by (simp add: s props del: set_map)
qed

lemma struct_built:
  assumes "structSchema rec re n t b = Some (s, b')" "builder_ok b"
  shows "builder_ok b' \<and> extends b b' \<and> schema_ok (keys_of b') s"
proof (cases "Name re t = []")
  case True
  with assms(1) object_built[OF _ assms(2)] show ?thesis by (simp add: structSchema_def)
next
  case named: False
  show ?thesis
  proof (cases "map_of (bd_names b) t")
    case (Some name)
    have "(t, name) \<in> set (bd_names b)" using Some by (rule map_of_SomeD)
    then have "name \<in> set (map fst (bd_defs b))" using assms(2) by (auto simp: builder_ok_def simp del: set_map) force
    then have "name \<in> keys_of b" by simp
    from ref_ok[OF this] assms(1,2) named Some show ?thesis by (auto simp: structSchema_def simp del: schema_ok.simps)
  next
    case None
    obtain name where name: "defName re t b = Some name" "clean name" "map_of (bd_defs b) name = None"
      using defName_fresh[of re t b] by blast
    let ?b0 = "reserve t name b"
    obtain s1 b1 where o: "objectSchema rec re n t ?b0 = Some (s1, b1)"
      and s: "s = ref_schema name" and b': "b' = b1\<lparr>bd_defs := AList.update name (Some s1) (bd_defs b1)\<rparr>"
      using assms(1) named None name(1) by (auto simp: structSchema_def reserve_def split: option.splits)
    note b0 = reserve_ok(1,2)[OF assms(2) name(2,3) None] and ok0 = reserve_ok(3)[OF assms(2) name(2,3) None]
    have new: "name \<notin> fst ` set (bd_defs b)" using name(3) by (simp add: map_of_eq_None_iff)
    from object_built[OF o ok0] have ok1: "builder_ok b1" "extends ?b0 b1" "schema_ok (keys_of b1) s1" by simp_all
    then obtain ns ds where ext: "bd_names b1 = bd_names b @ (t, name) # ns" "bd_defs b1 = bd_defs b @ (name, None) # ds"
      "None \<notin> snd ` set ds" unfolding extends_def b0 by auto
    have defs': "bd_defs b' = bd_defs b @ (name, Some s1) # ds" "bd_names b' = bd_names b1"
      unfolding b' by (simp_all add: ext(2) update_middle[OF new])
    have keys: "map fst (bd_defs b') = map fst (bd_defs b1)" by (simp add: defs' ext(2))
    then have keys': "keys_of b' = keys_of b1" by (metis set_map)
    have "schema_ok (keys_of b') x" if "map_of (bd_defs b') k = Some (Some x)" for k x
    proof (cases "map_of (bd_defs b1) k = Some (Some x)")
      case True
      then show ?thesis using ok1(1) keys' by (simp add: builder_ok_def)
    next
      case False
      with that have "x = s1" unfolding defs' ext(2) by (auto simp: map_add_def split: option.splits if_splits)
      with ok1(3) keys' show ?thesis by simp
    qed
    then have "builder_ok b'" using ok1(1) unfolding builder_ok_def keys defs'(2) by blast
    moreover have "extends b b'" unfolding extends_def defs' ext(1) using ext(3) by auto
    moreover have "schema_ok (keys_of b') s" unfolding s by (rule ref_ok) (simp add: defs')
    ultimately show ?thesis by simp
  qed
qed

lemma fields_end:
  "builder_ok b \<Longrightarrow> (\<And>f b'. f \<in> set fs \<Longrightarrow> builder_ok b' \<Longrightarrow> extends b b' \<Longrightarrow> \<exists>r. rec (fi_typ f) b' = Some r) \<Longrightarrow>
    \<exists>r. field_schemas rec fs b = Some r"
proof (induction fs arbitrary: b)
  case (Cons f fs)
  obtain s b1 where 1: "rec (fi_typ f) b = Some (s, b1)" using Cons.prems(2)[of f b] Cons.prems(1) by auto
  from built[OF 1 Cons.prems(1)] have b1: "builder_ok b1" "extends b b1" by simp_all
  have "\<exists>r. field_schemas rec fs b1 = Some r"
    by (rule Cons.IH[OF b1(1)]) (use Cons.prems(2) extends_trans[OF b1(2)] in simp)
  with 1 show ?case by auto
qed simp

lemma object_ends:
  assumes "flatFields re D t = Some fs" "D \<le> n" "builder_ok b"
    and "\<And>f b'. f \<in> set fs \<Longrightarrow> builder_ok b' \<Longrightarrow> extends b b' \<Longrightarrow> \<exists>r. rec (fi_typ f) b' = Some r"
  shows "\<exists>r. objectSchema rec re n t b = Some r"
proof -
  have "\<exists>r. field_schemas rec fs b = Some r" by (rule fields_end[OF assms(3)]) (rule assms(4))
  with flatFields_more[OF assms(1,2)] show ?thesis by (auto simp: objectSchema_def)
qed

lemma body_built:
  assumes "schema_body rec re n t b = Some (s, b')" "builder_ok b"
  shows "builder_ok b' \<and> extends b b' \<and> schema_ok (keys_of b') s"
  using assms
  by (cases "Kind re t"; auto simp: schema_body_def any_schema_def typed_schema_def base64_schema_def
      split: if_splits dest: built struct_built)

end

lemma schema_of_source: "schema_source (schema_of re n)"
proof (induction n)
  case 0
  then show ?case by (simp add: schema_source_def)
next
  case (Suc n)
  have "schema_of re (Suc n) = schema_body (schema_of re n) re n" by (intro ext) simp
  with schema_source.body_built[OF Suc] show ?case by (simp add: schema_source_def)
qed

interpretation schemas: schema_source "schema_of re n" for re n
  by (rule schema_of_source)

lemma schemaOf_ok:
  assumes "schemaOf re n t b = Some (s, b')" "builder_ok b"
  shows "builder_ok b' \<and> extends b b' \<and> schema_ok (keys_of b') s"
proof (cases t)
  case None
  with assms show ?thesis by (auto simp: schemaOf_def any_schema_def)
next
  case (Some x)
  with assms schemas.built show ?thesis by (simp add: schemaOf_def)
qed

end
