(* ===== verification/OpenRPCProps.thy ===== *)
theory OpenRPCProps
  imports SchemaProps ConfigProps
begin

text \<open>
  Service discovery. A document is well-formed; it is built where the recursion of the types
  goes through named structs, and the recursion does not end otherwise; and only what is
  public gets into what \<open>rpc.discover\<close> answers.
\<close>

section \<open>Documents\<close>

definition descriptor_ok :: "bytes set \<Rightarrow> contentDescriptor \<Rightarrow> bool" where
  "descriptor_ok keys c \<longleftrightarrow> schema_ok keys (cd_Schema c)"

text \<open>By-name parameters have distinct names; without them there is at most one parameter.\<close>

definition method_doc_ok :: "bytes set \<Rightarrow> method_doc \<Rightarrow> bool" where
  "method_doc_ok keys m \<longleftrightarrow> list_all (descriptor_ok keys) (md_Params m) \<and>
     (case md_Result m of None \<Rightarrow> False | Some r \<Rightarrow> descriptor_ok keys r) \<and>
     distinct (map cd_Name (md_Params m)) \<and> (md_ParamStructure m \<noteq> ''by-name'' \<longrightarrow> length (md_Params m) \<le> 1)"

definition component_ok :: "bytes set \<Rightarrow> bytes \<times> schema option \<Rightarrow> bool" where
  "component_ok keys p \<longleftrightarrow> (case snd p of None \<Rightarrow> False | Some s \<Rightarrow> schema_ok keys s)"

lemma descriptor_ok_mono: "descriptor_ok keys c \<Longrightarrow> keys \<subseteq> keys' \<Longrightarrow> descriptor_ok keys' c"
  unfolding descriptor_ok_def by (rule schema_ok_mono)

lemma method_doc_ok_mono:
  assumes "method_doc_ok keys m" "keys \<subseteq> keys'"
  shows "method_doc_ok keys' m"
  using assms(1) descriptor_ok_mono[OF _ assms(2)]
  unfolding method_doc_ok_def by (auto simp: list_all_iff split: option.splits)

lemma paramsOf_ok:
  assumes "paramsOf re n t b = Some ((st, cds), b')" "builder_ok b"
  shows "builder_ok b' \<and> extends b b' \<and> list_all (descriptor_ok (keys_of b')) cds \<and> distinct (map cd_Name cds) \<and>
     (st \<noteq> ''by-name'' \<longrightarrow> length cds \<le> 1)"
proof (cases t)
  case None
  with assms show ?thesis by (simp add: paramsOf_def)
next
  case t: (Some t0)
  obtain u where u: "strip_pointers re n t0 = Some u" using assms(1) t by (auto simp: paramsOf_def split: option.splits)
  show ?thesis
  proof (cases "Kind re u = KStruct \<and> \<not> isWellKnown re u")
    case True
    obtain fs where fs: "flatFields re n u = Some fs"
      using assms(1) t u True by (cases "flatFields re n u") (simp_all add: paramsOf_def)
    obtain ps where ps: "field_schemas (schema_of re n) fs b = Some (ps, b')"
      and cds: "cds = map (\<lambda>(f, s). \<lparr>cd_Name = fi_jsonName f, cd_Required = \<not> fi_omitempty f, cd_Schema = s\<rparr>) ps"
      and st: "st = (if cds = [] then [] else ''by-name'')"
      using assms(1) t u True fs by (auto simp: paramsOf_def Let_def split: if_splits)
    from schemas.fields_built[OF ps assms(2)] have ok: "builder_ok b'" "extends b b'" "map fst ps = fs"
      "\<forall>p \<in> set ps. schema_ok (keys_of b') (snd p)" by simp_all
    have "map cd_Name cds = map fi_jsonName fs" unfolding cds ok(3)[symmetric] by (simp add: case_prod_unfold comp_def)
    with flatFields_distinct[OF fs] have "distinct (map cd_Name cds)" by simp
    moreover have "list_all (descriptor_ok (keys_of b')) cds"
      using ok(4) unfolding cds by (auto simp: list_all_iff descriptor_ok_def)
    ultimately show ?thesis using ok(1,2) st by simp
  next
    case False
    then obtain s where s: "schema_of re n u b = Some (s, b')"
      and cds: "cds = [\<lparr>cd_Name = ''params'', cd_Required = False, cd_Schema = s\<rparr>]"
      using assms(1) t u by (auto simp: paramsOf_def)
    from schemas.built[OF s assms(2)] show ?thesis by (simp add: cds descriptor_ok_def)
  qed
qed

lemma document_method_ok:
  assumes "document_method re v n mi b = Some (m, b')" "builder_ok b"
  shows "builder_ok b' \<and> extends b b' \<and> method_doc_ok (keys_of b') m \<and> md_Name m = mi_Name mi"
proof -
  obtain st cds b1 where p: "paramsOf re n (mi_Params mi) b = Some ((st, cds), b1)"
    using assms(1) by (auto simp: document_method_def split: option.splits)
  obtain s where r: "schemaOf re n (mi_Result mi) b1 = Some (s, b')"
    using assms(1) p by (auto simp: document_method_def split: option.splits)
  have m: "md_Params m = cds" "md_ParamStructure m = st" "md_Name m = mi_Name mi"
    "md_Result m = Some \<lparr>cd_Name = ''result'', cd_Required = False, cd_Schema = s\<rparr>"
    using assms(1) p r by (auto simp: document_method_def split: option.splits)
  from paramsOf_ok[OF p assms(2)] have 1: "builder_ok b1" "extends b b1" "list_all (descriptor_ok (keys_of b1)) cds"
    "distinct (map cd_Name cds)" "st \<noteq> ''by-name'' \<longrightarrow> length cds \<le> 1" by simp_all
  from schemaOf_ok[OF r 1(1)] have 2: "builder_ok b'" "extends b1 b'" "schema_ok (keys_of b') s" by simp_all
  have "list_all (descriptor_ok (keys_of b')) cds"
    using 1(3) descriptor_ok_mono[OF _ extends_keys[OF 2(2)]] by (auto simp: list_all_iff)
  with 1 2 m extends_trans[OF 1(2) 2(2)] show ?thesis by (simp add: method_doc_ok_def descriptor_ok_def)
qed

lemma document_methods_ok:
  "document_methods re v n mis b = Some (ms, b') \<Longrightarrow> builder_ok b \<Longrightarrow>
     builder_ok b' \<and> extends b b' \<and> list_all (method_doc_ok (keys_of b')) ms \<and> map md_Name ms = map mi_Name mis"
proof (induction mis arbitrary: b ms)
  case (Cons mi mis)
  obtain m b1 where 1: "document_method re v n mi b = Some (m, b1)" using Cons.prems(1) by (auto split: option.splits)
  obtain ms' where 2: "document_methods re v n mis b1 = Some (ms', b')" and ms: "ms = m # ms'"
    using Cons.prems(1) 1 by (auto split: option.splits)
  from document_method_ok[OF 1 Cons.prems(2)] have b1: "builder_ok b1" "extends b b1" "method_doc_ok (keys_of b1) m" "md_Name m = mi_Name mi"
    by simp_all
  from Cons.IH[OF 2 b1(1)] have IH: "builder_ok b'" "extends b1 b'" "list_all (method_doc_ok (keys_of b')) ms'"
    "map md_Name ms' = map mi_Name mis" by simp_all
  from method_doc_ok_mono[OF b1(3) extends_keys[OF IH(2)]] extends_trans[OF b1(2) IH(2)] IH b1(4) ms show ?case by simp
qed simp

lemma newBuilder_ok: "builder_ok newBuilder"
  by (simp add: builder_ok_def newBuilder_def)

text \<open>
  C8: The document is well-formed whatever the types and the methods are. Every component has
  a name of its own made of letters, digits, \<open>_\<close> and \<open>.\<close> and a definition: none is left
  reserved. Every schema in the document, in parameters, results and components alike, is
  well-formed: a reference names a component and stands alone, items make an array,
  properties an object, property names are distinct and what is required is a property. The
  parameters of a method have distinct names, and the methods are those given, in order.
\<close>

theorem openrpc_document_well_formed:
  assumes "build_document re v n info methods = Some d"
  shows "distinct (map fst (dc_Components d)) \<and> list_all clean (map fst (dc_Components d)) \<and>
     list_all (component_ok (set (map fst (dc_Components d)))) (dc_Components d) \<and>
     list_all (method_doc_ok (set (map fst (dc_Components d)))) (dc_Methods d) \<and>
     map md_Name (dc_Methods d) = map mi_Name methods"
proof -
  obtain ms b where b: "document_methods re v n methods newBuilder = Some (ms, b)"
    and d: "d = \<lparr>dc_OpenRPC = ''1.3.2'', dc_Info = info, dc_Methods = ms, dc_Components = bd_defs b\<rparr>"
    using assms by (auto simp: build_document_def)
  from document_methods_ok[OF b newBuilder_ok] have ok: "builder_ok b" "extends newBuilder b"
    "list_all (method_doc_ok (keys_of b)) ms" "map md_Name ms = map mi_Name methods" by simp_all
  have dist: "distinct (map fst (bd_defs b))" using ok(1) by (simp add: builder_ok_def)
  have filled: "None \<notin> snd ` set (bd_defs b)" using ok(2) by (simp add: extends_def newBuilder_def)
  have "component_ok (keys_of b) (name, s)" if "(name, s) \<in> set (bd_defs b)" for name s
  proof (cases s)
    case None
    with that filled show ?thesis by force
  next
    case (Some x)
    with that dist have "map_of (bd_defs b) name = Some (Some x)" by simp
    with ok(1) Some show ?thesis by (simp add: builder_ok_def component_ok_def)
  qed
  then have "list_all (component_ok (keys_of b)) (bd_defs b)" by (auto simp: list_all_iff)
  moreover have "list_all clean (map fst (bd_defs b))" using ok(1) unfolding builder_ok_def by (elim conjE)
  ultimately show ?thesis using ok(3,4) dist unfolding d by simp
qed

section \<open>Depth\<close>

text \<open>More depth does not change a result.\<close>

lemma field_schemas_more:
  assumes "\<And>t b r. rec t b = Some r \<Longrightarrow> rec' t b = Some r"
  shows "field_schemas rec fs b = Some r \<Longrightarrow> field_schemas rec' fs b = Some r"
proof (induction fs arbitrary: b r)
  case (Cons f fs)
  obtain s b1 where 1: "rec (fi_typ f) b = Some (s, b1)" using Cons.prems by (auto split: option.splits)
  obtain ps b2 where 2: "field_schemas rec fs b1 = Some (ps, b2)" using Cons.prems 1 by (auto split: option.splits)
  from Cons.prems 1 2 assms[OF 1] Cons.IH[OF 2] show ?case by simp
qed simp

lemma objectSchema_more:
  assumes "\<And>t b r. rec t b = Some r \<Longrightarrow> rec' t b = Some r" "n \<le> m" "objectSchema rec re n t b = Some r"
  shows "objectSchema rec' re m t b = Some r"
proof -
  obtain fs where fs: "flatFields re n t = Some fs" using assms(3) by (auto simp: objectSchema_def split: option.splits)
  then obtain p where p: "field_schemas rec fs b = Some p" using assms(3) by (auto simp: objectSchema_def split: option.splits)
  from fs p flatFields_more[OF fs assms(2)] field_schemas_more[where rec' = rec', OF assms(1) p] assms(3)
  show ?thesis by (simp add: objectSchema_def)
qed

lemma structSchema_more:
  assumes "\<And>t b r. rec t b = Some r \<Longrightarrow> rec' t b = Some r" "n \<le> m" "structSchema rec re n t b = Some r"
  shows "structSchema rec' re m t b = Some r"
  using assms(3) objectSchema_more[where rec' = rec', OF assms(1,2)]
  by (auto simp: structSchema_def split: if_splits option.splits)

lemma schema_of_more: "schema_of re n t b = Some r \<Longrightarrow> n \<le> m \<Longrightarrow> schema_of re m t b = Some r"
proof (induction n arbitrary: t b r m)
  case (Suc n)
  then obtain k where m: "m = Suc k" "n \<le> k" by (cases m) auto
  have rec: "schema_of re n t b = Some r \<Longrightarrow> schema_of re k t b = Some r" for t b r using Suc.IH m(2) by blast
  have st: "structSchema (schema_of re n) re n t b = Some r \<Longrightarrow> structSchema (schema_of re k) re k t b = Some r" for t b r
    by (rule structSchema_more[OF _ m(2)]) (rule rec)
  have "schema_body (schema_of re k) re k t b = Some r" if "schema_body (schema_of re n) re n t b = Some r"
    using that by (cases "Kind re t"; auto simp: schema_body_def split: if_splits dest: rec st)
  with Suc.prems(1) m(1) show ?case by simp
qed simp

text \<open>
  What termination needs of the types once flattening is known to end in depth \<open>D\<close>: along
  elements, and from a struct without a name to its fields, a rank decreases; the fields of a
  named struct are free.
\<close>

definition flattened :: "reflection \<Rightarrow> nat \<Rightarrow> rtype set \<Rightarrow> (rtype \<Rightarrow> nat) \<Rightarrow> nat \<Rightarrow> bool" where
  "flattened re D T rank R \<longleftrightarrow> finite T \<and> (\<forall>t \<in> T. rank t \<le> R \<and>
     (Kind re t \<in> {KPointer, KSlice, KArray, KMap} \<longrightarrow> Elem re t \<in> T \<and> rank (Elem re t) < rank t) \<and>
     (Kind re t = KStruct \<longrightarrow> (\<exists>fs. flatFields re D t = Some fs \<and>
        (\<forall>f \<in> set fs. fi_typ f \<in> T \<and> (Name re t = [] \<longrightarrow> rank (fi_typ f) < rank t)))))"

lemma flattenedD:
  assumes "flattened re D T rank R" "t \<in> T"
  shows "rank t \<le> R" "finite T"
    "Kind re t \<in> {KPointer, KSlice, KArray, KMap} \<Longrightarrow> Elem re t \<in> T \<and> rank (Elem re t) < rank t"
    "Kind re t = KStruct \<Longrightarrow> \<exists>fs. flatFields re D t = Some fs \<and>
        (\<forall>f \<in> set fs. fi_typ f \<in> T \<and> (Name re t = [] \<longrightarrow> rank (fi_typ f) < rank t))"
  using assms unfolding flattened_def by blast+

text \<open>The types without a name yet.\<close>

definition unnamed :: "rtype set \<Rightarrow> builder \<Rightarrow> nat" where
  "unnamed T b = card (T - fst ` set (bd_names b))"

lemma unnamed_extends: "finite T \<Longrightarrow> extends b b' \<Longrightarrow> unnamed T b' \<le> unnamed T b"
  unfolding unnamed_def by (rule card_mono) (auto simp: extends_def)

lemma unnamed_reserve:
  assumes "finite T" "t \<in> T" "map_of (bd_names b) t = None" "bd_names b0 = bd_names b @ [(t, name)]"
  shows "unnamed T b = Suc (unnamed T b0)"
proof -
  have "t \<notin> fst ` set (bd_names b)" using assms(3) by (simp add: map_of_eq_None_iff)
  moreover have "T - fst ` set (bd_names b0) = (T - fst ` set (bd_names b)) - {t}" unfolding assms(4) by auto
  moreover have "Suc (card (T - fst ` set (bd_names b) - {t})) = card (T - fst ` set (bd_names b))"
    by (rule card_Suc_Diff1) (use assms(1,2) calculation(1) in auto)
  ultimately show ?thesis unfolding unnamed_def by (simp only:)
qed

lemma schema_of_ends:
  assumes "flattened re D T rank R"
  shows "t \<in> T \<Longrightarrow> builder_ok b \<Longrightarrow> D + unnamed T b * Suc R + rank t < n \<Longrightarrow> \<exists>r. schema_of re n t b = Some r"
proof (induction n arbitrary: t b)
  case (Suc n)
  note g = flattenedD[OF assms Suc.prems(1)]
  have elem: "\<exists>r. schema_of re n (Elem re t) b = Some r" if "Kind re t \<in> {KPointer, KSlice, KArray, KMap}"
    using Suc.IH[of "Elem re t" b] g(3)[OF that] Suc.prems(2,3) by simp
  have struct: "\<exists>r. structSchema (schema_of re n) re n t b = Some r" if k: "Kind re t = KStruct"
  proof -
    obtain fs where fs: "flatFields re D t = Some fs"
      "\<forall>f \<in> set fs. fi_typ f \<in> T \<and> (Name re t = [] \<longrightarrow> rank (fi_typ f) < rank t)" using g(4)[OF k] by blast
    have D: "D \<le> n" using Suc.prems(3) by simp
    show ?thesis
    proof (cases "Name re t = []")
      case True
      have "\<exists>r. schema_of re n (fi_typ f) b' = Some r" if "f \<in> set fs" "builder_ok b'" "extends b b'" for f b'
      proof (rule Suc.IH[OF _ that(2)])
        have "unnamed T b' * Suc R \<le> unnamed T b * Suc R" using unnamed_extends[OF g(2) that(3)] by (rule mult_le_mono1)
        moreover have "rank (fi_typ f) < rank t" using fs(2) that(1) True by blast
        ultimately show "D + unnamed T b' * Suc R + rank (fi_typ f) < n" using Suc.prems(3) by linarith
      qed (use fs(2) that(1) in blast)
      from schemas.object_ends[OF fs(1) D Suc.prems(2) this] True show ?thesis by (simp add: structSchema_def)
    next
      case named: False
      show ?thesis
      proof (cases "map_of (bd_names b) t")
        case None
        obtain name where name: "defName re t b = Some name" "clean name" "map_of (bd_defs b) name = None"
          using defName_fresh[of re t b] by blast
        note b0 = reserve_ok[OF Suc.prems(2) name(2,3) None]
        have less: "unnamed T b = Suc (unnamed T (reserve t name b))"
          by (rule unnamed_reserve[OF g(2) Suc.prems(1) None b0(1)])
        have "\<exists>r. schema_of re n (fi_typ f) b' = Some r" if "f \<in> set fs" "builder_ok b'" "extends (reserve t name b) b'" for f b'
        proof (rule Suc.IH[OF _ that(2)])
          have "unnamed T b' * Suc R \<le> unnamed T (reserve t name b) * Suc R"
            using unnamed_extends[OF g(2) that(3)] by (rule mult_le_mono1)
          moreover have "rank (fi_typ f) \<le> R" using flattenedD(1)[OF assms] fs(2) that(1) by blast
          moreover have "unnamed T b * Suc R = unnamed T (reserve t name b) * Suc R + Suc R" using less by simp
          ultimately show "D + unnamed T b' * Suc R + rank (fi_typ f) < n" using Suc.prems(3) by linarith
        qed (use fs(2) that(1) in blast)
        from schemas.object_ends[OF fs(1) D b0(3) this] name(1) named None show ?thesis
          by (auto simp: structSchema_def reserve_def)
      qed (use named in \<open>simp add: structSchema_def\<close>)
    qed
  qed
  show ?case
    using elem struct by (cases "Kind re t"; auto simp: schema_body_def)
qed simp

text \<open>The same for the parts of a document.\<close>

lemma paramsOf_more:
  assumes "paramsOf re n t b = Some r" "n \<le> m"
  shows "paramsOf re m t b = Some r"
proof (cases t)
  case None
  with assms show ?thesis by (simp add: paramsOf_def)
next
  case t: (Some t0)
  obtain u where u: "strip_pointers re n t0 = Some u" using assms(1) t by (auto simp: paramsOf_def split: option.splits)
  note u' = strip_more[OF u assms(2)]
  show ?thesis
  proof (cases "Kind re u = KStruct \<and> \<not> isWellKnown re u")
    case True
    obtain fs where fs: "flatFields re n u = Some fs"
      using assms(1) t u True by (cases "flatFields re n u") (simp_all add: paramsOf_def)
    obtain p where p: "field_schemas (schema_of re n) fs b = Some p"
      using assms(1) t u True fs by (auto simp: paramsOf_def)
    have "field_schemas (schema_of re m) fs b = Some p"
      by (rule field_schemas_more[OF _ p]) (rule schema_of_more[OF _ assms(2)])
    with assms(1) t u u' True fs p flatFields_more[OF fs assms(2)] show ?thesis by (simp add: paramsOf_def)
  next
    case False
    then obtain p where p: "schema_of re n u b = Some p" using assms(1) t u by (auto simp: paramsOf_def)
    from assms(1) t u u' False p schema_of_more[OF p assms(2)] show ?thesis by (auto simp: paramsOf_def)
  qed
qed

lemma exampleParams_more:
  assumes "exampleParams re v n x = Some r" "n \<le> m"
  shows "exampleParams re v m x = Some r"
  using assms(1) flatFields_more[OF _ assms(2)]
  by (auto simp: exampleParams_def split: if_splits option.splits rvalue.splits)

lemma example_pairings_more:
  assumes "n \<le> m"
  shows "example_pairings re v n xs = Some r \<Longrightarrow> example_pairings re v m xs = Some r"
proof (induction xs arbitrary: r)
  case (Cons x xs)
  then show ?case using exampleParams_more[OF _ assms] by (auto split: option.splits)
qed simp

lemma document_method_more:
  assumes "document_method re v n mi b = Some r" "n \<le> m"
  shows "document_method re v m mi b = Some r"
proof -
  obtain st cds b1 where p: "paramsOf re n (mi_Params mi) b = Some ((st, cds), b1)"
    using assms(1) by (auto simp: document_method_def split: option.splits)
  obtain s b2 where q: "schemaOf re n (mi_Result mi) b1 = Some (s, b2)"
    using assms(1) p by (auto simp: document_method_def split: option.splits)
  obtain exs where e: "example_pairings re v n (mi_Examples mi) = Some exs"
    using assms(1) p q by (auto simp: document_method_def split: option.splits)
  have "schemaOf re m (mi_Result mi) b1 = Some (s, b2)"
    using q schema_of_more[OF _ assms(2)] by (cases "mi_Result mi") (simp_all add: schemaOf_def)
  with paramsOf_more[OF p assms(2)] example_pairings_more[OF assms(2) e] p q e assms(1) show ?thesis
    by (simp add: document_method_def)
qed

lemma document_methods_more:
  assumes "n \<le> m"
  shows "document_methods re v n mis b = Some r \<Longrightarrow> document_methods re v m mis b = Some r"
proof (induction mis arbitrary: b r)
  case (Cons mi mis)
  obtain x b1 where 1: "document_method re v n mi b = Some (x, b1)" using Cons.prems by (auto split: option.splits)
  obtain r' where 2: "document_methods re v n mis b1 = Some r'" using Cons.prems 1 by (auto split: option.splits)
  from Cons.prems 1 2 document_method_more[OF 1 assms] Cons.IH[OF 2] show ?case by simp
qed simp

lemma strip_flattened:
  assumes "flattened re D T rank R"
  shows "t \<in> T \<Longrightarrow> rank t < n \<Longrightarrow> \<exists>u \<in> T. strip_pointers re n t = Some u"
proof (induction n arbitrary: t)
  case (Suc n)
  show ?case
  proof (cases "Kind re t = KPointer")
    case True
    with flattenedD(3)[OF assms Suc.prems(1)] have e: "Elem re t \<in> T" "rank (Elem re t) < rank t" by simp_all
    with Suc.IH[OF e(1)] Suc.prems(2) True show ?thesis by simp
  qed (use Suc.prems in auto)
qed simp

text \<open>The types a method mentions, its examples included.\<close>

definition mentions :: "reflection \<Rightarrow> (goany \<Rightarrow> rvalue) \<Rightarrow> rtype set \<Rightarrow> methodinfo \<Rightarrow> bool" where
  "mentions re v T mi \<longleftrightarrow> set_option (mi_Params mi) \<union> set_option (mi_Result mi) \<subseteq> T \<and>
     (\<forall>x \<in> set (mi_Examples mi). \<forall>t g. deref (v (xp_Params x)) = Some (VStruct t g) \<longrightarrow> t \<in> T \<and> Kind re t = KStruct)"

definition enough_depth :: "nat \<Rightarrow> rtype set \<Rightarrow> nat \<Rightarrow> nat" where
  "enough_depth D T R = D + Suc (card T) * Suc R"

lemma unnamed_le: "finite T \<Longrightarrow> unnamed T b \<le> card T"
  unfolding unnamed_def by (rule card_mono) auto

lemma schema_of_enough:
  assumes "flattened re D T rank R" "t \<in> T" "builder_ok b" "enough_depth D T R \<le> n"
  shows "\<exists>r. schema_of re n t b = Some r"
proof (rule schema_of_ends[OF assms(1-3)])
  have "unnamed T b * Suc R \<le> card T * Suc R"
    using unnamed_le[OF flattenedD(2)[OF assms(1,2)]] by (rule mult_le_mono1)
  moreover have "rank t < Suc R" using flattenedD(1)[OF assms(1,2)] by simp
  moreover have "D + (card T * Suc R + Suc R) \<le> n" using assms(4) by (simp add: enough_depth_def)
  ultimately show "D + unnamed T b * Suc R + rank t < n" by linarith
qed

lemma paramsOf_ends:
  assumes "flattened re D T rank R" "set_option t \<subseteq> T" "builder_ok b" "enough_depth D T R \<le> n"
  shows "\<exists>r. paramsOf re n t b = Some r"
proof (cases t)
  case None
  then show ?thesis by (simp add: paramsOf_def)
next
  case t: (Some t0)
  then have T: "t0 \<in> T" using assms(2) by simp
  have n: "D \<le> n" "Suc R \<le> n" using assms(4) by (simp_all add: enough_depth_def)
  with flattenedD(1)[OF assms(1) T] have "rank t0 < n" by simp
  from strip_flattened[OF assms(1) T this] obtain u where u: "u \<in> T" "strip_pointers re n t0 = Some u" by blast
  show ?thesis
  proof (cases "Kind re u = KStruct \<and> \<not> isWellKnown re u")
    case True
    obtain fs where fs: "flatFields re D u = Some fs" "\<forall>f \<in> set fs. fi_typ f \<in> T"
      using flattenedD(4)[OF assms(1) u(1)] True by blast
    have "\<exists>r. field_schemas (schema_of re n) fs b = Some r"
      by (rule schemas.fields_end[OF assms(3)]) (use schema_of_enough[OF assms(1)] fs(2) assms(4) in blast)
    then obtain ps b1 where "field_schemas (schema_of re n) fs b = Some (ps, b1)" by auto
    with t u True flatFields_more[OF fs(1) n(1)] show ?thesis by (cases "ps = []") (simp_all add: paramsOf_def Let_def)
  next
    case False
    with schema_of_enough[OF assms(1) u(1) assms(3,4)] t u show ?thesis by (auto simp: paramsOf_def)
  qed
qed

lemma exampleParams_ends:
  assumes "flattened re D T rank R" "D \<le> n" "\<And>t g. deref (v x) = Some (VStruct t g) \<Longrightarrow> t \<in> T \<and> Kind re t = KStruct"
  shows "\<exists>r. exampleParams re v n x = Some r"
proof (cases "\<exists>t g. deref (v x) = Some (VStruct t g)")
  case True
  then obtain t g where d: "deref (v x) = Some (VStruct t g)" by blast
  from flattenedD(4)[OF assms(1)] assms(3)[OF d] obtain fs where "flatFields re D t = Some fs" by blast
  from flatFields_more[OF this assms(2)] d show ?thesis by (simp add: exampleParams_def)
next
  case False
  then show ?thesis by (auto simp: exampleParams_def split: option.splits rvalue.splits)
qed

lemma document_method_ends:
  assumes "flattened re D T rank R" "mentions re v T mi" "builder_ok b" "enough_depth D T R \<le> n"
  shows "\<exists>r. document_method re v n mi b = Some r"
proof -
  have m: "set_option (mi_Params mi) \<subseteq> T" "set_option (mi_Result mi) \<subseteq> T" using assms(2) by (simp_all add: mentions_def)
  obtain st cds b1 where p: "paramsOf re n (mi_Params mi) b = Some ((st, cds), b1)"
    using paramsOf_ends[OF assms(1) m(1) assms(3,4)] by auto
  then have b1: "builder_ok b1" using paramsOf_ok assms(3) by blast
  have "\<exists>r. schemaOf re n (mi_Result mi) b1 = Some r"
    using schema_of_enough[OF assms(1) _ b1 assms(4)] m(2) by (cases "mi_Result mi") (auto simp: schemaOf_def)
  then obtain s b2 where q: "schemaOf re n (mi_Result mi) b1 = Some (s, b2)" by auto
  have "D \<le> n" using assms(4) by (simp add: enough_depth_def)
  then have "\<exists>r. example_pairings re v n xs = Some r" if "set xs \<subseteq> set (mi_Examples mi)" for xs
    using that
  proof (induction xs)
    case (Cons x xs)
    have "\<exists>r. exampleParams re v n (xp_Params x) = Some r"
      by (rule exampleParams_ends[OF assms(1) Cons.prems(1)]) (use assms(2) Cons.prems(2) in \<open>auto simp: mentions_def\<close>)
    with Cons show ?case by auto
  qed simp
  then obtain exs where "example_pairings re v n (mi_Examples mi) = Some exs" by blast
  with p q show ?thesis by (simp add: document_method_def)
qed

text \<open>
  Types whose recursion goes through named structs, and whose structs do not embed themselves:
  the set \<open>T\<close> is closed under elements and the fields that are not skipped; \<open>rank\<close> decreases along
  elements, and from a struct without a name to its fields and those promoted into it; \<open>level\<close>
  decreases along pointers, and from a struct to what it embeds. A recursion through the
  fields of named structs is not restricted. Nothing is said of \<open>walk\<close>.
\<close>

definition guarded :: "reflection \<Rightarrow> rtype set \<Rightarrow> (rtype \<Rightarrow> nat) \<Rightarrow> (rtype \<Rightarrow> nat) \<Rightarrow> nat \<Rightarrow> bool" where
  "guarded re T rank level R \<longleftrightarrow> finite T \<and> (\<forall>t \<in> T. rank t \<le> R \<and> level t \<le> R \<and>
     (Kind re t \<in> {KPointer, KSlice, KArray, KMap} \<longrightarrow> Elem re t \<in> T \<and> rank (Elem re t) < rank t) \<and>
     (Kind re t = KPointer \<longrightarrow> level (Elem re t) < level t) \<and>
     (Kind re t = KStruct \<longrightarrow> (\<forall>f \<in> set (ti_Fields (rf_type re t)). documented f \<longrightarrow>
        sf_Type f \<in> T \<and> (embedded f \<longrightarrow> level (sf_Type f) < level t))) \<and>
     (Kind re t = KStruct \<longrightarrow> Name re t = [] \<longrightarrow> (\<forall>x. promotes re t x \<longrightarrow> rank x < rank t)))"

lemma guarded_flattened:
  assumes "guarded re T rank level R"
  shows "flattened re (Suc R) T rank R"
proof -
  have e: "embeds_down re T level" using assms unfolding guarded_def embeds_down_def by blast
  have "\<exists>fs. flatFields re (Suc R) t = Some fs \<and> (\<forall>f \<in> set fs. fi_typ f \<in> T \<and> (Name re t = [] \<longrightarrow> rank (fi_typ f) < rank t))"
    if t: "t \<in> T" "Kind re t = KStruct" for t
  proof -
    have "level t < Suc R" using assms t(1) by (auto simp: guarded_def)
    from flatFields_ends[OF e t this] obtain fs where fs: "flatFields re (Suc R) t = Some fs" by blast
    have "rank x < rank t" if "promotes re t x" "Name re t = []" for x using assms t that unfolding guarded_def by blast
    with flatFields_types[OF fs] promotes_stays[OF e _ t] fs show ?thesis by blast
  qed
  with assms show ?thesis unfolding guarded_def flattened_def by blast
qed

text \<open>
  C15: The generator terminates where the types are guarded: if every recursion of the types the
  methods mention goes through a named struct, and no struct embeds itself, by value or through
  a pointer, then a document is built, in a depth of recursion bounded by the number of types and
  the ranks; and once there is a result, more depth gives the same. Both conditions are needed:
  \<open>unguarded_types_diverge\<close>.
\<close>

theorem openrpc_document_terminates:
  assumes "guarded re T rank level R" "list_all (mentions re v T) methods" "enough_depth (Suc R) T R \<le> n"
  shows "\<exists>d. build_document re v n info methods = Some d \<and> (\<forall>m. n \<le> m \<longrightarrow> build_document re v m info methods = Some d)"
proof -
  have "\<exists>r. document_methods re v n mis b = Some r" if "list_all (mentions re v T) mis" "builder_ok b" for mis b
    using that
  proof (induction mis arbitrary: b)
    case (Cons mi mis)
    obtain m b1 where 1: "document_method re v n mi b = Some (m, b1)"
      using document_method_ends[OF guarded_flattened[OF assms(1)] _ Cons.prems(2) assms(3)] Cons.prems(1) by fastforce
    from document_method_ok[OF this Cons.prems(2)] Cons.IH[of b1] Cons.prems(1) 1 show ?case by auto
  qed simp
  from this[OF assms(2) newBuilder_ok] obtain ms b where r: "document_methods re v n methods newBuilder = Some (ms, b)" by auto
  then have "document_methods re v m methods newBuilder = Some (ms, b)" if "n \<le> m" for m
    by (rule document_methods_more[OF that])
  with r show ?thesis by (simp add: build_document_def)
qed

section \<open>Types without an end\<close>

text \<open>
  What the comment at \<open>builder\<close> says of recursive types does not hold for those that do not
  go through a struct: on a set of types closed under elements, such as \<open>type L []L\<close>, the
  recursion has no end at any depth; nor has flattening of a struct whose first field is an
  embedded pointer to the struct itself, which \<open>encoding/json\<close> handles.
\<close>

theorem unguarded_types_diverge:
  assumes "\<And>t. t \<in> C \<Longrightarrow> Kind re t \<in> {KPointer, KSlice, KArray, KMap} \<and> Elem re t \<in> C"
    and "C \<inter> {rf_rawMessageType re, rf_timeType re, rf_byteSliceType re} = {}"
    and "Kind re s = KStruct" "ti_Fields (rf_type re s) = f # fs" "sf_Exported f" "sf_Anonymous f" "sf_Tag f = []"
    and "Kind re (sf_Type f) = KPointer" "Elem re (sf_Type f) = s"
  shows "(t \<in> C \<longrightarrow> schema_of re n t b = None) \<and> flatFields re n s = None"
proof -
  have "t \<in> C \<Longrightarrow> schema_of re n t b = None" for t
  proof (induction n arbitrary: t)
    case (Suc n)
    from assms(1)[OF Suc.prems] have k: "Kind re t \<in> {KPointer, KSlice, KArray, KMap}" and e: "Elem re t \<in> C" by simp_all
    have "t \<noteq> rf_rawMessageType re" "t \<noteq> rf_timeType re" "t \<noteq> rf_byteSliceType re" using assms(2) Suc.prems by auto
    moreover have "Kind re (Elem re t) \<noteq> KUint8" using assms(1)[OF e] by auto
    ultimately show ?case using k Suc.IH[OF e] by (auto simp: schema_body_def)
  qed simp
  moreover have "walk re n s pre acc = None" for pre acc
  proof (induction n arbitrary: pre acc)
    case (Suc n)
    have "strip_pointers re n (sf_Type f) = None \<or> strip_pointers re n (sf_Type f) = Some s"
      using assms(3,8,9) by (cases n; cases "n - 1") auto
    moreover have "walk re n s (pre @ [0]) acc = None" by (rule Suc.IH)
    ultimately show ?case using assms(3-7) by (auto simp: Cut_def)
  qed simp
  ultimately show ?thesis by (simp add: flatFields_def)
qed

section \<open>Discovery\<close>

text \<open>The options that do not publish a method.\<close>

definition unpublished :: "method_option \<Rightarrow> bool" where
  "unpublished opt \<longleftrightarrow> (\<forall>mi. mi_Public (opt mi) = mi_Public mi)"

lemma unpublished_options:
  "unpublished (WithSummary x)" "unpublished (WithDescription x)" "unpublished (WithTags ts)" "unpublished WithDeprecated"
  "unpublished (WithErrors es)" "unpublished (WithExample x p r)" "unpublished (WithTimeout d)"
  "unpublished (WithExtra x v)" "unpublished (WithPublishedExtra x v)"
  by (simp_all add: unpublished_def WithSummary_def WithDescription_def WithTags_def WithDeprecated_def WithErrors_def
      WithExample_def WithTimeout_def WithExtra_def WithPublishedExtra_def)

lemma unpublished_fold: "list_all unpublished opts \<Longrightarrow> mi_Public (foldl (\<lambda>mi opt. opt mi) mi opts) = mi_Public mi"
  by (induction opts arbitrary: mi) (auto simp: unpublished_def)

lemma filter_sorted_set:
  fixes S :: "'a :: linorder set"
  assumes "finite S"
  shows "filter P (sorted_list_of_set S) = sorted_list_of_set {x \<in> S. P x}"
  by (rule sorted_distinct_set_unique) (use assms in \<open>simp_all add: sorted_wrt_filter\<close>)

text \<open>What \<open>Document\<close> shows of a method: neither its private metadata nor its timeout.\<close>

definition shown :: "methodinfo \<Rightarrow> methodinfo" where
  "shown mi = mi\<lparr>mi_Extra := Map.empty, mi_Timeout := 0, mi_Public := True\<rparr>"

lemma shown_fields:
  "mi_Name (shown mi) = mi_Name mi" "mi_Params (shown mi) = mi_Params mi" "mi_Result (shown mi) = mi_Result mi"
  "mi_Summary (shown mi) = mi_Summary mi" "mi_Description (shown mi) = mi_Description mi"
  "mi_Deprecated (shown mi) = mi_Deprecated mi" "mi_Tags (shown mi) = mi_Tags mi" "mi_Errors (shown mi) = mi_Errors mi"
  "mi_Examples (shown mi) = mi_Examples mi" "mi_PublishedExtra (shown mi) = mi_PublishedExtra mi"
  by (simp_all add: shown_def)

lemma document_shown: "document_methods re v n (map shown mis) b = document_methods re v n mis b"
proof (induction mis arbitrary: b)
  case (Cons mi mis)
  have "document_method re v n (shown mi) b = document_method re v n mi b" unfolding document_method_def shown_fields ..
  with Cons show ?case by (simp split: option.splits)
qed simp

lemma build_shown: "map shown ms = map shown ms' \<Longrightarrow> build_document re v n info ms = build_document re v n info ms'"
  unfolding build_document_def by (metis document_shown)

text \<open>
  C16: Discovery is default-deny. A registration without the option that makes a method public
  leaves what \<open>rpc.discover\<close> answers as it was. And of the methods that are public the answer
  depends on no private metadata: two registries whose public methods differ in \<open>Extra\<close> or the
  timeout at most get the same answer.
\<close>

theorem discover_hides_unannotated:
  assumes "RegisterTyped name tc opts cfg = (None, cfg', evs)" "list_all unpublished opts"
    and "dom (cf_methodInfo cfg) = dom (cf_methods cfg)"
    and "distinct order" "set order = dom (cf_methodInfo cfg)" "distinct order'" "set order' = dom (cf_methodInfo cfg')"
    and "\<And>n mi. cf_methodInfo cfg n = Some mi \<Longrightarrow> mi_Name mi = n" "\<And>n mi. cf_methodInfo cfg' n = Some mi \<Longrightarrow> mi_Name mi = n"
    and "map shown (Public ms) = map shown (Public ms')"
  shows "DiscoverHandler marshal re v n info order' cfg' = DiscoverHandler marshal re v n info order cfg \<and>
     Document marshal re v n info (Public ms) = Document marshal re v n info (Public ms')"
proof -
  let ?info = "foldl (\<lambda>mi opt. opt mi) (zero_methodinfo\<lparr>mi_Name := name, mi_Params := Some (tc_Params tc), mi_Result := Some (tc_Result tc)\<rparr>) opts"
  have reg: "registerMethod name (Typed tc) ?info cfg = (None, cfg', evs)" using assms(1) by (simp add: RegisterTyped_def Let_def)
  then have new: "cf_methods cfg name = None" and info: "cf_methodInfo cfg' = (cf_methodInfo cfg)(name \<mapsto> ?info)"
    by (auto simp: registerMethod_def updateRegistry_def update_def compose_def split: if_splits)
  have hidden: "\<not> mi_Public ?info" unfolding unpublished_fold[OF assms(2)] by (simp add: zero_methodinfo_def)
  have "name \<notin> dom (cf_methodInfo cfg)" using new assms(3) by auto
  let ?D = "dom (cf_methodInfo cfg)" and ?g = "\<lambda>n. the (cf_methodInfo cfg n)" and ?g' = "\<lambda>n. the (cf_methodInfo cfg' n)"
  have fin: "finite ?D" "finite (dom (cf_methodInfo cfg'))" using assms(5,7) by (metis List.finite_set)+
  have "Methods order cfg = map ?g (sorted_list_of_set ?D)"
    by (rule Methods_deterministic[OF assms(4,5)]) (rule assms(8))
  moreover have "Methods order' cfg' = map ?g' (sorted_list_of_set (dom (cf_methodInfo cfg')))"
    by (rule Methods_deterministic[OF assms(6,7)]) (rule assms(9))
  moreover have "{x \<in> dom (cf_methodInfo cfg'). mi_Public (?g' x)} = {x \<in> ?D. mi_Public (?g x)}"
    using hidden \<open>name \<notin> ?D\<close> unfolding info by auto
  moreover have "?g' x = ?g x" if "x \<in> {x \<in> ?D. mi_Public (?g x)}" for x using that \<open>name \<notin> ?D\<close> unfolding info by auto
  ultimately have "Public (Methods order' cfg') = Public (Methods order cfg)"
    using fin by (simp add: Public_def filter_map comp_def filter_sorted_set)
  then show ?thesis using build_shown[OF assms(10)] by (simp add: DiscoverHandler_def Document_def)
qed

section \<open>A registry\<close>

text \<open>
  \<open>time.Time\<close>, \<open>json.RawMessage\<close> and \<open>[]byte\<close> are the types 0 to 2; 3 is
  \<open>type Node struct { Value int; Next *Node `json:"next,omitempty"` }\<close>, 4 is \<open>*Node\<close>, 5 is \<open>int\<close>,
  6 is \<open>type L []L\<close>, 7 is \<open>type T struct { *T }\<close> and 8 is \<open>*T\<close>; 9 is
  \<open>type Tree struct { *Node; Kids []Tree }\<close> and 10 is \<open>[]Tree\<close>.
\<close>

definition sample_type :: "rtype \<Rightarrow> type_info" where
  "sample_type t =
     (if t = 3 then \<lparr>ti_Kind = KStruct, ti_Name = ''Node'', ti_String = ''main.Node'', ti_Elem = 0, ti_Fields =
          [\<lparr>sf_Name = ''Value'', sf_Type = 5, sf_Tag = [], sf_Anonymous = False, sf_Exported = True\<rparr>,
           \<lparr>sf_Name = ''Next'', sf_Type = 4, sf_Tag = ''next,omitempty'', sf_Anonymous = False, sf_Exported = True\<rparr>]\<rparr>
      else if t = 4 then \<lparr>ti_Kind = KPointer, ti_Name = [], ti_String = ''*main.Node'', ti_Elem = 3, ti_Fields = []\<rparr>
      else if t = 6 then \<lparr>ti_Kind = KSlice, ti_Name = ''L'', ti_String = ''main.L'', ti_Elem = 6, ti_Fields = []\<rparr>
      else if t = 7 then \<lparr>ti_Kind = KStruct, ti_Name = ''T'', ti_String = ''main.T'', ti_Elem = 0, ti_Fields =
          [\<lparr>sf_Name = ''T'', sf_Type = 8, sf_Tag = [], sf_Anonymous = True, sf_Exported = True\<rparr>]\<rparr>
      else if t = 8 then \<lparr>ti_Kind = KPointer, ti_Name = [], ti_String = ''*main.T'', ti_Elem = 7, ti_Fields = []\<rparr>
      else if t = 9 then \<lparr>ti_Kind = KStruct, ti_Name = ''Tree'', ti_String = ''main.Tree'', ti_Elem = 0, ti_Fields =
          [\<lparr>sf_Name = ''Node'', sf_Type = 4, sf_Tag = [], sf_Anonymous = True, sf_Exported = True\<rparr>,
           \<lparr>sf_Name = ''Kids'', sf_Type = 10, sf_Tag = [], sf_Anonymous = False, sf_Exported = True\<rparr>]\<rparr>
      else if t = 10 then \<lparr>ti_Kind = KSlice, ti_Name = [], ti_String = ''[]main.Tree'', ti_Elem = 9, ti_Fields = []\<rparr>
      else \<lparr>ti_Kind = KInt, ti_Name = ''int'', ti_String = ''int'', ti_Elem = 0, ti_Fields = []\<rparr>)"

definition sample_reflection :: reflection where
  "sample_reflection = \<lparr>rf_type = sample_type, rf_timeType = 0, rf_rawMessageType = 1, rf_byteSliceType = 2\<rparr>"

definition sample_method :: methodinfo where
  "sample_method = zero_methodinfo\<lparr>mi_Name := ''list'', mi_Params := Some 3, mi_Result := Some 4, mi_Public := True\<rparr>"

definition sample_info :: service_info where
  "sample_info = \<lparr>in_Title = ''demo'', in_Version = ''1'', in_Description = []\<rparr>"

definition tree_method :: methodinfo where
  "tree_method = zero_methodinfo\<lparr>mi_Name := ''grow'', mi_Params := Some 9, mi_Result := Some 10, mi_Public := True\<rparr>"

definition sample_rank :: "rtype \<Rightarrow> nat" where "sample_rank t = (if t = 4 \<or> t = 10 then 1 else 0)"
definition sample_level :: "rtype \<Rightarrow> nat" where "sample_level t = (if t = 9 then 2 else if t = 4 then 1 else 0)"

lemma sample_document:
  "map_option (\<lambda>d. map fst (dc_Components d)) (build_document sample_reflection (\<lambda>_. VOther) 12 sample_info [sample_method]) =
     Some [''Node'']"
  by code_simp

theorem openrpc_document_well_formed_witness:
  "\<exists>d. build_document sample_reflection (\<lambda>_. VOther) 12 sample_info [sample_method] = Some d \<and>
     map fst (dc_Components d) = [''Node''] \<and> list_all clean (map fst (dc_Components d)) \<and>
     list_all (component_ok {''Node''}) (dc_Components d) \<and> map md_Name (dc_Methods d) = [''list'']"
proof -
  obtain d where d: "build_document sample_reflection (\<lambda>_. VOther) 12 sample_info [sample_method] = Some d"
    "map fst (dc_Components d) = [''Node'']" using sample_document by auto
  with openrpc_document_well_formed[OF d(1)] show ?thesis by (simp add: sample_method_def)
qed

lemma sample_guarded: "guarded sample_reflection {3, 4, 5, 9, 10} sample_rank sample_level 2"
  by (auto simp: guarded_def sample_rank_def sample_level_def sample_reflection_def sample_type_def documented_def embedded_def)

theorem openrpc_document_terminates_witness:
  "\<exists>d. build_document sample_reflection (\<lambda>_. VOther) 21 sample_info [sample_method, tree_method] = Some d \<and>
     (\<forall>m. 21 \<le> m \<longrightarrow> build_document sample_reflection (\<lambda>_. VOther) m sample_info [sample_method, tree_method] = Some d)"
  by (rule openrpc_document_terminates[OF sample_guarded])
    (simp_all add: mentions_def sample_method_def tree_method_def zero_methodinfo_def enough_depth_def)

theorem unguarded_types_diverge_witness:
  "schema_of sample_reflection 100 6 newBuilder = None \<and> flatFields sample_reflection 100 7 = None"
  using unguarded_types_diverge[of "{6}" sample_reflection 7
      "\<lparr>sf_Name = ''T'', sf_Type = 8, sf_Tag = [], sf_Anonymous = True, sf_Exported = True\<rparr>" "[]" 6 100 newBuilder]
  by (simp add: sample_reflection_def sample_type_def)

text \<open>An admin method is registered without \<open>WithPublic\<close>.\<close>

definition admin_codec :: "(unit, unit, unit, unit) typed_codec" where
  "admin_codec = \<lparr>tc_zero = (), tc_unmarshal = \<lambda>_. Inr (), tc_marshal = \<lambda>_. Inr ''null'', tc_Params = 5, tc_Result = 5,
     tc_fn = \<lambda>e now ctx p. (Returns ((), None), 0)\<rparr>"

theorem discover_hides_unannotated_witness:
  "\<exists>cfg'. fst (snd (RegisterTyped ''c'' admin_codec [WithSummary ''admin''] sample_server)) = cfg' \<and>
     (\<forall>marshal v. DiscoverHandler marshal sample_reflection v 12 sample_info [''c'', ''a'', ''b''] cfg' =
        DiscoverHandler marshal sample_reflection v 12 sample_info [''b'', ''a''] sample_server)"
proof -
  have m: "cf_methods sample_server ''c'' = None" "dom (cf_methods sample_server) = {''a'', ''b''}"
    by (auto simp: sample_server_def run_ops_def registerMethod_def updateRegistry_def update_def New_def compose_def split: if_splits)
  obtain cfg' evs where r: "RegisterTyped ''c'' admin_codec [WithSummary ''admin''] sample_server = (None, cfg', evs)"
    and info: "cf_methodInfo cfg' = (cf_methodInfo sample_server)(''c'' \<mapsto>
      WithSummary ''admin'' (zero_methodinfo\<lparr>mi_Name := ''c'', mi_Params := Some 5, mi_Result := Some 5\<rparr>))"
    by (auto simp: RegisterTyped_def registerMethod_def updateRegistry_def update_def m compose_def admin_codec_def)
  have d: "dom (cf_methodInfo sample_server) = {''a'', ''b''}" by (auto simp: sample_server_info split: if_splits)
  have "DiscoverHandler marshal sample_reflection v 12 sample_info [''c'', ''a'', ''b''] cfg' =
        DiscoverHandler marshal sample_reflection v 12 sample_info [''b'', ''a''] sample_server" for marshal v
    by (rule discover_hides_unannotated[where ms = "[]" and ms' = "[]", OF r, THEN conjunct1])
      (auto simp: unpublished_options d m(2) info sample_server_info WithSummary_def split: if_splits)
  with r show ?thesis by auto
qed

end
