(* ===== verification/Spec2Isabelle.thy ===== *)
theory Spec2Isabelle
  imports StoreProps ErrorTexts StdioClientProps WsClientProps WsServeProps RemoteStdio WorkloadProps OpenRPCProps
begin

text \<open>
  A verification development for golang-jsonrpc2, a JSON-RPC 2.0 library for Go.

  \<^bold>\<open>The program.\<close> A server is a configuration snapshot (\<open>main.go\<close>) that every setter and
  registration replaces as a whole. A message goes through \<open>HandleRPCJSONRawMessage\<close>
  (\<open>handle.go\<close>): byte scanners check limits and split a batch before anything is decoded, the
  entries are decoded one by one, each request is dispatched through interceptors and
  middlewares under a timeout, in a batch by a pool of workers, and the responses are marshaled.
  Five transports carry messages: stdio, WebSocket, \<open>net/http\<close> and two versions of Fiber. The
  first three come with clients. Package \<open>openrpc\<close> describes the registered methods.

  \<^bold>\<open>Theories and sources.\<close> Definitions keep the names of the source; a prefix (\<open>ws_\<close>, \<open>http_\<close>,
  \<open>cl_\<close>, \<open>nd_\<close>) tells packages apart.
  \<^item> \<open>Prelude\<close>: bytes, slices with nil, loops over bytes. \<open>JsonScan\<close>, \<open>JsonCompose\<close>: the scanner
    of \<open>encoding/json\<close> behind \<open>codec.Valid\<close> (\<open>internal/codec\<close>), and composing values.
    \<open>JsonStream\<close>: the token stream of \<open>json.Decoder\<close>, as the clients use it. \<open>Mime\<close>:
    \<open>mime.ParseMediaType\<close>.
  \<^item> \<open>Scan\<close> (\<open>handle.go\<close>, \<open>typed.go\<close>): \<open>approxBatchLen\<close>, \<open>lacksResponseID\<close>,
    \<open>splitBatchElements\<close>, \<open>isEmptyJSONArray\<close>. Lemmas in \<open>ScanProps\<close> and \<open>BatchScan\<close>: followers of
    the scanner (locale), valid elements, lossless splitting, the exact count.
  \<^item> \<open>Types\<close> (\<open>structs\<close>, \<open>rpcerror.go\<close>, \<open>response.go\<close>, \<open>const.go\<close>), \<open>Codec\<close> (the easyjson codecs);
    \<open>CodecProps\<close>: reference texts, validity, decoding by members; \<open>WireProps\<close>: what one codec writes
    the other decodes.
  \<^item> \<open>Config\<close> (\<open>main.go\<close>, \<open>methods.go\<close>, \<open>methodinfo.go\<close>, \<open>typed.go\<close>, \<open>middleware.go\<close>,
    \<open>interceptors.go\<close>, \<open>observe.go\<close>): the snapshot and all that changes it; \<open>ConfigProps\<close>: the
    invariant of every history of configuration calls. \<open>Store\<close> (the same files): the snapshot in
    memory, with \<open>config.clone\<close>, \<open>MethodInfo.clone\<close>, the in-place appends and map writes of the
    writers and the edits of callers; \<open>StoreProps\<close>: it refines \<open>Config\<close>, and what \<open>Methods\<close>
    returns shares no cell with the registry.
  \<^item> \<open>Dispatch\<close> (\<open>handle.go\<close>, \<open>error.go\<close>, \<open>main.go\<close>): one request; \<open>DispatchProps\<close>: its responses,
    panics, timeouts, the observer. \<open>BatchPool\<close>: the worker pool as a step relation, its bound,
    its end, and that it refines the sequential batch. \<open>Handle\<close>, \<open>HandleProps\<close>: raw messages;
    \<open>ErrorTexts\<close>: that error texts do not reach the client, as non-interference of two servers.
  \<^item> \<open>Framing\<close> (\<open>jsonrpcstdio/framing.go\<close>) with \<open>FramingProps\<close> (locale of the two framings),
    \<open>Serve\<close> (\<open>serve.go\<close>, \<open>push.go\<close>) with \<open>ServeProps\<close>, and \<open>StdioClient\<close> (\<open>client.go\<close>) with
    \<open>StdioClientProps\<close>: the stdio transport.
  \<^item> \<open>ClientHelpers\<close> (\<open>batch.go\<close>, \<open>client.go\<close>, \<open>request.go\<close>); \<open>Correlator\<close>, \<open>CorrelatorProps\<close>: the
    table of waiting calls the stdio and the WebSocket client share, with the locale of an id
    source that all clients interpret.
  \<^item> \<open>WsClient\<close>, \<open>WsClientProps\<close> (\<open>jsonrpcws/client.go\<close>); \<open>WsServe\<close>, \<open>WsServeProps\<close>
    (\<open>jsonrpcws/handler.go\<close>, \<open>push.go\<close>): the WebSocket transport.
  \<^item> \<open>Http\<close>, \<open>HttpProps\<close> (\<open>jsonrpchttp\<close>, \<open>jsonrpcfiber\<close>, \<open>jsonrpcfiberv3\<close>); \<open>Remote\<close>: the HTTP client
    against the HTTP server, from the call to its result.
  \<^item> \<open>OpenRPC\<close> (\<open>openrpc\<close>); \<open>SchemaProps\<close>: schemas and the locale of one level of their recursion;
    \<open>OpenRPCProps\<close>: documents, termination, discovery.
  \<^item> \<open>Sessions\<close>: servers over the dispatcher, and when their replies depend on the message only.
    \<open>Programs\<close> (\<open>example/mcp-stdio\<close>, \<open>example\<close>, \<open>benchmarks/internal/arena\<close>): the programs that
    come with the library; \<open>ProgramsProps\<close>, \<open>McpSession\<close>: the MCP server's answers, and its sessions
    from the bytes of stdin to those of stdout; \<open>WorkloadProps\<close>: the sum over HTTP, and the frames
    of the benchmarks.
  \<^item> \<open>Transcripts\<close>: sessions of the stdio server for a list of requests; \<open>RemoteStdio\<close>: the stdio
    client against the stdio server, many calls at once.
  This theory holds what spans the transports.

  \<^bold>\<open>State and steps.\<close> Snapshots and single requests are functions. Where goroutines interleave
  (the worker pool, both servers, both multiplexing clients) a component is an inductive step
  relation: one step is one action of one goroutine between two points where another can run,
  which is a whole critical section where a mutex makes it one. Records carry histories
  (frames read, writes, responses seen) that the code does not keep; nothing reads them.

  \<^bold>\<open>Parameters.\<close> Not under \<open>src/\<close>, and arguments of the definitions: the writer and lexer of
  easyjson (\<open>jwriter\<close>, \<open>jlexer\<close>), \<open>io.Writer\<close>, \<open>websocket.Conn\<close>, the network below
  \<open>http.Client\<close>, \<open>fiber.Ctx\<close>, and user code: methods, interceptors, middlewares, observers, with
  panics and not returning among their outcomes. What is assumed of them is named:
  \<open>jwriter_ok\<close>, \<open>quote_ok\<close>, \<open>lx_members\<close> and \<open>lexes\<close>, \<open>io_writer\<close>, \<open>websocket_ok\<close>, and \<open>payloads_ok\<close>: that
  the results and error data with which user code answers a message are JSON. The lexer of easyjson
  delivers tokens that are not JSON, such as \<open>1e\<close>; that no such id gets into a reply is proved, not
  assumed. \<open>shallow_ids\<close> excludes messages with an id that is valid JSON but nested to the
  scanner's bound, which the code echoes in a reply that is not valid (\<open>deep_id_echoed\<close>). Reflection
  is a record of what the code asks of it; the conversions of \<open>encoding/json\<close> that it drives are
  fields of the typed handlers and an argument of \<open>Document\<close>.

  \<^bold>\<open>Time.\<close> One request runs on a clock in nanoseconds that user code advances; the goroutine that
  waits under an enforced timeout comes late by what the environment \<open>env\<close> says.

  \<^bold>\<open>Bounds and fuel.\<close> The scanner's nesting bound is Go's 10000. A decoder's loop over the tokens of
  a lexer is a partial function, \<open>None\<close> if it never ends. The loops over a batch response take
  at most as many entries as the code allows. The depth \<open>n\<close> of \<open>schema_of\<close>, \<open>walk\<close> and
  \<open>build_document\<close> stands for the stack: \<open>openrpc_document_terminates\<close> says how much is
  enough for types whose recursion goes through named structs and whose structs do not embed
  themselves, and that more makes no difference; the recursion of other types has no end
  (\<open>unguarded_types_diverge\<close>). \<open>free_name\<close> gets one round more than names are
  taken, and \<open>defName_fresh\<close> shows that this finds one. Error codes and sizes are mathematical
  integers: the code only compares them, and parses them with a range check. The sums that the
  example programs compute are words of 64 bits.

  \<^bold>\<open>Not modelled.\<close> The harness of the benchmarks and the test helpers; the texts of errors that come out
  of the standard library; the handshake and the close codes of \<open>websocket.Conn\<close>; stack traces
  in log records; memory and running time.
\<close>

section \<open>What the servers send\<close>

text \<open>What the Fiber handlers send with a body is a reply.\<close>

lemma fiber_sends_reply:
  assumes "fiber_Handler (dispatcher jw lx sched ctx cfg) q = Some (SendBody st hs b) \<or>
     fiberv3_Handler (dispatcher jw lx sched ctx cfg) q = Some (SendBody st hs b)"
  shows "dispatcher_replies jw lx ctx cfg (hq_body q) (Some b) \<and> b \<noteq> []"
proof -
  obtain r where r: "dispatcher jw lx sched ctx cfg (hq_body q) = Some r" "slice_len r \<noteq> 0" "b = slice_bytes r"
    using assms by (auto simp: fiber_Handler_def fiberv3_Handler_def split: if_splits)
  then have "r = Some b" "b \<noteq> []" by (cases r; simp)+
  with r(1) show ?thesis by (auto simp: dispatcher_replies_def)
qed

lemma http_sends_reply:
  assumes "ServeHTTP (dispatcher jw lx sched ctx cfg) h q = Some p" "hp_status p = 200"
  shows "dispatcher_replies jw lx ctx cfg (hq_body q) (Some (hp_body p)) \<and> hp_body p \<noteq> []"
proof -
  have "acceptable h q"
    using ServeHTTP_rejected[OF assms(1)] assms(2) unfolding acceptable_def json_or_absent_def oversized_def
    by (cases "hq_end q") auto
  note s = assms(1)[unfolded ServeHTTP_acceptable[OF this]]
  then obtain r where r: "dispatcher jw lx sched ctx cfg (hq_body q) = Some r" by auto
  with s assms(2) have "slice_len r \<noteq> 0" "hp_body p = slice_bytes r" by (auto split: if_splits)
  then have "r = Some (hp_body p)" "hp_body p \<noteq> []" by (cases r; simp)+
  with r show ?thesis by (auto simp: dispatcher_replies_def)
qed

text \<open>
  C9: Whatever the peer sends, the responses that go out are JSON: every response that the stdio
  server writes and every response that the WebSocket server writes, in any interleaving of
  reads, dispatches, pushes and failures, and every body that the handlers for \<open>net/http\<close> and for
  Fiber send with the status 200. As in C1 nothing is assumed of the ids that the lexer delivers
  except that those which are JSON are not nested to the scanner's bound; of user code it is
  assumed that the results and error data with which it answers the messages at hand, those
  the sessions have read and the body of the request, are JSON.
\<close>

theorem transports_send_valid_json:
  assumes "jwriter_ok jw quote view" "quote_ok quote"
    and "Serve_start False fid (Some rd) (Some w) opts ctxErr = Inr (srv, s0)"
    and "(serve_step wr (sr_maxCalls srv) (dispatcher_replies jw lx ctx cfg))\<^sup>*\<^sup>* s0 s"
    and "list_all ws_option wopts" "ws_serve_start accept (ws_Handler wopts) ctxDone = Some v0"
    and "(ws_serve_step jw wwr shut shutNow (ws_Handler wopts) (dispatcher_replies jw lx ctx cfg))\<^sup>*\<^sup>* v0 v"
    and "\<And>d. d \<in> set (sv_read s) \<union> set (se_read v) \<union> {hq_body q} \<Longrightarrow> payloads_ok lx ctx cfg d \<and> shallow_ids lx d"
  shows "list_all Valid (responses s) \<and> list_all Valid (response_writes (se_writes v)) \<and>
    (\<forall>sched h p. ServeHTTP (dispatcher jw lx sched ctx cfg) h q = Some p \<longrightarrow> hp_status p = 200 \<longrightarrow> Valid (hp_body p)) \<and>
    (\<forall>sched st hs b. fiber_Handler (dispatcher jw lx sched ctx cfg) q = Some (SendBody st hs b) \<or>
       fiberv3_Handler (dispatcher jw lx sched ctx cfg) q = Some (SendBody st hs b) \<longrightarrow> Valid b)"
proof (intro conjI)
  have ok: "Valid (slice_bytes r)"
    if "d \<in> set (sv_read s) \<union> set (se_read v) \<union> {hq_body q}" "dispatcher_replies jw lx ctx cfg d r" "slice_bytes r \<noteq> []" for d r
    using dispatcher_reply_valid[OF assms(1,2) _ _ that(2,3)] assms(8)[OF that(1)] by blast
  have "sends_replies (dispatcher_replies jw lx ctx cfg) s0"
    using assms(3) by (auto simp: Serve_start_def sends_replies_def responses_def in_hand_def Let_def split: if_splits)
  with assms(4) have "sends_replies (dispatcher_replies jw lx ctx cfg) s"
    by (induction rule: rtranclp_induct) (auto intro: sends_replies_step)
  then have "\<exists>d \<in> set (sv_read s). \<exists>r. dispatcher_replies jw lx ctx cfg d r \<and> m = slice_bytes r \<and> m \<noteq> []"
    if "m \<in> set (responses s)" for m using that unfolding sends_replies_def by blast
  then have "Valid m" if "m \<in> set (responses s)" for m using ok that by (metis UnCI)
  then show "list_all Valid (responses s)" by (simp add: list_all_iff)
  have "session_ok (ws_Handler wopts) (dispatcher_replies jw lx ctx cfg) v"
    by (rule session_run[OF assms(7) session_start[OF assms(6) ws_Handler_pos(1)[OF assms(5)]]])
  then have v: "\<forall>(d, r) \<in> set (se_done v). dispatcher_replies jw lx ctx cfg d r"
    "response_writes (se_writes v) = due (se_done v)"
    "mset (se_read v) = mset (map fst (se_done v)) + mset (se_running v) + mset (ws_in_hand v)"
    by (simp_all add: session_ok_def list_all_iff)
  have "fst ` set (se_done v) \<subseteq> set (se_read v)" using arg_cong[OF v(3), of set_mset] by auto
  with v(1,2) ok show "list_all Valid (response_writes (se_writes v))"
    by (force simp: due_def list_all_iff)
  show "\<forall>sched h p. ServeHTTP (dispatcher jw lx sched ctx cfg) h q = Some p \<longrightarrow> hp_status p = 200 \<longrightarrow> Valid (hp_body p)"
    using ok http_sends_reply by fastforce
  show "\<forall>sched st hs b. fiber_Handler (dispatcher jw lx sched ctx cfg) q = Some (SendBody st hs b) \<or>
       fiberv3_Handler (dispatcher jw lx sched ctx cfg) q = Some (SendBody st hs b) \<longrightarrow> Valid b"
    using ok fiber_sends_reply by fastforce
qed

text \<open>
  A WebSocket session that reads a batch in which one of three ids is the broken token \<open>1e\<close>, and
  answers it.
\<close>

theorem transports_send_valid_json_witness:
  "\<exists>v. (ws_serve_step buffer_writer tape untape untape (ws_Handler []) (dispatcher_replies buffer_writer sibling_lexer sample_ctx sample))\<^sup>*\<^sup>*
        sample_session v \<and> response_writes (se_writes v) = [sibling_reply] \<and> list_all Valid (response_writes (se_writes v))"
proof -
  let ?replies = "dispatcher_replies buffer_writer sibling_lexer sample_ctx sample"
  let ?step = "ws_serve_step buffer_writer tape untape untape (ws_Handler []) ?replies"
  obtain m where "HandleRPCJSONRawMessage buffer_writer sibling_lexer (\<lambda>_. (sample_env, 0)) sample_ctx sample sibling_batch = Some m"
    "mr_reply m = Some sibling_reply" using sibling_message by blast
  then have b: "?replies sibling_batch (Some sibling_reply)" by (auto simp: dispatcher_replies_def dispatcher_def)
  have ne: "sibling_reply \<noteq> []" by (simp add: sibling_reply_def array_text_def)
  define s1 where "s1 = sample_session\<lparr>se_phase := WsGot sibling_batch, se_read := [sibling_batch]\<rparr>"
  define s2 where "s2 = s1\<lparr>se_phase := WsReading, se_running := [sibling_batch]\<rparr>"
  define s3 where "s3 = (ws_reply tape untape (ws_Handler []) sibling_batch (Some sibling_reply) s2)\<lparr>se_running := [] @ []\<rparr>"
  have "?step sample_session (sample_session\<lparr>se_phase := WsGot sibling_batch, se_read := se_read sample_session @ [sibling_batch]\<rparr>)"
    by (rule ws_serve_step.read) (simp add: sample_session_def)
  then have 1: "?step sample_session s1" by (simp add: s1_def sample_session_def)
  have "?step s1 (s1\<lparr>se_phase := WsReading, se_running := se_running s1 @ [sibling_batch]\<rparr>)"
    by (rule ws_serve_step.spawn) (simp_all add: s1_def sample_session_def ws_Handler_def ws_DefaultMaxConcurrentCalls_def)
  then have 2: "?step s1 s2" by (simp add: s2_def s1_def sample_session_def)
  have 3: "?step s2 s3" unfolding s3_def by (rule ws_serve_step.finish) (simp_all add: s2_def b)
  from 1 2 3 have run: "?step\<^sup>*\<^sup>* sample_session s3" by (meson converse_rtranclp_into_rtranclp rtranclp.rtrancl_refl)
  have read: "se_read s3 = [sibling_batch]" "sv_read sample_serve = []"
    by (simp_all add: s3_def s2_def s1_def ws_reply_def sample_serve_def Let_def)
  have "list_all Valid (response_writes (se_writes s3))"
    using transports_send_valid_json[where v = s3 and s = sample_serve and q = "sample_post\<lparr>hq_body := sibling_batch\<rparr>",
        OF buffer_writer_ok quote_ok_json_string sample_start rtranclp.rtrancl_refl _ sample_accept run]
      sibling_payloads sibling_shallow read by simp
  moreover have "response_writes (se_writes s3) = [sibling_reply]"
    using ne by (simp add: s3_def s2_def s1_def ws_reply_def ws_write_def sample_session_def tape_def response_writes_def
        slice_len_nil)
  ultimately show ?thesis using run by blast
qed

end
